(* ===== verification/Prelude.thy ===== *)
theory Prelude
  imports Main "HOL-Library.Word" "HOL-Library.Monad_Syntax"
begin

text \<open>
  Shared vocabulary of the development: the machine integers of the Rust sources, the
  partiality of the language (a panicking computation is \<^term>\<open>None\<close>), the slice operations
  of the standard library, and a small calculus of total correctness for computations in the
  option monad.

  The integers \<open>u8\<close>, \<open>u16\<close> and \<open>u32\<close> are words; \<open>usize\<close> values (lengths and offsets) are
  natural numbers bounded by \<open>USIZE_MAX\<close>. The stack is built and run in the development
  profile (\<open>cargo build\<close>, \<open>target/debug\<close>), in which an overflow of \<open>+\<close>, \<open>-\<close> and \<open>*\<close> panics:
  \<open>checked_add\<close>, \<open>usize_add\<close> and \<open>usize_sub\<close> are these operators, while \<open>wrapping_add\<close> and
  \<open>wrapping_sub\<close> of the sources are plain \<open>+\<close> and \<open>-\<close> on words.
\<close>

unbundle bit_operations_syntax

type_synonym u8 = "8 word"
type_synonym u16 = "16 word"
type_synonym u32 = "32 word"
type_synonym bytes = "u8 list"

named_theorems returns_intros \<open>rules that split a goal about a computation that returns\<close>
named_theorems layout \<open>equations for reading and writing byte lists at fixed offsets\<close>

section \<open>Operators of the language\<close>

definition USIZE_MAX :: nat where
  "USIZE_MAX = 2 ^ 64 - 1"

definition assert_that :: "bool \<Rightarrow> unit option" where
  "assert_that b = (if b then Some () else None)"

definition checked_add :: "'l::len word \<Rightarrow> 'l word \<Rightarrow> 'l word option" where
  "checked_add a b = (if unat a + unat b < 2 ^ LENGTH('l) then Some (a + b) else None)"

definition usize_add :: "nat \<Rightarrow> nat \<Rightarrow> nat option" where
  "usize_add a b = (if a + b \<le> USIZE_MAX then Some (a + b) else None)"

definition usize_sub :: "nat \<Rightarrow> nat \<Rightarrow> nat option" where
  "usize_sub a b = (if b \<le> a then Some (a - b) else None)"

section \<open>Slices\<close>

text \<open>\<open>xs[i]\<close>, \<open>xs[i] = v\<close>, \<open>&xs[i..j]\<close>, \<open>&mut xs[i..j]\<close> handed to \<open>f\<close>, and \<open>copy_from_slice\<close>.\<close>

definition index :: "'a list \<Rightarrow> nat \<Rightarrow> 'a option" where
  "index xs i = (if i < length xs then Some (xs ! i) else None)"

definition store :: "nat \<Rightarrow> 'a \<Rightarrow> 'a list \<Rightarrow> 'a list option" where
  "store i v xs = (if i < length xs then Some (xs[i := v]) else None)"

definition subslice :: "nat \<Rightarrow> nat \<Rightarrow> 'a list \<Rightarrow> 'a list option" where
  "subslice i j xs = (if i \<le> j \<and> j \<le> length xs then Some (take (j - i) (drop i xs)) else None)"

definition slice_mut :: "nat \<Rightarrow> nat \<Rightarrow> ('a list \<Rightarrow> 'a list option) \<Rightarrow> 'a list \<Rightarrow> 'a list option" where
  "slice_mut i j f xs = do {
     s \<leftarrow> subslice i j xs;
     s' \<leftarrow> f s;
     Some (take i xs @ s' @ drop j xs)
   }"

definition copy_from_slice :: "'a list \<Rightarrow> 'a list \<Rightarrow> 'a list option" where
  "copy_from_slice src dst = (if length src = length dst then Some src else None)"

section \<open>Computations that return\<close>

text \<open>\<open>returns m P\<close>: the computation \<open>m\<close> neither panics nor diverges, and its result satisfies \<open>P\<close>.\<close>

definition returns :: "'a option \<Rightarrow> ('a \<Rightarrow> bool) \<Rightarrow> bool" where
  "returns m P \<longleftrightarrow> (\<exists>x. m = Some x \<and> P x)"

lemma returns_Some [simp]: "returns (Some x) P \<longleftrightarrow> P x"
  by (simp add: returns_def)

lemma returns_None [simp]: "\<not> returns None P"
  by (simp add: returns_def)

lemma returns_bind: "returns (Option.bind m f) P \<longleftrightarrow> returns m (\<lambda>x. returns (f x) P)"
  by (cases m) simp_all

lemma returns_bindI [returns_intros]:
  "returns m Q \<Longrightarrow> (\<And>x. Q x \<Longrightarrow> returns (f x) P) \<Longrightarrow> returns (Option.bind m f) P"
  by (auto simp: returns_def)

lemma returns_conseq: "returns m P \<Longrightarrow> (\<And>x. P x \<Longrightarrow> Q x) \<Longrightarrow> returns m Q"
  by (auto simp: returns_def)

lemma returnsD: "returns m P \<Longrightarrow> m = Some x \<Longrightarrow> P x"
  by (simp add: returns_def)

lemma returnsE:
  assumes "returns m P"
  obtains x where "m = Some x" and "P x"
  using assms by (auto simp: returns_def)

lemma returns_conj: "returns m P \<Longrightarrow> returns m Q \<Longrightarrow> returns m (\<lambda>x. P x \<and> Q x)"
  by (auto simp: returns_def)

text \<open>With this congruence rule the simplifier runs a sequence of binds from the left.\<close>

lemma bind_weak_cong: "m = m' \<Longrightarrow> Option.bind m f = Option.bind m' f"
  by simp

lemma assert_that_True [simp]: "b \<Longrightarrow> assert_that b = Some ()"
  by (simp add: assert_that_def)

lemma assert_that_False [simp]: "\<not> b \<Longrightarrow> assert_that b = None"
  by (simp add: assert_that_def)

lemma assert_that_eq_Some [simp]: "assert_that b = Some u \<longleftrightarrow> b"
  by (simp add: assert_that_def)

lemma checked_add_Some: "unat a + unat b < 2 ^ LENGTH('l) \<Longrightarrow> checked_add a (b :: 'l::len word) = Some (a + b)"
  by (simp add: checked_add_def)

lemma usize_add_Some [simp]: "a + b \<le> USIZE_MAX \<Longrightarrow> usize_add a b = Some (a + b)"
  by (simp add: usize_add_def)

lemma usize_sub_Some [simp]: "b \<le> a \<Longrightarrow> usize_sub a b = Some (a - b)"
  by (simp add: usize_sub_def)

lemma usize_sub_None [simp]: "a < b \<Longrightarrow> usize_sub a b = None"
  by (simp add: usize_sub_def)

text \<open>
  \<open>whenever m P\<close>: if the computation \<open>m\<close> returns, its result satisfies \<open>P\<close> (partial correctness, for the
  operations that panic on some input).
\<close>

definition whenever :: "'a option \<Rightarrow> ('a \<Rightarrow> bool) \<Rightarrow> bool" where
  "whenever m P \<longleftrightarrow> (\<forall>x. m = Some x \<longrightarrow> P x)"

lemma whenever_simps [simp]: "whenever (Some x) P \<longleftrightarrow> P x" "whenever None P"
  by (simp_all add: whenever_def)

lemma wheneverI: "(\<And>x. m = Some x \<Longrightarrow> P x) \<Longrightarrow> whenever m P"
  by (simp add: whenever_def)

lemma wheneverD: "whenever m P \<Longrightarrow> m = Some x \<Longrightarrow> P x"
  by (simp add: whenever_def)

lemma whenever_bind: "whenever (Option.bind m f) P \<longleftrightarrow> whenever m (\<lambda>x. whenever (f x) P)"
  by (cases m) simp_all

lemma whenever_bindI: "whenever m Q \<Longrightarrow> (\<And>x. Q x \<Longrightarrow> whenever (f x) P) \<Longrightarrow> whenever (Option.bind m f) P"
  by (auto simp: whenever_def bind_eq_Some_conv)

lemma whenever_conseq: "whenever m P \<Longrightarrow> (\<And>x. P x \<Longrightarrow> Q x) \<Longrightarrow> whenever m Q"
  by (simp add: whenever_def)

lemma returns_whenever: "returns m P \<Longrightarrow> whenever m P"
  by (auto simp: returns_def whenever_def)

section \<open>Bounds of the machine integers\<close>

lemma unat_u8_less: "unat (x :: u8) < 256"
  using unsigned_less [of x, where ?'a = nat] by simp

lemma unat_u16_less: "unat (x :: u16) < 65536"
  using unsigned_less [of x, where ?'a = nat] by simp

lemma unat_u32_less: "unat (x :: u32) < 4294967296"
  using unsigned_less [of x, where ?'a = nat] by simp

lemma unat_ucast_u8_u16: "unat (ucast (x :: u8) :: u16) = unat x"
  using unat_u8_less [of x] by (simp add: unsigned_ucast_eq take_bit_nat_eq_self)

lemma unat_ucast_u8_u32: "unat (ucast (x :: u8) :: u32) = unat x"
  using unat_u8_less [of x] by (simp add: unsigned_ucast_eq take_bit_nat_eq_self)

lemma unat_ucast_u16_u32: "unat (ucast (x :: u16) :: u32) = unat x"
  using unat_u16_less [of x] by (simp add: unsigned_ucast_eq take_bit_nat_eq_self)

lemma ucast_and_255: "ucast (x AND 0xff) = (ucast (x :: 'l::len word) :: u8)"
proof -
  have "bit (0xff :: 'l word) n \<longleftrightarrow> n < 8 \<and> n < LENGTH('l)" for n
    using bit_mask_iff [where ?'a = "'l word", of 8 n] by (auto simp: mask_eq_exp_minus_1)
  then show ?thesis
    by (intro bit_word_eqI) (auto simp: bit_simps dest: bit_imp_le_length)
qed

section \<open>Laws of slices\<close>

lemma index_Some [simp]: "i < length xs \<Longrightarrow> index xs i = Some (xs ! i)"
  by (simp add: index_def)

lemma index_None [simp]: "length xs \<le> i \<Longrightarrow> index xs i = None"
  by (simp add: index_def)

lemma store_Some [simp]: "i < length xs \<Longrightarrow> store i v xs = Some (xs[i := v])"
  by (simp add: store_def)

lemma subslice_Some [simp]: "i \<le> j \<Longrightarrow> j \<le> length xs \<Longrightarrow> subslice i j xs = Some (take (j - i) (drop i xs))"
  by (simp add: subslice_def)

lemma subslice_None_iff: "subslice i j xs = None \<longleftrightarrow> j < i \<or> length xs < j"
  by (auto simp: subslice_def)

lemma copy_from_slice_Some [simp]: "length src = length dst \<Longrightarrow> copy_from_slice src dst = Some src"
  by (simp add: copy_from_slice_def)

lemma slice_mut_Some:
  assumes "i \<le> j" and "j \<le> length xs" and "f (take (j - i) (drop i xs)) = Some s"
  shows "slice_mut i j f xs = Some (take i xs @ s @ drop j xs)"
  using assms by (simp add: slice_mut_def)

lemma slice_mut_layout [layout]:
  assumes "length a = i" and "length m = j - i" and "i \<le> j"
  shows "slice_mut i j f (a @ m @ z) = map_option (\<lambda>s. a @ s @ z) (f m)"
  using assms by (cases "f m") (simp_all add: slice_mut_def)

lemma take_drop_split:
  "i \<le> j \<Longrightarrow> xs = take i xs @ take (j - i) (drop i xs) @ drop j xs"
  by (metis append_take_drop_id drop_drop le_add_diff_inverse2)

lemma sum_list_map_length_concat: "length (concat xss) = sum_list (map length xss)"
  by (induction xss) simp_all

lemma take_concat_le:
  "length (concat xss) \<le> n \<Longrightarrow> take n (concat (xss @ yss)) = concat xss @ take (n - length (concat xss)) (concat yss)"
  by simp

end
