(* ===== verification/Util.thy ===== *)
theory Util
  imports Prelude
begin

text \<open>
  \<open>src/src/stack/util.rs\<close>, less the parts that mention buffers (\<open>compute_buffer_ones_comp\<close> is in
  the theory of checksums over buffers): Internet addresses, the one's complement sum of RFC
  1071, big-endian fields, sequence number comparison, and the performance counters.
\<close>

section \<open>Addresses\<close>

text \<open>The arrays \<open>[u8; 4]\<close> and \<open>[u8; 16]\<close> are lists; \<open>wf_ip\<close> states their length.\<close>

datatype IPAddr = V4 bytes | V6 bytes

fun wf_ip :: "IPAddr \<Rightarrow> bool" where
  "wf_ip (V4 a) \<longleftrightarrow> length a = 4"
| "wf_ip (V6 a) \<longleftrightarrow> length a = 16"

fun is_v4 :: "IPAddr \<Rightarrow> bool" where
  "is_v4 (V4 _) = True"
| "is_v4 (V6 _) = False"

fun octets :: "IPAddr \<Rightarrow> bytes" where
  "octets (V4 a) = a"
| "octets (V6 a) = a"

definition IPAddr_new :: IPAddr where
  "IPAddr_new = V4 [0, 0, 0, 0]"

definition new_v4 :: "bytes \<Rightarrow> IPAddr option" where
  "new_v4 addr = do { assert_that (length addr = 4); Some (V4 addr) }"

definition new_v6 :: "bytes \<Rightarrow> IPAddr option" where
  "new_v6 addr = do { assert_that (length addr = 16); Some (V6 addr) }"

definition new_from :: "bytes \<Rightarrow> IPAddr option" where
  "new_from addr =
     (if length addr = 4 then new_v4 addr
      else if length addr = 16 then new_v6 addr
      else None)"

definition copy_to :: "IPAddr \<Rightarrow> bytes \<Rightarrow> bytes option" where
  "copy_to ip buffer =
     (case ip of
        V4 addr \<Rightarrow> copy_from_slice addr buffer
      | V6 addr \<Rightarrow> copy_from_slice addr buffer)"

section \<open>Big-endian fields\<close>

definition get_be16 :: "bytes \<Rightarrow> u16 option" where
  "get_be16 buffer = do {
     b0 \<leftarrow> index buffer 0;
     b1 \<leftarrow> index buffer 1;
     Some (push_bit 8 (ucast b0) OR ucast b1)
   }"

definition get_be32 :: "bytes \<Rightarrow> u32 option" where
  "get_be32 buffer = do {
     b0 \<leftarrow> index buffer 0;
     b1 \<leftarrow> index buffer 1;
     b2 \<leftarrow> index buffer 2;
     b3 \<leftarrow> index buffer 3;
     Some (push_bit 24 (ucast b0) OR push_bit 16 (ucast b1) OR push_bit 8 (ucast b2) OR ucast b3)
   }"

definition set_be16 :: "u16 \<Rightarrow> bytes \<Rightarrow> bytes option" where
  "set_be16 value buffer = do {
     buffer \<leftarrow> store 0 (ucast (drop_bit 8 value AND 0xff)) buffer;
     store 1 (ucast (value AND 0xff)) buffer
   }"

definition set_be32 :: "u32 \<Rightarrow> bytes \<Rightarrow> bytes option" where
  "set_be32 value buffer = do {
     buffer \<leftarrow> store 0 (ucast (drop_bit 24 value AND 0xff)) buffer;
     buffer \<leftarrow> store 1 (ucast (drop_bit 16 value AND 0xff)) buffer;
     buffer \<leftarrow> store 2 (ucast (drop_bit 8 value AND 0xff)) buffer;
     store 3 (ucast (value AND 0xff)) buffer
   }"

section \<open>One's complement sum\<close>

text \<open>\<open>u16::from_be_bytes\<close>.\<close>

definition from_be_bytes :: "u8 \<Rightarrow> u8 \<Rightarrow> u16" where
  "from_be_bytes b0 b1 = push_bit 8 (ucast b0) OR ucast b1"

text \<open>The first loop of \<open>compute_ones_comp\<close>; \<open>limit\<close> is \<open>slice.len() - 1\<close>.\<close>

function ones_comp_loop :: "bytes \<Rightarrow> nat \<Rightarrow> u32 \<Rightarrow> nat \<Rightarrow> (u32 \<times> nat) option" where
  "ones_comp_loop bs limit checksum i =
     (if i < limit then do {
        b0 \<leftarrow> index bs i;
        b1 \<leftarrow> index bs (i + 1);
        checksum \<leftarrow> checked_add checksum (ucast (from_be_bytes b0 b1));
        ones_comp_loop bs limit checksum (i + 2)
      } else Some (checksum, i))"
  by pat_completeness auto
termination
  by (relation "measure (\<lambda>(bs, limit, checksum, i). limit - i)") auto

declare ones_comp_loop.simps [simp del]

text \<open>The second loop: carries are folded back until the sum fits in 16 bits.\<close>

lemma fold_carry_less:
  assumes "\<not> checksum \<le> (0xffff :: u32)"
  shows "unat ((checksum AND 0xffff) + drop_bit 16 checksum) < unat checksum"
    and "unat ((checksum AND 0xffff) + drop_bit 16 checksum) = unat checksum mod 65536 + unat checksum div 65536"
proof -
  have "checksum AND 0xffff = take_bit 16 checksum"
    by (simp add: take_bit_eq_mask mask_eq_exp_minus_1)
  then have lo: "unat (checksum AND 0xffff) = unat checksum mod 65536"
    by (simp only: unsigned_take_bit_eq) (simp add: take_bit_eq_mod)
  have hi: "unat (drop_bit 16 checksum) = unat checksum div 65536"
    by (simp only: unat_drop_bit_eq) (simp add: drop_bit_eq_div)
  have bound: "unat checksum < 2 ^ 32"
    using unat_u32_less [of checksum] by simp
  have big: "65536 \<le> unat checksum"
    using assms by (simp add: word_le_nat_alt)
  define q r where "q = unat checksum div 65536" and "r = unat checksum mod 65536"
  have split: "unat checksum = 65536 * q + r" and r: "r < 65536"
    by (simp_all add: q_def r_def)
  with bound have "r + q < 2 ^ 32"
    by linarith
  then show eq: "unat ((checksum AND 0xffff) + drop_bit 16 checksum) = unat checksum mod 65536 + unat checksum div 65536"
    by (simp only: unat_word_ariths lo hi) (simp add: q_def r_def)
  show "unat ((checksum AND 0xffff) + drop_bit 16 checksum) < unat checksum"
    unfolding eq using big split r by (simp flip: q_def r_def)
qed

function fold_loop :: "u32 \<Rightarrow> u32" where
  "fold_loop checksum =
     (if checksum \<le> 0xffff then checksum
      else fold_loop ((checksum AND 0xffff) + drop_bit 16 checksum))"
  by pat_completeness auto
termination
  by (relation "measure unat") (auto intro: fold_carry_less(1))

declare fold_loop.simps [simp del]

definition compute_ones_comp :: "u16 \<Rightarrow> bytes \<Rightarrow> u16 option" where
  "compute_ones_comp in_checksum bs = do {
     let checksum = (ucast in_checksum :: u32);
     limit \<leftarrow> usize_sub (length bs) 1;
     (checksum, i) \<leftarrow> ones_comp_loop bs limit checksum 0;
     checksum \<leftarrow>
       (if i < length bs then do {
          b \<leftarrow> index bs i;
          checked_add checksum (push_bit 8 (ucast b))
        } else Some checksum);
     Some (ucast (fold_loop checksum))
   }"

definition compute_checksum :: "bytes \<Rightarrow> u16 option" where
  "compute_checksum bs = do {
     sum \<leftarrow> compute_ones_comp 0 bs;
     Some (0xffff XOR sum)
   }"

section \<open>Sequence numbers\<close>

definition seq_gt :: "u32 \<Rightarrow> u32 \<Rightarrow> bool" where
  "seq_gt val1 val2 = (let diff = val1 - val2 in diff < 0x80000000 \<and> diff \<noteq> 0)"

definition seq_lt :: "u32 \<Rightarrow> u32 \<Rightarrow> bool" where
  "seq_lt val1 val2 = seq_gt val2 val1"

definition seq_le :: "u32 \<Rightarrow> u32 \<Rightarrow> bool" where
  "seq_le val1 val2 = (\<not> seq_gt val1 val2)"

definition seq_ge :: "u32 \<Rightarrow> u32 \<Rightarrow> bool" where
  "seq_ge val1 val2 = (\<not> seq_gt val2 val1)"

definition wrapping_max :: "u32 \<Rightarrow> u32 \<Rightarrow> u32" where
  "wrapping_max val1 val2 = (if seq_gt val1 val2 then val1 else val2)"

section \<open>The pseudo header\<close>

definition compute_pseudo_header_checksum :: "IPAddr \<Rightarrow> IPAddr \<Rightarrow> nat \<Rightarrow> u8 \<Rightarrow> u16 option" where
  "compute_pseudo_header_checksum source_ip dest_ip len protocol =
     (case dest_ip of
        V4 _ \<Rightarrow> do {
          let pseudo_header = replicate 12 0;
          pseudo_header \<leftarrow> slice_mut 0 4 (copy_to source_ip) pseudo_header;
          pseudo_header \<leftarrow> slice_mut 4 8 (copy_to dest_ip) pseudo_header;
          pseudo_header \<leftarrow> store 9 protocol pseudo_header;
          pseudo_header \<leftarrow> slice_mut 10 12 (set_be16 (of_nat len)) pseudo_header;
          compute_ones_comp 0 pseudo_header
        }
      | V6 _ \<Rightarrow> do {
          let pseudo_header = replicate 40 0;
          pseudo_header \<leftarrow> slice_mut 0 16 (copy_to source_ip) pseudo_header;
          pseudo_header \<leftarrow> slice_mut 16 32 (copy_to dest_ip) pseudo_header;
          pseudo_header \<leftarrow> slice_mut 32 36 (set_be32 (of_nat len)) pseudo_header;
          pseudo_header \<leftarrow> store 39 protocol pseudo_header;
          compute_ones_comp 0 pseudo_header
        })"

section \<open>Performance counters\<close>

text \<open>\<open>fetch_add\<close> on an atomic wraps.\<close>

record Metrics =
  packets_received :: u32
  packets_sent :: u32
  packets_retransmitted :: u32
  buffers_allocated :: u32
  buffers_freed :: u32
  buffers_created :: u32

definition PerfCounter_new :: u32 where
  "PerfCounter_new = 0"

definition PerfCounter_inc :: "u32 \<Rightarrow> u32" where
  "PerfCounter_inc c = c + 1"

definition PerfCounter_add :: "u32 \<Rightarrow> u32 \<Rightarrow> u32" where
  "PerfCounter_add c value = c + value"

definition METRICS_init :: Metrics where
  "METRICS_init = \<lparr>packets_received = PerfCounter_new, packets_sent = PerfCounter_new,
     packets_retransmitted = PerfCounter_new, buffers_allocated = PerfCounter_new,
     buffers_freed = PerfCounter_new, buffers_created = PerfCounter_new\<rparr>"


section \<open>Laws\<close>

lemma new_from_octets: "wf_ip a \<Longrightarrow> new_from (octets a) = Some a"
  by (cases a) (simp_all add: new_from_def new_v4_def new_v6_def)

lemma unat_from_be_bytes: "unat (from_be_bytes b0 b1) = 256 * unat b0 + unat b1"
proof -
  have lt: "unat b1 < 256" "unat b0 < 256"
    by (rule unat_u8_less)+
  have "push_bit 8 (ucast b0) OR ucast b1 = push_bit 8 (ucast b0 :: u16) + (ucast b1 :: u16)"
    by (rule disjunctive_add_eq_or [symmetric], rule bit_word_eqI)
      (auto simp: bit_simps dest: bit_imp_le_length)
  then show ?thesis
    using lt
    by (simp add: from_be_bytes_def unat_word_ariths push_bit_eq_mult unat_ucast_u8_u16)
qed

lemma get_be16_eq: "get_be16 (b0 # b1 # bs) = Some (from_be_bytes b0 b1)"
  by (simp add: get_be16_def from_be_bytes_def)

definition be16 :: "u16 \<Rightarrow> bytes" where
  "be16 v = [ucast (drop_bit 8 v), ucast v]"

definition be32 :: "u32 \<Rightarrow> bytes" where
  "be32 v = [ucast (drop_bit 24 v), ucast (drop_bit 16 v), ucast (drop_bit 8 v), ucast v]"

lemma set_be16_eq [layout]: "length bs = 2 \<Longrightarrow> set_be16 v bs = Some (be16 v)"
  by (simp add: set_be16_def be16_def ucast_and_255) (auto simp: list_eq_iff_nth_eq less_Suc_eq numeral_2_eq_2)

lemma set_be32_eq [layout]: "length bs = 4 \<Longrightarrow> set_be32 v bs = Some (be32 v)"
  by (auto simp: set_be32_def be32_def ucast_and_255 list_eq_iff_nth_eq nth_list_update less_Suc_eq numeral_eq_Suc)

lemma from_be16: "from_be_bytes (ucast (drop_bit 8 v)) (ucast v) = v"
  by (rule bit_word_eqI) (auto simp: from_be_bytes_def bit_simps)

lemma get_be16_be16: "get_be16 (be16 v) = Some v"
  by (simp add: be16_def get_be16_eq from_be16)

lemma get_be32_be32: "get_be32 (be32 u) = Some u"
proof -
  have "push_bit 24 (ucast (ucast (drop_bit 24 u) :: u8)) OR push_bit 16 (ucast (ucast (drop_bit 16 u) :: u8)) OR
      push_bit 8 (ucast (ucast (drop_bit 8 u) :: u8)) OR ucast (ucast u :: u8) = u"
  proof (rule bit_word_eqI)
    fix n assume "n < LENGTH(32)"
    then consider "n < 8" | "8 \<le> n" "n < 16" | "16 \<le> n" "n < 24" | "24 \<le> n" "n < 32"
      by fastforce
    then show "bit (push_bit 24 (ucast (ucast (drop_bit 24 u) :: u8)) OR push_bit 16 (ucast (ucast (drop_bit 16 u) :: u8)) OR
      push_bit 8 (ucast (ucast (drop_bit 8 u) :: u8)) OR ucast (ucast u :: u8) :: u32) n = bit u n"
      by cases (auto simp: bit_simps)
  qed
  then show ?thesis
    by (simp add: get_be32_def be32_def)
qed

lemma length_be [simp]: "length (be16 v) = 2" "length (be32 u) = 4"
  by (simp_all add: be16_def be32_def)

text \<open>Writing a field and reading it back.\<close>

lemma slice_mut_field:
  assumes "i + k \<le> length h" and "f (take k (drop i h)) = Some m" and "length m = k"
  shows "returns (slice_mut i (i + k) f h) (\<lambda>h'. length h' = length h \<and>
    take i h' = take i h \<and> drop (i + k) h' = drop (i + k) h \<and> subslice i (i + k) h' = Some m)"
  using assms slice_mut_Some [of i "i + k" h f m] by simp

lemma unat_eq_of_nat_fold16: "unat (r :: u16) = fold16 n \<Longrightarrow> r = of_nat (fold16 n)"
  by (metis of_nat_unat ucast_id)


subsection \<open>The sum as arithmetic modulo 65535\<close>

text \<open>
  \<open>words_sum\<close> adds the big-endian 16-bit words of a byte list, an odd last byte being the high
  half of a word. \<open>fold16\<close> is the end-around carry: zero stays zero, any other number goes to its
  representative between 1 and 65535.
\<close>

fun words_sum :: "bytes \<Rightarrow> nat" where
  "words_sum [] = 0"
| "words_sum [b] = 256 * unat b"
| "words_sum (b0 # b1 # bs) = 256 * unat b0 + unat b1 + words_sum bs"

definition fold16 :: "nat \<Rightarrow> nat" where
  "fold16 n = (if n = 0 then 0 else (n - 1) mod 65535 + 1)"

lemma fold16_small: "n \<le> 65535 \<Longrightarrow> fold16 n = n"
  by (auto simp: fold16_def)

lemma fold16_le: "fold16 n \<le> 65535"
  using mod_less_divisor [of 65535 "n - 1"] by (auto simp: fold16_def)

lemma fold16_carry: "0 < q \<Longrightarrow> fold16 (65536 * q + r) = fold16 (q + r)"
proof -
  assume q: "0 < q"
  then have "65536 * q + r - 1 = (q + r - 1) + q * 65535"
    by simp
  then have "(65536 * q + r - 1) mod 65535 = (q + r - 1) mod 65535"
    by (simp only: mod_mult_self1)
  with q show ?thesis
    by (simp only: fold16_def) simp
qed

lemma fold16_mod: "fold16 n mod 65535 = n mod 65535"
proof (cases "n = 0")
  case False
  then have "((n - 1) mod 65535 + 1) mod 65535 = (n - 1 + 1) mod 65535"
    by (simp only: mod_add_left_eq)
  with False show ?thesis
    by (simp add: fold16_def)
qed (simp add: fold16_def)

lemma fold16_eq_0: "fold16 n = 0 \<longleftrightarrow> n = 0"
  by (simp add: fold16_def)

lemma mod_eq_in_range:
  fixes a b :: nat
  assumes "a mod m = b mod m" and "0 < a" "a \<le> m" "0 < b" "b \<le> m"
  shows "a = b"
  using assms by (cases "a = m"; cases "b = m") auto

lemma fold16_eq_iff: "fold16 m = fold16 n \<longleftrightarrow> m mod 65535 = n mod 65535 \<and> (m = 0 \<longleftrightarrow> n = 0)"
proof
  assume eq: "fold16 m = fold16 n"
  then show "m mod 65535 = n mod 65535 \<and> (m = 0 \<longleftrightarrow> n = 0)"
    using fold16_mod [of m] fold16_mod [of n] fold16_eq_0 [of m] fold16_eq_0 [of n] by metis
next
  assume "m mod 65535 = n mod 65535 \<and> (m = 0 \<longleftrightarrow> n = 0)"
  then show "fold16 m = fold16 n"
    using mod_eq_in_range [of "fold16 m" 65535 "fold16 n"] fold16_le [of m] fold16_le [of n]
      fold16_mod [of m] fold16_mod [of n] fold16_eq_0 [of m] fold16_eq_0 [of n]
    by (metis bot_nat_0.not_eq_extremum)
qed

lemma fold16_add: "fold16 (fold16 m + n) = fold16 (m + n)"
  unfolding fold16_eq_iff using fold16_mod [of m] fold16_eq_0 [of m]
  by (metis add_is_0 mod_add_left_eq)

lemma unat_fold_loop: "unat (fold_loop c) = fold16 (unat c)"
proof (induction c rule: fold_loop.induct)
  case (1 c)
  show ?case
  proof (cases "c \<le> 0xffff")
    case True
    then show ?thesis
      by (simp add: fold_loop.simps [of c] fold16_small word_le_nat_alt)
  next
    case False
    then have "65536 \<le> unat c"
      by (simp add: word_le_nat_alt)
    then have "0 < unat c div 65536"
      by (simp add: div_greater_zero_iff)
    then have "fold16 (unat c) = fold16 (unat c div 65536 + unat c mod 65536)"
      using fold16_carry [of "unat c div 65536" "unat c mod 65536"] by simp
    moreover have "fold_loop c = fold_loop ((c AND 0xffff) + drop_bit 16 c)"
      using False by (simp add: fold_loop.simps [of c])
    ultimately show ?thesis
      using "1.IH" [OF False] fold_carry_less(2) [OF False]
      by (simp only: add.commute [of "unat c mod 65536"])
  qed
qed

lemma words_sum_drop:
  "i + 1 < length bs \<Longrightarrow>
   words_sum (drop i bs) = unat (from_be_bytes (bs ! i) (bs ! (i + 1))) + words_sum (drop (i + 2) bs)"
  by (simp add: unat_from_be_bytes flip: Cons_nth_drop_Suc)

lemma words_sum_bound: "words_sum bs \<le> 65535 * ((length bs + 1) div 2)"
proof (induction bs rule: words_sum.induct)
  case (2 b)
  then show ?case using unat_u8_less [of b] by simp
next
  case (3 b0 b1 bs)
  then show ?case using unat_u8_less [of b0] unat_u8_less [of b1] by simp
qed simp

lemma words_sum_append: "even (length xs) \<Longrightarrow> words_sum (xs @ ys) = words_sum xs + words_sum ys"
  by (induction xs rule: words_sum.induct) auto

lemma words_sum_zeros: "words_sum (replicate n 0) = 0"
  by (induction n rule: nat_induct2) (auto simp: numeral_2_eq_2)

lemma ones_comp_loop_sum:
  assumes "bs \<noteq> []" and "i \<le> length bs" and "unat c + words_sum (drop i bs) < 2 ^ 32"
  shows "returns (ones_comp_loop bs (length bs - 1) c i)
     (\<lambda>(c', j). j \<le> length bs \<and> length bs \<le> Suc j \<and>
        unat c' + words_sum (drop j bs) = unat c + words_sum (drop i bs))"
  using assms
proof (induction bs "length bs - 1" c i rule: ones_comp_loop.induct)
  case (1 bs c i)
  show ?case
  proof (cases "i < length bs - 1")
    case False
    with "1.prems" show ?thesis
      by (subst ones_comp_loop.simps) auto
  next
    case True
    define w where "w = (ucast (from_be_bytes (bs ! i) (bs ! Suc i)) :: u32)"
    from True have sum: "words_sum (drop i bs) = unat w + words_sum (drop (i + 2) bs)"
      using words_sum_drop [of i bs] by (simp add: w_def unat_ucast_u16_u32)
    with "1.prems"(3) have fits: "unat c + unat w < 2 ^ 32"
      by simp
    then have add: "checked_add c w = Some (c + w)" "unat (c + w) = unat c + unat w"
      by (simp_all add: checked_add_Some unat_word_ariths)
    have "returns (ones_comp_loop bs (length bs - 1) (c + w) (i + 2))
       (\<lambda>(c', j). j \<le> length bs \<and> length bs \<le> Suc j \<and>
          unat c' + words_sum (drop j bs) = unat (c + w) + words_sum (drop (i + 2) bs))"
      using True "1.prems" sum by (intro "1.hyps" [of "bs ! i" "bs ! (i + 1)"]) (auto simp: add simp flip: w_def)
    with True sum show ?thesis
      by (subst ones_comp_loop.simps) (simp add: add add.assoc flip: w_def)
  qed
qed

lemma unat_fold_result: "unat (ucast (fold_loop c) :: u16) = fold16 (unat c)"
  using fold16_le [of "unat c"]
  by (simp add: unsigned_ucast_eq unat_fold_loop take_bit_nat_eq_self)

lemma compute_ones_comp_sum:
  assumes "bs \<noteq> []" and "unat c + words_sum bs < 2 ^ 32"
  shows "returns (compute_ones_comp c bs) (\<lambda>r. unat r = fold16 (unat c + words_sum bs))"
proof -
  have "returns (ones_comp_loop bs (length bs - 1) (ucast c) 0)
     (\<lambda>(c', j). j \<le> length bs \<and> length bs \<le> Suc j \<and>
        unat c' + words_sum (drop j bs) = unat c + words_sum bs)"
    using ones_comp_loop_sum [of bs 0 "ucast c"] assms by (simp add: unat_ucast_u16_u32)
  then obtain c' j where loop: "ones_comp_loop bs (length bs - 1) (ucast c) 0 = Some (c', j)"
    and j: "j \<le> length bs" "length bs \<le> Suc j"
    and sum: "unat c' + words_sum (drop j bs) = unat c + words_sum bs"
    by (auto elim: returnsE)
  have lim: "usize_sub (length bs) 1 = Some (length bs - 1)"
    using assms by (cases bs) simp_all
  show ?thesis
  proof (cases "j < length bs")
    case False
    with j sum loop lim show ?thesis
      by (simp add: compute_ones_comp_def unat_fold_result)
  next
    case True
    define w where "w = (push_bit 8 (ucast (bs ! j)) :: u32)"
    have w: "unat w = 256 * unat (bs ! j)"
      using unat_u8_less [of "bs ! j"]
      by (simp add: w_def push_bit_eq_mult unat_word_ariths unat_ucast_u8_u32)
    have "drop j bs = [bs ! j]"
      using True j by (simp flip: Cons_nth_drop_Suc)
    with sum w have eq: "unat c' + unat w = unat c + words_sum bs"
      by simp
    with assms have "checked_add c' w = Some (c' + w)" "unat (c' + w) = unat c + words_sum bs"
      by (simp_all add: checked_add_Some unat_word_ariths)
    with True loop lim show ?thesis
      by (simp add: compute_ones_comp_def unat_fold_result flip: w_def)
  qed
qed

lemma compute_ones_comp_returns:
  assumes "bs \<noteq> []" and "length bs \<le> 131072"
  shows "returns (compute_ones_comp c bs) (\<lambda>r. unat r = fold16 (unat c + words_sum bs))"
proof (rule compute_ones_comp_sum)
  have "(length bs + 1) div 2 \<le> 65536"
    using assms by simp
  then show "unat c + words_sum bs < 2 ^ 32"
    using words_sum_bound [of bs] unat_u16_less [of c] by simp
qed (rule assms)

lemma compute_ones_comp_Nil: "compute_ones_comp c [] = None"
  by (simp add: compute_ones_comp_def)


subsection \<open>Checksums verify\<close>

text \<open>A sum is complete when the folded total is \<open>0xffff\<close>, which the receivers test after negation.\<close>

lemma unat_xor_ffff: "unat (0xffff XOR (x :: u16)) = 65535 - unat x"
proof -
  have ffff: "(0xffff :: u16) = - 1"
    by simp
  have "0xffff XOR x = - 1 - x"
    unfolding ffff by (simp add: not_eq_complement)
  moreover have "unat (- 1 - x) = unat (- 1 :: u16) - unat x"
    by (rule unat_sub) simp
  ultimately show ?thesis
    by (simp flip: ffff)
qed

lemma xor_ffff_eq_0_iff: "(x :: u16) XOR 0xffff = 0 \<longleftrightarrow> unat x = 65535"
proof -
  have "x XOR 0xffff = 0 \<longleftrightarrow> unat (0xffff XOR x) = 0"
    by (simp add: xor.commute unat_eq_0)
  also have "\<dots> \<longleftrightarrow> unat x = 65535"
    using unat_u16_less [of x] unfolding unat_xor_ffff by linarith
  finally show ?thesis .
qed

lemma fold16_complement: "fold16 (n + (65535 - fold16 n)) = 65535"
  using fold16_add [of n "65535 - fold16 n"] fold16_le [of n] by (simp add: fold16_small)

subsection \<open>Sequence numbers inside a window\<close>

text \<open>
  A sequence number is a stream position modulo \<open>2 ^ 32\<close>. As long as two positions are less than half
  the \<open>32\<close>-bit number space apart, the comparisons on sequence numbers are those on positions.
\<close>

definition pos_seq :: "u32 \<Rightarrow> nat \<Rightarrow> u32" where
  "pos_seq base n = base + of_nat n"

lemma unat_of_nat_small: "n < 2 ^ 32 \<Longrightarrow> unat (of_nat n :: u32) = n"
  by (simp add: unat_of_nat take_bit_nat_eq_self unsigned_of_nat)

lemma pos_seq_diff: "m \<le> n \<Longrightarrow> pos_seq base n - pos_seq base m = of_nat (n - m)"
  by (simp add: pos_seq_def)

lemma unat_pos_seq_diff:
  "m \<le> n \<Longrightarrow> n - m < 2 ^ 32 \<Longrightarrow> unat (pos_seq base n - pos_seq base m) = n - m"
  by (simp only: pos_seq_diff unat_of_nat_small)

lemma seq_gt_irrefl: "\<not> seq_gt a a"
  by (simp add: seq_gt_def)

lemma seq_gt_iff: "seq_gt a b \<longleftrightarrow> a \<noteq> b \<and> unat (a - b) < 2 ^ 31"
  by (auto simp: seq_gt_def word_less_nat_alt)

lemma unat_diff_swap: "a \<noteq> b \<Longrightarrow> unat (b - a) = 2 ^ 32 - unat (a - b)" for a b :: u32
proof -
  assume "a \<noteq> b"
  then have nz: "unat (a - b) \<noteq> 0"
    by (simp add: unat_eq_0)
  have "(unat (a - b) + unat (b - a)) mod 2 ^ 32 = unat ((a - b) + (b - a))"
    by (simp only: unat_word_ariths(1)) simp
  then have "(unat (a - b) + unat (b - a)) mod 2 ^ 32 = 0"
    by simp
  moreover have "unat (a - b) < 2 ^ 32" "unat (b - a) < 2 ^ 32"
    using unat_u32_less [of "a - b"] unat_u32_less [of "b - a"] by simp_all
  ultimately show ?thesis
    using nz by (auto simp: mod_if split: if_splits)
qed

lemma seq_gt_asym: "seq_gt a b \<Longrightarrow> \<not> seq_gt b a"
  using unat_diff_swap [of a b] by (auto simp: seq_gt_iff)

lemma seq_gt_total: "a \<noteq> b \<Longrightarrow> a - b \<noteq> 0x80000000 \<Longrightarrow> seq_gt a b \<or> seq_gt b a"
proof -
  assume ne: "a \<noteq> b" and half: "a - b \<noteq> 0x80000000"
  from half have "unat (a - b) \<noteq> 2 ^ 31"
    by (simp add: word_unat_eq_iff)
  with ne show ?thesis
    using unat_diff_swap [OF ne] by (auto simp: seq_gt_iff)
qed

lemma seq_gt_pos:
  assumes "m < n + 2 ^ 31" and "n < m + 2 ^ 31"
  shows "seq_gt (pos_seq base n) (pos_seq base m) \<longleftrightarrow> m < n"
proof (cases "m < n")
  case True
  then have "unat (pos_seq base n - pos_seq base m) = n - m"
    using assms by (intro unat_pos_seq_diff) simp_all
  with True assms show ?thesis
    by (auto simp: seq_gt_iff)
next
  case False
  then have "unat (pos_seq base m - pos_seq base n) = m - n"
    using assms by (intro unat_pos_seq_diff) simp_all
  with False assms show ?thesis
    using unat_diff_swap [of "pos_seq base m" "pos_seq base n"] by (auto simp: seq_gt_iff)
qed

lemma pos_seq_inj:
  assumes "m < n + 2 ^ 32" and "n < m + 2 ^ 32"
  shows "pos_seq base n = pos_seq base m \<longleftrightarrow> n = m"
proof -
  have "n = m" if eq: "pos_seq base n = pos_seq base m" and le: "m \<le> n" and lt: "n < m + 2 ^ 32" for m n
  proof -
    have "n - m = unat (pos_seq base n - pos_seq base m)"
      using lt le by (intro unat_pos_seq_diff [symmetric]) simp_all
    with eq le show ?thesis
      by simp
  qed
  from this [of n m] this [of m n] show ?thesis
    using assms by (metis nat_le_linear)
qed

section \<open>Properties\<close>

text \<open>
  C23: \<open>compute_ones_comp\<close> is the checksum of RFC 1071. For every slice of at most 128 KiB, odd lengths
  included, the two loops with their 32-bit accumulator give the one's complement sum of the initial
  value and of the big-endian words of the slice, and the additions do not overflow; on the empty
  slice \<open>slice.len() - 1\<close> underflows and the function panics.
\<close>

theorem compute_ones_comp_rfc1071:
  assumes "length bs \<le> 131072"
  shows "compute_ones_comp initial bs =
    (if bs = [] then None else Some (of_nat (fold16 (unat initial + words_sum bs))))"
  using compute_ones_comp_returns [OF _ assms, of initial]
  by (auto simp: compute_ones_comp_Nil elim!: returnsE) (metis unat_eq_of_nat_fold16)

theorem compute_ones_comp_rfc1071_witness:
  "compute_ones_comp 0xffff [0x12, 0x34, 0x56] = Some 0x6834"
  using compute_ones_comp_rfc1071 [of "[0x12, 0x34, 0x56]" "0xffff"] by (simp add: fold16_def)

text \<open>
  A number stored big-endian in a field of a header is read back from this field, at any offset,
  and the octets outside of the field do not change.
\<close>

theorem be_field_round_trip:
  assumes "i + 2 \<le> length h" and "j + 4 \<le> length h"
  shows "returns (slice_mut i (i + 2) (set_be16 v) h) (\<lambda>h'. length h' = length h \<and>
      take i h' = take i h \<and> drop (i + 2) h' = drop (i + 2) h \<and>
      do { s \<leftarrow> subslice i (i + 2) h'; get_be16 s } = Some v) \<and>
    returns (slice_mut j (j + 4) (set_be32 u) h) (\<lambda>h'. length h' = length h \<and>
      take j h' = take j h \<and> drop (j + 4) h' = drop (j + 4) h \<and>
      do { s \<leftarrow> subslice j (j + 4) h'; get_be32 s } = Some u)"
proof -
  have "set_be16 v (take 2 (drop i h)) = Some (be16 v)" "set_be32 u (take 4 (drop j h)) = Some (be32 u)"
    using assms by (simp_all add: set_be16_eq set_be32_eq)
  from slice_mut_field [OF assms(1), of "set_be16 v", OF this(1)] slice_mut_field [OF assms(2), of "set_be32 u", OF this(2)]
  show ?thesis
    by (auto simp: get_be16_be16 get_be32_be32 elim!: returns_conseq)
qed

theorem be_field_round_trip_witness:
  "returns (slice_mut 1 (1 + 2) (set_be16 0xabcd) [9, 9, 9, 9, 9])
     (\<lambda>h'. length h' = 5 \<and> do { s \<leftarrow> subslice 1 (1 + 2) h'; get_be16 s } = Some 0xabcd)"
  using be_field_round_trip [of 1 "[9, 9, 9, 9, 9]" 0 "0xabcd" 0] by (auto elim!: returns_conseq)

text \<open>
  C29: Within half of the sequence space the comparisons of sequence numbers are the comparisons of
  the positions in the stream they stand for, across the wrap-around; \<open>wrapping_max\<close> picks the
  later one.
\<close>

theorem seq_comparisons:
  assumes "m < n + 2 ^ 31" and "n < m + 2 ^ 31"
  shows "(seq_gt (pos_seq base n) (pos_seq base m) \<longleftrightarrow> m < n) \<and>
    (seq_lt (pos_seq base n) (pos_seq base m) \<longleftrightarrow> n < m) \<and>
    (seq_le (pos_seq base n) (pos_seq base m) \<longleftrightarrow> n \<le> m) \<and>
    (seq_ge (pos_seq base n) (pos_seq base m) \<longleftrightarrow> m \<le> n) \<and>
    wrapping_max (pos_seq base n) (pos_seq base m) = pos_seq base (max n m)"
  using seq_gt_pos [OF assms, of base] seq_gt_pos [OF assms(2,1), of base]
  by (auto simp: seq_lt_def seq_le_def seq_ge_def wrapping_max_def max_def)

theorem seq_comparisons_witness:
  "seq_gt (0xfffffffe + 5) (0xfffffffe + 1)"
  using seq_comparisons [of 1 5 "0xfffffffe"] by (simp add: pos_seq_def)

end
