(* ===== verification/Buf.thy ===== *)
theory Buf
  imports Util
begin

text \<open>
  \<open>src/src/stack/buf.rs\<close>: network buffers made of fixed-size fragments, and the pool the
  fragments come from. A chain of \<open>next\<close> pointers is a list of fragments, the free list of the
  pool included. The two statics the module touches, \<open>FRAGMENT_POOL\<close> and \<open>METRICS\<close>, are the
  record \<open>buf_world\<close>, which the states of the higher layers extend. Every operation that
  allocates or frees takes the world and returns the new one; \<open>drop_buffer\<close> is the destructor
  that Rust runs when a buffer goes out of scope.
\<close>

section \<open>Data\<close>

definition FRAGMENT_SIZE :: nat where
  "FRAGMENT_SIZE = 512"

definition POOL_GROW_SIZE :: nat where
  "POOL_GROW_SIZE = 16"

record BufferFragment =
  range_start :: nat
  range_end :: nat
  data :: bytes

record NetBuffer =
  fragments :: "BufferFragment list"
  buf_length :: nat

record BufferIterator =
  current_frag :: "BufferFragment list"
  remaining :: nat

record buf_world =
  free_list :: "BufferFragment list"
  METRICS :: Metrics

definition buffer_count_to_memory :: "u32 \<Rightarrow> u32 option" where
  "buffer_count_to_memory n =
     (if unat n * FRAGMENT_SIZE < 2 ^ 32 then Some (n * of_nat FRAGMENT_SIZE) else None)"

section \<open>The fragment pool\<close>

definition BufferFragment_new :: BufferFragment where
  "BufferFragment_new = \<lparr>range_start = 0, range_end = 0, data = replicate FRAGMENT_SIZE 0\<rparr>"

text \<open>\<open>Range::len\<close>, which is 0 for an inverted range.\<close>

definition frag_len :: "BufferFragment \<Rightarrow> nat" where
  "frag_len f = range_end f - range_start f"

definition FragmentPool_new :: "BufferFragment list" where
  "FragmentPool_new = []"

fun grow_loop :: "nat \<Rightarrow> 'a buf_world_scheme \<Rightarrow> 'a buf_world_scheme" where
  "grow_loop 0 w = w"
| "grow_loop (Suc n) w = grow_loop n (w\<lparr>free_list := BufferFragment_new # free_list w\<rparr>)"

definition grow :: "'a buf_world_scheme \<Rightarrow> 'a buf_world_scheme" where
  "grow w =
     (let w = grow_loop POOL_GROW_SIZE w
      in w\<lparr>METRICS := (METRICS w)\<lparr>buffers_created :=
             PerfCounter_add (buffers_created (METRICS w)) (of_nat POOL_GROW_SIZE)\<rparr>\<rparr>)"

definition alloc :: "'a buf_world_scheme \<Rightarrow> (BufferFragment \<times> 'a buf_world_scheme) option" where
  "alloc w = do {
     let w = (if free_list w = [] then grow w else w);
     let w = w\<lparr>METRICS := (METRICS w)\<lparr>buffers_allocated :=
                PerfCounter_inc (buffers_allocated (METRICS w))\<rparr>\<rparr>;
     (case free_list w of
        [] \<Rightarrow> None
      | new_frag # rest \<Rightarrow>
          Some (new_frag\<lparr>range_start := 0, range_end := 0\<rparr>, w\<lparr>free_list := rest\<rparr>))
   }"

definition free :: "BufferFragment \<Rightarrow> 'a buf_world_scheme \<Rightarrow> 'a buf_world_scheme" where
  "free fragment w =
     (let w = w\<lparr>METRICS := (METRICS w)\<lparr>buffers_freed :=
                PerfCounter_inc (buffers_freed (METRICS w))\<rparr>\<rparr>
      in w\<lparr>free_list := fragment # free_list w\<rparr>)"

text \<open>The loops that walk a chain and free every fragment.\<close>

fun free_chain :: "BufferFragment list \<Rightarrow> 'a buf_world_scheme \<Rightarrow> 'a buf_world_scheme" where
  "free_chain [] w = w"
| "free_chain (f # fs) w = free_chain fs (free f w)"

definition drop_buffer :: "NetBuffer \<Rightarrow> 'a buf_world_scheme \<Rightarrow> 'a buf_world_scheme" where
  "drop_buffer b w = free_chain (fragments b) w"

section \<open>Buffers\<close>

definition NetBuffer_new :: NetBuffer where
  "NetBuffer_new = \<lparr>fragments = [], buf_length = 0\<rparr>"

lemma alloc_range: "alloc w = Some (f, w') \<Longrightarrow> range_start f = 0 \<and> range_end f = 0"
  by (auto simp: alloc_def Let_def split: list.splits)

function prealloc_loop :: "nat \<Rightarrow> BufferFragment list \<Rightarrow> 'a buf_world_scheme \<Rightarrow>
    (BufferFragment list \<times> 'a buf_world_scheme) option" where
  "prealloc_loop to_add frags w =
     (if to_add > 0 then do {
        (new_frag, w) \<leftarrow> alloc w;
        let frag_size = min to_add FRAGMENT_SIZE;
        let new_frag = new_frag\<lparr>range_start := 0, range_end := frag_size\<rparr>;
        prealloc_loop (to_add - frag_size) (new_frag # frags) w
      } else Some (frags, w))"
  by pat_completeness auto
termination
  by (relation "measure (\<lambda>(to_add, frags, w). to_add)") (auto simp: FRAGMENT_SIZE_def)

definition new_prealloc :: "nat \<Rightarrow> 'a buf_world_scheme \<Rightarrow> (NetBuffer \<times> 'a buf_world_scheme) option" where
  "new_prealloc len w = do {
     (frags, w) \<leftarrow> prealloc_loop len [] w;
     Some (\<lparr>fragments = frags, buf_length = len\<rparr>, w)
   }"

definition is_empty :: "NetBuffer \<Rightarrow> bool" where
  "is_empty b = (buf_length b = 0)"

definition iter :: "nat \<Rightarrow> NetBuffer \<Rightarrow> BufferIterator" where
  "iter len b = \<lparr>current_frag = fragments b, remaining = len\<rparr>"

definition header :: "NetBuffer \<Rightarrow> bytes option" where
  "header b = do {
     assert_that (fragments b \<noteq> []);
     let head_frag = hd (fragments b);
     subslice (range_start head_frag) (range_end head_frag) (data head_frag)
   }"

text \<open>\<open>header_mut\<close> lends the header to the caller: \<open>f\<close> is what the caller does with it.\<close>

definition header_mut :: "(bytes \<Rightarrow> bytes option) \<Rightarrow> NetBuffer \<Rightarrow> NetBuffer option" where
  "header_mut f b = do {
     assert_that (fragments b \<noteq> []);
     let head_frag = hd (fragments b);
     d \<leftarrow> slice_mut (range_start head_frag) (range_end head_frag) f (data head_frag);
     Some (b\<lparr>fragments := head_frag\<lparr>data := d\<rparr> # tl (fragments b)\<rparr>)
   }"

definition alloc_header :: "nat \<Rightarrow> NetBuffer \<Rightarrow> 'a buf_world_scheme \<Rightarrow> (NetBuffer \<times> 'a buf_world_scheme) option" where
  "alloc_header sz b w = do {
     assert_that (sz \<le> FRAGMENT_SIZE);
     (frag, rest, w) \<leftarrow>
       (if fragments b = [] \<or> range_start (hd (fragments b)) < sz then do {
          (new_head_frag, w) \<leftarrow> alloc w;
          let new_head_frag = new_head_frag\<lparr>range_start := FRAGMENT_SIZE - sz, range_end := FRAGMENT_SIZE\<rparr>;
          Some (new_head_frag, fragments b, w)
        } else do {
          let frag = hd (fragments b);
          start \<leftarrow> usize_sub (range_start frag) sz;
          Some (frag\<lparr>range_start := start\<rparr>, tl (fragments b), w)
        });
     d \<leftarrow> slice_mut (range_start frag) (range_start frag + sz) (\<lambda>s. Some (replicate (length s) 0)) (data frag);
     len \<leftarrow> usize_add (buf_length b) sz;
     Some (\<lparr>fragments = frag\<lparr>data := d\<rparr> # rest, buf_length = len\<rparr>, w)
   }"

fun trim_head_loop :: "nat \<Rightarrow> BufferFragment list \<Rightarrow> 'a buf_world_scheme \<Rightarrow>
    (nat \<times> BufferFragment list \<times> 'a buf_world_scheme) option" where
  "trim_head_loop left [] w = (if left > 0 then None else Some (left, [], w))"
| "trim_head_loop left (f # fs) w =
     (if left > 0 then
        if frag_len f > left then Some (left, f # fs, w)
        else trim_head_loop (left - frag_len f) fs (free f w)
      else Some (left, f # fs, w))"

definition trim_head :: "nat \<Rightarrow> NetBuffer \<Rightarrow> 'a buf_world_scheme \<Rightarrow> (NetBuffer \<times> 'a buf_world_scheme) option" where
  "trim_head sz b w = do {
     assert_that (sz \<le> buf_length b);
     (left, frags, w) \<leftarrow> trim_head_loop sz (fragments b) w;
     frags \<leftarrow>
       (if left > 0 then
          (case frags of
             [] \<Rightarrow> None
           | f # fs \<Rightarrow> Some (f\<lparr>range_start := range_start f + left\<rparr> # fs))
        else Some frags);
     len \<leftarrow> usize_sub (buf_length b) sz;
     assert_that (frags \<noteq> [] \<or> len = 0);
     Some (\<lparr>fragments = frags, buf_length = len\<rparr>, w)
   }"

text \<open>The fragments that stay, the last one truncated, and the fragments behind it.\<close>

fun trim_tail_loop :: "nat \<Rightarrow> BufferFragment list \<Rightarrow> (BufferFragment list \<times> BufferFragment list) option" where
  "trim_tail_loop left [] = None"
| "trim_tail_loop left (f # fs) =
     (if frag_len f \<ge> left then
        Some ([if frag_len f > left then f\<lparr>range_end := range_start f + left\<rparr> else f], fs)
      else do {
        (kept, dead) \<leftarrow> trim_tail_loop (left - frag_len f) fs;
        Some (f # kept, dead)
      })"

definition trim_tail :: "nat \<Rightarrow> NetBuffer \<Rightarrow> 'a buf_world_scheme \<Rightarrow> (NetBuffer \<times> 'a buf_world_scheme) option" where
  "trim_tail sz b w = do {
     assert_that (sz \<le> buf_length b);
     if sz = buf_length b then
       Some (\<lparr>fragments = [], buf_length = 0\<rparr>, free_chain (fragments b) w)
     else do {
       len \<leftarrow> usize_sub (buf_length b) sz;
       (kept, dead) \<leftarrow> trim_tail_loop len (fragments b);
       Some (\<lparr>fragments = kept, buf_length = len\<rparr>, free_chain dead w)
     }
   }"

text \<open>The copying loop of \<open>append_from_slice\<close>, from the last fragment on.\<close>

function append_loop :: "bytes \<Rightarrow> nat \<Rightarrow> BufferFragment \<Rightarrow> 'a buf_world_scheme \<Rightarrow>
    (BufferFragment list \<times> 'a buf_world_scheme) option" where
  "append_loop src data_offset frag w =
     (if data_offset < length src then do {
        space \<leftarrow> usize_sub FRAGMENT_SIZE (range_end frag);
        let copy_len = min space (length src - data_offset);
        s \<leftarrow> subslice data_offset (data_offset + copy_len) src;
        d \<leftarrow> slice_mut (range_end frag) (range_end frag + copy_len) (copy_from_slice s) (data frag);
        let frag = frag\<lparr>data := d, range_end := range_end frag + copy_len\<rparr>;
        let data_offset = data_offset + copy_len;
        if data_offset < length src then do {
          (new_frag, w) \<leftarrow> alloc w;
          (frags, w) \<leftarrow> append_loop src data_offset new_frag w;
          Some (frag # frags, w)
        } else Some ([frag], w)
      } else Some ([frag], w))"
  by pat_completeness auto
termination
  by (relation "measure (\<lambda>(src, off, frag, w). 2 * (length src - off) + (if range_end frag < FRAGMENT_SIZE then 0 else 1))")
    (auto dest!: alloc_range simp: usize_sub_def FRAGMENT_SIZE_def split: if_splits)

fun append_last :: "bytes \<Rightarrow> BufferFragment list \<Rightarrow> 'a buf_world_scheme \<Rightarrow>
    (BufferFragment list \<times> 'a buf_world_scheme) option" where
  "append_last src [] w = None"
| "append_last src [f] w = append_loop src 0 f w"
| "append_last src (f # g # fs) w = do {
     (fs, w) \<leftarrow> append_last src (g # fs) w;
     Some (f # fs, w)
   }"

definition append_from_slice :: "bytes \<Rightarrow> NetBuffer \<Rightarrow> 'a buf_world_scheme \<Rightarrow> (NetBuffer \<times> 'a buf_world_scheme) option" where
  "append_from_slice src b w =
     (if src = [] then Some (b, w)
      else do {
        (frags, w) \<leftarrow>
          (if fragments b = [] then do {
             (f, w) \<leftarrow> alloc w;
             Some ([f], w)
           } else Some (fragments b, w));
        (frags, w) \<leftarrow> append_last src frags w;
        len \<leftarrow> usize_add (buf_length b) (length src);
        Some (\<lparr>fragments = frags, buf_length = len\<rparr>, w)
      })"

section \<open>Iteration and copies\<close>

definition iter_next :: "BufferIterator \<Rightarrow> (bytes option \<times> BufferIterator) option" where
  "iter_next it =
     (case current_frag it of
        [] \<Rightarrow> Some (None, it)
      | frag # rest \<Rightarrow>
          if remaining it = 0 then Some (None, it)
          else do {
            let slice_length = min (frag_len frag) (remaining it);
            assert_that (remaining it \<ge> slice_length);
            s \<leftarrow> subslice (range_start frag) (range_start frag + slice_length) (data frag);
            Some (Some s, it\<lparr>remaining := remaining it - slice_length, current_frag := rest\<rparr>)
          })"

lemma iter_next_shrinks:
  "iter_next it = Some (Some s, it') \<Longrightarrow> length (current_frag it') < length (current_frag it)"
  by (auto simp: iter_next_def Let_def bind_eq_Some_conv split: list.splits if_splits)

text \<open>The slices a \<open>for\<close> loop over an iterator sees, in order.\<close>

function iter_slices :: "BufferIterator \<Rightarrow> bytes list option" where
  "iter_slices it = do {
     (s, it') \<leftarrow> iter_next it;
     (case s of
        None \<Rightarrow> Some []
      | Some s \<Rightarrow> do {
          rest \<leftarrow> iter_slices it';
          Some (s # rest)
        })
   }"
  by pat_completeness auto
termination
  by (relation "measure (\<lambda>it. length (current_frag it))") (auto dest: iter_next_shrinks)

function copy_loop :: "nat \<Rightarrow> nat \<Rightarrow> BufferIterator \<Rightarrow> bytes \<Rightarrow> (nat \<times> BufferIterator \<times> bytes) option" where
  "copy_loop total_to_copy copied it dest =
     (if copied < total_to_copy then do {
        (s, it') \<leftarrow> iter_next it;
        (case s of
           None \<Rightarrow> None
         | Some s \<Rightarrow> do {
             let copy_len = min (length s) (total_to_copy - copied);
             src \<leftarrow> subslice 0 copy_len s;
             dest \<leftarrow> slice_mut copied (copied + copy_len) (copy_from_slice src) dest;
             copy_loop total_to_copy (copied + copy_len) it' dest
           })
      } else Some (copied, it, dest))"
  by pat_completeness auto
termination
  by (relation "measure (\<lambda>(total_to_copy, copied, it, dest). length (current_frag it))")
    (auto dest: iter_next_shrinks)

definition copy_to_slice :: "bytes \<Rightarrow> NetBuffer \<Rightarrow> (nat \<times> bytes) option" where
  "copy_to_slice dest b = do {
     let total_to_copy = min (length dest) (buf_length b);
     (copied, it, dest) \<leftarrow> copy_loop total_to_copy 0 (iter USIZE_MAX b) dest;
     assert_that (copied = buf_length b \<or> copied = length dest);
     (s, it) \<leftarrow> (if copied = buf_length b then iter_next it else Some (None, it));
     assert_that (copied \<noteq> buf_length b \<or> s = None);
     Some (copied, dest)
   }"

fun append_slices :: "bytes list \<Rightarrow> NetBuffer \<Rightarrow> 'a buf_world_scheme \<Rightarrow> (NetBuffer \<times> 'a buf_world_scheme) option" where
  "append_slices [] b w = Some (b, w)"
| "append_slices (s # ss) b w = do {
     (b, w) \<leftarrow> append_from_slice s b w;
     append_slices ss b w
   }"

definition append_from_buffer :: "NetBuffer \<Rightarrow> nat \<Rightarrow> NetBuffer \<Rightarrow> 'a buf_world_scheme \<Rightarrow> (NetBuffer \<times> 'a buf_world_scheme) option" where
  "append_from_buffer other len b w = do {
     slices \<leftarrow> iter_slices (iter len other);
     append_slices slices b w
   }"

text \<open>\<open>append_buffer\<close> relinks the chain of \<open>other\<close> behind the last fragment; \<open>other\<close> is left empty.\<close>

definition append_buffer :: "NetBuffer \<Rightarrow> NetBuffer \<Rightarrow> NetBuffer option" where
  "append_buffer other b = do {
     len \<leftarrow> usize_add (buf_length b) (buf_length other);
     Some \<lparr>fragments = fragments b @ fragments other, buf_length = len\<rparr>
   }"

declare prealloc_loop.simps [simp del] append_loop.simps [simp del]
  iter_slices.simps [simp del] copy_loop.simps [simp del]

end
