(* ===== verification/Buf_Laws.thy ===== *)
theory Buf_Laws
  imports Buf
begin

text \<open>
  What the buffers of \<open>buf.rs\<close> promise. \<open>contents\<close> is the byte string a buffer stands for and
  \<open>wf_buf\<close> its invariant, built from the checks that the module's own tests run after every
  operation. \<open>pool_step w n w' n'\<close> says that a step from \<open>w\<close> to \<open>w'\<close> only touched the pool and
  its counters, and that a caller that owned \<open>n\<close> fragments before owns \<open>n'\<close> after: no fragment
  is lost or owned twice.
\<close>

section \<open>Invariant and abstraction\<close>

text \<open>The walk that the test helper \<open>validate_buffer\<close> makes over a buffer.\<close>

definition validate_buffer :: "NetBuffer \<Rightarrow> bool" where
  "validate_buffer b \<longleftrightarrow>
     (\<forall>f \<in> set (fragments b). range_start f < range_end f \<and> range_end f \<le> FRAGMENT_SIZE) \<and>
     sum_list (map (\<lambda>f. range_end f - range_start f) (fragments b)) = buf_length b"

text \<open>The fragment's array has a fixed length, which a list has to be told.\<close>

definition wf_frag :: "BufferFragment \<Rightarrow> bool" where
  "wf_frag f \<longleftrightarrow> length (data f) = FRAGMENT_SIZE \<and> range_start f < range_end f \<and> range_end f \<le> FRAGMENT_SIZE"

definition wf_buf :: "NetBuffer \<Rightarrow> bool" where
  "wf_buf b \<longleftrightarrow> (\<forall>f \<in> set (fragments b). wf_frag f) \<and>
     buf_length b = sum_list (map frag_len (fragments b)) \<and> buf_length b \<le> USIZE_MAX"

definition frag_bytes :: "BufferFragment \<Rightarrow> bytes" where
  "frag_bytes f = take (frag_len f) (drop (range_start f) (data f))"

definition chain_bytes :: "BufferFragment list \<Rightarrow> bytes" where
  "chain_bytes fs = concat (map frag_bytes fs)"

definition contents :: "NetBuffer \<Rightarrow> bytes" where
  "contents b = chain_bytes (fragments b)"

abbreviation nfrags :: "NetBuffer \<Rightarrow> nat" where
  "nfrags b \<equiv> length (fragments b)"

section \<open>Ownership of fragments\<close>

definition pool_ok :: "'a buf_world_scheme \<Rightarrow> bool" where
  "pool_ok w \<longleftrightarrow> (\<forall>f \<in> set (free_list w). length (data f) = FRAGMENT_SIZE)"

text \<open>\<open>n\<close> fragments are outside the pool: the counters say so, and with those inside they are all.\<close>

definition balanced :: "'a buf_world_scheme \<Rightarrow> nat \<Rightarrow> bool" where
  "balanced w n \<longleftrightarrow>
     buffers_allocated (METRICS w) - buffers_freed (METRICS w) = of_nat n \<and>
     buffers_created (METRICS w) = of_nat (length (free_list w) + n)"

definition only_pool :: "'a buf_world_scheme \<Rightarrow> 'a buf_world_scheme \<Rightarrow> bool" where
  "only_pool w w' \<longleftrightarrow> w' = w\<lparr>free_list := free_list w', METRICS := METRICS w'\<rparr> \<and>
     packets_received (METRICS w') = packets_received (METRICS w) \<and>
     packets_sent (METRICS w') = packets_sent (METRICS w) \<and>
     packets_retransmitted (METRICS w') = packets_retransmitted (METRICS w)"

definition pool_step :: "'a buf_world_scheme \<Rightarrow> nat \<Rightarrow> 'a buf_world_scheme \<Rightarrow> nat \<Rightarrow> bool" where
  "pool_step w n w' n' \<longleftrightarrow> only_pool w w' \<and> (pool_ok w \<longrightarrow> pool_ok w') \<and>
     (\<forall>k. balanced w (k + n) \<longrightarrow> balanced w' (k + n'))"

lemma only_pool_refl [simp]: "only_pool w w"
  by (simp add: only_pool_def)

lemma only_pool_trans: "only_pool u v \<Longrightarrow> only_pool v w \<Longrightarrow> only_pool u w"
  by (cases u; cases v; cases w) (simp add: only_pool_def)

lemma pool_step_refl [simp]: "pool_step w n w n"
  by (simp add: pool_step_def)

lemma pool_step_trans [trans]: "pool_step u k v m \<Longrightarrow> pool_step v m w n \<Longrightarrow> pool_step u k w n"
  unfolding pool_step_def by (blast intro: only_pool_trans)

lemma pool_step_frame: "pool_step v m w n \<Longrightarrow> pool_step v (k + m) w (k + n)"
  by (simp add: pool_step_def flip: add.assoc)

lemma pool_step_frame': "pool_step v m w n \<Longrightarrow> pool_step v (m + k) w (n + k)"
  using pool_step_frame [of v m w n k] by (simp add: add.commute)

lemma pool_step_ok: "pool_step w n w' n' \<Longrightarrow> pool_ok w \<Longrightarrow> pool_ok w'"
  by (simp add: pool_step_def)

lemma pool_step_balanced: "pool_step w n w' n' \<Longrightarrow> balanced w (k + n) \<Longrightarrow> balanced w' (k + n')"
  by (simp add: pool_step_def)

section \<open>Allocation\<close>

lemma grow_loop_eq:
  "grow_loop n w = w\<lparr>free_list := replicate n BufferFragment_new @ free_list w\<rparr>"
  by (induction n arbitrary: w) (simp_all add: replicate_app_Cons_same)

lemma grow_step: "pool_step w 0 (grow w) 0"
  by (auto simp: pool_step_def only_pool_def pool_ok_def balanced_def grow_def grow_loop_eq
      BufferFragment_new_def PerfCounter_add_def POOL_GROW_SIZE_def algebra_simps)

lemma grow_free_list: "free_list (grow w) \<noteq> []"
  by (simp add: grow_def grow_loop_eq POOL_GROW_SIZE_def)

definition fresh_frag :: "BufferFragment \<Rightarrow> bool" where
  "fresh_frag f \<longleftrightarrow> length (data f) = FRAGMENT_SIZE \<and> range_start f = 0 \<and> range_end f = 0"

lemma alloc_returns:
  assumes "pool_ok w"
  shows "returns (alloc w) (\<lambda>(f, w'). fresh_frag f \<and> pool_step w 0 w' 1)"
proof -
  define v where "v = (if free_list w = [] then grow w else w)"
  have v: "pool_step w 0 v 0" "free_list v \<noteq> []"
    by (simp_all add: v_def grow_step grow_free_list)
  with assms have ok: "pool_ok v"
    by (blast intro: pool_step_ok)
  obtain f fs where fl: "free_list v = f # fs"
    using v(2) by (cases "free_list v") auto
  define w' where "w' = v\<lparr>METRICS := (METRICS v)\<lparr>buffers_allocated := buffers_allocated (METRICS v) + 1\<rparr>, free_list := fs\<rparr>"
  have "alloc w = Some (f\<lparr>range_start := 0, range_end := 0\<rparr>, w')"
    using fl by (simp add: alloc_def Let_def PerfCounter_inc_def w'_def flip: v_def)
  moreover have "pool_step v 0 w' 1"
    using fl by (auto simp: pool_step_def only_pool_def pool_ok_def balanced_def w'_def algebra_simps)
  ultimately show ?thesis
    using ok fl v(1) by (auto simp: fresh_frag_def pool_ok_def intro: pool_step_trans)
qed

lemma free_step: "length (data f) = FRAGMENT_SIZE \<Longrightarrow> pool_step w 1 (free f w) 0"
  by (auto simp: pool_step_def only_pool_def pool_ok_def balanced_def free_def PerfCounter_inc_def
      algebra_simps Let_def)

lemma free_chain_step:
  "\<forall>f \<in> set fs. length (data f) = FRAGMENT_SIZE \<Longrightarrow> pool_step w (length fs) (free_chain fs w) 0"
proof (induction fs arbitrary: w)
  case (Cons f fs)
  then have "pool_step w (length fs + 1) (free f w) (length fs + 0)"
    by (intro pool_step_frame free_step) simp
  with Cons show ?case
    by (auto intro: pool_step_trans)
qed simp

lemma drop_buffer_step: "wf_buf b \<Longrightarrow> pool_step w (nfrags b) (drop_buffer b w) 0"
  by (simp add: drop_buffer_def free_chain_step wf_buf_def wf_frag_def)

section \<open>Chains\<close>

lemma length_frag_bytes: "wf_frag f \<Longrightarrow> length (frag_bytes f) = frag_len f"
  unfolding frag_bytes_def wf_frag_def frag_len_def by auto

lemma frag_len_pos: "wf_frag f \<Longrightarrow> 0 < frag_len f"
  by (simp add: wf_frag_def frag_len_def)

lemma frag_bytes_nonempty: "wf_frag f \<Longrightarrow> frag_bytes f \<noteq> []"
  using length_frag_bytes [of f] frag_len_pos [of f] by auto

lemma chain_bytes_simps [simp]:
  "chain_bytes [] = []"
  "chain_bytes (f # fs) = frag_bytes f @ chain_bytes fs"
  "chain_bytes (fs @ gs) = chain_bytes fs @ chain_bytes gs"
  by (simp_all add: chain_bytes_def)

lemma length_chain_bytes:
  "\<forall>f \<in> set fs. wf_frag f \<Longrightarrow> length (chain_bytes fs) = sum_list (map frag_len fs)"
  by (induction fs) (simp_all add: length_frag_bytes)

lemma length_contents: "wf_buf b \<Longrightarrow> length (contents b) = buf_length b"
  by (simp add: wf_buf_def contents_def length_chain_bytes)

lemma wf_buf_validate: "wf_buf b \<Longrightarrow> validate_buffer b"
  by (auto simp: wf_buf_def validate_buffer_def wf_frag_def frag_len_def [abs_def])

lemma contents_empty_iff: "wf_buf b \<Longrightarrow> contents b = [] \<longleftrightarrow> fragments b = []"
  by (cases "fragments b") (auto simp: wf_buf_def contents_def dest: frag_bytes_nonempty)

lemma wf_NetBuffer_new [simp]: "wf_buf NetBuffer_new" "contents NetBuffer_new = []" "fragments NetBuffer_new = []" "buf_length NetBuffer_new = 0"
  by (simp_all add: NetBuffer_new_def wf_buf_def contents_def)

lemma is_empty_iff: "wf_buf b \<Longrightarrow> is_empty b \<longleftrightarrow> contents b = []"
  by (metis is_empty_def length_0_conv length_contents)


lemma wf_bufI:
  "\<forall>f \<in> set fs. wf_frag f \<Longrightarrow> n = length (chain_bytes fs) \<Longrightarrow> n \<le> USIZE_MAX \<Longrightarrow>
   wf_buf \<lparr>fragments = fs, buf_length = n\<rparr>"
  by (simp add: wf_buf_def length_chain_bytes)

lemma wf_buf_frags: "wf_buf b \<Longrightarrow> \<forall>f \<in> set (fragments b). wf_frag f"
  by (simp add: wf_buf_def)

lemma wf_buf_bound: "wf_buf b \<Longrightarrow> buf_length b \<le> USIZE_MAX"
  by (simp add: wf_buf_def)

lemma wf_frag_trim_start:
  assumes "wf_frag f" and "n < frag_len f"
  shows "wf_frag (f\<lparr>range_start := range_start f + n\<rparr>)"
    and "frag_bytes (f\<lparr>range_start := range_start f + n\<rparr>) = drop n (frag_bytes f)"
  using assms by (auto simp: wf_frag_def frag_len_def frag_bytes_def drop_take add.commute)

lemma wf_frag_trim_end:
  assumes "wf_frag f" and "0 < n" and "n \<le> frag_len f"
  shows "wf_frag (f\<lparr>range_end := range_start f + n\<rparr>)"
    and "frag_bytes (f\<lparr>range_end := range_start f + n\<rparr>) = take n (frag_bytes f)"
  using assms by (auto simp: wf_frag_def frag_len_def frag_bytes_def min_def)

section \<open>Trimming\<close>

lemma trim_head_loop_returns:
  assumes "\<forall>f \<in> set fs. wf_frag f" and "left \<le> length (chain_bytes fs)"
  shows "returns (trim_head_loop left fs w) (\<lambda>(l, gs, w').
     (\<forall>g \<in> set gs. wf_frag g) \<and> drop l (chain_bytes gs) = drop left (chain_bytes fs) \<and>
     (0 < l \<longrightarrow> gs \<noteq> [] \<and> l < frag_len (hd gs)) \<and> pool_step w (length fs) w' (length gs))"
  using assms
proof (induction left fs w rule: trim_head_loop.induct)
  case (2 left f fs w)
  show ?case
  proof (cases "0 < left \<and> frag_len f \<le> left")
    case True
    from "2.prems" have step: "pool_step w (length fs + 1) (free f w) (length fs + 0)"
      by (intro pool_step_frame free_step) (simp add: wf_frag_def)
    have "returns (trim_head_loop (left - frag_len f) fs (free f w)) (\<lambda>(l, gs, w').
       (\<forall>g \<in> set gs. wf_frag g) \<and> drop l (chain_bytes gs) = drop (left - frag_len f) (chain_bytes fs) \<and>
       (0 < l \<longrightarrow> gs \<noteq> [] \<and> l < frag_len (hd gs)) \<and> pool_step (free f w) (length fs) w' (length gs))"
      using True "2.prems" by (intro "2.IH") (auto simp: length_frag_bytes)
    then show ?thesis
      using True "2.prems" step
      by (auto elim!: returns_conseq intro: pool_step_trans simp: length_frag_bytes)
  next
    case False
    with "2.prems" show ?thesis
      by auto
  qed
qed auto

lemma trim_head_returns:
  assumes "wf_buf b" and "n \<le> length (contents b)"
  shows "returns (trim_head n b w) (\<lambda>(b', w').
     wf_buf b' \<and> contents b' = drop n (contents b) \<and> pool_step w (nfrags b) w' (nfrags b'))"
proof -
  from assms obtain l gs w' where loop: "trim_head_loop n (fragments b) w = Some (l, gs, w')"
    and gs: "\<forall>g \<in> set gs. wf_frag g" "drop l (chain_bytes gs) = drop n (contents b)"
      "0 < l \<longrightarrow> gs \<noteq> [] \<and> l < frag_len (hd gs)" "pool_step w (nfrags b) w' (length gs)"
    using trim_head_loop_returns [OF wf_buf_frags [OF assms(1)], of n w]
    by (auto simp: contents_def elim!: returnsE)
  define hs where "hs = (if 0 < l then (hd gs)\<lparr>range_start := range_start (hd gs) + l\<rparr> # tl gs else gs)"
  have hs: "\<forall>g \<in> set hs. wf_frag g" "chain_bytes hs = drop n (contents b)" "length hs = length gs"
    using gs by (auto simp: hs_def wf_frag_trim_start length_frag_bytes neq_Nil_conv)
  have len: "buf_length b - n = length (chain_bytes hs)"
    using hs assms by (simp add: length_contents)
  have "wf_buf \<lparr>fragments = hs, buf_length = buf_length b - n\<rparr>"
    using hs(1) len wf_buf_bound [OF assms(1)] by (intro wf_bufI) auto
  moreover have "trim_head n b w = Some (\<lparr>fragments = hs, buf_length = buf_length b - n\<rparr>, w')"
    using loop gs(3) len assms
    by (cases gs) (auto simp: trim_head_def hs_def length_contents split: if_splits)
  ultimately show ?thesis
    using hs gs(4) by (simp add: contents_def)
qed

lemma trim_tail_loop_returns:
  assumes "\<forall>f \<in> set fs. wf_frag f" and "0 < left" and "left \<le> length (chain_bytes fs)"
  shows "returns (trim_tail_loop left fs) (\<lambda>(kept, dead).
     (\<forall>g \<in> set kept \<union> set dead. wf_frag g) \<and> chain_bytes kept = take left (chain_bytes fs) \<and>
     length fs = length kept + length dead)"
  using assms
proof (induction left fs rule: trim_tail_loop.induct)
  case (2 left f fs)
  show ?case
  proof (cases "left \<le> frag_len f")
    case True
    with "2.prems" show ?thesis
      by (auto simp: length_frag_bytes wf_frag_trim_end)
  next
    case False
    then have "returns (trim_tail_loop (left - frag_len f) fs) (\<lambda>(kept, dead).
       (\<forall>g \<in> set kept \<union> set dead. wf_frag g) \<and> chain_bytes kept = take (left - frag_len f) (chain_bytes fs) \<and>
       length fs = length kept + length dead)"
      using "2.prems" by (intro "2.IH") (auto simp: length_frag_bytes)
    with False "2.prems" show ?thesis
      by (auto simp: returns_bind length_frag_bytes elim!: returns_conseq)
  qed
qed simp

lemma trim_tail_returns:
  assumes "wf_buf b" and "n \<le> length (contents b)"
  shows "returns (trim_tail n b w) (\<lambda>(b', w').
     wf_buf b' \<and> contents b' = take (length (contents b) - n) (contents b) \<and>
     pool_step w (nfrags b) w' (nfrags b'))"
proof (cases "n = length (contents b)")
  case True
  with assms have "trim_tail n b w = Some (NetBuffer_new, drop_buffer b w)"
    by (simp add: trim_tail_def length_contents NetBuffer_new_def drop_buffer_def)
  with True assms drop_buffer_step [of b w] show ?thesis
    by (simp add: NetBuffer_new_def wf_buf_def contents_def)
next
  case False
  define len where "len = buf_length b - n"
  have len: "0 < len" "len \<le> length (contents b)" "len = length (contents b) - n"
    using False assms by (simp_all add: len_def length_contents)
  from len assms obtain kept dead where loop: "trim_tail_loop len (fragments b) = Some (kept, dead)"
    and kd: "\<forall>g \<in> set kept \<union> set dead. wf_frag g" "chain_bytes kept = take len (contents b)"
      "nfrags b = length kept + length dead"
    using trim_tail_loop_returns [OF wf_buf_frags [OF assms(1)], of len]
    by (auto simp: contents_def elim!: returnsE)
  have "wf_buf \<lparr>fragments = kept, buf_length = len\<rparr>"
    using kd len wf_buf_bound [OF assms(1)] assms by (intro wf_bufI) (auto simp: length_contents)
  moreover have "trim_tail n b w = Some (\<lparr>fragments = kept, buf_length = len\<rparr>, free_chain dead w)"
    using loop False assms by (simp add: trim_tail_def length_contents len_def)
  moreover have "pool_step w (length kept + length dead) (free_chain dead w) (length kept + 0)"
    using kd(1) by (intro pool_step_frame free_chain_step) (auto simp: wf_frag_def)
  ultimately show ?thesis
    using kd len by (simp add: contents_def)
qed

section \<open>Shapes of chains\<close>

text \<open>
  \<open>packed\<close>: every fragment starts at the beginning of its array, and all but the last are full; so
  buffers filled by \<open>append_from_slice\<close> use as few fragments as possible. \<open>aligned\<close>: every fragment
  but the last holds whole 16-bit words, which the checksum over a chain depends on.
\<close>

fun packed :: "BufferFragment list \<Rightarrow> bool" where
  "packed [] \<longleftrightarrow> True"
| "packed [f] \<longleftrightarrow> range_start f = 0"
| "packed (f # fs) \<longleftrightarrow> range_start f = 0 \<and> range_end f = FRAGMENT_SIZE \<and> packed fs"

fun aligned :: "BufferFragment list \<Rightarrow> bool" where
  "aligned [] \<longleftrightarrow> True"
| "aligned [f] \<longleftrightarrow> even (range_start f)"
| "aligned (f # fs) \<longleftrightarrow> even (range_start f) \<and> even (range_end f) \<and> aligned fs"

lemma packed_aligned: "packed fs \<Longrightarrow> aligned fs"
  by (induction fs rule: packed.induct) (auto simp: FRAGMENT_SIZE_def)

lemma packed_Cons: "packed (f # fs) \<longleftrightarrow> range_start f = 0 \<and> (fs \<noteq> [] \<longrightarrow> range_end f = FRAGMENT_SIZE) \<and> packed fs"
  by (cases fs) auto

lemma aligned_Cons: "aligned (f # fs) \<longleftrightarrow> even (range_start f) \<and> (fs \<noteq> [] \<longrightarrow> even (range_end f)) \<and> aligned fs"
  by (cases fs) auto

text \<open>A packed chain of \<open>n\<close> octets has \<open>n / 512\<close> fragments, rounded up.\<close>

lemma aligned_trim_head_loop:
  "trim_head_loop left fs w = Some (l, gs, w') \<Longrightarrow> aligned fs \<Longrightarrow> even left \<Longrightarrow>
   aligned gs \<and> (gs \<noteq> [] \<longrightarrow> even l)"
proof (induction left fs w rule: trim_head_loop.induct)
  case (2 left f fs w)
  show ?case
  proof (cases "left > 0 \<and> \<not> frag_len f > left")
    case True
    show ?thesis
    proof (cases "fs = []")
      case True
      with 2 \<open>left > 0 \<and> _\<close> show ?thesis
        by (auto split: if_splits)
    next
      case False
      with 2 True show ?thesis
        by (auto simp: aligned_Cons [of f] frag_len_def)
    qed
  qed (use 2 in \<open>auto split: if_splits\<close>)
qed (auto split: if_splits)

lemma aligned_trim_head:
  assumes "trim_head n b w = Some (b', w')" and "even n" and "aligned (fragments b)"
  shows "aligned (fragments b')"
proof -
  obtain l gs where loop: "trim_head_loop n (fragments b) w = Some (l, gs, w')"
    and frags: "Some (fragments b') = (if 0 < l then
          (case gs of [] \<Rightarrow> None | f # fs \<Rightarrow> Some (f\<lparr>range_start := range_start f + l\<rparr> # fs))
        else Some gs)"
    using assms(1) by (fastforce simp: trim_head_def bind_eq_Some_conv)
  show ?thesis
    using aligned_trim_head_loop [OF loop assms(3,2)] frags
    by (auto simp: aligned_Cons split: if_splits list.splits)
qed

lemma packed_count:
  assumes "\<forall>f \<in> set fs. wf_frag f" and "packed fs"
  shows "length fs = (length (chain_bytes fs) + (FRAGMENT_SIZE - 1)) div FRAGMENT_SIZE"
  using assms
proof (induction fs)
  case (Cons f fs)
  show ?case
  proof (cases "fs = []")
    case True
    have "(e + 511) div 512 = 1" if "0 < e" "e \<le> 512" for e :: nat
      using that by (intro div_nat_eqI) simp_all
    with True Cons.prems show ?thesis
      by (auto simp: length_frag_bytes wf_frag_def frag_len_def FRAGMENT_SIZE_def)
  next
    case False
    with Cons show ?thesis
      by (auto simp: packed_Cons length_frag_bytes frag_len_def FRAGMENT_SIZE_def)
  qed
qed (simp add: FRAGMENT_SIZE_def)

text \<open>What the copying loop turns the last fragment \<open>f\<close> into.\<close>

definition grown :: "BufferFragment \<Rightarrow> BufferFragment list \<Rightarrow> bool" where
  "grown f fs \<longleftrightarrow> fs \<noteq> [] \<and> range_start (hd fs) = range_start f \<and>
     (tl fs \<noteq> [] \<longrightarrow> range_end (hd fs) = FRAGMENT_SIZE \<and> packed (tl fs))"

lemma grown_packed: "grown f fs \<Longrightarrow> range_start f = 0 \<Longrightarrow> packed fs"
  by (cases fs) (auto simp: grown_def packed_Cons)

lemma grown_aligned: "grown f fs \<Longrightarrow> even (range_start f) \<Longrightarrow> aligned fs"
  by (cases fs) (auto simp: grown_def aligned_Cons FRAGMENT_SIZE_def dest: packed_aligned)

section \<open>Appending\<close>

text \<open>A fragment that data can be appended to: it may be empty, but then not at the end of its array.\<close>

definition open_frag :: "BufferFragment \<Rightarrow> bool" where
  "open_frag f \<longleftrightarrow> length (data f) = FRAGMENT_SIZE \<and> range_start f \<le> range_end f \<and>
     range_end f \<le> FRAGMENT_SIZE \<and> range_start f < FRAGMENT_SIZE"

lemma wf_frag_open: "wf_frag f \<Longrightarrow> open_frag f"
  by (simp add: wf_frag_def open_frag_def)

lemma fresh_frag_open: "fresh_frag f \<Longrightarrow> open_frag f" "fresh_frag f \<Longrightarrow> frag_bytes f = []"
  by (simp_all add: fresh_frag_def open_frag_def FRAGMENT_SIZE_def frag_bytes_def frag_len_def)

definition extend_frag :: "BufferFragment \<Rightarrow> bytes \<Rightarrow> BufferFragment" where
  "extend_frag f s = f\<lparr>data := take (range_end f) (data f) @ s @ drop (range_end f + length s) (data f),
     range_end := range_end f + length s\<rparr>"

lemma extend_frag_bytes:
  assumes "open_frag f" and "range_end f + length s \<le> FRAGMENT_SIZE"
  shows "frag_bytes (extend_frag f s) = frag_bytes f @ s"
    and "open_frag (extend_frag f s)"
    and "range_start f < range_end f + length s \<Longrightarrow> wf_frag (extend_frag f s)"
  using assms
  by (cases s; auto simp: open_frag_def frag_bytes_def extend_frag_def frag_len_def wf_frag_def min_def drop_take)+

lemma append_loop_unfold:
  assumes "open_frag f" and "off < length src"
  defines "n \<equiv> min (FRAGMENT_SIZE - range_end f) (length src - off)"
  shows "append_loop src off f w =
    (let g = extend_frag f (take n (drop off src))
     in if off + n < length src then do {
          (h, w) \<leftarrow> alloc w;
          (fs, w) \<leftarrow> append_loop src (off + n) h w;
          Some (g # fs, w)
        } else Some ([g], w))"
proof -
  have n: "range_end f + n \<le> length (data f)" "off + n \<le> length src" "length (take n (drop off src)) = n"
    using assms(1,2) by (auto simp: n_def open_frag_def)
  have "slice_mut (range_end f) (range_end f + n) (copy_from_slice (take n (drop off src))) (data f) =
     Some (take (range_end f) (data f) @ take n (drop off src) @ drop (range_end f + n) (data f))"
    using n by (intro slice_mut_Some) auto
  then show ?thesis
    using assms(1,2) n
    by (subst append_loop.simps) (simp add: open_frag_def extend_frag_def Let_def flip: n_def)
qed

lemma append_loop_returns:
  assumes "pool_ok w" and "open_frag f" and "off < length src"
  shows "returns (append_loop src off f w) (\<lambda>(fs, w'). grown f fs \<and>
     (\<forall>g \<in> set fs. wf_frag g) \<and> chain_bytes fs = frag_bytes f @ drop off src \<and>
     pool_step w 1 w' (length fs))"
  using assms
proof (induction "2 * (length src - off) + (if range_end f < FRAGMENT_SIZE then 0 else 1)"
    arbitrary: off f w rule: less_induct)
  case less
  define n where "n = min (FRAGMENT_SIZE - range_end f) (length src - off)"
  define g where "g = extend_frag f (take n (drop off src))"
  have g: "wf_frag g" "frag_bytes g = frag_bytes f @ take n (drop off src)"
    using less.prems unfolding g_def by (auto simp: extend_frag_bytes n_def open_frag_def)
  show ?case
  proof (cases "off + n < length src")
    case False
    then have "take n (drop off src) = drop off src"
      by simp
    moreover have "append_loop src off f w = Some ([g], w)"
      using False less.prems unfolding g_def n_def by (subst append_loop_unfold) (simp_all add: Let_def)
    moreover have "range_start g = range_start f"
      by (simp add: g_def extend_frag_def)
    ultimately show ?thesis
      using g by (simp add: grown_def)
  next
    case True
    from less.prems(1) obtain h w1 where alloc: "alloc w = Some (h, w1)"
      and h: "fresh_frag h" "pool_step w 0 w1 1"
      by (auto dest: alloc_returns elim!: returnsE)
    have rest: "returns (append_loop src (off + n) h w1) (\<lambda>(fs, w'). grown h fs \<and>
       (\<forall>g \<in> set fs. wf_frag g) \<and> chain_bytes fs = frag_bytes h @ drop (off + n) src \<and>
       pool_step w1 1 w' (length fs))"
    proof (rule less.hyps)
      show "2 * (length src - (off + n)) + (if range_end h < FRAGMENT_SIZE then 0 else 1)
        < 2 * (length src - off) + (if range_end f < FRAGMENT_SIZE then 0 else 1)"
        using less.prems h(1) True by (auto simp: n_def fresh_frag_def open_frag_def FRAGMENT_SIZE_def)
      show "pool_ok w1"
        using h(2) less.prems(1) by (rule pool_step_ok)
    qed (use True fresh_frag_open h in auto)
    have "pool_step w 1 w1 2"
      using pool_step_frame [OF h(2), of 1] by (simp add: numeral_2_eq_2)
    moreover have "pool_step w1 2 w' (Suc m)" if "pool_step w1 1 w' m" for w' m
      using pool_step_frame [OF that, of 1] by (simp add: numeral_2_eq_2)
    ultimately have steps: "pool_step w 1 w' (Suc m)" if "pool_step w1 1 w' m" for w' m
      using that by (blast intro: pool_step_trans)
    have "take n (drop off src) @ drop (off + n) src = drop off src"
      by (metis append_take_drop_id drop_drop add.commute)
    moreover have "append_loop src off f w =
        Option.bind (append_loop src (off + n) h w1) (\<lambda>(fs, w). Some (g # fs, w))"
      using append_loop_unfold [OF less.prems(2,3), of w, folded n_def, folded g_def] True alloc
      by (simp add: Let_def)
    moreover have "range_start g = range_start f" "range_end g = FRAGMENT_SIZE" "range_start h = 0"
      using True less.prems h(1) by (auto simp: g_def extend_frag_def n_def fresh_frag_def open_frag_def)
    ultimately show ?thesis
      using g rest steps fresh_frag_open(2) [OF h(1)] grown_packed
      by (auto simp: returns_bind grown_def [of f] elim!: returns_conseq)
  qed
qed

lemma append_last_returns:
  assumes "pool_ok w" and "\<forall>f \<in> set fs. wf_frag f" and "fs \<noteq> []" and "src \<noteq> []"
  shows "returns (append_last src fs w) (\<lambda>(gs, w'). (\<forall>g \<in> set gs. wf_frag g) \<and>
     chain_bytes gs = chain_bytes fs @ src \<and> pool_step w (length fs) w' (length gs) \<and>
     gs \<noteq> [] \<and> (packed fs \<longrightarrow> packed gs) \<and> (aligned fs \<longrightarrow> aligned gs))"
  using assms
proof (induction src fs w rule: append_last.induct)
  case (2 src f w)
  then show ?case
    using append_loop_returns [of w f 0 src]
    by (auto simp: wf_frag_open grown_packed grown_aligned elim!: returns_conseq)
next
  case (3 src f g fs w)
  then have "returns (append_last src (g # fs) w) (\<lambda>(gs, w'). (\<forall>g \<in> set gs. wf_frag g) \<and>
     chain_bytes gs = chain_bytes (g # fs) @ src \<and> pool_step w (length (g # fs)) w' (length gs) \<and>
     gs \<noteq> [] \<and> (packed (g # fs) \<longrightarrow> packed gs) \<and> (aligned (g # fs) \<longrightarrow> aligned gs))"
    by auto
  with 3 show ?case
    by (auto simp: packed_Cons [of f] aligned_Cons [of f] returns_bind elim!: returns_conseq dest: pool_step_frame [where k = 1])
qed simp

lemma append_from_slice_returns:
  assumes "wf_buf b" and "pool_ok w" and "length (contents b) + length src \<le> USIZE_MAX"
  shows "returns (append_from_slice src b w) (\<lambda>(b', w'). wf_buf b' \<and>
     contents b' = contents b @ src \<and> pool_step w (nfrags b) w' (nfrags b') \<and>
     (packed (fragments b) \<longrightarrow> packed (fragments b')) \<and> (aligned (fragments b) \<longrightarrow> aligned (fragments b')))"
proof (cases "src = []")
  case True
  with assms show ?thesis
    by (simp add: append_from_slice_def)
next
  case src: False
  have *: "returns (if fragments b = [] then do { (f, w) \<leftarrow> alloc w; Some ([f], w) } else Some (fragments b, w))
     (\<lambda>(fs, w1). returns (append_last src fs w1) (\<lambda>(gs, w'). (\<forall>g \<in> set gs. wf_frag g) \<and>
        chain_bytes gs = contents b @ src \<and> pool_step w (nfrags b) w' (length gs) \<and>
        (packed (fragments b) \<longrightarrow> packed gs) \<and> (aligned (fragments b) \<longrightarrow> aligned gs)))"
  proof (cases "fragments b = []")
    case False
    with src assms append_last_returns [OF assms(2) wf_buf_frags [OF assms(1)], of src] show ?thesis
      by (auto simp: contents_def elim!: returns_conseq)
  next
    case True
    from assms(2) obtain h w1 where alloc: "alloc w = Some (h, w1)"
      and h: "fresh_frag h" "pool_step w 0 w1 1"
      by (auto dest: alloc_returns elim!: returnsE)
    have "returns (append_loop src 0 h w1) (\<lambda>(fs, w'). grown h fs \<and>
       (\<forall>g \<in> set fs. wf_frag g) \<and> chain_bytes fs = frag_bytes h @ drop 0 src \<and>
       pool_step w1 1 w' (length fs))"
      using src h assms(2) by (intro append_loop_returns) (auto dest: fresh_frag_open pool_step_ok)
    with True alloc h show ?thesis
      by (auto simp: contents_def fresh_frag_open fresh_frag_def elim!: returns_conseq
          intro: pool_step_trans grown_packed grown_aligned)
  qed
  have wf: "wf_buf \<lparr>fragments = gs, buf_length = buf_length b + length src\<rparr>"
    if "\<forall>g \<in> set gs. wf_frag g" "chain_bytes gs = contents b @ src" for gs
    using that assms by (intro wf_bufI) (auto simp: length_contents)
  have "usize_add (buf_length b) (length src) = Some (buf_length b + length src)"
    using assms by (simp add: length_contents)
  with src * wf show ?thesis
    unfolding append_from_slice_def
    by (auto simp: returns_bind case_prod_unfold contents_def elim!: returns_conseq)
qed


lemma append_slices_returns:
  assumes "wf_buf b" and "pool_ok w" and "length (contents b) + length (concat ss) \<le> USIZE_MAX"
  shows "returns (append_slices ss b w) (\<lambda>(b', w'). wf_buf b' \<and>
     contents b' = contents b @ concat ss \<and> pool_step w (nfrags b) w' (nfrags b') \<and>
     (packed (fragments b) \<longrightarrow> packed (fragments b')) \<and> (aligned (fragments b) \<longrightarrow> aligned (fragments b')))"
  using assms
proof (induction ss arbitrary: b w)
  case (Cons s ss)
  then obtain b1 w1 where app: "append_from_slice s b w = Some (b1, w1)"
    and b1: "wf_buf b1" "contents b1 = contents b @ s" "pool_step w (nfrags b) w1 (nfrags b1)"
      "packed (fragments b) \<longrightarrow> packed (fragments b1)" "aligned (fragments b) \<longrightarrow> aligned (fragments b1)"
    using append_from_slice_returns [of b w s] by (auto elim!: returnsE)
  have "pool_ok w1"
    using b1(3) Cons.prems(2) by (rule pool_step_ok)
  then show ?case
    using Cons.IH [of b1 w1] Cons.prems app b1
    by (auto elim!: returns_conseq intro: pool_step_trans)
qed simp

lemma append_buffer_Some:
  assumes "wf_buf b" and "wf_buf c" and "length (contents b) + length (contents c) \<le> USIZE_MAX"
  shows "returns (append_buffer c b) (\<lambda>b'. wf_buf b' \<and> contents b' = contents b @ contents c \<and>
     nfrags b' = nfrags b + nfrags c)"
proof -
  have len: "buf_length b + buf_length c \<le> USIZE_MAX"
    using assms by (simp add: length_contents)
  then have "wf_buf \<lparr>fragments = fragments b @ fragments c, buf_length = buf_length b + buf_length c\<rparr>"
    using assms by (auto simp: wf_buf_def)
  with len show ?thesis
    by (simp add: append_buffer_def contents_def)
qed

section \<open>Headers\<close>

definition head_bytes :: "NetBuffer \<Rightarrow> bytes" where
  "head_bytes b = frag_bytes (hd (fragments b))"

definition rest_bytes :: "NetBuffer \<Rightarrow> bytes" where
  "rest_bytes b = chain_bytes (tl (fragments b))"

lemma contents_head_rest: "fragments b \<noteq> [] \<Longrightarrow> contents b = head_bytes b @ rest_bytes b"
  by (cases "fragments b") (simp_all add: contents_def head_bytes_def rest_bytes_def)

lemma wf_buf_Cons:
  "wf_buf b \<Longrightarrow> fragments b = f # fs \<Longrightarrow>
   wf_frag f \<and> (\<forall>g \<in> set fs. wf_frag g) \<and> buf_length b = frag_len f + length (chain_bytes fs)"
  by (simp add: wf_buf_def length_chain_bytes)

lemma header_Some: "wf_buf b \<Longrightarrow> fragments b \<noteq> [] \<Longrightarrow> header b = Some (head_bytes b)"
  by (cases "fragments b")
    (auto simp: header_def head_bytes_def frag_bytes_def frag_len_def wf_frag_def dest!: wf_buf_Cons)

lemma header_None: "fragments b = [] \<Longrightarrow> header b = None"
  by (simp add: header_def)

lemma frag_data_split:
  assumes "wf_frag f" and "length s = frag_len f"
  shows "wf_frag (f\<lparr>data := take (range_start f) (data f) @ s @ drop (range_end f) (data f)\<rparr>)"
    and "frag_bytes (f\<lparr>data := take (range_start f) (data f) @ s @ drop (range_end f) (data f)\<rparr>) = s"
  using assms by (auto simp: wf_frag_def frag_len_def frag_bytes_def min_def)

lemma header_mut_returns:
  assumes "wf_buf b" and "fragments b \<noteq> []" and "f (head_bytes b) = Some s"
    and "length s = length (head_bytes b)"
  shows "returns (header_mut f b) (\<lambda>b'. wf_buf b' \<and> head_bytes b' = s \<and> fragments b' \<noteq> [] \<and>
     tl (fragments b') = tl (fragments b) \<and> buf_length b' = buf_length b \<and>
     range_start (hd (fragments b')) = range_start (hd (fragments b)) \<and>
     (aligned (fragments b') \<longleftrightarrow> aligned (fragments b)))"
proof -
  obtain g gs where frags: "fragments b = g # gs"
    using assms(2) by (cases "fragments b") auto
  note wf = wf_buf_Cons [OF assms(1) frags]
  define d where "d = take (range_start g) (data g) @ s @ drop (range_end g) (data g)"
  have len: "length s = frag_len g"
    using assms(4) wf frags by (simp add: head_bytes_def length_frag_bytes)
  have "slice_mut (range_start g) (range_end g) f (data g) = Some d"
    using wf assms(3) frags unfolding d_def
    by (intro slice_mut_Some) (auto simp: wf_frag_def head_bytes_def frag_bytes_def frag_len_def)
  then have "header_mut f b = Some (b\<lparr>fragments := g\<lparr>data := d\<rparr> # gs\<rparr>)"
    using frags by (simp add: header_mut_def)
  moreover have "wf_buf (b\<lparr>fragments := g\<lparr>data := d\<rparr> # gs\<rparr>)"
    using assms(1) frags wf frag_data_split(1) [OF _ len]
    by (simp add: wf_buf_def d_def frag_len_def)
  ultimately show ?thesis
    using frags wf len by (simp add: head_bytes_def aligned_Cons frag_data_split flip: d_def)
      (simp add: d_def frag_data_split)
qed

end
