(* ===== verification/Buf_Access.thy ===== *)
theory Buf_Access
  imports Buf_Laws
begin

text \<open>
  More of the contract of \<open>buf.rs\<close>: preallocated buffers, headers in front of the data, the
  iterator that lends the fragments of a buffer, and the copies made with it.
\<close>

section \<open>Allocating headers\<close>

lemma zero_front:
  assumes "length (data f) = FRAGMENT_SIZE" and "range_start f + sz \<le> range_end f" and "range_end f \<le> FRAGMENT_SIZE"
    and "0 < sz"
  shows "\<exists>d. slice_mut (range_start f) (range_start f + sz) (\<lambda>s. Some (replicate (length s) 0)) (data f) = Some d \<and>
     wf_frag (f\<lparr>data := d\<rparr>) \<and> frag_bytes (f\<lparr>data := d\<rparr>) = replicate sz 0 @ drop sz (frag_bytes f)"
proof -
  have eq: "slice_mut (range_start f) (range_start f + sz) (\<lambda>s. Some (replicate (length s) 0)) (data f) =
     Some (take (range_start f) (data f) @ replicate sz 0 @ drop (range_start f + sz) (data f))"
    using assms by (intro slice_mut_Some) auto
  show ?thesis
    unfolding eq using assms
    by (auto simp: wf_frag_def frag_bytes_def frag_len_def drop_take min_def add.commute)
qed

lemma alloc_header_returns:
  assumes "wf_buf b" and "pool_ok w" and "0 < sz" and "sz \<le> FRAGMENT_SIZE"
    and "length (contents b) + sz \<le> USIZE_MAX"
  shows "returns (alloc_header sz b w) (\<lambda>(b', w'). wf_buf b' \<and> fragments b' \<noteq> [] \<and>
     contents b' = replicate sz 0 @ contents b \<and> pool_step w (nfrags b) w' (nfrags b') \<and>
     (even sz \<and> aligned (fragments b) \<longrightarrow> aligned (fragments b')) \<and>
     (if fragments b = [] \<or> range_start (hd (fragments b)) < sz
      then head_bytes b' = replicate sz 0 \<and> tl (fragments b') = fragments b \<and>
        range_start (hd (fragments b')) = FRAGMENT_SIZE - sz
      else head_bytes b' = replicate sz 0 @ head_bytes b \<and> tl (fragments b') = tl (fragments b) \<and>
        range_start (hd (fragments b')) = range_start (hd (fragments b)) - sz))"
proof (cases "fragments b = [] \<or> range_start (hd (fragments b)) < sz")
  case True
  from assms(2) obtain h w1 where alloc: "alloc w = Some (h, w1)"
    and h: "fresh_frag h" "pool_step w 0 w1 1"
    by (auto dest: alloc_returns elim!: returnsE)
  define g where "g = h\<lparr>range_start := FRAGMENT_SIZE - sz, range_end := FRAGMENT_SIZE\<rparr>"
  from h assms zero_front [of g sz] obtain d where
    d: "slice_mut (range_start g) (range_start g + sz) (\<lambda>s. Some (replicate (length s) 0)) (data g) = Some d"
      "wf_frag (g\<lparr>data := d\<rparr>)" "frag_bytes (g\<lparr>data := d\<rparr>) = replicate sz 0 @ drop sz (frag_bytes g)"
    by (auto simp: g_def fresh_frag_def)
  have zero: "drop sz (frag_bytes g) = []"
    using assms by (simp add: g_def frag_bytes_def frag_len_def)
  have len: "buf_length b + sz = length (chain_bytes (g\<lparr>data := d\<rparr> # fragments b))"
    using assms d zero by (simp add: length_contents contents_def [symmetric])
  have "wf_buf \<lparr>fragments = g\<lparr>data := d\<rparr> # fragments b, buf_length = buf_length b + sz\<rparr>"
    using d len wf_buf_frags [OF assms(1)] assms(1,5) by (intro wf_bufI) (auto simp: length_contents)
  moreover have "alloc_header sz b w =
      Some (\<lparr>fragments = g\<lparr>data := d\<rparr> # fragments b, buf_length = buf_length b + sz\<rparr>, w1)"
    using True alloc assms d(1) by (simp add: alloc_header_def Let_def length_contents flip: g_def)
  moreover have "pool_step w (nfrags b) w1 (Suc (nfrags b))"
    using pool_step_frame [OF h(2), of "nfrags b"] by simp
  ultimately show ?thesis
    using True d zero assms
    by (simp add: contents_def head_bytes_def aligned_Cons)
      (simp add: g_def FRAGMENT_SIZE_def)
next
  case False
  then obtain f fs where frags: "fragments b = f # fs" and start: "sz \<le> range_start f"
    by (cases "fragments b") auto
  note wf = wf_buf_Cons [OF assms(1) frags]
  define g where "g = f\<lparr>range_start := range_start f - sz\<rparr>"
  from wf start assms zero_front [of g sz] obtain d where
    d: "slice_mut (range_start g) (range_start g + sz) (\<lambda>s. Some (replicate (length s) 0)) (data g) = Some d"
      "wf_frag (g\<lparr>data := d\<rparr>)" "frag_bytes (g\<lparr>data := d\<rparr>) = replicate sz 0 @ drop sz (frag_bytes g)"
    by (auto simp: g_def wf_frag_def)
  have rest: "drop sz (frag_bytes g) = frag_bytes f"
    using wf start by (auto simp: g_def wf_frag_def frag_bytes_def frag_len_def drop_take)
  have len: "buf_length b + sz = length (chain_bytes (g\<lparr>data := d\<rparr> # fs))"
    using wf d rest by (simp add: length_frag_bytes)
  have "wf_buf \<lparr>fragments = g\<lparr>data := d\<rparr> # fs, buf_length = buf_length b + sz\<rparr>"
    using d len wf assms by (intro wf_bufI) (auto simp: length_contents)
  moreover have "alloc_header sz b w =
      Some (\<lparr>fragments = g\<lparr>data := d\<rparr> # fs, buf_length = buf_length b + sz\<rparr>, w)"
    using frags start assms d(1) by (simp add: alloc_header_def Let_def length_contents flip: g_def)
  ultimately show ?thesis
    using d rest start frags
    by (simp add: contents_def head_bytes_def aligned_Cons) (auto simp: g_def)
qed

section \<open>Iteration\<close>

text \<open>The slices an iterator lends: whole fragments until the requested length is used up.\<close>

fun cut :: "nat \<Rightarrow> bytes list \<Rightarrow> bytes list" where
  "cut r [] = []"
| "cut r (x # xs) = (if r = 0 then [] else take r x # cut (r - length x) xs)"

lemma concat_cut: "concat (cut r xs) = take r (concat xs)"
  by (induction r xs rule: cut.induct) auto

lemma cut_all: "\<forall>x \<in> set xs. x \<noteq> [] \<Longrightarrow> length (concat xs) \<le> r \<Longrightarrow> cut r xs = xs"
  by (induction r xs rule: cut.induct) (auto simp flip: length_greater_0_conv)

lemma iter_next_Cons:
  assumes "wf_frag f" and "0 < r"
  shows "iter_next \<lparr>current_frag = f # fs, remaining = r\<rparr> =
     Some (Some (take r (frag_bytes f)), \<lparr>current_frag = fs, remaining = r - frag_len f\<rparr>)"
proof -
  have "subslice (range_start f) (range_start f + min (frag_len f) r) (data f) = Some (take r (frag_bytes f))"
    using assms by (auto simp: wf_frag_def frag_len_def frag_bytes_def min.commute)
  with assms show ?thesis
    by (simp add: iter_next_def min_def)
qed

lemma iter_next_done: "fs = [] \<or> r = 0 \<Longrightarrow>
  iter_next \<lparr>current_frag = fs, remaining = r\<rparr> = Some (None, \<lparr>current_frag = fs, remaining = r\<rparr>)"
  by (cases fs) (auto simp: iter_next_def)

lemma iter_slices_eq:
  "\<forall>f \<in> set fs. wf_frag f \<Longrightarrow>
   iter_slices \<lparr>current_frag = fs, remaining = r\<rparr> = Some (cut r (map frag_bytes fs))"
proof (induction fs arbitrary: r)
  case Nil
  show ?case
    by (subst iter_slices.simps) (simp add: iter_next_done)
next
  case (Cons f fs)
  show ?case
  proof (cases "r = 0")
    case True
    then show ?thesis
      by (subst iter_slices.simps) (simp add: iter_next_done)
  next
    case False
    with Cons show ?thesis
      by (subst iter_slices.simps) (simp add: iter_next_Cons length_frag_bytes)
  qed
qed

lemma iter_slices_all:
  assumes "wf_buf b"
  shows "iter_slices (iter USIZE_MAX b) = Some (map frag_bytes (fragments b))"
  using assms wf_buf_bound [OF assms] length_contents [OF assms]
  by (simp add: iter_def iter_slices_eq wf_buf_frags cut_all frag_bytes_nonempty contents_def chain_bytes_def)

lemma append_from_buffer_returns:
  assumes "wf_buf b" and "wf_buf c" and "pool_ok w"
    and "length (contents b) + length (contents c) \<le> USIZE_MAX"
  shows "returns (append_from_buffer c n b w) (\<lambda>(b', w'). wf_buf b' \<and>
     contents b' = contents b @ take n (contents c) \<and> pool_step w (nfrags b) w' (nfrags b') \<and>
     (packed (fragments b) \<longrightarrow> packed (fragments b')) \<and> (aligned (fragments b) \<longrightarrow> aligned (fragments b')))"
proof -
  have cat: "concat (cut n (map frag_bytes (fragments c))) = take n (contents c)"
    by (simp add: concat_cut contents_def chain_bytes_def)
  then show ?thesis
    using assms append_slices_returns [OF assms(1,3), of "cut n (map frag_bytes (fragments c))"]
    by (simp add: append_from_buffer_def iter_def iter_slices_eq wf_buf_frags)
qed

section \<open>Copying out\<close>

lemma copy_loop_returns:
  assumes "\<forall>f \<in> set fs. wf_frag f" and "length (chain_bytes fs) \<le> r"
    and "copied \<le> tot" and "tot \<le> length dest" and "tot - copied \<le> length (chain_bytes fs)"
  shows "returns (copy_loop tot copied \<lparr>current_frag = fs, remaining = r\<rparr> dest) (\<lambda>(c, it, d).
     c = tot \<and> d = take copied dest @ take (tot - copied) (chain_bytes fs) @ drop tot dest \<and>
     (tot - copied = length (chain_bytes fs) \<longrightarrow> current_frag it = []))"
  using assms
proof (induction fs arbitrary: r copied dest)
  case Nil
  then show ?case
    by (subst copy_loop.simps) simp
next
  case (Cons f fs)
  show ?case
  proof (cases "copied < tot")
    case False
    with Cons.prems show ?thesis
      by (subst copy_loop.simps) (auto dest: frag_bytes_nonempty)
  next
    case True
    define n where "n = min (frag_len f) (tot - copied)"
    define dest' where "dest' = take copied dest @ take n (frag_bytes f) @ drop (copied + n) dest"
    have f: "wf_frag f" "0 < frag_len f" "length (frag_bytes f) = frag_len f"
      using Cons.prems(1) by (auto simp: length_frag_bytes frag_len_pos)
    have n: "n \<le> frag_len f" "copied + n \<le> tot"
      using True by (auto simp: n_def)
    have nxt: "iter_next \<lparr>current_frag = f # fs, remaining = r\<rparr> =
        Some (Some (frag_bytes f), \<lparr>current_frag = fs, remaining = r - frag_len f\<rparr>)"
      using Cons.prems f by (subst iter_next_Cons) auto
    have "slice_mut copied (copied + n) (copy_from_slice (take n (frag_bytes f))) dest = Some dest'"
      unfolding dest'_def using n f Cons.prems by (intro slice_mut_Some) auto
    with True n f nxt have step: "copy_loop tot copied \<lparr>current_frag = f # fs, remaining = r\<rparr> dest =
        copy_loop tot (copied + n) \<lparr>current_frag = fs, remaining = r - frag_len f\<rparr> dest'"
      by (subst copy_loop.simps) (simp flip: n_def)
    have dest': "length dest' = length dest" "take (copied + n) dest' = take copied dest @ take n (frag_bytes f)"
      "drop tot dest' = drop tot dest"
      using n f Cons.prems by (auto simp: dest'_def)
    have "returns (copy_loop tot (copied + n) \<lparr>current_frag = fs, remaining = r - frag_len f\<rparr> dest') (\<lambda>(c, it, d).
       c = tot \<and> d = take (copied + n) dest' @ take (tot - (copied + n)) (chain_bytes fs) @ drop tot dest' \<and>
       (tot - (copied + n) = length (chain_bytes fs) \<longrightarrow> current_frag it = []))"
      using Cons.prems n f dest' by (intro Cons.IH) (auto simp: n_def)
    then show ?thesis
      unfolding step using n f dest' by (auto simp: n_def min_def elim!: returns_conseq)
  qed
qed

lemma copy_to_slice_Some:
  fixes dest :: bytes
  assumes "wf_buf b"
  defines "n \<equiv> min (length dest) (length (contents b))"
  shows "copy_to_slice dest b = Some (n, take n (contents b) @ drop n dest)"
proof -
  have len: "min (length dest) (buf_length b) = n"
    using assms by (simp add: length_contents)
  obtain it where loop: "copy_loop n 0 (iter USIZE_MAX b) dest = Some (n, it, take n (contents b) @ drop n dest)"
    and it: "n = length (contents b) \<longrightarrow> current_frag it = []"
    using copy_loop_returns [OF wf_buf_frags [OF assms(1)], of USIZE_MAX 0 n dest]
      wf_buf_bound [OF assms(1)] length_contents [OF assms(1)]
    by (auto simp: iter_def contents_def n_def elim!: returnsE)
  have "iter_next it = Some (None, it)" if "n = length (contents b)"
    using it that by (simp add: iter_next_def)
  with loop len show ?thesis
    by (auto simp: copy_to_slice_def length_contents [OF assms(1)] n_def [symmetric])
qed

section \<open>Preallocation\<close>

lemma prealloc_loop_returns:
  assumes "pool_ok w" and "\<forall>f \<in> set frags. wf_frag f"
  shows "returns (prealloc_loop n frags w) (\<lambda>(fs, w'). (\<forall>f \<in> set fs. wf_frag f) \<and>
     length (chain_bytes fs) = n + length (chain_bytes frags) \<and>
     length fs = (n + (FRAGMENT_SIZE - 1)) div FRAGMENT_SIZE + length frags \<and>
     (even n \<and> aligned frags \<longrightarrow> aligned fs) \<and> pool_step w (length frags) w' (length fs))"
  using assms
proof (induction n arbitrary: frags w rule: less_induct)
  case (less n)
  show ?case
  proof (cases "n = 0")
    case True
    with less.prems show ?thesis
      by (subst prealloc_loop.simps) (simp add: FRAGMENT_SIZE_def)
  next
    case False
    from less.prems(1) obtain h w1 where alloc: "alloc w = Some (h, w1)"
      and h: "fresh_frag h" "pool_step w 0 w1 1"
      by (auto dest: alloc_returns elim!: returnsE)
    define m where "m = min n FRAGMENT_SIZE"
    define g where "g = h\<lparr>range_start := 0, range_end := m\<rparr>"
    have g: "wf_frag g" "frag_len g = m"
      using h(1) False by (auto simp: g_def m_def fresh_frag_def wf_frag_def frag_len_def FRAGMENT_SIZE_def)
    have m: "m < n \<or> m = n" "0 < m" "m \<le> n" "m < n \<Longrightarrow> m = FRAGMENT_SIZE" "even n \<Longrightarrow> even m"
      using False by (auto simp: m_def FRAGMENT_SIZE_def min_def)
    have step: "pool_step w (length frags) w1 (length (g # frags))"
      using pool_step_frame [OF h(2), of "length frags"] by simp
    have "returns (prealloc_loop (n - m) (g # frags) w1) (\<lambda>(fs, w'). (\<forall>f \<in> set fs. wf_frag f) \<and>
       length (chain_bytes fs) = (n - m) + length (chain_bytes (g # frags)) \<and>
       length fs = ((n - m) + (FRAGMENT_SIZE - 1)) div FRAGMENT_SIZE + length (g # frags) \<and>
       (even (n - m) \<and> aligned (g # frags) \<longrightarrow> aligned fs) \<and> pool_step w1 (length (g # frags)) w' (length fs))"
      using less.prems step g m by (intro less.IH) (auto intro: pool_step_ok)
    moreover have "(n + (FRAGMENT_SIZE - 1)) div FRAGMENT_SIZE = Suc (((n - m) + (FRAGMENT_SIZE - 1)) div FRAGMENT_SIZE)"
    proof (cases "m < n")
      case True
      then have "n + (FRAGMENT_SIZE - 1) = ((n - m) + (FRAGMENT_SIZE - 1)) + FRAGMENT_SIZE"
        using m by simp
      then show ?thesis
        by (simp add: FRAGMENT_SIZE_def)
    next
      case False
      then show ?thesis
        using m(2) by (auto simp: m_def FRAGMENT_SIZE_def intro!: div_nat_eqI)
    qed
    moreover have "even n \<and> aligned frags \<Longrightarrow> even (n - m) \<and> aligned (g # frags)"
      using m by (auto simp: aligned_Cons g_def)
    moreover have "prealloc_loop n frags w = prealloc_loop (n - m) (g # frags) w1"
      using False alloc by (subst prealloc_loop.simps) (simp add: m_def g_def Let_def)
    ultimately show ?thesis
      using g m step by (auto simp: length_frag_bytes elim!: returns_conseq intro: pool_step_trans)
  qed
qed

lemma new_prealloc_returns:
  assumes "pool_ok w" and "n \<le> USIZE_MAX"
  shows "returns (new_prealloc n w) (\<lambda>(b, w'). wf_buf b \<and> length (contents b) = n \<and>
     nfrags b = (n + (FRAGMENT_SIZE - 1)) div FRAGMENT_SIZE \<and> (even n \<longrightarrow> aligned (fragments b)) \<and>
     pool_step w 0 w' (nfrags b))"
  using prealloc_loop_returns [of w "[]" n] assms
  by (auto simp: new_prealloc_def returns_bind contents_def intro!: wf_bufI elim!: returns_conseq)

lemma packed_nfrags:
  "wf_buf b \<Longrightarrow> packed (fragments b) \<Longrightarrow> nfrags b = (length (contents b) + (FRAGMENT_SIZE - 1)) div FRAGMENT_SIZE"
  using packed_count [of "fragments b"] by (simp add: wf_buf_frags contents_def)

lemma nfrags_Suc_tl: "fragments b \<noteq> [] \<Longrightarrow> tl (fragments b) = fs \<Longrightarrow> nfrags b = Suc (length fs)"
  by (cases "fragments b") simp_all

section \<open>Properties\<close>

text \<open>Inputs for the witnesses: a buffer of 515 octets in two fragments, and the pool it came from.\<close>

definition sample_buffer :: NetBuffer where
  "sample_buffer = \<lparr>fragments =
     [\<lparr>range_start = 0, range_end = 512, data = replicate 512 1\<rparr>,
      \<lparr>range_start = 0, range_end = 3, data = [2, 3, 4] @ replicate 509 0\<rparr>], buf_length = 515\<rparr>"

definition sample_pool :: buf_world where
  "sample_pool = \<lparr>free_list = [\<lparr>range_start = 0, range_end = 9, data = replicate 512 5\<rparr>],
     METRICS = METRICS_init\<lparr>buffers_allocated := 2, buffers_created := 3\<rparr>\<rparr>"

lemma sample_buffer_wf: "wf_buf sample_buffer"
  by (simp add: wf_buf_def sample_buffer_def wf_frag_def frag_len_def FRAGMENT_SIZE_def USIZE_MAX_def)

lemma sample_buffer_contents: "contents sample_buffer = replicate 512 1 @ [2, 3, 4]"
  by (simp add: contents_def sample_buffer_def frag_bytes_def frag_len_def)

lemma sample_buffer_length: "length (contents sample_buffer) = 515" "nfrags sample_buffer = 2"
  by (simp_all add: sample_buffer_contents) (simp add: sample_buffer_def)

lemma sample_buffer_packed: "packed (fragments sample_buffer)"
  by (simp add: sample_buffer_def FRAGMENT_SIZE_def)

lemma sample_pool_ok: "pool_ok sample_pool" "balanced sample_pool 2"
  by (simp_all add: pool_ok_def sample_pool_def balanced_def FRAGMENT_SIZE_def METRICS_init_def PerfCounter_new_def)

definition small_buffer :: "bytes \<Rightarrow> NetBuffer" where
  "small_buffer bs = \<lparr>fragments =
     [\<lparr>range_start = 0, range_end = length bs, data = bs @ replicate (FRAGMENT_SIZE - length bs) 0\<rparr>],
     buf_length = length bs\<rparr>"

lemma small_buffer_wf:
  assumes "bs \<noteq> []" and "length bs \<le> FRAGMENT_SIZE"
  shows "wf_buf (small_buffer bs)" "contents (small_buffer bs) = bs" "head_bytes (small_buffer bs) = bs"
    "packed (fragments (small_buffer bs))" "nfrags (small_buffer bs) = 1" "fragments (small_buffer bs) \<noteq> []"
  using assms by (simp_all add: small_buffer_def wf_buf_def wf_frag_def frag_len_def contents_def frag_bytes_def
      head_bytes_def FRAGMENT_SIZE_def USIZE_MAX_def)

text \<open>
  C25: \<open>trim_head\<close> removes exactly the first \<open>n\<close> octets of a buffer, whatever fragments they are in,
  keeps the buffer valid and gives every fragment it empties back to the pool, none twice and none
  lost; asked for more octets than there are it panics.
\<close>

theorem trim_head_correct:
  assumes "wf_buf b"
  shows "if n \<le> length (contents b)
    then returns (trim_head n b w) (\<lambda>(b', w'). wf_buf b' \<and> validate_buffer b' \<and> contents b' = drop n (contents b) \<and>
      only_pool w w' \<and> (pool_ok w \<longrightarrow> pool_ok w') \<and> (\<forall>k. balanced w (k + nfrags b) \<longrightarrow> balanced w' (k + nfrags b')))
    else trim_head n b w = None"
  using trim_head_returns [OF assms, of n w]
  by (auto simp: wf_buf_validate pool_step_def trim_head_def length_contents [OF assms] elim!: returns_conseq)

theorem trim_head_correct_witness:
  "returns (trim_head 513 sample_buffer sample_pool) (\<lambda>(b', w'). contents b' = [3, 4])"
  using trim_head_correct [OF sample_buffer_wf, of 513 sample_pool]
  by (auto simp: sample_buffer_contents elim!: returns_conseq)

text \<open>
  C26: \<open>trim_tail\<close> removes exactly the last \<open>n\<close> octets of a buffer, keeps it valid and gives every
  fragment behind the cut back to the pool; asked for more octets than there are it panics.
\<close>

theorem trim_tail_correct:
  assumes "wf_buf b"
  shows "if n \<le> length (contents b)
    then returns (trim_tail n b w) (\<lambda>(b', w'). wf_buf b' \<and> validate_buffer b' \<and>
      contents b' = take (length (contents b) - n) (contents b) \<and>
      only_pool w w' \<and> (pool_ok w \<longrightarrow> pool_ok w') \<and> (\<forall>k. balanced w (k + nfrags b) \<longrightarrow> balanced w' (k + nfrags b')))
    else trim_tail n b w = None"
  using trim_tail_returns [OF assms, of n w]
  by (auto simp: wf_buf_validate pool_step_def trim_tail_def length_contents [OF assms] elim!: returns_conseq)

theorem trim_tail_correct_witness:
  "returns (trim_tail 513 sample_buffer sample_pool) (\<lambda>(b', w'). contents b' = [1, 1])"
  using trim_tail_correct [OF sample_buffer_wf, of 513 sample_pool]
  by (auto simp: sample_buffer_contents numeral_2_eq_2 elim!: returns_conseq)

text \<open>
  C27: \<open>append_from_slice\<close> adds the slice at the end of the buffer, across as many new fragments as it
  takes. A buffer filled this way uses the fewest fragments its length allows, and the pool accounts
  for all of them.
\<close>

theorem append_from_slice_correct:
  assumes "wf_buf b" and "pool_ok w" and "length (contents b) + length src \<le> USIZE_MAX"
  shows "returns (append_from_slice src b w) (\<lambda>(b', w'). wf_buf b' \<and> validate_buffer b' \<and>
      contents b' = contents b @ src \<and>
      (packed (fragments b) \<longrightarrow> packed (fragments b') \<and>
        nfrags b' = (length (contents b) + length src + (FRAGMENT_SIZE - 1)) div FRAGMENT_SIZE) \<and>
      only_pool w w' \<and> pool_ok w' \<and> (\<forall>k. balanced w (k + nfrags b) \<longrightarrow> balanced w' (k + nfrags b')))"
  using append_from_slice_returns [OF assms] assms(2)
  by (auto simp: wf_buf_validate pool_step_def packed_nfrags elim!: returns_conseq)

theorem append_from_slice_correct_witness:
  "returns (append_from_slice [8, 9] sample_buffer sample_pool)
     (\<lambda>(b', w'). contents b' = replicate 512 1 @ [2, 3, 4, 8, 9] \<and> nfrags b' = 2)"
  using append_from_slice_correct [OF sample_buffer_wf sample_pool_ok(1), of "[8, 9]"] sample_buffer_packed
  by (auto simp: sample_buffer_contents USIZE_MAX_def FRAGMENT_SIZE_def elim!: returns_conseq)

text \<open>
  \<open>alloc_header\<close> puts \<open>sz\<close> zero octets in front of a buffer. They are contiguous at the start of
  the first fragment, so that \<open>header\<close> and \<open>header_mut\<close> see all of them, and a fragment is
  allocated only if the first one has no room.
\<close>

theorem alloc_header_correct:
  assumes "wf_buf b" and "pool_ok w" and "0 < sz" and "sz \<le> FRAGMENT_SIZE" and "length (contents b) + sz \<le> USIZE_MAX"
  shows "returns (alloc_header sz b w) (\<lambda>(b', w'). wf_buf b' \<and> contents b' = replicate sz 0 @ contents b \<and>
      returns (header b') (\<lambda>h. take sz h = replicate sz 0) \<and>
      nfrags b' = (if fragments b = [] \<or> range_start (hd (fragments b)) < sz then nfrags b + 1 else nfrags b) \<and>
      only_pool w w' \<and> pool_ok w' \<and> (\<forall>k. balanced w (k + nfrags b) \<longrightarrow> balanced w' (k + nfrags b')))"
proof -
  have count: "nfrags c = (if fragments b = [] \<or> range_start (hd (fragments b)) < sz then nfrags b + 1 else nfrags b) \<and>
      take sz (head_bytes c) = replicate sz 0"
    if "fragments c \<noteq> []" "if fragments b = [] \<or> range_start (hd (fragments b)) < sz
      then head_bytes c = replicate sz 0 \<and> tl (fragments c) = fragments b \<and> range_start (hd (fragments c)) = FRAGMENT_SIZE - sz
      else head_bytes c = replicate sz 0 @ head_bytes b \<and> tl (fragments c) = tl (fragments b) \<and>
        range_start (hd (fragments c)) = range_start (hd (fragments b)) - sz" for c
  proof (cases "fragments b = [] \<or> range_start (hd (fragments b)) < sz")
    case True
    with that(2) have "head_bytes c = replicate sz 0" "tl (fragments c) = fragments b" by simp_all
    then show ?thesis
      using True nfrags_Suc_tl [OF that(1)] by simp
  next
    case False
    with that(2) have c: "head_bytes c = replicate sz 0 @ head_bytes b" "tl (fragments c) = tl (fragments b)" by simp_all
    have "nfrags c = nfrags b"
      using nfrags_Suc_tl [OF that(1) c(2)] nfrags_Suc_tl [of b, OF _ refl] False by simp
    with False c(1) show ?thesis by simp
  qed
  obtain c v where run: "alloc_header sz b w = Some (c, v)" and c: "wf_buf c" "fragments c \<noteq> []"
      "contents c = replicate sz 0 @ contents b" "pool_step w (nfrags b) v (nfrags c)"
      "if fragments b = [] \<or> range_start (hd (fragments b)) < sz
       then head_bytes c = replicate sz 0 \<and> tl (fragments c) = fragments b \<and> range_start (hd (fragments c)) = FRAGMENT_SIZE - sz
       else head_bytes c = replicate sz 0 @ head_bytes b \<and> tl (fragments c) = tl (fragments b) \<and>
         range_start (hd (fragments c)) = range_start (hd (fragments b)) - sz"
    using alloc_header_returns [OF assms] by (elim returnsE) (simp only: split_paired_all prod.case, blast)
  have "only_pool w v" "pool_ok v" "\<forall>k. balanced w (k + nfrags b) \<longrightarrow> balanced v (k + nfrags c)"
    using c(4) assms(2) unfolding pool_step_def by blast+
  moreover have "returns (header c) (\<lambda>h. take sz h = replicate sz 0)"
    using count [OF c(2,5)] c(1,2) by (simp add: header_Some)
  ultimately show ?thesis
    unfolding run returns_Some prod.case using c(1,3) count [OF c(2,5)] by blast
qed

theorem alloc_header_correct_witness:
  "returns (alloc_header 20 sample_buffer sample_pool)
     (\<lambda>(b', w'). contents b' = replicate 20 0 @ contents sample_buffer \<and> nfrags b' = 3)"
  using alloc_header_correct [OF sample_buffer_wf sample_pool_ok(1), of 20]
  by (auto simp: sample_buffer_length FRAGMENT_SIZE_def USIZE_MAX_def elim!: returns_conseq) (simp add: sample_buffer_def)

text \<open>
  \<open>copy_to_slice\<close> copies as much of a buffer as fits, returns how much that is, and leaves the rest
  of the slice alone. The two assertions at its end never fail.
\<close>

theorem copy_to_slice_correct:
  assumes "wf_buf b"
  shows "copy_to_slice dest b =
    (let n = min (length dest) (length (contents b)) in Some (n, take n (contents b) @ drop n dest))"
  using copy_to_slice_Some [OF assms, of dest] by (simp add: Let_def)

theorem copy_to_slice_correct_witness:
  "copy_to_slice [7, 7] sample_buffer = Some (2, [1, 1])"
  using copy_to_slice_correct [OF sample_buffer_wf, of "[7, 7]"]
  by (simp add: sample_buffer_contents numeral_2_eq_2 Let_def)

text \<open>
  \<open>append_from_buffer\<close> copies the first \<open>len\<close> octets of another buffer into fragments of its own;
  \<open>append_buffer\<close> moves the fragments of the other buffer over. Both append the same octets, and
  neither loses a fragment.
\<close>

theorem append_buffers_correct:
  assumes "wf_buf b" and "wf_buf c" and "pool_ok w" and "length (contents b) + length (contents c) \<le> USIZE_MAX"
  shows "returns (append_from_buffer c len b w) (\<lambda>(b', w'). wf_buf b' \<and> contents b' = contents b @ take len (contents c) \<and>
      only_pool w w' \<and> pool_ok w' \<and> (\<forall>k. balanced w (k + nfrags b) \<longrightarrow> balanced w' (k + nfrags b'))) \<and>
    returns (append_buffer c b) (\<lambda>b'. wf_buf b' \<and> contents b' = contents b @ contents c \<and>
      nfrags b' = nfrags b + nfrags c)"
  using append_from_buffer_returns [OF assms, of len] append_buffer_Some [OF assms(1,2,4)] assms(3)
  by (auto simp: pool_step_def elim!: returns_conseq)

theorem append_buffers_correct_witness:
  "returns (append_buffer sample_buffer sample_buffer) (\<lambda>b'. nfrags b' = 4) \<and>
   returns (append_from_buffer sample_buffer 1 sample_buffer sample_pool)
     (\<lambda>(b', w'). contents b' = contents sample_buffer @ [1])"
  using append_buffers_correct [OF sample_buffer_wf sample_buffer_wf sample_pool_ok(1), of 1]
  by (auto simp: sample_buffer_length USIZE_MAX_def elim!: returns_conseq) (simp add: sample_buffer_contents)

text \<open>
  \<open>new_prealloc\<close> makes a buffer of the length asked for, in as few fragments as possible, but
  what it holds is whatever the recycled fragments held before: it is not zero filled, as the comment
  on the function has it.
\<close>

theorem new_prealloc_recycles:
  assumes "pool_ok w" and "free_list w = f # fs" and "0 < n" and "n \<le> FRAGMENT_SIZE"
  shows "returns (new_prealloc n w) (\<lambda>(b, w'). wf_buf b \<and> nfrags b = 1 \<and> contents b = take n (data f) \<and> free_list w' = fs)"
proof -
  have "length (data f) = FRAGMENT_SIZE"
    using assms(1,2) by (simp add: pool_ok_def)
  then show ?thesis
    using assms
    by (simp add: new_prealloc_def prealloc_loop.simps [of n] prealloc_loop.simps [of 0] alloc_def min_def
      contents_def frag_bytes_def frag_len_def wf_buf_def wf_frag_def USIZE_MAX_def FRAGMENT_SIZE_def)
qed

theorem new_prealloc_recycles_witness:
  "returns (new_prealloc 2 sample_pool) (\<lambda>(b, w'). contents b = [5, 5])"
  using new_prealloc_recycles [OF sample_pool_ok(1), of _ _ 2]
  by (auto simp: sample_pool_def FRAGMENT_SIZE_def numeral_2_eq_2 elim!: returns_conseq)

end
