(* ===== verification/Checksum.thy ===== *)
theory Checksum
  imports Buf_Access
begin

text \<open>
  \<open>compute_buffer_ones_comp\<close> of \<open>util.rs\<close>: the one's complement sum over the fragments of a
  buffer. The loop starts every fragment on a fresh 16-bit word, so the sum is that of the
  contents only when all fragments but the last hold an even number of octets; \<open>aligned\<close> is the
  condition the rest of the stack maintains.
\<close>

fun ones_comp_slices :: "u16 \<Rightarrow> bytes list \<Rightarrow> u16 option" where
  "ones_comp_slices acc [] = Some acc"
| "ones_comp_slices acc (frag # frags) = do {
     acc \<leftarrow> compute_ones_comp acc frag;
     ones_comp_slices acc frags
   }"

definition compute_buffer_ones_comp :: "u16 \<Rightarrow> NetBuffer \<Rightarrow> u16 option" where
  "compute_buffer_ones_comp initial_sum buffer = do {
     frags \<leftarrow> iter_slices (iter USIZE_MAX buffer);
     ones_comp_slices initial_sum frags
   }"

lemma aligned_even: "wf_frag f \<Longrightarrow> aligned (f # fs) \<Longrightarrow> fs \<noteq> [] \<Longrightarrow> even (length (frag_bytes f))"
  by (auto simp: aligned_Cons length_frag_bytes frag_len_def wf_frag_def)

lemma words_sum_frag:
  "wf_frag f \<Longrightarrow> aligned (f # fs) \<Longrightarrow>
   words_sum (chain_bytes (f # fs)) = words_sum (frag_bytes f) + words_sum (chain_bytes fs)"
  by (cases "fs = []") (simp_all add: words_sum_append aligned_even)

lemma ones_comp_slices_sum:
  assumes "\<forall>f \<in> set fs. wf_frag f" and "aligned fs"
  shows "returns (ones_comp_slices s (map frag_bytes fs))
     (\<lambda>r. unat r = fold16 (unat s + words_sum (chain_bytes fs)))"
  using assms
proof (induction fs arbitrary: s)
  case Nil
  then show ?case
    using unat_u16_less [of s] by (simp add: fold16_small)
next
  case (Cons f fs)
  have "returns (compute_ones_comp s (frag_bytes f)) (\<lambda>r. unat r = fold16 (unat s + words_sum (frag_bytes f)))"
    using Cons.prems
    by (intro compute_ones_comp_returns)
      (auto simp: frag_bytes_nonempty length_frag_bytes frag_len_def wf_frag_def FRAGMENT_SIZE_def)
  then obtain r where r: "compute_ones_comp s (frag_bytes f) = Some r"
    "unat r = fold16 (unat s + words_sum (frag_bytes f))"
    by (auto elim: returnsE)
  have "returns (ones_comp_slices r (map frag_bytes fs))
     (\<lambda>t. unat t = fold16 (unat r + words_sum (chain_bytes fs)))"
    using Cons.prems by (intro Cons.IH) (auto simp: aligned_Cons)
  moreover have "words_sum (chain_bytes (f # fs)) = words_sum (frag_bytes f) + words_sum (chain_bytes fs)"
    using Cons.prems by (intro words_sum_frag) auto
  ultimately show ?case
    using r by (simp add: fold16_add add.assoc del: chain_bytes_simps)
qed

lemma compute_buffer_ones_comp_returns:
  assumes "wf_buf b" and "aligned (fragments b)"
  shows "returns (compute_buffer_ones_comp s b) (\<lambda>r. unat r = fold16 (unat s + words_sum (contents b)))"
  using ones_comp_slices_sum [OF wf_buf_frags [OF assms(1)] assms(2), of s] assms
  by (simp add: compute_buffer_ones_comp_def iter_slices_all contents_def)

section \<open>Filling in a checksum\<close>

text \<open>
  The senders compute the sum over the packet with a zero checksum field and store its complement
  there; the receivers sum over everything and expect \<open>0xffff\<close>.
\<close>

lemma words_sum_be16: "words_sum (be16 v @ bs) = unat v + words_sum bs"
proof -
  have "256 * unat (ucast (drop_bit 8 v) :: u8) + unat (ucast v :: u8) = unat v"
    using unat_from_be_bytes [of "ucast (drop_bit 8 v)" "ucast v"] by (simp only: from_be16)
  then show ?thesis
    by (simp add: be16_def)
qed

lemma words_sum_field:
  "even (length pre) \<Longrightarrow> words_sum (pre @ be16 v @ post) = words_sum (pre @ [0, 0] @ post) + unat v"
  by (simp add: words_sum_append words_sum_be16)

lemma checksum_completes:
  assumes "unat r = fold16 (s + words_sum (pre @ [0, 0] @ post))" and "even (length pre)"
  shows "fold16 (s + words_sum (pre @ be16 (0xffff XOR r) @ post)) = 65535"
  using fold16_complement [of "s + words_sum (pre @ [0, 0] @ post)"] assms
  by (simp add: words_sum_field [OF assms(2)] unat_xor_ffff add.assoc)

lemma compute_checksum_returns:
  assumes "bs \<noteq> []" and "length bs \<le> 131072"
  shows "returns (compute_checksum bs) (\<lambda>c. \<exists>r. c = 0xffff XOR r \<and> unat r = fold16 (words_sum bs))"
  using compute_ones_comp_returns [OF assms, of 0]
  by (auto simp: compute_checksum_def returns_bind elim!: returns_conseq)

lemma compute_checksum_zero_iff:
  assumes "bs \<noteq> []" and "length bs \<le> 131072"
  shows "compute_checksum bs = Some 0 \<longleftrightarrow> fold16 (words_sum bs) = 65535"
  using compute_checksum_returns [OF assms] xor_ffff_eq_0_iff
  by (auto elim!: returnsE simp: xor.commute)

lemma compute_ones_comp_Some:
  assumes "bs \<noteq> []" and "length bs \<le> 131072"
  shows "compute_ones_comp c bs = Some (of_nat (fold16 (unat c + words_sum bs)))"
  using compute_ones_comp_returns [OF assms, of c] unat_eq_of_nat_fold16 by (auto elim!: returnsE)

section \<open>Properties\<close>

text \<open>
  C24: The checksum of a buffer is the checksum of its contents, however they are split into
  fragments, as long as only the last fragment may have an odd length.
\<close>

theorem compute_buffer_ones_comp_correct:
  assumes "wf_buf b" and "aligned (fragments b)" and "contents b \<noteq> []" and "length (contents b) \<le> 131072"
  shows "compute_buffer_ones_comp initial b = compute_ones_comp initial (contents b)"
  using compute_buffer_ones_comp_returns [OF assms(1,2), of initial] compute_ones_comp_returns [OF assms(3,4), of initial]
  by (auto simp: word_unat_eq_iff elim!: returnsE)

theorem compute_buffer_ones_comp_correct_witness:
  "compute_buffer_ones_comp 0 sample_buffer = compute_ones_comp 0 (replicate 512 1 @ [2, 3, 4])"
  using compute_buffer_ones_comp_correct [OF sample_buffer_wf packed_aligned [OF sample_buffer_packed], of 0]
  by (simp add: sample_buffer_contents)

text \<open>
  Without this proviso it is not: a buffer that holds the octets 1 and 2 in two fragments gets the
  sum 0x0300, while the octets in one piece have the sum 0x0102.
\<close>

definition split_buffer :: NetBuffer where
  "split_buffer = \<lparr>fragments =
     [\<lparr>range_start = 0, range_end = 1, data = 1 # replicate 511 0\<rparr>,
      \<lparr>range_start = 0, range_end = 1, data = 2 # replicate 511 0\<rparr>], buf_length = 2\<rparr>"

theorem compute_buffer_ones_comp_odd_fragments:
  "wf_buf split_buffer \<and> contents split_buffer = [1, 2] \<and>
   compute_ones_comp 0 (contents split_buffer) = Some 0x0102 \<and> compute_buffer_ones_comp 0 split_buffer = Some 0x0300"
proof -
  have wf: "wf_buf split_buffer"
    by (simp add: wf_buf_def split_buffer_def wf_frag_def frag_len_def FRAGMENT_SIZE_def USIZE_MAX_def)
  have cont: "contents split_buffer = [1, 2]" "map frag_bytes (fragments split_buffer) = [[1], [2]]"
    by (simp_all add: contents_def split_buffer_def frag_bytes_def frag_len_def)
  have "compute_ones_comp 0 [1] = Some 0x100" "compute_ones_comp 0x100 [2] = Some 0x300"
    "compute_ones_comp 0 [1, 2] = Some 0x102"
    by (simp_all add: compute_ones_comp_Some fold16_def)
  then show ?thesis
    using wf cont by (simp add: compute_buffer_ones_comp_def iter_slices_all)
qed

end
