(* ===== verification/Netif.thy ===== *)
theory Netif
  imports Checksum
begin

text \<open>
  \<open>src/src/stack/netif.rs\<close>: packets to and from the TUN device. \<open>tun_send\<close> and \<open>tun_recv\<close> of
  \<open>tun.c\<close> hand the vectors to the kernel's \<open>writev\<close> and \<open>readv\<close>, which are parameters of the
  model: \<open>tun_writev\<close> is a field of the world (it sees the frames already sent and the vectors, and
  answers the result of the call), \<open>readv\<close> an argument of \<open>recv_packet\<close> (it maps the vectors it is
  lent to its result and to their contents after the call). \<open>tun_out\<close> records the frames handed to
  \<open>writev\<close>. A result that is not positive makes the process exit, which is \<^term>\<open>None\<close> here.
\<close>

definition MAX_VECS :: nat where
  "MAX_VECS = 8"

definition MRU :: nat where
  "MRU = 2048"

record net_world = buf_world +
  tun_out :: "bytes list"
  tun_writev :: "bytes list \<Rightarrow> bytes list \<Rightarrow> int"
  LOCAL_IPV4 :: IPAddr
  LOCAL_IPV6 :: IPAddr
  NEXT_PACKET_ID :: u16

definition netif_init :: "'a net_world_scheme \<Rightarrow> 'a net_world_scheme option" where
  "netif_init w = do {
     v4 \<leftarrow> new_from [10, 0, 0, 2];
     v6 \<leftarrow> new_from [0xfe, 0x80, 0, 0, 0, 0, 0, 0, 0, 0, 0, 0, 0, 0, 0, 0x2];
     Some (w\<lparr>LOCAL_IPV4 := v4, LOCAL_IPV6 := v6\<rparr>)
   }"

definition get_ipaddr :: "'a net_world_scheme \<Rightarrow> IPAddr \<times> IPAddr" where
  "get_ipaddr w = (LOCAL_IPV4 w, LOCAL_IPV6 w)"

text \<open>An \<open>IOVec\<close> is the slice its base and length describe; a null vector is the empty slice.\<close>

fun to_iovec_loop :: "bytes list \<Rightarrow> nat \<Rightarrow> bytes list \<Rightarrow> (nat \<times> bytes list) option" where
  "to_iovec_loop [] vec_count vec = Some (vec_count, vec)"
| "to_iovec_loop (s # ss) vec_count vec = do {
     vec \<leftarrow> store vec_count s vec;
     to_iovec_loop ss (vec_count + 1) vec
   }"

definition to_iovec :: "NetBuffer \<Rightarrow> bytes list \<Rightarrow> (nat \<times> bytes list) option" where
  "to_iovec packet vec = do {
     slices \<leftarrow> iter_slices (iter USIZE_MAX packet);
     to_iovec_loop slices 0 vec
   }"

text \<open>What the kernel stores through the pointers of the vectors lands in the fragments.\<close>

fun write_back :: "BufferFragment list \<Rightarrow> bytes list \<Rightarrow> BufferFragment list" where
  "write_back (f # fs) (s # ss) =
     f\<lparr>data := take (range_start f) (data f) @ s @ drop (range_start f + length s) (data f)\<rparr> # write_back fs ss"
| "write_back fs _ = fs"

definition recv_packet :: "(bytes list \<Rightarrow> int \<times> bytes list) \<Rightarrow> 'a net_world_scheme \<Rightarrow>
    (NetBuffer \<times> 'a net_world_scheme) option" where
  "recv_packet readv w = do {
     (packet, w) \<leftarrow> new_prealloc MRU w;
     let iovec = replicate MAX_VECS [];
     (num_vecs, iovec) \<leftarrow> to_iovec packet iovec;
     let (result, filled) = readv (take num_vecs iovec);
     let packet = packet\<lparr>fragments := write_back (fragments packet) filled\<rparr>;
     if result \<le> 0 then None
     else do {
       excess \<leftarrow> usize_sub (buf_length packet) (nat result);
       (packet, w) \<leftarrow> trim_tail excess packet w;
       let w = w\<lparr>METRICS := (METRICS w)\<lparr>packets_received :=
                  PerfCounter_inc (packets_received (METRICS w))\<rparr>\<rparr>;
       Some (packet, w)
     }
   }"

definition send_packet :: "NetBuffer \<Rightarrow> 'a net_world_scheme \<Rightarrow> 'a net_world_scheme option" where
  "send_packet packet w = do {
     let iovec = replicate MAX_VECS [];
     (num_vecs, iovec) \<leftarrow> to_iovec packet iovec;
     let result = tun_writev w (tun_out w) (take num_vecs iovec);
     let w = w\<lparr>tun_out := tun_out w @ [concat (take num_vecs iovec)]\<rparr>;
     if result \<le> 0 then None
     else do {
       let w = w\<lparr>METRICS := (METRICS w)\<lparr>packets_sent := PerfCounter_inc (packets_sent (METRICS w))\<rparr>\<rparr>;
       Some (drop_buffer packet w)
     }
   }"

section \<open>Steps of the network layer\<close>

text \<open>
  \<open>net_step w n frames w' n'\<close>: besides the pool, the step only sent the datagrams \<open>frames\<close>, in
  this order, and drew packet identifiers.
\<close>

definition only_net :: "'a net_world_scheme \<Rightarrow> bytes list \<Rightarrow> 'a net_world_scheme \<Rightarrow> bool" where
  "only_net w frames w' \<longleftrightarrow>
     w' = w\<lparr>free_list := free_list w', METRICS := METRICS w', tun_out := tun_out w @ frames,
            NEXT_PACKET_ID := NEXT_PACKET_ID w'\<rparr> \<and>
     packets_received (METRICS w') = packets_received (METRICS w) \<and>
     packets_sent (METRICS w') = packets_sent (METRICS w) + of_nat (length frames) \<and>
     packets_retransmitted (METRICS w') = packets_retransmitted (METRICS w)"

definition net_step :: "'a net_world_scheme \<Rightarrow> nat \<Rightarrow> bytes list \<Rightarrow> 'a net_world_scheme \<Rightarrow> nat \<Rightarrow> bool" where
  "net_step w n frames w' n' \<longleftrightarrow> only_net w frames w' \<and> (pool_ok w \<longrightarrow> pool_ok w') \<and>
     (\<forall>k. balanced w (k + n) \<longrightarrow> balanced w' (k + n'))"

lemma only_net_trans: "only_net u xs v \<Longrightarrow> only_net v ys w \<Longrightarrow> only_net u (xs @ ys) w"
  by (cases u; cases v; cases w) (auto simp: only_net_def algebra_simps)

lemma only_pool_only_net: "only_pool w w' \<Longrightarrow> only_net w [] w'"
  by (cases w; cases w') (simp add: only_pool_def only_net_def)

lemma pool_net_step: "pool_step w n w' n' \<Longrightarrow> net_step w n [] w' n'"
  by (simp add: pool_step_def net_step_def only_pool_only_net)

lemma net_step_refl [simp]: "net_step w n [] w n"
  by (simp add: pool_net_step)

lemma net_step_trans: "net_step u k xs v m \<Longrightarrow> net_step v m ys w n \<Longrightarrow> net_step u k (xs @ ys) w n"
  unfolding net_step_def by (blast intro: only_net_trans)

lemma net_step_trans_Nil: "net_step u k [] v m \<Longrightarrow> net_step v m ys w n \<Longrightarrow> net_step u k ys w n"
  using net_step_trans [of u k "[]" v m ys w n] by simp

lemma net_step_trans_Nil': "net_step u k xs v m \<Longrightarrow> net_step v m [] w n \<Longrightarrow> net_step u k xs w n"
  using net_step_trans [of u k xs v m "[]" w n] by simp

lemma net_step_frame: "net_step v m xs w n \<Longrightarrow> net_step v (k + m) xs w (k + n)"
  by (simp add: net_step_def flip: add.assoc)

lemma net_step_ok: "net_step w n xs w' n' \<Longrightarrow> pool_ok w \<Longrightarrow> pool_ok w'"
  by (simp add: net_step_def)

lemma net_step_tun_out: "net_step w n xs w' n' \<Longrightarrow> tun_out w' = tun_out w @ xs"
  unfolding net_step_def only_net_def by (metis net_world.select_convs(1) net_world.surjective net_world.update_convs)

text \<open>The device accepts every non-empty frame, as a TUN device that is up does.\<close>

definition link_up :: "'a net_world_scheme \<Rightarrow> bool" where
  "link_up w \<longleftrightarrow> (\<forall>sent vecs. concat vecs \<noteq> [] \<longrightarrow> 0 < tun_writev w sent vecs)"

definition net_ok :: "'a net_world_scheme \<Rightarrow> bool" where
  "net_ok w \<longleftrightarrow> pool_ok w \<and> link_up w \<and>
     is_v4 (LOCAL_IPV4 w) \<and> wf_ip (LOCAL_IPV4 w) \<and> \<not> is_v4 (LOCAL_IPV6 w) \<and> wf_ip (LOCAL_IPV6 w)"

lemma net_step_fields:
  assumes "net_step w n xs w' n'"
  shows "tun_writev w' = tun_writev w" "LOCAL_IPV4 w' = LOCAL_IPV4 w" "LOCAL_IPV6 w' = LOCAL_IPV6 w"
    "net_world.more w' = net_world.more w"
  using assms by (cases w; cases w'; simp add: net_step_def only_net_def)+

lemma net_step_net_ok: "net_step w n xs w' n' \<Longrightarrow> net_ok w \<Longrightarrow> net_ok w'"
  using net_step_fields [of w n xs w' n'] by (auto simp: net_ok_def link_up_def net_step_ok)

lemma net_ok_pool: "net_ok w \<Longrightarrow> pool_ok w"
  by (simp add: net_ok_def)

section \<open>Sending\<close>

lemma to_iovec_loop_Some:
  "n + length ss \<le> length vec \<Longrightarrow>
   to_iovec_loop ss n vec = Some (n + length ss, take n vec @ ss @ drop (n + length ss) vec)"
proof (induction ss n vec rule: to_iovec_loop.induct)
  case (2 s ss n vec)
  then have "to_iovec_loop ss (n + 1) (vec[n := s]) =
      Some (n + 1 + length ss, take (n + 1) (vec[n := s]) @ ss @ drop (n + 1 + length ss) (vec[n := s]))"
    by (intro "2.IH") auto
  with "2.prems" show ?case
    by (simp add: take_Suc_conv_app_nth)
qed simp

lemma to_iovec_loop_None: "length vec < n + length ss \<Longrightarrow> n \<le> length vec \<Longrightarrow> to_iovec_loop ss n vec = None"
proof (induction ss n vec rule: to_iovec_loop.induct)
  case (2 s ss n vec)
  then show ?case
    by (cases "n < length vec") (auto simp: store_def)
qed simp

lemma to_iovec_Some:
  assumes "wf_buf b" and "nfrags b \<le> length vec"
  shows "to_iovec b vec = Some (nfrags b, map frag_bytes (fragments b) @ drop (nfrags b) vec)"
  using assms by (simp add: to_iovec_def iter_slices_all to_iovec_loop_Some)

lemma to_iovec_None: "wf_buf b \<Longrightarrow> length vec < nfrags b \<Longrightarrow> to_iovec b vec = None"
  by (simp add: to_iovec_def iter_slices_all to_iovec_loop_None)

lemma only_pool_fields:
  assumes "only_pool w w'"
  shows "tun_out w' = tun_out w" "tun_writev w' = tun_writev w" "LOCAL_IPV4 w' = LOCAL_IPV4 w"
    "LOCAL_IPV6 w' = LOCAL_IPV6 w" "NEXT_PACKET_ID w' = NEXT_PACKET_ID w" "net_world.more w' = net_world.more w"
  using assms by (cases w; cases w'; simp add: only_pool_def)+

lemma send_packet_returns:
  assumes "wf_buf b" and "net_ok w" and "contents b \<noteq> []" and "nfrags b \<le> MAX_VECS"
  shows "returns (send_packet b w) (\<lambda>w'. net_step w (nfrags b) [contents b] w' 0 \<and>
     NEXT_PACKET_ID w' = NEXT_PACKET_ID w)"
proof -
  define v where "v = w\<lparr>tun_out := tun_out w @ [contents b],
    METRICS := (METRICS w)\<lparr>packets_sent := packets_sent (METRICS w) + 1\<rparr>\<rparr>"
  have cat: "concat (map frag_bytes (fragments b)) = contents b"
    by (simp add: contents_def chain_bytes_def)
  have "0 < tun_writev w (tun_out w) (map frag_bytes (fragments b))"
    using assms(2,3) cat unfolding net_ok_def link_up_def by metis
  then have "send_packet b w = Some (drop_buffer b v)"
    using assms by (simp add: send_packet_def to_iovec_Some cat v_def PerfCounter_inc_def Let_def)
  moreover have "net_step w (nfrags b) [contents b] v (nfrags b)"
    by (auto simp: net_step_def only_net_def pool_ok_def balanced_def v_def)
  moreover have "pool_step v (nfrags b) (drop_buffer b v) 0"
    using assms(1) by (rule drop_buffer_step)
  moreover have "NEXT_PACKET_ID (drop_buffer b v) = NEXT_PACKET_ID w"
    using calculation(3) only_pool_fields(5) [of v "drop_buffer b v"]
    by (simp add: pool_step_def) (simp add: v_def)
  ultimately show ?thesis
    by (auto intro: net_step_trans_Nil' pool_net_step)
qed

lemma send_packet_too_many: "wf_buf b \<Longrightarrow> MAX_VECS < nfrags b \<Longrightarrow> send_packet b w = None"
  by (simp add: send_packet_def to_iovec_None)

section \<open>Receiving\<close>

text \<open>What \<open>readv\<close> on a TUN device does with the next frame: it fills the vectors in order and
  returns how much of the frame they took.\<close>

definition delivers :: "(bytes list \<Rightarrow> int \<times> bytes list) \<Rightarrow> bytes \<Rightarrow> bool" where
  "delivers readv frame \<longleftrightarrow> (\<forall>vecs.
     map length (snd (readv vecs)) = map length vecs \<and>
     fst (readv vecs) = int (min (length frame) (length (concat vecs))) \<and>
     take (min (length frame) (length (concat vecs))) (concat (snd (readv vecs))) =
       take (min (length frame) (length (concat vecs))) frame)"

lemma length_write_back: "length (write_back fs ss) = length fs"
  by (induction fs ss rule: write_back.induct) simp_all

lemma write_back_Nil_iff: "write_back fs ss = [] \<longleftrightarrow> fs = []"
  using length_write_back [of fs ss] by auto

lemma write_back_wf:
  assumes "\<forall>f \<in> set fs. wf_frag f" and "map length ss = map (length \<circ> frag_bytes) fs"
  shows "(\<forall>f \<in> set (write_back fs ss). wf_frag f) \<and> chain_bytes (write_back fs ss) = concat ss \<and>
    aligned (write_back fs ss) = aligned fs \<and>
    map frag_len (write_back fs ss) = map frag_len fs"
  using assms
proof (induction fs ss rule: write_back.induct)
  case (1 f fs s ss)
  from "1.prems" have f: "wf_frag f" "length s = frag_len f"
    by (simp_all add: length_frag_bytes)
  then have range: "range_start f + length s = range_end f"
    by (simp add: frag_len_def wf_frag_def)
  from "1.prems" have IH: "(\<forall>f \<in> set (write_back fs ss). wf_frag f) \<and> chain_bytes (write_back fs ss) = concat ss \<and>
      aligned (write_back fs ss) = aligned fs \<and> map frag_len (write_back fs ss) = map frag_len fs"
    by (intro "1.IH") simp_all
  define g where "g = f\<lparr>data := take (range_start f) (data f) @ s @ drop (range_end f) (data f)\<rparr>"
  have "wf_frag g" "frag_bytes g = s" "range_start g = range_start f" "range_end g = range_end f"
    "frag_len g = frag_len f"
    using f by (simp_all add: g_def frag_data_split) (simp add: frag_len_def)
  moreover have "write_back (f # fs) (s # ss) = g # write_back fs ss"
    by (simp add: g_def range)
  ultimately show ?case
    using IH by (simp add: aligned_Cons write_back_Nil_iff del: write_back.simps)
qed auto

lemma aligned_trim_tail:
  "trim_tail_loop n fs = Some (kept, dead) \<Longrightarrow> aligned fs \<Longrightarrow> aligned kept"
proof (induction n fs arbitrary: kept dead rule: trim_tail_loop.induct)
  case (2 n f fs)
  then show ?case
    by (cases fs) (auto simp: aligned_Cons bind_eq_Some_conv split: if_splits)
qed simp

lemma trim_tail_shape:
  assumes "trim_tail n b w = Some (b', w')" and "aligned (fragments b)" and "wf_buf b"
  shows "aligned (fragments b')"
  using assms by (auto simp: trim_tail_def bind_eq_Some_conv split: if_splits dest: aligned_trim_tail)

lemma trim_tail_count:
  assumes "trim_tail_loop n fs = Some (kept, dead)"
  shows "length kept \<le> length fs"
  using assms
  by (induction n fs arbitrary: kept dead rule: trim_tail_loop.induct)
    (auto simp: bind_eq_Some_conv split: if_splits)

text \<open>The fragments of a buffer that is used to the last octet are full; the first one stays so if it can.\<close>

lemma full_head:
  assumes "\<forall>f \<in> set fs. wf_frag f" and "length (chain_bytes fs) = length fs * FRAGMENT_SIZE" and "fs \<noteq> []"
  shows "frag_len (hd fs) = FRAGMENT_SIZE"
proof (cases fs)
  case (Cons f gs)
  have "length (chain_bytes gs) \<le> length gs * FRAGMENT_SIZE"
    using assms(1) unfolding Cons
    by (induction gs) (auto simp: chain_bytes_def length_frag_bytes wf_frag_def frag_len_def)
  moreover have "frag_len f \<le> FRAGMENT_SIZE" "length (frag_bytes f) = frag_len f"
    using assms(1) Cons length_frag_bytes [of f] by (auto simp: wf_frag_def frag_len_def)
  ultimately show ?thesis
    using assms(2) Cons by (simp add: chain_bytes_def)
qed (use assms(3) in simp)

lemma trim_tail_head:
  assumes "trim_tail n b w = Some (b', w')" and "wf_buf b" and "n < length (contents b)"
  shows "frag_len (hd (fragments b')) = min (length (contents b) - n) (frag_len (hd (fragments b)))"
proof -
  obtain f fs where fs: "fragments b = f # fs"
    using assms(3) by (cases "fragments b") (simp_all add: contents_def)
  then have "wf_frag f"
    using wf_buf_frags [OF assms(2)] by simp
  then show ?thesis
    using assms(1,3) fs length_contents [OF assms(2)]
    by (auto simp: trim_tail_def bind_eq_Some_conv frag_len_def wf_frag_def split: if_splits)
qed

text \<open>The buffer has room for \<open>MRU\<close> octets; what a frame has beyond them is lost.\<close>

lemma recv_packet_returns:
  assumes "net_ok w" and "delivers readv frame" and "frame \<noteq> []"
  shows "returns (recv_packet readv w) (\<lambda>(b, w'). wf_buf b \<and> contents b = take MRU frame \<and>
     aligned (fragments b) \<and> length (head_bytes b) = min FRAGMENT_SIZE (length frame) \<and>
     (\<exists>v. pool_step w 0 v (nfrags b) \<and> w' = v\<lparr>METRICS := (METRICS v)\<lparr>packets_received := packets_received (METRICS w) + 1\<rparr>\<rparr>))"
proof -
  obtain p w1 where pre: "new_prealloc MRU w = Some (p, w1)"
    and p: "wf_buf p" "length (contents p) = MRU" "nfrags p = 4" "aligned (fragments p)" "pool_step w 0 w1 (nfrags p)"
    using new_prealloc_returns [of w MRU] assms(1)
    by (auto simp: net_ok_def USIZE_MAX_def MRU_def FRAGMENT_SIZE_def elim!: returnsE)
  define n where "n = min (length frame) MRU"
  have n: "0 < n" "n \<le> MRU" "take n frame = take MRU frame"
    using assms(3) by (auto simp: n_def MRU_def min_def)
  define vecs where "vecs = map frag_bytes (fragments p)"
  define q where "q = p\<lparr>fragments := write_back (fragments p) (snd (readv vecs))\<rparr>"
  have vecs: "concat vecs = contents p" "length vecs = 4"
    using p(3) by (simp_all add: vecs_def contents_def chain_bytes_def)
  have d: "map length (snd (readv vecs)) = map length vecs" "fst (readv vecs) = int n"
    "take n (concat (snd (readv vecs))) = take MRU frame"
    using assms(2) [unfolded delivers_def, THEN spec, of vecs] p(2) vecs n(3)
    by (simp_all add: n_def)
  have wb: "(\<forall>f \<in> set (write_back (fragments p) (snd (readv vecs))). wf_frag f) \<and>
      chain_bytes (write_back (fragments p) (snd (readv vecs))) = concat (snd (readv vecs)) \<and>
      aligned (write_back (fragments p) (snd (readv vecs))) = aligned (fragments p) \<and>
      map frag_len (write_back (fragments p) (snd (readv vecs))) = map frag_len (fragments p)"
    using wf_buf_frags [OF p(1)] d(1) by (intro write_back_wf) (simp_all add: vecs_def)
  have q: "wf_buf q" "contents q = concat (snd (readv vecs))" "nfrags q = nfrags p" "aligned (fragments q)"
    "buf_length q = MRU"
    using wb p length_contents [OF p(1)] by (auto simp: q_def wf_buf_def contents_def length_write_back)
  have len: "length (contents q) = MRU"
    using q(5) length_contents [OF q(1)] by simp
  obtain b w2 where trim: "trim_tail (MRU - n) q w1 = Some (b, w2)"
    and b: "wf_buf b" "contents b = take MRU frame" "pool_step w1 (nfrags q) w2 (nfrags b)"
    using trim_tail_returns [OF q(1), of "MRU - n" w1] len n(2) d(3) q(2)
    by (auto elim!: returnsE)
  have step: "pool_step w 0 w2 (nfrags b)"
    using p(5) b(3) q(3) by (auto intro: pool_step_trans)
  then have "packets_received (METRICS w2) = packets_received (METRICS w)"
    by (simp add: pool_step_def only_pool_def)
  moreover have "recv_packet readv w =
      Some (b, w2\<lparr>METRICS := (METRICS w2)\<lparr>packets_received := packets_received (METRICS w2) + 1\<rparr>\<rparr>)"
    using pre p(1,3) vecs d n(1,2) q(5) trim
    by (simp add: recv_packet_def to_iovec_Some MAX_VECS_def vecs_def [symmetric] q_def [symmetric]
        PerfCounter_inc_def case_prod_unfold Let_def)
  moreover have "aligned (fragments b)"
    using trim q by (auto intro: trim_tail_shape)
  moreover have "length (head_bytes b) = min FRAGMENT_SIZE (length frame)"
  proof -
    have "fragments q \<noteq> []" "fragments b \<noteq> []"
      using len b(2) assms(3) by (auto simp: contents_def chain_bytes_def MRU_def)
    moreover have "frag_len (hd (fragments q)) = FRAGMENT_SIZE"
      using full_head [OF wf_buf_frags [OF q(1)]] len q(3) p(3) calculation(1)
      by (simp add: contents_def MRU_def FRAGMENT_SIZE_def)
    moreover have "frag_len (hd (fragments b)) = min n (frag_len (hd (fragments q)))"
      using trim_tail_head [OF trim q(1)] len n(1,2) by (simp add: MRU_def)
    ultimately show ?thesis
      using wf_buf_frags [OF b(1)] by (simp add: head_bytes_def length_frag_bytes n_def MRU_def FRAGMENT_SIZE_def)
  qed
  ultimately show ?thesis
    using b step by auto
qed

section \<open>Properties\<close>

text \<open>Inputs for the witnesses: an interface that accepts every frame, over the pool of the sample buffer.\<close>

definition sample_net :: net_world where
  "sample_net = buf_world.extend sample_pool
     \<lparr>tun_out = [], tun_writev = (\<lambda>sent vecs. int (length (concat vecs))),
      LOCAL_IPV4 = V4 [10, 0, 0, 2], LOCAL_IPV6 = V6 (replicate 15 0 @ [2]), NEXT_PACKET_ID = 7\<rparr>"

lemma sample_net_ok: "net_ok sample_net" "balanced sample_net 2" "tun_out sample_net = []"
  by (simp_all add: net_ok_def sample_net_def sample_pool_def buf_world.extend_def link_up_def pool_ok_def
      balanced_def FRAGMENT_SIZE_def METRICS_init_def PerfCounter_new_def)

text \<open>What \<open>readv\<close> does with a frame: it fills one vector after the other.\<close>

fun fill_vecs :: "bytes \<Rightarrow> bytes list \<Rightarrow> bytes list" where
  "fill_vecs frame [] = []"
| "fill_vecs frame (v # vs) = (take (length v) frame @ drop (length frame) v) # fill_vecs (drop (length v) frame) vs"

definition scatter :: "bytes \<Rightarrow> bytes list \<Rightarrow> int \<times> bytes list" where
  "scatter frame vecs = (int (min (length frame) (length (concat vecs))), fill_vecs frame vecs)"

lemma fill_vecs_concat:
  "concat (fill_vecs frame vecs) = take (length (concat vecs)) frame @ drop (length frame) (concat vecs)"
proof (induction frame vecs rule: fill_vecs.induct)
  case (2 frame v vs)
  then show ?case
    by (cases "length v \<le> length frame") (simp_all add: take_add)
qed simp

lemma fill_vecs_lengths: "map length (fill_vecs frame vecs) = map length vecs"
  by (induction frame vecs rule: fill_vecs.induct) auto

lemma delivers_scatter: "delivers (scatter frame) frame"
  by (simp add: delivers_def scatter_def fill_vecs_lengths fill_vecs_concat)

text \<open>
  C28: \<open>send_packet\<close> hands the contents of a packet of at most eight fragments to \<open>writev\<close> as one
  frame, counts it, and gives all its fragments back to the pool. A packet of more fragments makes
  \<open>to_iovec\<close> write behind its array, which panics.
\<close>

theorem send_packet_correct:
  assumes "wf_buf b" and "net_ok w" and "contents b \<noteq> []"
  shows "if nfrags b \<le> MAX_VECS
    then returns (send_packet b w) (\<lambda>w'. tun_out w' = tun_out w @ [contents b] \<and> net_ok w' \<and>
      packets_sent (METRICS w') = packets_sent (METRICS w) + 1 \<and>
      (\<forall>k. balanced w (k + nfrags b) \<longrightarrow> balanced w' k))
    else send_packet b w = None"
proof (cases "nfrags b \<le> MAX_VECS")
  case True
  then obtain w' where w': "send_packet b w = Some w'" and step: "net_step w (nfrags b) [contents b] w' 0"
    using send_packet_returns [OF assms] by (auto elim!: returnsE)
  have "packets_sent (METRICS w') = packets_sent (METRICS w) + 1" "\<forall>k. balanced w (k + nfrags b) \<longrightarrow> balanced w' k"
    using step by (simp_all add: net_step_def only_net_def)
  with True w' show ?thesis
    using net_step_net_ok [OF step assms(2)] net_step_tun_out [OF step] by simp
next
  case False
  then show ?thesis
    using send_packet_too_many [OF assms(1), of w] by simp
qed

theorem send_packet_correct_witness:
  "returns (send_packet sample_buffer sample_net) (\<lambda>w'. tun_out w' = [replicate 512 1 @ [2, 3, 4]])"
  using send_packet_correct [OF sample_buffer_wf sample_net_ok(1)]
  by (auto simp: sample_buffer_contents sample_buffer_length sample_net_ok(3) MAX_VECS_def elim!: returns_conseq)

text \<open>
  The first 2048 octets of a frame that the kernel delivers to the vectors \<open>recv_packet\<close> lends it
  come back as the contents of a valid buffer, whose unused fragments have gone back to the pool and
  whose fragments a checksum can be computed over.
\<close>

theorem recv_packet_correct:
  assumes "net_ok w" and "delivers readv frame" and "frame \<noteq> []"
  shows "returns (recv_packet readv w) (\<lambda>(b, w'). wf_buf b \<and> contents b = take MRU frame \<and> aligned (fragments b) \<and> net_ok w' \<and>
      packets_received (METRICS w') = packets_received (METRICS w) + 1 \<and>
      (\<forall>k. balanced w k \<longrightarrow> balanced w' (k + nfrags b)))"
proof -
  obtain b v where run: "recv_packet readv w =
        Some (b, v\<lparr>METRICS := (METRICS v)\<lparr>packets_received := packets_received (METRICS w) + 1\<rparr>\<rparr>)"
    and b: "wf_buf b" "contents b = take MRU frame" "aligned (fragments b)" and step: "pool_step w 0 v (nfrags b)"
    using recv_packet_returns [OF assms] by (auto elim!: returnsE)
  have "net_ok v" "\<forall>k. balanced w k \<longrightarrow> balanced v (k + nfrags b)"
    using net_step_net_ok [OF pool_net_step [OF step] assms(1)] step by (auto simp: pool_step_def)
  with run b show ?thesis
    by (simp add: net_ok_def link_up_def pool_ok_def balanced_def)
qed

theorem recv_packet_correct_witness:
  "returns (recv_packet (scatter [0x60, 1, 2]) sample_net) (\<lambda>(b, w'). contents b = [0x60, 1, 2])"
  using recv_packet_correct [OF sample_net_ok(1) delivers_scatter [of "[0x60, 1, 2]"]]
  by (auto simp: MRU_def elim!: returns_conseq)

end
