(* ===== verification/Ip_Output.thy ===== *)
theory Ip_Output
  imports Netif
begin

text \<open>
  The sending half of \<open>src/src/stack/ip.rs\<close>: \<open>ip_output\<close> puts an IPv4 or IPv6 header in front of a
  packet and hands it to the interface. The receiving half dispatches to the transport protocols
  and is in the theory of the receive path.
\<close>

definition PROTO_ICMPV4 :: u8 where "PROTO_ICMPV4 = 1"
definition PROTO_ICMPV6 :: u8 where "PROTO_ICMPV6 = 58"
definition PROTO_TCP :: u8 where "PROTO_TCP = 6"
definition PROTO_UDP :: u8 where "PROTO_UDP = 17"

definition IPV4_BASE_HEADER_LEN :: nat where "IPV4_BASE_HEADER_LEN = 20"
definition IPV6_HEADER_LEN :: nat where "IPV6_HEADER_LEN = 40"
definition DEFAULT_TTL :: u8 where "DEFAULT_TTL = 64"

text \<open>The stores of \<open>ip_output_v4\<close> and of \<open>ip_output_v6\<close> into the header they borrow.\<close>

definition put_ipv4_header :: "u16 \<Rightarrow> u16 \<Rightarrow> u8 \<Rightarrow> IPAddr \<Rightarrow> IPAddr \<Rightarrow> bytes \<Rightarrow> bytes option" where
  "put_ipv4_header packet_length packet_id protocol source_addr dest_addr h = do {
     h \<leftarrow> store 0 0x45 h;
     h \<leftarrow> slice_mut 2 4 (set_be16 packet_length) h;
     h \<leftarrow> slice_mut 4 6 (set_be16 packet_id) h;
     h \<leftarrow> store 8 DEFAULT_TTL h;
     h \<leftarrow> store 9 protocol h;
     h \<leftarrow> slice_mut 12 16 (copy_to source_addr) h;
     h \<leftarrow> slice_mut 16 20 (copy_to dest_addr) h;
     base \<leftarrow> subslice 0 IPV4_BASE_HEADER_LEN h;
     checksum \<leftarrow> compute_checksum base;
     slice_mut 10 12 (set_be16 checksum) h
   }"

definition put_ipv6_header :: "u16 \<Rightarrow> u8 \<Rightarrow> IPAddr \<Rightarrow> IPAddr \<Rightarrow> bytes \<Rightarrow> bytes option" where
  "put_ipv6_header payload_length protocol source_addr dest_addr h = do {
     h \<leftarrow> store 0 0x60 h;
     h \<leftarrow> slice_mut 4 6 (set_be16 payload_length) h;
     h \<leftarrow> store 6 protocol h;
     h \<leftarrow> store 7 DEFAULT_TTL h;
     h \<leftarrow> slice_mut 8 24 (copy_to source_addr) h;
     slice_mut 24 40 (copy_to dest_addr) h
   }"

definition ip_output_v4 :: "NetBuffer \<Rightarrow> u8 \<Rightarrow> IPAddr \<Rightarrow> 'a net_world_scheme \<Rightarrow> 'a net_world_scheme option" where
  "ip_output_v4 packet protocol dest_addr w = do {
     (packet, w) \<leftarrow> alloc_header IPV4_BASE_HEADER_LEN packet w;
     let packet_length = (of_nat (buf_length packet) :: u16);
     let packet_id = NEXT_PACKET_ID w;
     let w = w\<lparr>NEXT_PACKET_ID := packet_id + 1\<rparr>;
     packet \<leftarrow> header_mut (put_ipv4_header packet_length packet_id protocol (fst (get_ipaddr w)) dest_addr) packet;
     send_packet packet w
   }"

definition ip_output_v6 :: "NetBuffer \<Rightarrow> u8 \<Rightarrow> IPAddr \<Rightarrow> 'a net_world_scheme \<Rightarrow> 'a net_world_scheme option" where
  "ip_output_v6 packet protocol dest_addr w = do {
     let payload_length = (of_nat (buf_length packet) :: u16);
     (packet, w) \<leftarrow> alloc_header IPV6_HEADER_LEN packet w;
     packet \<leftarrow> header_mut (put_ipv6_header payload_length protocol (snd (get_ipaddr w)) dest_addr) packet;
     send_packet packet w
   }"

definition ip_output :: "NetBuffer \<Rightarrow> u8 \<Rightarrow> IPAddr \<Rightarrow> 'a net_world_scheme \<Rightarrow> 'a net_world_scheme option" where
  "ip_output packet protocol dest_addr w =
     (case dest_addr of
        V4 _ \<Rightarrow> ip_output_v4 packet protocol dest_addr w
      | V6 _ \<Rightarrow> ip_output_v6 packet protocol dest_addr w)"

section \<open>Header layout\<close>

text \<open>The headers as RFC 791 and RFC 8200 draw them, field by field.\<close>

definition ipv4_header :: "u16 \<Rightarrow> u16 \<Rightarrow> u8 \<Rightarrow> u16 \<Rightarrow> bytes \<Rightarrow> bytes \<Rightarrow> bytes" where
  "ipv4_header len ident protocol checksum src dst =
     [0x45, 0] @ be16 len @ be16 ident @ [0, 0, DEFAULT_TTL, protocol] @ be16 checksum @ src @ dst"

definition ipv6_header :: "u16 \<Rightarrow> u8 \<Rightarrow> bytes \<Rightarrow> bytes \<Rightarrow> bytes" where
  "ipv6_header len protocol src dst =
     [0x60, 0, 0, 0] @ be16 len @ [protocol, DEFAULT_TTL] @ src @ dst"

definition ipv4_checksum :: "u16 \<Rightarrow> u16 \<Rightarrow> u8 \<Rightarrow> bytes \<Rightarrow> bytes \<Rightarrow> u16" where
  "ipv4_checksum len ident protocol src dst =
     of_nat (65535 - fold16 (words_sum (ipv4_header len ident protocol 0 src dst)))"

text \<open>The datagram that carries \<open>payload\<close> from the stack's own address to \<open>dest\<close>.\<close>

definition ip_datagram :: "'a net_world_scheme \<Rightarrow> u8 \<Rightarrow> IPAddr \<Rightarrow> bytes \<Rightarrow> bytes" where
  "ip_datagram w protocol dest payload =
     (case dest of
        V4 dst \<Rightarrow>
          let len = of_nat (IPV4_BASE_HEADER_LEN + length payload); src = octets (LOCAL_IPV4 w);
              ident = NEXT_PACKET_ID w
          in ipv4_header len ident protocol (ipv4_checksum len ident protocol src dst) src dst @ payload
      | V6 dst \<Rightarrow> ipv6_header (of_nat (length payload)) protocol (octets (LOCAL_IPV6 w)) dst @ payload)"

lemma length_ipv4_header: "length src = 4 \<Longrightarrow> length dst = 4 \<Longrightarrow> length (ipv4_header len ident p c src dst) = 20"
  by (simp add: ipv4_header_def)

lemma length_ipv6_header: "length src = 16 \<Longrightarrow> length dst = 16 \<Longrightarrow> length (ipv6_header len p src dst) = 40"
  by (simp add: ipv6_header_def)

lemma ipv4_header_checksum:
  assumes "length src = 4" and "length dst = 4"
  shows "fold16 (words_sum (ipv4_header len ident p (ipv4_checksum len ident p src dst) src dst)) = 65535"
proof -
  define pre where "pre = [0x45, 0] @ be16 len @ be16 ident @ [0, 0, DEFAULT_TTL, p]"
  define r where "r = (of_nat (fold16 (words_sum (pre @ [0, 0] @ src @ dst))) :: u16)"
  have z: "be16 0 = [0, 0]"
    by (simp add: be16_def)
  have r: "unat r = fold16 (0 + words_sum (pre @ [0, 0] @ src @ dst))"
    using fold16_le [of "words_sum (pre @ [0, 0] @ src @ dst)"] by (simp add: r_def unsigned_of_nat take_bit_nat_eq_self less_Suc_eq_le)
  have "ipv4_checksum len ident p src dst = 0xffff XOR r"
    using r by (simp add: ipv4_checksum_def word_unat_eq_iff unat_xor_ffff unsigned_of_nat
        take_bit_nat_eq_self ipv4_header_def z pre_def)
  then show ?thesis
    using checksum_completes [OF r] by (simp add: ipv4_header_def pre_def)
qed

lemma compute_checksum_eq:
  assumes "bs \<noteq> []" and "length bs \<le> 131072"
  shows "compute_checksum bs = Some (of_nat (65535 - fold16 (words_sum bs)))"
proof -
  obtain r where "compute_checksum bs = Some (0xffff XOR r)" and "unat r = fold16 (words_sum bs)"
    using compute_checksum_returns [OF assms] by (auto elim!: returnsE)
  then show ?thesis
    by (simp add: word_unat_eq_iff unat_xor_ffff unsigned_of_nat take_bit_nat_eq_self)
qed

lemma copy_to_octets: "length bs = length (octets a) \<Longrightarrow> copy_to a bs = Some (octets a)"
  by (cases a) (simp_all add: copy_to_def)

lemma ipv4_header_writes:
  assumes "length (octets src) = 4" and "length (octets dst) = 4"
  shows "put_ipv4_header len ident p src dst (replicate 20 0 @ tail) = Some (ipv4_header len ident p (ipv4_checksum len ident p (octets src) (octets dst)) (octets src) (octets dst) @ tail)"
proof -
  obtain s0 s1 s2 s3 d0 d1 d2 d3 where o: "octets src = [s0, s1, s2, s3]" "octets dst = [d0, d1, d2, d3]"
    using assms by (auto simp: length_Suc_conv numeral_eq_Suc)
  define c where "c = ipv4_checksum len ident p (octets src) (octets dst)"
  have hdr: "compute_checksum (ipv4_header len ident p 0 (octets src) (octets dst)) = Some c"
    using assms by (simp add: compute_checksum_eq length_ipv4_header c_def ipv4_checksum_def flip: length_0_conv)
  have rep: "replicate 20 (0 :: u8) = [0, 0, 0, 0, 0, 0, 0, 0, 0, 0, 0, 0, 0, 0, 0, 0, 0, 0, 0, 0]"
    by (simp add: numeral_eq_Suc)
  obtain l0 l1 i0 i1 c0 c1 where be: "be16 len = [l0, l1]" "be16 ident = [i0, i1]" "be16 c = [c0, c1]" "be16 0 = [0, 0]"
    by (simp add: be16_def)
  have c: "ipv4_checksum len ident p [s0, s1, s2, s3] [d0, d1, d2, d3] = c"
    by (simp add: c_def o)
  show ?thesis
    using hdr
    by (simp add: put_ipv4_header_def put_ipv6_header_def rep slice_mut_def set_be16_eq copy_to_octets o IPV4_BASE_HEADER_LEN_def
        ipv4_header_def be c cong: bind_weak_cong)
qed

lemma ipv6_header_writes:
  assumes "length (octets src) = 16" and "length (octets dst) = 16"
  shows "put_ipv6_header len p src dst (replicate 40 0 @ tail) = Some (ipv6_header len p (octets src) (octets dst) @ tail)"
proof -
  have rep: "replicate 40 (0 :: u8) = [0, 0, 0, 0, 0, 0, 0, 0] @ replicate 16 0 @ replicate 16 0"
    by (simp add: numeral_eq_Suc)
  obtain l0 l1 where be: "be16 len = [l0, l1]"
    by (simp add: be16_def)
  show ?thesis
    using assms
    by (simp add: put_ipv4_header_def put_ipv6_header_def rep slice_mut_def set_be16_eq copy_to_octets ipv6_header_def be cong: bind_weak_cong)
qed

section \<open>Sending a datagram\<close>

text \<open>Whether \<open>alloc_header\<close> finds \<open>n\<close> octets of space in the first fragment.\<close>

definition room :: "nat \<Rightarrow> NetBuffer \<Rightarrow> bool" where
  "room n b \<longleftrightarrow> fragments b \<noteq> [] \<and> n \<le> range_start (hd (fragments b))"

definition frags_after :: "nat \<Rightarrow> NetBuffer \<Rightarrow> nat" where
  "frags_after n b = (if room n b then nfrags b else Suc (nfrags b))"

definition ip_header_len :: "IPAddr \<Rightarrow> nat" where
  "ip_header_len dest = (if is_v4 dest then IPV4_BASE_HEADER_LEN else IPV6_HEADER_LEN)"

lemma net_step_packet_id: "net_step w n xs v m \<Longrightarrow> net_step w n xs (v\<lparr>NEXT_PACKET_ID := i\<rparr>) m"
  by (cases w; cases v) (simp add: net_step_def only_net_def pool_ok_def balanced_def)

lemma nfrags_tl: "fragments b \<noteq> [] \<Longrightarrow> nfrags b = Suc (length (tl (fragments b)))"
  by (cases "fragments b") simp_all

lemma alloc_header_split:
  assumes "wf_buf b" and "pool_ok w" and "0 < n" and "n \<le> FRAGMENT_SIZE"
    and "length (contents b) + n \<le> USIZE_MAX"
  shows "returns (alloc_header n b w) (\<lambda>(b', w'). wf_buf b' \<and> fragments b' \<noteq> [] \<and>
     (\<exists>tail. head_bytes b' = replicate n 0 @ tail \<and> tail @ rest_bytes b' = contents b) \<and>
     nfrags b' = frags_after n b \<and> pool_step w (nfrags b) w' (nfrags b') \<and>
     (even n \<and> aligned (fragments b) \<longrightarrow> aligned (fragments b')) \<and>
     range_start (hd (fragments b')) = (if room n b then range_start (hd (fragments b)) - n else FRAGMENT_SIZE - n))"
proof -
  have nf: "nfrags b' = frags_after n b"
    if "fragments b' \<noteq> []" "tl (fragments b') = (if room n b then tl (fragments b) else fragments b)" for b'
    using that nfrags_tl [of b'] nfrags_tl [of b] by (auto simp: frags_after_def room_def split: if_splits)
  show ?thesis
    using alloc_header_returns [OF assms]
    by (rule returns_conseq)
      (auto split: if_splits intro!: nf simp: room_def rest_bytes_def contents_head_rest not_less contents_def [of b] chain_bytes_def)
qed

text \<open>\<open>sends m b w bs n\<close>: the computation \<open>m\<close> comes down to sending one packet with the octets \<open>bs\<close>.\<close>

definition sends :: "'a net_world_scheme option \<Rightarrow> NetBuffer \<Rightarrow> 'a net_world_scheme \<Rightarrow> bytes \<Rightarrow> nat \<Rightarrow> bool" where
  "sends m b w bs n \<longleftrightarrow> (\<exists>q v. m = send_packet q v \<and> wf_buf q \<and> contents q = bs \<and> nfrags q = n \<and>
     net_step w (nfrags b) [] v (nfrags q))"

lemma ip_output_v4_sends:
  assumes "wf_buf b" and "net_ok w" and "wf_ip dest" and "is_v4 dest"
    and "length (contents b) + 20 \<le> USIZE_MAX"
  shows "sends (ip_output_v4 b p dest w) b w (ip_datagram w p dest (contents b)) (frags_after 20 b)"
proof -
  obtain b1 w1 tail where alloc: "alloc_header 20 b w = Some (b1, w1)"
    and b1: "wf_buf b1" "fragments b1 \<noteq> []" "head_bytes b1 = replicate 20 0 @ tail"
      "tail @ rest_bytes b1 = contents b" "nfrags b1 = frags_after 20 b" "pool_step w (nfrags b) w1 (nfrags b1)"
    using alloc_header_split [of b w 20] assms by (auto simp: net_ok_pool FRAGMENT_SIZE_def elim!: returnsE)
  define v where "v = w1\<lparr>NEXT_PACKET_ID := NEXT_PACKET_ID w1 + 1\<rparr>"
  define len where "len = (of_nat (buf_length b1) :: u16)"
  have fields: "NEXT_PACKET_ID w1 = NEXT_PACKET_ID w" "LOCAL_IPV4 w1 = LOCAL_IPV4 w"
    using b1(6) only_pool_fields [of w w1] by (simp_all add: pool_step_def)
  have src: "length (octets (LOCAL_IPV4 w)) = 4" "length (octets dest) = 4"
    using assms(2-4) by (cases "LOCAL_IPV4 w"; cases dest; simp add: net_ok_def)+
  define hdr where "hdr = ipv4_header len (NEXT_PACKET_ID w) p
    (ipv4_checksum len (NEXT_PACKET_ID w) p (octets (LOCAL_IPV4 w)) (octets dest)) (octets (LOCAL_IPV4 w)) (octets dest)"
  have len: "len = of_nat (20 + length (contents b))"
    using length_contents [OF b1(1)] contents_head_rest [OF b1(2)] b1(3) arg_cong [OF b1(4), of length]
    by (simp add: len_def)
  have step: "net_step w (nfrags b) [] v (nfrags b1)"
    unfolding v_def using b1(6) by (intro net_step_packet_id pool_net_step)
  note writes = ipv4_header_writes [OF src, where tail = tail and len = len and ident = "NEXT_PACKET_ID w" and p = p, folded b1(3) hdr_def]
  obtain b2 where hm: "header_mut (put_ipv4_header len (NEXT_PACKET_ID w) p (LOCAL_IPV4 w) dest) b1 = Some b2"
    and b2: "wf_buf b2" "head_bytes b2 = hdr @ tail" "fragments b2 \<noteq> []" "tl (fragments b2) = tl (fragments b1)"
    using header_mut_returns [OF b1(1,2), of "put_ipv4_header len (NEXT_PACKET_ID w) p (LOCAL_IPV4 w) dest" "hdr @ tail"]
      writes src b1(3)
    by (auto simp: hdr_def length_ipv4_header elim!: returnsE)
  have cont: "contents b2 = hdr @ contents b"
    using b2 b1(4) by (simp add: contents_head_rest rest_bytes_def)
  have "hdr @ contents b = ip_datagram w p dest (contents b)"
    using assms(4) by (cases dest) (simp_all add: ip_datagram_def hdr_def len IPV4_BASE_HEADER_LEN_def Let_def)
  moreover have "nfrags b2 = nfrags b1"
    using b2 b1(2) nfrags_tl [of b1] nfrags_tl [of b2] by simp
  moreover have "ip_output_v4 b p dest w = send_packet b2 v"
    using alloc hm fields
    by (simp add: ip_output_v4_def IPV4_BASE_HEADER_LEN_def get_ipaddr_def v_def len_def Let_def)
  ultimately show ?thesis
    using b2(1) cont step b1(5) unfolding sends_def by metis
qed

lemma ip_output_v6_sends:
  assumes "wf_buf b" and "net_ok w" and "wf_ip dest" and "\<not> is_v4 dest"
    and "length (contents b) + 40 \<le> USIZE_MAX"
  shows "sends (ip_output_v6 b p dest w) b w (ip_datagram w p dest (contents b)) (frags_after 40 b)"
proof -
  obtain b1 w1 tail where alloc: "alloc_header 40 b w = Some (b1, w1)"
    and b1: "wf_buf b1" "fragments b1 \<noteq> []" "head_bytes b1 = replicate 40 0 @ tail"
      "tail @ rest_bytes b1 = contents b" "nfrags b1 = frags_after 40 b" "pool_step w (nfrags b) w1 (nfrags b1)"
    using alloc_header_split [of b w 40] assms by (auto simp: net_ok_pool FRAGMENT_SIZE_def elim!: returnsE)
  define len where "len = (of_nat (buf_length b) :: u16)"
  have fields: "LOCAL_IPV6 w1 = LOCAL_IPV6 w"
    using b1(6) only_pool_fields [of w w1] by (simp_all add: pool_step_def)
  have src: "length (octets (LOCAL_IPV6 w)) = 16" "length (octets dest) = 16"
    using assms(2-4) by (cases "LOCAL_IPV6 w"; cases dest; simp add: net_ok_def)+
  define hdr where "hdr = ipv6_header len p (octets (LOCAL_IPV6 w)) (octets dest)"
  have step: "net_step w (nfrags b) [] w1 (nfrags b1)"
    using b1(6) by (rule pool_net_step)
  note writes = ipv6_header_writes [OF src, where tail = tail and len = len and p = p, folded b1(3) hdr_def]
  obtain b2 where hm: "header_mut (put_ipv6_header len p (LOCAL_IPV6 w) dest) b1 = Some b2"
    and b2: "wf_buf b2" "head_bytes b2 = hdr @ tail" "fragments b2 \<noteq> []" "tl (fragments b2) = tl (fragments b1)"
    using header_mut_returns [OF b1(1,2), of "put_ipv6_header len p (LOCAL_IPV6 w) dest" "hdr @ tail"]
      writes src b1(3)
    by (auto simp: hdr_def length_ipv6_header elim!: returnsE)
  have cont: "contents b2 = hdr @ contents b"
    using b2 b1(4) by (simp add: contents_head_rest rest_bytes_def)
  have "hdr @ contents b = ip_datagram w p dest (contents b)"
    using assms(1,4) by (cases dest) (simp_all add: ip_datagram_def hdr_def len_def length_contents)
  moreover have "nfrags b2 = nfrags b1"
    using b2 b1(2) nfrags_tl [of b1] nfrags_tl [of b2] by simp
  moreover have "ip_output_v6 b p dest w = send_packet b2 w1"
    using alloc hm fields
    by (simp add: ip_output_v6_def IPV6_HEADER_LEN_def get_ipaddr_def len_def Let_def)
  ultimately show ?thesis
    using b2(1) cont step b1(5) unfolding sends_def by metis
qed

lemma ip_output_sends:
  assumes "wf_buf b" and "net_ok w" and "wf_ip dest" and "length (contents b) + 40 \<le> USIZE_MAX"
  shows "sends (ip_output b p dest w) b w (ip_datagram w p dest (contents b)) (frags_after (ip_header_len dest) b)"
  using assms ip_output_v4_sends [of b w dest p] ip_output_v6_sends [of b w dest p]
  by (cases dest) (simp_all add: ip_output_def ip_header_len_def IPV4_BASE_HEADER_LEN_def IPV6_HEADER_LEN_def)

lemma ip_datagram_nonempty: "ip_datagram w p dest bs \<noteq> []"
  by (cases dest) (simp_all add: ip_datagram_def ipv4_header_def ipv6_header_def Let_def)

text \<open>The packet goes out, or \<open>to_iovec\<close> panics because it has too many fragments.\<close>

lemma ip_output_returns:
  assumes "wf_buf b" and "net_ok w" and "wf_ip dest"
    and "length (contents b) + 40 \<le> USIZE_MAX" and "frags_after (ip_header_len dest) b \<le> MAX_VECS"
  shows "returns (ip_output b p dest w)
     (\<lambda>w'. net_step w (nfrags b) [ip_datagram w p dest (contents b)] w' 0)"
proof -
  obtain q v where q: "ip_output b p dest w = send_packet q v" "wf_buf q" "contents q = ip_datagram w p dest (contents b)"
      "nfrags q = frags_after (ip_header_len dest) b" "net_step w (nfrags b) [] v (nfrags q)"
    using ip_output_sends [OF assms(1-4)] unfolding sends_def by blast
  have "returns (send_packet q v) (\<lambda>w'. net_step v (nfrags q) [contents q] w' 0 \<and> NEXT_PACKET_ID w' = NEXT_PACKET_ID v)"
    using q(3,4) assms(5) by (intro send_packet_returns [OF q(2) net_step_net_ok [OF q(5) assms(2)]]) (simp_all add: ip_datagram_nonempty)
  then show ?thesis
    unfolding q(1) by (rule returns_conseq) (use q(3) net_step_trans_Nil [OF q(5)] in simp)
qed

lemma ip_output_too_many:
  assumes "wf_buf b" and "net_ok w" and "wf_ip dest"
    and "length (contents b) + 40 \<le> USIZE_MAX" and "MAX_VECS < frags_after (ip_header_len dest) b"
  shows "ip_output b p dest w = None"
  using ip_output_sends [OF assms(1-4), of p] assms(5) unfolding sends_def by (auto simp: send_packet_too_many)

lemma ip_datagram_payload:
  assumes "net_ok w" and "wf_ip dest"
  shows "drop (ip_header_len dest) (ip_datagram w p dest bs) = bs"
proof (cases dest)
  case (V4 d)
  then show ?thesis
    using assms by (cases "LOCAL_IPV4 w")
      (simp_all add: ip_datagram_def net_ok_def length_ipv4_header ip_header_len_def IPV4_BASE_HEADER_LEN_def Let_def)
next
  case (V6 d)
  then show ?thesis
    using assms by (cases "LOCAL_IPV6 w")
      (simp_all add: ip_datagram_def net_ok_def length_ipv6_header ip_header_len_def IPV6_HEADER_LEN_def Let_def)
qed

lemma ip_datagram_checksum:
  assumes "net_ok w" and "wf_ip dest"
  shows "is_v4 dest \<longrightarrow> compute_checksum (take 20 (ip_datagram w p dest bs)) = Some 0"
proof (cases dest)
  case (V4 d)
  have len: "length (octets (LOCAL_IPV4 w)) = 4" "length (octets dest) = 4"
    using assms V4 by (cases "LOCAL_IPV4 w"; simp add: net_ok_def)+
  then obtain hdr where "ip_datagram w p dest bs = hdr @ bs" "length hdr = 20" "fold16 (words_sum hdr) = 65535"
    using V4 by (auto simp: ip_datagram_def length_ipv4_header ipv4_header_checksum Let_def intro!: that)
  then show ?thesis
    using compute_checksum_zero_iff [of hdr] by (cases "hdr = []") auto
qed simp

section \<open>Properties\<close>

text \<open>
  C18: \<open>ip_output\<close> sends one frame: the header of RFC 791 or RFC 8200, from the address of the stack to
  \<open>dest\<close>, followed by the packet. The checksum in an IPv4 header is one the receiver accepts, the
  payload is not touched, and every fragment of the packet goes back to the pool. A packet that
  has more than eight fragments with its header makes it panic.
\<close>

theorem ip_output_correct:
  assumes "wf_buf b" and "net_ok w" and "wf_ip dest" and "length (contents b) + 40 \<le> USIZE_MAX"
  shows "if frags_after (ip_header_len dest) b \<le> MAX_VECS
    then returns (ip_output b p dest w) (\<lambda>w'. tun_out w' = tun_out w @ [ip_datagram w p dest (contents b)] \<and>
      drop (ip_header_len dest) (ip_datagram w p dest (contents b)) = contents b \<and>
      (is_v4 dest \<longrightarrow> compute_checksum (take 20 (ip_datagram w p dest (contents b))) = Some 0) \<and>
      net_ok w' \<and> (\<forall>k. balanced w (k + nfrags b) \<longrightarrow> balanced w' k))
    else ip_output b p dest w = None"
proof (cases "frags_after (ip_header_len dest) b \<le> MAX_VECS")
  case True
  obtain w' where w': "ip_output b p dest w = Some w'" and step: "net_step w (nfrags b) [ip_datagram w p dest (contents b)] w' 0"
    using ip_output_returns [OF assms True] by (auto elim!: returnsE)
  have "drop (ip_header_len dest) (ip_datagram w p dest (contents b)) = contents b"
    "is_v4 dest \<longrightarrow> compute_checksum (take 20 (ip_datagram w p dest (contents b))) = Some 0"
    using ip_datagram_payload [OF assms(2,3)] ip_datagram_checksum [OF assms(2,3)] by blast+
  with True w' net_step_net_ok [OF step assms(2)] net_step_tun_out [OF step] step show ?thesis
    by (simp add: net_step_def)
qed (simp add: ip_output_too_many [OF assms])

theorem ip_output_correct_witness:
  "returns (ip_output sample_buffer PROTO_UDP (V4 [10, 0, 0, 1]) sample_net) (\<lambda>w'.
     tun_out w' = [ip_datagram sample_net PROTO_UDP (V4 [10, 0, 0, 1]) (replicate 512 1 @ [2, 3, 4])])"
proof -
  have "frags_after (ip_header_len (V4 [10, 0, 0, 1])) sample_buffer \<le> MAX_VECS"
    by (simp add: frags_after_def room_def sample_buffer_length(2) MAX_VECS_def)
  with ip_output_correct [OF sample_buffer_wf sample_net_ok(1), of "V4 [10, 0, 0, 1]" PROTO_UDP] show ?thesis
    by (auto simp: sample_buffer_contents sample_net_ok(3) USIZE_MAX_def elim!: returns_conseq)
qed

end
