(* ===== verification/Transport.thy ===== *)
theory Transport
  imports Ip_Output
begin

text \<open>
  What UDP, TCP and ICMP share when they send: the pseudo header of RFC 768, 793 and 8200, a
  checksum field that is computed over the packet and filled in, and the interface of the IP
  layer they hand the packet to. The interface is the locale \<open>datagram_service\<close>; the sending
  lemmas of the protocols are proved inside it and \<open>ip_output\<close> is interpreted for it.
\<close>

section \<open>The pseudo header\<close>

definition pseudo_header :: "IPAddr \<Rightarrow> IPAddr \<Rightarrow> nat \<Rightarrow> u8 \<Rightarrow> bytes" where
  "pseudo_header src dst len protocol =
     (if is_v4 dst then octets src @ octets dst @ [0, protocol] @ be16 (of_nat len)
      else octets src @ octets dst @ be32 (of_nat len) @ [0, 0, 0, protocol])"

definition pseudo_sum :: "IPAddr \<Rightarrow> IPAddr \<Rightarrow> nat \<Rightarrow> u8 \<Rightarrow> nat" where
  "pseudo_sum src dst len protocol = words_sum (pseudo_header src dst len protocol)"

definition same_family :: "IPAddr \<Rightarrow> IPAddr \<Rightarrow> bool" where
  "same_family a b \<longleftrightarrow> (is_v4 a \<longleftrightarrow> is_v4 b) \<and> wf_ip a \<and> wf_ip b"

lemma compute_pseudo_header_checksum_eq:
  assumes "same_family src dst"
  shows "compute_pseudo_header_checksum src dst len protocol =
    compute_ones_comp 0 (pseudo_header src dst len protocol)"
proof (cases dst)
  case (V4 d)
  with assms have len4: "length (octets src) = 4" "length d = 4"
    by (cases src; simp add: same_family_def)+
  have rep: "replicate 12 (0 :: u8) = replicate 4 0 @ replicate 4 0 @ [0, 0, 0, 0]"
    by (simp add: numeral_eq_Suc)
  show ?thesis
    using V4 len4
    by (simp add: compute_pseudo_header_checksum_def pseudo_header_def rep slice_mut_def
        copy_to_octets set_be16_eq list_update_append cong: bind_weak_cong)
next
  case (V6 d)
  with assms have len16: "length (octets src) = 16" "length d = 16"
    by (cases src; simp add: same_family_def)+
  have rep: "replicate 40 (0 :: u8) = replicate 16 0 @ replicate 16 0 @ [0, 0, 0, 0, 0, 0, 0, 0]"
    by (simp add: numeral_eq_Suc)
  obtain l0 l1 l2 l3 where be: "be32 (of_nat len) = [l0, l1, l2, l3]"
    by (simp add: be32_def)
  show ?thesis
    using V6 len16
    by (simp add: compute_pseudo_header_checksum_def pseudo_header_def rep slice_mut_def
        copy_to_octets set_be32_eq be list_update_append cong: bind_weak_cong)
qed

lemma compute_pseudo_header_checksum_returns:
  assumes "same_family src dst"
  shows "returns (compute_pseudo_header_checksum src dst len protocol)
    (\<lambda>r. unat r = fold16 (pseudo_sum src dst len protocol))"
proof -
  have "length (octets src) \<le> 16" "length (octets dst) \<le> 16"
    using assms by (cases src; cases dst; simp add: same_family_def)+
  then have "length (pseudo_header src dst len protocol) \<le> 131072"
    "pseudo_header src dst len protocol \<noteq> []"
    by (auto simp: pseudo_header_def)
  then show ?thesis
    using compute_ones_comp_returns [of "pseudo_header src dst len protocol" 0]
    by (simp add: compute_pseudo_header_checksum_eq [OF assms] pseudo_sum_def)
qed

section \<open>Filling in the checksum\<close>

definition complement_sum :: "nat \<Rightarrow> u16" where
  "complement_sum n = of_nat (65535 - fold16 n)"

lemma complement_sum_xor: "unat r = fold16 n \<Longrightarrow> r XOR 0xffff = complement_sum n"
  by (simp add: complement_sum_def word_unat_eq_iff unat_xor_ffff unsigned_of_nat
      take_bit_nat_eq_self xor.commute [of r])

lemma complement_sum_completes:
  assumes "even (length pre)"
  shows "fold16 (s + words_sum (pre @ be16 (complement_sum (s + words_sum (pre @ [0, 0] @ post))) @ post)) = 65535"
proof -
  define n where "n = s + words_sum (pre @ [0, 0] @ post)"
  have "unat (complement_sum n) = 65535 - fold16 n"
    by (simp add: complement_sum_def unsigned_of_nat take_bit_nat_eq_self)
  then show ?thesis
    using fold16_complement [of n] by (simp add: words_sum_field [OF assms] n_def add.assoc)
qed

lemma complement_sum_fold: "complement_sum (fold16 s + n) = complement_sum (s + n)"
  by (simp add: complement_sum_def fold16_add)

lemma nfrags_of_tl: "fragments b \<noteq> [] \<Longrightarrow> fragments c \<noteq> [] \<Longrightarrow> tl (fragments c) = tl (fragments b) \<Longrightarrow> nfrags c = nfrags b"
  by (cases "fragments b"; cases "fragments c") simp_all

text \<open>The stores of a checksum into a header whose checksum field still is zero.\<close>

lemma checksum_fill:
  assumes "wf_buf b" and "aligned (fragments b)" and "fragments b \<noteq> []"
    and "head_bytes b = pre @ [0, 0] @ post" and "length pre = k" and "even k"
  shows "returns (do {
       s \<leftarrow> compute_buffer_ones_comp ph b;
       header_mut (slice_mut k (k + 2) (set_be16 (s XOR 0xffff))) b
     }) (\<lambda>b'. wf_buf b' \<and>
       contents b' = pre @ be16 (complement_sum (unat ph + words_sum (contents b))) @ post @ rest_bytes b \<and>
       nfrags b' = nfrags b \<and> range_start (hd (fragments b')) = range_start (hd (fragments b)))"
proof -
  obtain s where s: "compute_buffer_ones_comp ph b = Some s" "unat s = fold16 (unat ph + words_sum (contents b))"
    using compute_buffer_ones_comp_returns [OF assms(1,2)] by (auto elim!: returnsE)
  define c where "c = complement_sum (unat ph + words_sum (contents b))"
  have xor: "s XOR 0xffff = c"
    using s(2) by (simp add: c_def complement_sum_xor)
  have "slice_mut k (k + 2) (set_be16 c) (head_bytes b) = Some (pre @ be16 c @ post)"
    using assms(4,5) by (simp add: slice_mut_def set_be16_eq)
  moreover have "length (pre @ be16 c @ post) = length (head_bytes b)"
    using assms(4) by simp
  ultimately obtain q where q: "header_mut (slice_mut k (k + 2) (set_be16 c)) b = Some q" "wf_buf q"
      "head_bytes q = pre @ be16 c @ post" "fragments q \<noteq> []" "tl (fragments q) = tl (fragments b)"
      "range_start (hd (fragments q)) = range_start (hd (fragments b))"
    using header_mut_returns [OF assms(1,3)] by (blast elim: returnsE)
  then have "contents q = pre @ be16 c @ post @ rest_bytes b" "nfrags q = nfrags b"
    using assms(3) nfrags_of_tl [of b q] by (simp_all add: contents_head_rest rest_bytes_def)
  with q show ?thesis
    by (simp add: s(1) xor c_def)
qed

section \<open>How much fits in one frame\<close>

lemma packed_fits:
  assumes "wf_buf b" and "packed (fragments b)" and "length (contents b) \<le> n * FRAGMENT_SIZE"
  shows "nfrags b \<le> n"
proof -
  have "nfrags b = (length (contents b) + (FRAGMENT_SIZE - 1)) div FRAGMENT_SIZE"
    using packed_count [OF wf_buf_frags [OF assms(1)] assms(2)] by (simp add: contents_def)
  also have "\<dots> \<le> (n * FRAGMENT_SIZE + (FRAGMENT_SIZE - 1)) div FRAGMENT_SIZE"
    using assms(3) by (intro div_le_mono) simp
  also have "\<dots> = n"
    by (simp add: FRAGMENT_SIZE_def)
  finally show ?thesis .
qed

lemma packed_length:
  assumes "wf_buf b" and "nfrags b \<le> n"
  shows "length (contents b) \<le> n * FRAGMENT_SIZE"
proof -
  have "length (chain_bytes fs) \<le> length fs * FRAGMENT_SIZE" if "\<forall>f \<in> set fs. wf_frag f" for fs
    using that by (induction fs) (auto simp: length_frag_bytes frag_len_def wf_frag_def)
  then have "length (contents b) \<le> nfrags b * FRAGMENT_SIZE"
    using wf_buf_frags [OF assms(1)] by (simp add: contents_def)
  also have "\<dots> \<le> n * FRAGMENT_SIZE"
    using assms(2) by simp
  finally show ?thesis .
qed

definition MAX_PAYLOAD :: nat where
  "MAX_PAYLOAD = (MAX_VECS - 1) * FRAGMENT_SIZE"

lemma packed_MAX_PAYLOAD:
  "wf_buf b \<Longrightarrow> packed (fragments b) \<Longrightarrow> length (contents b) \<le> MAX_PAYLOAD \<Longrightarrow> Suc (nfrags b) \<le> MAX_VECS"
  using packed_fits [of b "MAX_VECS - 1"] by (simp add: MAX_PAYLOAD_def MAX_VECS_def)

lemma MAX_PAYLOAD_eq: "MAX_PAYLOAD = 3584"
  by (simp add: MAX_PAYLOAD_def MAX_VECS_def FRAGMENT_SIZE_def)

lemma MAX_PAYLOAD_bound: "n \<le> MAX_PAYLOAD \<Longrightarrow> h \<le> FRAGMENT_SIZE \<Longrightarrow> n + h + 40 \<le> USIZE_MAX"
  by (simp add: MAX_PAYLOAD_eq FRAGMENT_SIZE_def USIZE_MAX_def)

lemma replicate_small:
  "replicate 4 (0 :: u8) = [0, 0, 0, 0]"
  "replicate 8 (0 :: u8) = [0, 0, 0, 0, 0, 0, 0, 0]"
  by (simp_all add: numeral_eq_Suc)

section \<open>The interface of the IP layer\<close>

locale datagram_service =
  fixes emit :: "NetBuffer \<Rightarrow> u8 \<Rightarrow> IPAddr \<Rightarrow> 'a net_world_scheme \<Rightarrow> 'a net_world_scheme option"
    and datagram :: "'a net_world_scheme \<Rightarrow> u8 \<Rightarrow> IPAddr \<Rightarrow> bytes \<Rightarrow> bytes"
    and reserve :: "IPAddr \<Rightarrow> nat"
  assumes emit_sends: "wf_buf b \<Longrightarrow> net_ok w \<Longrightarrow> wf_ip dest \<Longrightarrow>
      length (contents b) + 40 \<le> USIZE_MAX \<Longrightarrow> frags_after (reserve dest) b \<le> MAX_VECS \<Longrightarrow>
      returns (emit b p dest w) (\<lambda>w'. net_step w (nfrags b) [datagram w p dest (contents b)] w' 0)"
    and emit_too_many: "wf_buf b \<Longrightarrow> net_ok w \<Longrightarrow> wf_ip dest \<Longrightarrow>
      length (contents b) + 40 \<le> USIZE_MAX \<Longrightarrow> MAX_VECS < frags_after (reserve dest) b \<Longrightarrow> emit b p dest w = None"
    and datagram_stable: "only_pool w v \<Longrightarrow> datagram v p dest bs = datagram w p dest bs"
    and reserve_small: "reserve dest \<le> 40"
begin

text \<open>
  A transport header of \<open>h\<close> octets in front of packed data leaves room for the IP header in its
  fragment, so the packet goes out in one fragment more than the data has.
\<close>

lemma header_then:
  assumes "wf_buf b" and "packed (fragments b)" and "net_ok w" and "0 < h" and "even h" and "h + 40 \<le> FRAGMENT_SIZE"
    and "length (contents b) + h \<le> USIZE_MAX"
    and "\<And>p v. wf_buf p \<Longrightarrow> aligned (fragments p) \<Longrightarrow> fragments p \<noteq> [] \<Longrightarrow> head_bytes p = replicate h 0 \<Longrightarrow>
      rest_bytes p = contents b \<Longrightarrow> nfrags p = Suc (nfrags b) \<Longrightarrow>
      range_start (hd (fragments p)) = FRAGMENT_SIZE - h \<Longrightarrow> buf_length p = h + length (contents b) \<Longrightarrow>
      pool_step w (nfrags b) v (nfrags p) \<Longrightarrow> net_ok v \<Longrightarrow> returns (k (p, v)) Q"
  shows "returns (Option.bind (alloc_header h b w) k) Q"
proof -
  have start: "fragments b = [] \<or> range_start (hd (fragments b)) < h"
    using assms(2,4) by (cases "fragments b") (auto simp: packed_Cons)
  have "returns (alloc_header h b w) (\<lambda>(p, v). wf_buf p \<and> aligned (fragments p) \<and> fragments p \<noteq> [] \<and>
     head_bytes p = replicate h 0 \<and> rest_bytes p = contents b \<and> nfrags p = Suc (nfrags b) \<and>
     range_start (hd (fragments p)) = FRAGMENT_SIZE - h \<and> buf_length p = h + length (contents b) \<and>
     pool_step w (nfrags b) v (nfrags p) \<and> net_ok v)"
    using alloc_header_returns [OF assms(1) net_ok_pool [OF assms(3)] assms(4), of] assms start
    by (auto simp: packed_aligned rest_bytes_def contents_def [of b] nfrags_tl length_contents [symmetric]
        elim!: returns_conseq dest: pool_net_step [THEN net_step_net_ok] simp del: length_tl)
  then show ?thesis
    by (rule returns_bindI) (auto intro: assms(8))
qed

lemma fill_and_emit:
  assumes "wf_buf p" and "aligned (fragments p)" and "fragments p \<noteq> []" and "net_ok v"
    and "head_bytes p = pre @ [0, 0] @ post" and "length pre = k" and "even k"
    and "40 \<le> range_start (hd (fragments p))"
  shows "\<exists>q. do {
       s \<leftarrow> compute_buffer_ones_comp ph p;
       p \<leftarrow> header_mut (slice_mut k (k + 2) (set_be16 (s XOR 0xffff))) p;
       emit p proto dest v
     } = emit q proto dest v \<and> wf_buf q \<and>
     contents q = pre @ be16 (complement_sum (unat ph + words_sum (contents p))) @ post @ rest_bytes p \<and>
     nfrags q = nfrags p \<and> frags_after (reserve dest) q = nfrags p"
proof -
  obtain s q where s: "compute_buffer_ones_comp ph p = Some s"
    and q: "header_mut (slice_mut k (k + 2) (set_be16 (s XOR 0xffff))) p = Some q"
    and q': "wf_buf q" "contents q = pre @ be16 (complement_sum (unat ph + words_sum (contents p))) @ post @ rest_bytes p"
      "nfrags q = nfrags p" "range_start (hd (fragments q)) = range_start (hd (fragments p))"
    using checksum_fill [OF assms(1,2,3,5,6,7), of ph] by (auto simp: returns_bind elim!: returnsE)
  have "frags_after (reserve dest) q = nfrags p"
    using q'(3,4) assms(3,8) reserve_small [of dest] by (auto simp: frags_after_def room_def)
  with s q q' show ?thesis
    by auto
qed

text \<open>
  The common shape of the senders: allocate the header, fill it in (\<open>put\<close>), sum the pseudo header
  (\<open>phm\<close>), sum the packet, store the checksum and hand the packet over. The packet is sent if it has
  at most \<open>MAX_VECS\<close> fragments with its header; otherwise the sender panics.
\<close>

lemma header_and_emit:
  fixes proto :: u8
  assumes b: "wf_buf b" "packed (fragments b)" "length (contents b) + h + 40 \<le> USIZE_MAX"
    and w: "net_ok w" "wf_ip dest"
    and h: "0 < h" "even h" "h + 40 \<le> FRAGMENT_SIZE"
    and put: "\<And>p. buf_length p = h + length (contents b) \<Longrightarrow> put p (replicate h 0) = Some (pre @ [0, 0] @ post)"
      "length pre + 2 + length post = h" "length pre = k" "even k"
    and phm: "\<And>p q v. buf_length p = h + length (contents b) \<Longrightarrow> buf_length q = h + length (contents b) \<Longrightarrow>
      only_pool w v \<Longrightarrow> phm p q v = Some ph"
  defines "out \<equiv> do {
       (p, v) \<leftarrow> alloc_header h b w;
       q \<leftarrow> header_mut (put p) p;
       c \<leftarrow> phm p q v;
       s \<leftarrow> compute_buffer_ones_comp c q;
       q \<leftarrow> header_mut (slice_mut k (k + 2) (set_be16 (s XOR 0xffff))) q;
       emit q proto dest v
     }"
  shows "if Suc (nfrags b) \<le> MAX_VECS
    then returns out (\<lambda>w'. net_step w (nfrags b) [datagram w proto dest
        (pre @ be16 (complement_sum (unat ph + words_sum (pre @ [0, 0] @ post @ contents b))) @ post @ contents b)] w' 0)
    else out = None"
proof -
  obtain p v where pv: "alloc_header h b w = Some (p, v)"
    and p: "wf_buf p" "aligned (fragments p)" "fragments p \<noteq> []" "head_bytes p = replicate h 0"
      "rest_bytes p = contents b" "nfrags p = Suc (nfrags b)" "range_start (hd (fragments p)) = FRAGMENT_SIZE - h"
      "buf_length p = h + length (contents b)"
    and step: "pool_step w (nfrags b) v (nfrags p)" and v: "net_ok v"
  proof -
    have "length (contents b) + h \<le> USIZE_MAX"
      using b(3) by simp
    from header_then [OF b(1,2) w(1) h this, where k = Some and Q = "\<lambda>(p, v). wf_buf p \<and> aligned (fragments p) \<and>
        fragments p \<noteq> [] \<and> head_bytes p = replicate h 0 \<and> rest_bytes p = contents b \<and> nfrags p = Suc (nfrags b) \<and>
        range_start (hd (fragments p)) = FRAGMENT_SIZE - h \<and> buf_length p = h + length (contents b) \<and>
        pool_step w (nfrags b) v (nfrags p) \<and> net_ok v"]
    show thesis
      using that by (auto elim!: returnsE)
  qed
  have "put p (head_bytes p) = Some (pre @ [0, 0] @ post)" "length (pre @ [0, 0] @ post) = length (head_bytes p)"
    using put(1) [OF p(8)] put(2) p(4) by simp_all
  then obtain q where q: "header_mut (put p) p = Some q" "wf_buf q" "head_bytes q = pre @ [0, 0] @ post"
      "fragments q \<noteq> []" "tl (fragments q) = tl (fragments p)" "buf_length q = buf_length p"
      "range_start (hd (fragments q)) = range_start (hd (fragments p))" "aligned (fragments q)"
    using header_mut_returns [OF p(1,3)] p(2) by (blast elim: returnsE)
  have rest: "rest_bytes q = contents b" and n: "nfrags q = Suc (nfrags b)"
    using q(5) p(5,6) nfrags_of_tl [OF p(3) q(4) q(5)] by (simp_all add: rest_bytes_def)
  then have cont: "contents q = pre @ [0, 0] @ post @ contents b"
    using q(3,4) by (simp add: contents_head_rest)
  have only: "only_pool w v"
    using step by (simp add: pool_step_def)
  have "40 \<le> range_start (hd (fragments q))"
    using q(7) p(7) h(3) by simp
  from fill_and_emit [OF q(2,8,4) v q(3) put(3,4) this, of ph proto dest]
  obtain t where t: "do {
       s \<leftarrow> compute_buffer_ones_comp ph q;
       q \<leftarrow> header_mut (slice_mut k (k + 2) (set_be16 (s XOR 0xffff))) q;
       emit q proto dest v
     } = emit t proto dest v" "wf_buf t" "nfrags t = nfrags q" "frags_after (reserve dest) t = nfrags q"
     "contents t = pre @ be16 (complement_sum (unat ph + words_sum (contents q))) @ post @ rest_bytes q"
    by blast
  have out: "out = emit t proto dest v"
    using t(1) q(1,6) p(8) phm only pv by (simp add: out_def)
  have small: "length (contents t) + 40 \<le> USIZE_MAX"
    using t(5) put(2) b(3) by (simp add: rest)
  show ?thesis
  proof (cases "Suc (nfrags b) \<le> MAX_VECS")
    case True
    then have "returns out (\<lambda>w'. net_step v (nfrags p) [datagram v proto dest (contents t)] w' 0)"
      using emit_sends [OF t(2) v w(2) small, of proto] t(3,4) n p(6) by (simp add: out)
    then have "returns out (\<lambda>w'. net_step w (nfrags b) [datagram w proto dest (contents t)] w' 0)"
      by (rule returns_conseq) (simp add: datagram_stable [OF only] net_step_trans_Nil [OF pool_net_step [OF step]])
    with True t(5) cont rest show ?thesis
      by simp
  qed (use emit_too_many [OF t(2) v w(2) small] t(4) n in \<open>simp add: out\<close>)
qed

lemma send_with_header:
  fixes proto :: u8
  assumes "wf_buf b" "packed (fragments b)" "Suc (nfrags b) \<le> MAX_VECS" "length (contents b) + h + 40 \<le> USIZE_MAX"
    and "net_ok w" "wf_ip dest" "0 < h" "even h" "h + 40 \<le> FRAGMENT_SIZE"
    and "\<And>p. buf_length p = h + length (contents b) \<Longrightarrow> put p (replicate h 0) = Some (pre @ [0, 0] @ post)"
      "length pre + 2 + length post = h" "length pre = k" "even k"
    and "\<And>p q v. buf_length p = h + length (contents b) \<Longrightarrow> buf_length q = h + length (contents b) \<Longrightarrow>
      only_pool w v \<Longrightarrow> phm p q v = Some ph"
  shows "returns (do {
       (p, v) \<leftarrow> alloc_header h b w;
       q \<leftarrow> header_mut (put p) p;
       c \<leftarrow> phm p q v;
       s \<leftarrow> compute_buffer_ones_comp c q;
       q \<leftarrow> header_mut (slice_mut k (k + 2) (set_be16 (s XOR 0xffff))) q;
       emit q proto dest v
     }) (\<lambda>w'. net_step w (nfrags b) [datagram w proto dest
        (pre @ be16 (complement_sum (unat ph + words_sum (pre @ [0, 0] @ post @ contents b))) @ post @ contents b)] w' 0)"
proof (rule iffD1 [OF if_P [OF assms(3)]])
  show "if Suc (nfrags b) \<le> MAX_VECS then ?thesis else do {
       (p, v) \<leftarrow> alloc_header h b w;
       q \<leftarrow> header_mut (put p) p;
       c \<leftarrow> phm p q v;
       s \<leftarrow> compute_buffer_ones_comp c q;
       q \<leftarrow> header_mut (slice_mut k (k + 2) (set_be16 (s XOR 0xffff))) q;
       emit q proto dest v
     } = None"
    by (rule header_and_emit) (use assms in simp_all)
qed

end

lemma ip_datagram_stable: "only_pool w v \<Longrightarrow> ip_datagram v p dest bs = ip_datagram w p dest bs"
  by (simp add: ip_datagram_def only_pool_fields split: IPAddr.splits)

interpretation ip: datagram_service ip_output ip_datagram ip_header_len
  by unfold_locales
    (simp_all add: ip_output_returns ip_output_too_many ip_datagram_stable ip_header_len_def IPV4_BASE_HEADER_LEN_def IPV6_HEADER_LEN_def)

end
