(* ===== verification/Udp.thy ===== *)
theory Udp
  imports Transport
begin

text \<open>
  \<open>src/src/stack/udp.rs\<close>. A socket reference is an index into the list of sockets: a reference is an
  \<open>Arc\<close>, the port map keeps one and nothing ever removes an entry, so that sockets are never
  deallocated. Each function runs under the lock of the port map or of its socket and is one step;
  \<open>udp_recv\<close> releases the lock only to wait, which is the result \<open>Blocked\<close>: the thread runs the
  function again when a packet has arrived.
\<close>

section \<open>State\<close>

record UDPSocketState =
  receive_queue :: "(IPAddr \<times> u16 \<times> NetBuffer) list"
  port :: u16

record udp_world = net_world +
  UDP_PORT_MAP :: "u16 \<Rightarrow> nat option"
  udp_sockets :: "UDPSocketState list"

definition UDPSocketState_new :: "u16 \<Rightarrow> UDPSocketState" where
  "UDPSocketState_new p = \<lparr>receive_queue = [], port = p\<rparr>"

definition UDP_HEADER_LEN :: nat where
  "UDP_HEADER_LEN = 8"

datatype 'a blocking = Blocked | Ready 'a

definition as_i32 :: "nat \<Rightarrow> int" where
  "as_i32 n = sint (of_nat n :: 32 word)"

section \<open>Operations\<close>

definition udp_open :: "u16 \<Rightarrow> 'a udp_world_scheme \<Rightarrow> (string + nat) \<times> 'a udp_world_scheme" where
  "udp_open p w =
     (if UDP_PORT_MAP w p \<noteq> None then (Inl ''Port already in use'', w)
      else
        let socket_ref = length (udp_sockets w);
            w = w\<lparr>udp_sockets := udp_sockets w @ [UDPSocketState_new p]\<rparr>;
            w = w\<lparr>UDP_PORT_MAP := (UDP_PORT_MAP w)(p \<mapsto> socket_ref)\<rparr>
        in (Inr socket_ref, w))"

text \<open>The results: the return value, and what \<open>udp_recv\<close> leaves in \<open>data\<close>, \<open>out_addr\<close> and \<open>out_port\<close>.\<close>

definition udp_recv :: "nat \<Rightarrow> bytes \<Rightarrow> 'a udp_world_scheme \<Rightarrow>
    ((int \<times> bytes \<times> IPAddr \<times> u16) blocking \<times> 'a udp_world_scheme) option" where
  "udp_recv socket_ref dest w = do {
     guard \<leftarrow> index (udp_sockets w) socket_ref;
     (case receive_queue guard of
        [] \<Rightarrow> Some (Blocked, w)
      | (source_addr, source_port, b) # queue \<Rightarrow> do {
          let w = w\<lparr>udp_sockets := (udp_sockets w)[socket_ref := guard\<lparr>receive_queue := queue\<rparr>]\<rparr>;
          let len = buf_length b;
          let copy_len = min len (length dest);
          dest \<leftarrow> slice_mut 0 copy_len (\<lambda>s. map_option snd (copy_to_slice s b)) dest;
          Some (Ready (as_i32 copy_len, dest, source_addr, source_port), drop_buffer b w)
        })
   }"

definition put_udp_header :: "u16 \<Rightarrow> u16 \<Rightarrow> u16 \<Rightarrow> bytes \<Rightarrow> bytes option" where
  "put_udp_header source_port dest_port len h = do {
     h \<leftarrow> slice_mut 0 2 (set_be16 source_port) h;
     h \<leftarrow> slice_mut 2 4 (set_be16 dest_port) h;
     slice_mut 4 6 (set_be16 len) h
   }"

definition udp_output :: "NetBuffer \<Rightarrow> IPAddr \<Rightarrow> u16 \<Rightarrow> u16 \<Rightarrow> 'a net_world_scheme \<Rightarrow> 'a net_world_scheme option" where
  "udp_output packet dest_ip source_port dest_port w = do {
     (packet, w) \<leftarrow> alloc_header UDP_HEADER_LEN packet w;
     let len = (of_nat (buf_length packet) :: u16);
     packet \<leftarrow> header_mut (put_udp_header source_port dest_port len) packet;
     ph_checksum \<leftarrow> compute_pseudo_header_checksum
       (case dest_ip of V4 _ \<Rightarrow> fst (get_ipaddr w) | V6 _ \<Rightarrow> snd (get_ipaddr w)) dest_ip (unat len) PROTO_UDP;
     sum \<leftarrow> compute_buffer_ones_comp ph_checksum packet;
     packet \<leftarrow> header_mut (slice_mut 6 8 (set_be16 (sum XOR 0xffff))) packet;
     ip_output packet PROTO_UDP dest_ip w
   }"

definition udp_send :: "nat \<Rightarrow> IPAddr \<Rightarrow> u16 \<Rightarrow> bytes \<Rightarrow> 'a udp_world_scheme \<Rightarrow> ((string + unit) \<times> 'a udp_world_scheme) option" where
  "udp_send socket_ref dest_addr dest_port bs w = do {
     guard \<leftarrow> index (udp_sockets w) socket_ref;
     (packet, w) \<leftarrow> append_from_slice bs NetBuffer_new w;
     w \<leftarrow> udp_output packet dest_addr (port guard) dest_port w;
     Some (Inr (), w)
   }"

definition udp_input :: "NetBuffer \<Rightarrow> IPAddr \<Rightarrow> 'a udp_world_scheme \<Rightarrow> 'a udp_world_scheme option" where
  "udp_input packet source_addr w = do {
     h \<leftarrow> header packet;
     s \<leftarrow> subslice 0 2 h;
     source_port \<leftarrow> get_be16 s;
     s \<leftarrow> subslice 2 4 h;
     dest_port \<leftarrow> get_be16 s;
     (packet, w) \<leftarrow> trim_head UDP_HEADER_LEN packet w;
     (case UDP_PORT_MAP w dest_port of
        None \<Rightarrow> Some (drop_buffer packet w)
      | Some socket \<Rightarrow> do {
          guard \<leftarrow> index (udp_sockets w) socket;
          let guard = guard\<lparr>receive_queue := receive_queue guard @ [(source_addr, source_port, packet)]\<rparr>;
          Some (w\<lparr>udp_sockets := (udp_sockets w)[socket := guard]\<rparr>)
        })
   }"

section \<open>What goes out\<close>

definition local_for :: "'a net_world_scheme \<Rightarrow> IPAddr \<Rightarrow> IPAddr" where
  "local_for w dest = (if is_v4 dest then LOCAL_IPV4 w else LOCAL_IPV6 w)"

lemma local_for_stable: "only_pool w v \<Longrightarrow> local_for v dest = local_for w dest"
  by (simp add: local_for_def only_pool_fields)

lemma local_for_family: "net_ok w \<Longrightarrow> wf_ip dest \<Longrightarrow> same_family (local_for w dest) dest"
  by (simp add: local_for_def same_family_def net_ok_def)

definition udp_header :: "u16 \<Rightarrow> u16 \<Rightarrow> nat \<Rightarrow> bytes" where
  "udp_header sp dp n = be16 sp @ be16 dp @ be16 (of_nat (8 + n))"

definition udp_segment :: "IPAddr \<Rightarrow> IPAddr \<Rightarrow> u16 \<Rightarrow> u16 \<Rightarrow> bytes \<Rightarrow> bytes" where
  "udp_segment src dst sp dp body =
     udp_header sp dp (length body) @
     be16 (complement_sum (pseudo_sum src dst (8 + length body) PROTO_UDP +
       words_sum (udp_header sp dp (length body) @ [0, 0] @ body))) @ body"

lemma udp_segment_sum:
  "fold16 (pseudo_sum src dst (8 + length body) PROTO_UDP + words_sum (udp_segment src dst sp dp body)) = 65535"
  using complement_sum_completes [of "udp_header sp dp (length body)" "pseudo_sum src dst (8 + length body) PROTO_UDP" body]
  by (simp add: udp_segment_def udp_header_def)

lemma put_udp_header_zeros:
  "put_udp_header sp dp len (replicate 8 0) = Some ((be16 sp @ be16 dp @ be16 len) @ [0, 0] @ [])"
proof -
  obtain a0 a1 where a: "be16 sp = [a0, a1]" by (simp add: be16_def)
  obtain b0 b1 where b: "be16 dp = [b0, b1]" by (simp add: be16_def)
  show ?thesis
    by (simp add: put_udp_header_def replicate_small slice_mut_def set_be16_eq a b cong: bind_weak_cong)
qed

text \<open>A datagram that does not fit in the vectors of one \<open>writev\<close> makes the sender panic.\<close>

lemma udp_output_cases:
  assumes "wf_buf b" and "packed (fragments b)" and "length (contents b) + 48 \<le> USIZE_MAX"
    and "net_ok w" and "wf_ip dest"
  shows "if Suc (nfrags b) \<le> MAX_VECS
    then returns (udp_output b dest sp dp w) (\<lambda>w'. net_step w (nfrags b)
      [ip_datagram w PROTO_UDP dest (udp_segment (local_for w dest) dest sp dp (contents b))] w' 0)
    else udp_output b dest sp dp w = None"
proof -
  define n where "n = 8 + length (contents b)"
  define m where "m = unat (of_nat n :: u16)"
  obtain c where c: "compute_pseudo_header_checksum (local_for w dest) dest m PROTO_UDP = Some c"
    "unat c = fold16 (pseudo_sum (local_for w dest) dest m PROTO_UDP)"
    using compute_pseudo_header_checksum_returns [OF local_for_family [OF assms(4,5)]] by (blast elim: returnsE)
  define phm where "phm = (\<lambda>(p :: NetBuffer) (q :: NetBuffer) (v :: 'a net_world_scheme). compute_pseudo_header_checksum
       (case dest of V4 _ \<Rightarrow> fst (get_ipaddr v) | V6 _ \<Rightarrow> snd (get_ipaddr v)) dest
       (unat (of_nat (buf_length p) :: u16)) PROTO_UDP)"
  have phm: "phm p q v = Some c" if "buf_length p = n" "only_pool w v" for p q v
    using c(1) that only_pool_fields [OF that(2)]
    by (cases dest) (simp_all add: phm_def m_def local_for_def get_ipaddr_def)
  have "if Suc (nfrags b) \<le> MAX_VECS
    then returns (do {
       (p, v) \<leftarrow> alloc_header 8 b w;
       q \<leftarrow> header_mut (put_udp_header sp dp (of_nat (buf_length p))) p;
       c \<leftarrow> phm p q v;
       s \<leftarrow> compute_buffer_ones_comp c q;
       q \<leftarrow> header_mut (slice_mut 6 (6 + 2) (set_be16 (s XOR 0xffff))) q;
       ip_output q PROTO_UDP dest v
     }) (\<lambda>w'. net_step w (nfrags b) [ip_datagram w PROTO_UDP dest
        ((be16 sp @ be16 dp @ be16 (of_nat n)) @ be16 (complement_sum (unat c +
           words_sum ((be16 sp @ be16 dp @ be16 (of_nat n)) @ [0, 0] @ [] @ contents b))) @ [] @ contents b)] w' 0)
    else (do {
       (p, v) \<leftarrow> alloc_header 8 b w;
       q \<leftarrow> header_mut (put_udp_header sp dp (of_nat (buf_length p))) p;
       c \<leftarrow> phm p q v;
       s \<leftarrow> compute_buffer_ones_comp c q;
       q \<leftarrow> header_mut (slice_mut 6 (6 + 2) (set_be16 (s XOR 0xffff))) q;
       ip_output q PROTO_UDP dest v
     }) = None"
    by (rule ip.header_and_emit [where put = "\<lambda>p. put_udp_header sp dp (of_nat (buf_length p))" and phm = phm])
      (use assms phm put_udp_header_zeros [of sp dp] in \<open>simp_all add: FRAGMENT_SIZE_def flip: n_def\<close>)
  moreover have "m = n" if "Suc (nfrags b) \<le> MAX_VECS"
  proof -
    have "n < 65536"
      using packed_length [OF assms(1), of "MAX_VECS - 1"] that by (simp add: n_def MAX_VECS_def FRAGMENT_SIZE_def)
    then show ?thesis
      by (simp add: m_def unsigned_of_nat take_bit_nat_eq_self)
  qed
  ultimately show ?thesis
    by (auto simp: udp_output_def UDP_HEADER_LEN_def udp_segment_def udp_header_def c(2) complement_sum_fold
        phm_def Let_def simp flip: n_def)
qed

section \<open>Mailboxes\<close>

text \<open>
  What the sockets are for: every port owns a queue of messages. \<open>udp_ok\<close> is the invariant, and
  \<open>udp_held\<close> the number of fragments that sit in the queues.
\<close>

type_synonym message = "IPAddr \<times> u16 \<times> bytes"

definition entry_message :: "IPAddr \<times> u16 \<times> NetBuffer \<Rightarrow> message" where
  "entry_message e = (fst e, fst (snd e), contents (snd (snd e)))"

definition inbox :: "nat \<Rightarrow> 'a udp_world_scheme \<Rightarrow> message list" where
  "inbox r w = map entry_message (receive_queue (udp_sockets w ! r))"

definition queued :: "UDPSocketState \<Rightarrow> nat" where
  "queued s = sum_list (map (\<lambda>e. nfrags (snd (snd e))) (receive_queue s))"

definition udp_held :: "'a udp_world_scheme \<Rightarrow> nat" where
  "udp_held w = sum_list (map queued (udp_sockets w))"

definition udp_ok :: "'a udp_world_scheme \<Rightarrow> bool" where
  "udp_ok w \<longleftrightarrow> net_ok w \<and>
     (\<forall>p r. UDP_PORT_MAP w p = Some r \<longrightarrow> r < length (udp_sockets w) \<and> port (udp_sockets w ! r) = p) \<and>
     (\<forall>s \<in> set (udp_sockets w). \<forall>e \<in> set (receive_queue s). wf_buf (snd (snd e)))"

definition udp_balanced :: "'a udp_world_scheme \<Rightarrow> nat \<Rightarrow> bool" where
  "udp_balanced w n \<longleftrightarrow> balanced w (n + udp_held w)"

lemma only_pool_udp_fields:
  assumes "only_pool w w'"
  shows "UDP_PORT_MAP w' = UDP_PORT_MAP w" "udp_sockets w' = udp_sockets w" "udp_world.more w' = udp_world.more w"
  using assms by (cases w; cases w'; simp add: only_pool_def)+

lemma net_step_udp_fields:
  assumes "net_step w n xs w' n'"
  shows "UDP_PORT_MAP w' = UDP_PORT_MAP w" "udp_sockets w' = udp_sockets w" "udp_world.more w' = udp_world.more w"
  using assms by (cases w; cases w'; simp add: net_step_def only_net_def)+

lemma net_step_udp_ok: "net_step w n xs w' n' \<Longrightarrow> udp_ok w \<Longrightarrow> udp_ok w'"
  using net_step_udp_fields [of w n xs w' n'] net_step_net_ok [of w n xs w' n'] by (simp add: udp_ok_def)

lemma net_step_inbox: "net_step w n xs w' n' \<Longrightarrow> inbox r w' = inbox r w"
  using net_step_udp_fields [of w n xs w' n'] by (simp add: inbox_def)

lemma net_step_udp_balanced:
  assumes "net_step w n xs w' n'" and "udp_balanced w (k + n)"
  shows "udp_balanced w' (k + n')"
proof -
  have "balanced w ((k + udp_held w) + n)"
    using assms(2) by (simp add: udp_balanced_def ac_simps)
  then have "balanced w' ((k + udp_held w) + n')"
    using assms(1) unfolding net_step_def by blast
  then show ?thesis
    using net_step_udp_fields [OF assms(1)] by (simp add: udp_balanced_def udp_held_def ac_simps)
qed

text \<open>Replacing the state of one socket.\<close>

lemma net_ok_sockets [simp]: "net_ok (w\<lparr>udp_sockets := ss\<rparr>) = net_ok w" "net_ok (w\<lparr>UDP_PORT_MAP := m\<rparr>) = net_ok w"
  by (simp_all add: net_ok_def link_up_def pool_ok_def)

lemma balanced_sockets [simp]:
  "balanced (w\<lparr>udp_sockets := ss\<rparr>) n = balanced w n" "balanced (w\<lparr>UDP_PORT_MAP := m\<rparr>) n = balanced w n"
  by (simp_all add: balanced_def)

lemma inbox_update:
  "r < length (udp_sockets w) \<Longrightarrow>
   inbox r' (w\<lparr>udp_sockets := (udp_sockets w)[r := s]\<rparr>) =
     (if r' = r then map entry_message (receive_queue s) else inbox r' w)"
  by (simp add: inbox_def)

lemma udp_ok_update:
  assumes "udp_ok w" and "r < length (udp_sockets w)" and "port s = port (udp_sockets w ! r)"
    and "\<forall>e \<in> set (receive_queue s). wf_buf (snd (snd e))"
  shows "udp_ok (w\<lparr>udp_sockets := (udp_sockets w)[r := s]\<rparr>)"
proof -
  have "\<forall>t \<in> set ((udp_sockets w)[r := s]). \<forall>e \<in> set (receive_queue t). wf_buf (snd (snd e))"
    using assms(1,4) set_update_subset_insert [of "udp_sockets w" r s] unfolding udp_ok_def by blast
  with assms(1-3) show ?thesis
    by (simp add: udp_ok_def nth_list_update)
qed

lemma sum_list_update_nat:
  "r < length xs \<Longrightarrow> sum_list (map f (xs[r := x])) + f (xs ! r) = sum_list (map f xs) + (f x :: nat)"
  by (induction xs arbitrary: r) (auto split: nat.splits)

lemma udp_balanced_update:
  assumes "udp_balanced w n" and "r < length (udp_sockets w)"
    and "m + queued s = n + queued (udp_sockets w ! r)"
  shows "udp_balanced (w\<lparr>udp_sockets := (udp_sockets w)[r := s]\<rparr>) m"
proof -
  have "m + udp_held (w\<lparr>udp_sockets := (udp_sockets w)[r := s]\<rparr>) = n + udp_held w"
    using sum_list_update_nat [OF assms(2), of queued s] assms(3) by (simp add: udp_held_def)
  with assms(1) show ?thesis
    by (simp add: udp_balanced_def)
qed

text \<open>
  What everything but the opening of a socket leaves as it is: the own addresses, the sockets and their ports.
  The senders in the queues stay valid addresses.
\<close>

definition senders_ok :: "'a udp_world_scheme \<Rightarrow> bool" where
  "senders_ok w \<longleftrightarrow> (\<forall>s \<in> set (udp_sockets w). \<forall>e \<in> set (receive_queue s). wf_ip (fst e))"

definition udp_follows :: "'a udp_world_scheme \<Rightarrow> 'a udp_world_scheme \<Rightarrow> bool" where
  "udp_follows w w' \<longleftrightarrow> LOCAL_IPV4 w' = LOCAL_IPV4 w \<and> LOCAL_IPV6 w' = LOCAL_IPV6 w \<and> UDP_PORT_MAP w' = UDP_PORT_MAP w \<and>
     map port (udp_sockets w') = map port (udp_sockets w) \<and> (senders_ok w \<longrightarrow> senders_ok w')"

lemma udp_follows_refl [simp]: "udp_follows w w"
  by (simp add: udp_follows_def)

lemma udp_follows_trans: "udp_follows u v \<Longrightarrow> udp_follows v w \<Longrightarrow> udp_follows u w"
  by (simp add: udp_follows_def)

lemma udp_follows_same:
  "LOCAL_IPV4 w' = LOCAL_IPV4 w \<Longrightarrow> LOCAL_IPV6 w' = LOCAL_IPV6 w \<Longrightarrow> UDP_PORT_MAP w' = UDP_PORT_MAP w \<Longrightarrow>
   udp_sockets w' = udp_sockets w \<Longrightarrow> udp_follows w w'"
  by (simp add: udp_follows_def senders_ok_def)

lemma net_step_follows: "net_step w n xs w' n' \<Longrightarrow> udp_follows w w'"
  using net_step_udp_fields [of w n xs w' n'] net_step_fields [of w n xs w' n'] by (intro udp_follows_same)

lemma udp_follows_update:
  assumes "r < length (udp_sockets w)" and "port s = port (udp_sockets w ! r)"
    and "senders_ok w \<Longrightarrow> \<forall>e \<in> set (receive_queue s). wf_ip (fst e)"
  shows "udp_follows w (w\<lparr>udp_sockets := (udp_sockets w)[r := s]\<rparr>)"
proof -
  have "senders_ok (w\<lparr>udp_sockets := (udp_sockets w)[r := s]\<rparr>)" if "senders_ok w"
    using that assms(3) set_update_subset_insert [of "udp_sockets w" r s] by (auto simp: senders_ok_def)
  with assms(1,2) show ?thesis
    by (simp add: udp_follows_def map_update list_update_same_conv)
qed

lemma udp_follows_ports:
  assumes "udp_follows w w'"
  shows "length (udp_sockets w') = length (udp_sockets w)"
    and "r < length (udp_sockets w) \<Longrightarrow> port (udp_sockets w' ! r) = port (udp_sockets w ! r)"
proof -
  have same: "map port (udp_sockets w') = map port (udp_sockets w)"
    using assms by (simp add: udp_follows_def)
  then show len: "length (udp_sockets w') = length (udp_sockets w)"
    by (rule map_eq_imp_length_eq)
  show "port (udp_sockets w' ! r) = port (udp_sockets w ! r)" if "r < length (udp_sockets w)"
    using same that len by (metis nth_map)
qed

lemma senders_okD: "senders_ok w \<Longrightarrow> r < length (udp_sockets w) \<Longrightarrow> e \<in> set (receive_queue (udp_sockets w ! r)) \<Longrightarrow> wf_ip (fst e)"
  unfolding senders_ok_def using nth_mem by blast

lemma sender_ok: "senders_ok w \<Longrightarrow> r < length (udp_sockets w) \<Longrightarrow> inbox r w = (a, p, body) # ms \<Longrightarrow> wf_ip a"
  by (cases "receive_queue (udp_sockets w ! r)") (auto simp: inbox_def entry_message_def dest: senders_okD [where e = "(a, p, b)" for b])

section \<open>The operations on mailboxes\<close>

lemma udp_open_in_use: "UDP_PORT_MAP w p = Some r \<Longrightarrow> udp_open p w = (Inl ''Port already in use'', w)"
  by (simp add: udp_open_def)

lemma udp_open_fresh:
  assumes "udp_ok w" and "UDP_PORT_MAP w p = None"
  obtains w' where "udp_open p w = (Inr (length (udp_sockets w)), w')" and "udp_ok w'"
    and "UDP_PORT_MAP w' = (UDP_PORT_MAP w)(p \<mapsto> length (udp_sockets w))"
    and "inbox (length (udp_sockets w)) w' = []"
    and "\<And>r. r < length (udp_sockets w) \<Longrightarrow> inbox r w' = inbox r w"
    and "\<And>n. udp_balanced w n \<Longrightarrow> udp_balanced w' n"
proof -
  define w' where "w' = snd (udp_open p w)"
  have w': "w' = w\<lparr>udp_sockets := udp_sockets w @ [UDPSocketState_new p],
      UDP_PORT_MAP := (UDP_PORT_MAP w)(p \<mapsto> length (udp_sockets w))\<rparr>"
    using assms(2) by (simp add: w'_def udp_open_def Let_def)
  show ?thesis
  proof (rule that)
    show "udp_open p w = (Inr (length (udp_sockets w)), w')"
      using assms(2) by (simp add: w'_def udp_open_def Let_def)
    show "udp_ok w'"
      using assms unfolding w' by (fastforce simp: udp_ok_def nth_append UDPSocketState_new_def)
  qed (simp_all add: w' inbox_def nth_append UDPSocketState_new_def udp_balanced_def udp_held_def queued_def)
qed

lemma udp_recv_empty:
  "r < length (udp_sockets w) \<Longrightarrow> inbox r w = [] \<Longrightarrow> udp_recv r dest w = Some (Blocked, w)"
  by (simp add: udp_recv_def inbox_def)

lemma slice_mut_prefix:
  "n \<le> length xs \<Longrightarrow> slice_mut 0 n f xs = map_option (\<lambda>s. s @ drop n xs) (f (take n xs))"
  by (cases "f (take n xs)") (simp_all add: slice_mut_def)

lemma udp_recv_returns:
  fixes dest :: bytes
  assumes "udp_ok w" and "r < length (udp_sockets w)" and "inbox r w = (a, p, body) # ms"
  defines "n \<equiv> min (length body) (length dest)"
  shows "returns (udp_recv r dest w) (\<lambda>(res, w'). res = Ready (as_i32 n, take n body @ drop n dest, a, p) \<and>
     udp_ok w' \<and> inbox r w' = ms \<and> (\<forall>r'. r' \<noteq> r \<longrightarrow> inbox r' w' = inbox r' w) \<and>
     UDP_PORT_MAP w' = UDP_PORT_MAP w \<and> length (udp_sockets w') = length (udp_sockets w) \<and>
     tun_out w' = tun_out w \<and> (\<forall>k. udp_balanced w k \<longrightarrow> udp_balanced w' k))"
proof -
  define s where "s = udp_sockets w ! r"
  obtain b q where q: "receive_queue s = (a, p, b) # q" "contents b = body" "map entry_message q = ms"
    using assms(3) by (auto simp: inbox_def s_def entry_message_def)
  have s_in: "s \<in> set (udp_sockets w)"
    using assms(2) by (simp add: s_def)
  then have wf: "wf_buf b" "\<forall>e \<in> set q. wf_buf (snd (snd e))"
    using assms(1) q(1) unfolding udp_ok_def by fastforce+
  define v where "v = w\<lparr>udp_sockets := (udp_sockets w)[r := s\<lparr>receive_queue := q\<rparr>]\<rparr>"
  have v: "udp_ok v"
    unfolding v_def using wf(2) by (intro udp_ok_update assms) (simp_all add: s_def)
  have step: "net_step v (nfrags b) [] (drop_buffer b v) 0"
    by (intro pool_net_step drop_buffer_step wf)
  have n: "min (buf_length b) (length dest) = n"
    using wf(1) q(2) by (simp add: n_def length_contents [symmetric])
  have "copy_to_slice (take n dest) b = Some (n, take n body)"
    using copy_to_slice_Some [OF wf(1), of "take n dest"] q(2) by (simp add: n_def min.commute)
  then have "udp_recv r dest w = Some (Ready (as_i32 n, take n body @ drop n dest, a, p), drop_buffer b v)"
    using assms(2) q(1) n by (simp add: udp_recv_def v_def slice_mut_prefix n_def Let_def flip: s_def)
  moreover have "inbox r' (drop_buffer b v) = (if r' = r then ms else inbox r' w)" for r'
    using assms(2) q(3) by (simp add: net_step_inbox [OF step]) (simp add: v_def inbox_update)
  moreover have "udp_balanced (drop_buffer b v) k" if "udp_balanced w k" for k
  proof -
    have "udp_balanced v (k + nfrags b)"
      unfolding v_def by (rule udp_balanced_update [OF that assms(2)]) (simp add: queued_def q(1) flip: s_def)
    from net_step_udp_balanced [OF step this] show ?thesis by simp
  qed
  ultimately show ?thesis
    using net_step_udp_ok [OF step v] net_step_udp_fields [OF step] net_step_tun_out [OF step]
    by (simp add: v_def)
qed

text \<open>Where a datagram goes, and what a too short one does.\<close>

definition delivered :: "u16 \<Rightarrow> message \<Rightarrow> nat \<Rightarrow> 'a udp_world_scheme \<Rightarrow> message list" where
  "delivered dp m r w = (if UDP_PORT_MAP w dp = Some r then inbox r w @ [m] else inbox r w)"

lemma subslice_layout: "length a = i \<Longrightarrow> j = i + length m \<Longrightarrow> subslice i j (a @ m @ z) = Some m"
  by simp

lemma head_bytes_prefix:
  assumes "fragments b \<noteq> []" and "contents b = pre @ rest" and "length pre \<le> length (head_bytes b)"
  shows "\<exists>tail. head_bytes b = pre @ tail"
  using assms(2,3) contents_head_rest [OF assms(1)]
  by (metis append_eq_append_conv_if append_take_drop_id)

lemma udp_input_returns:
  assumes "udp_ok w" and "wf_buf packet" and "4 \<le> length (head_bytes packet)" and "fragments packet \<noteq> []"
    and "8 \<le> length (contents packet)" and "contents packet = be16 sp @ be16 dp @ rest"
  shows "returns (udp_input packet src w) (\<lambda>w'. udp_ok w' \<and>
     (\<forall>r. inbox r w' = delivered dp (src, sp, drop 4 rest) r w) \<and>
     UDP_PORT_MAP w' = UDP_PORT_MAP w \<and> length (udp_sockets w') = length (udp_sockets w) \<and>
     udp_world.more w' = udp_world.more w \<and>
     tun_out w' = tun_out w \<and> (\<forall>k. udp_balanced w (k + nfrags packet) \<longrightarrow> udp_balanced w' k))"
proof -
  obtain tail where tail: "head_bytes packet = (be16 sp @ be16 dp) @ tail"
    using head_bytes_prefix [OF assms(4), of "be16 sp @ be16 dp" rest] assms(3,6) by auto
  have ports: "subslice 0 2 (head_bytes packet) = Some (be16 sp)" "subslice 2 4 (head_bytes packet) = Some (be16 dp)"
    using subslice_layout [of "[]" 0 2 "be16 sp" "be16 dp @ tail"] subslice_layout [of "be16 sp" 2 4 "be16 dp" tail] tail
    by simp_all
  obtain b v where trim: "trim_head 8 packet w = Some (b, v)" and b: "wf_buf b" "contents b = drop 4 rest"
      and step: "pool_step w (nfrags packet) v (nfrags b)"
    using trim_head_returns [OF assms(2), of 8 w] assms(5,6) by (auto simp: be16_def elim!: returnsE)
  note step = pool_net_step [OF step]
  note fields = net_step_udp_fields [OF step]
  have v: "udp_ok v"
    by (rule net_step_udp_ok [OF step assms(1)])
  have run: "udp_input packet src w =
     (case UDP_PORT_MAP v dp of
        None \<Rightarrow> Some (drop_buffer b v)
      | Some socket \<Rightarrow> do {
          guard \<leftarrow> index (udp_sockets v) socket;
          Some (v\<lparr>udp_sockets := (udp_sockets v)[socket :=
            guard\<lparr>receive_queue := receive_queue guard @ [(src, sp, b)]\<rparr>]\<rparr>)
        })"
    using ports trim header_Some [OF assms(2,4)] by (simp add: udp_input_def UDP_HEADER_LEN_def get_be16_be16 Let_def split: option.split)
  show ?thesis
  proof (cases "UDP_PORT_MAP w dp")
    case None
    have step': "net_step w (nfrags packet) [] (drop_buffer b v) 0"
      using net_step_trans_Nil [OF step pool_net_step [OF drop_buffer_step [OF b(1)]]] .
    show ?thesis
      using None run fields net_step_udp_fields [OF step'] net_step_udp_ok [OF step' assms(1)] net_step_tun_out [OF step']
        net_step_udp_balanced [OF step'] net_step_inbox [OF step']
      by (simp add: delivered_def)
  next
    case (Some r)
    then have r: "r < length (udp_sockets v)"
      using v fields by (simp add: udp_ok_def)
    define s where "s = udp_sockets v ! r"
    define s' where "s' = s\<lparr>receive_queue := receive_queue s @ [(src, sp, b)]\<rparr>"
    define v' where "v' = v\<lparr>udp_sockets := (udp_sockets v)[r := s']\<rparr>"
    have "s \<in> set (udp_sockets v)"
      using r by (simp add: s_def)
    then have "\<forall>e \<in> set (receive_queue s'). wf_buf (snd (snd e))"
      using v b(1) by (auto simp: udp_ok_def s'_def)
    then have ok: "udp_ok v'"
      unfolding v'_def using v r by (intro udp_ok_update) (simp_all add: s'_def s_def)
    have box: "inbox r' v' = delivered dp (src, sp, drop 4 rest) r' w" for r'
      using r Some b(2) net_step_inbox [OF step, of r']
      by (auto simp: v'_def inbox_update delivered_def s'_def s_def inbox_def entry_message_def)
    have "udp_balanced v' k" if "udp_balanced w (k + nfrags packet)" for k
      unfolding v'_def
      by (rule udp_balanced_update [OF net_step_udp_balanced [OF step that] r]) (simp add: queued_def s'_def s_def)
    moreover have "udp_input packet src w = Some v'"
      using run Some r fields by (simp add: v'_def s'_def s_def)
    ultimately show ?thesis
      using Some fields ok box net_step_tun_out [OF step] by simp (simp add: v'_def)
  qed
qed

lemma packed_fragments_iff:
  assumes "wf_buf b" and "packed (fragments b)"
  shows "Suc (nfrags b) \<le> MAX_VECS \<longleftrightarrow> length (contents b) \<le> MAX_PAYLOAD"
  using packed_MAX_PAYLOAD [OF assms] packed_length [OF assms(1), of "MAX_VECS - 1"]
  by (auto simp: MAX_PAYLOAD_def MAX_VECS_def)

lemma udp_send_cases:
  assumes "udp_ok w" and "r < length (udp_sockets w)" and "wf_ip dest" and "length bs < 2 ^ 63"
  shows "if length bs \<le> MAX_PAYLOAD
    then returns (udp_send r dest dp bs w) (\<lambda>(res, w'). res = Inr () \<and> net_step w 0
     [ip_datagram w PROTO_UDP dest (udp_segment (local_for w dest) dest (port (udp_sockets w ! r)) dp bs)] w' 0)
    else udp_send r dest dp bs w = None"
proof -
  have net: "net_ok w"
    using assms(1) by (simp add: udp_ok_def)
  obtain b v where b: "append_from_slice bs NetBuffer_new w = Some (b, v)" "wf_buf b" "contents b = bs"
      "packed (fragments b)" and step: "pool_step w 0 v (nfrags b)"
    using append_from_slice_returns [of NetBuffer_new w bs] net assms(4)
    by (auto simp: net_ok_pool USIZE_MAX_def elim!: returnsE)
  have only: "only_pool w v"
    using step by (simp add: pool_step_def)
  have "length (contents b) + 48 \<le> USIZE_MAX"
    using assms(4) by (simp add: b(3) USIZE_MAX_def)
  from udp_output_cases [OF b(2,4) this net_step_net_ok [OF pool_net_step [OF step] net] assms(3), of "port (udp_sockets w ! r)" dp]
  have out: "if length bs \<le> MAX_PAYLOAD
    then returns (udp_output b dest (port (udp_sockets w ! r)) dp v) (\<lambda>w'. net_step v (nfrags b)
      [ip_datagram w PROTO_UDP dest (udp_segment (local_for w dest) dest (port (udp_sockets w ! r)) dp bs)] w' 0)
    else udp_output b dest (port (udp_sockets w ! r)) dp v = None"
    unfolding packed_fragments_iff [OF b(2,4)] b(3) ip_datagram_stable [OF only] local_for_stable [OF only] .
  show ?thesis
  proof (cases "length bs \<le> MAX_PAYLOAD")
    case True
    with out b(1) assms(2) show ?thesis
      by (auto simp: udp_send_def returns_bind elim!: returns_conseq intro: net_step_trans_Nil [OF pool_net_step [OF step]])
  qed (use out b(1) assms(2) in \<open>simp add: udp_send_def\<close>)
qed

lemma udp_input_short:
  assumes "wf_buf packet" and "length (contents packet) < 8"
  shows "udp_input packet src w = None"
proof -
  have "trim_head UDP_HEADER_LEN packet w = None"
    using assms by (simp add: trim_head_def UDP_HEADER_LEN_def length_contents [symmetric])
  then show ?thesis
    by (simp add: udp_input_def bind_eq_None_conv)
qed

section \<open>The interface of a mailbox\<close>

text \<open>
  A mailbox takes packets from the network side and hands messages to the application. The laws say
  what one operation does; what the application sees of any interleaving of the two sides follows.
\<close>

datatype 'p mail_event = Arrive 'p | Take

fun arrivals :: "'p mail_event list \<Rightarrow> 'p list" where
  "arrivals [] = []"
| "arrivals (Arrive p # es) = p # arrivals es"
| "arrivals (Take # es) = arrivals es"

fun run_mail :: "('p \<Rightarrow> 'w \<Rightarrow> 'w option) \<Rightarrow> ('w \<Rightarrow> ('m option \<times> 'w) option) \<Rightarrow> 'p mail_event list \<Rightarrow> 'w \<Rightarrow>
    ('m list \<times> 'w) option" where
  "run_mail put get [] w = Some ([], w)"
| "run_mail put get (Arrive p # es) w = do {
     w \<leftarrow> put p w;
     run_mail put get es w
   }"
| "run_mail put get (Take # es) w = do {
     (m, w) \<leftarrow> get w;
     (ms, w) \<leftarrow> run_mail put get es w;
     Some ((case m of None \<Rightarrow> ms | Some m \<Rightarrow> m # ms), w)
   }"

locale mailbox =
  fixes put :: "'p \<Rightarrow> 'w \<Rightarrow> 'w option" and get :: "'w \<Rightarrow> ('r option \<times> 'w) option"
    and box :: "'w \<Rightarrow> 'm list" and inv :: "'w \<Rightarrow> bool"
    and valid :: "'p \<Rightarrow> bool" and msgs :: "'p \<Rightarrow> 'm list" and view :: "'m \<Rightarrow> 'r"
  assumes put_law: "inv w \<Longrightarrow> valid p \<Longrightarrow> returns (put p w) (\<lambda>w'. inv w' \<and> box w' = box w @ msgs p)"
    and get_law: "inv w \<Longrightarrow> box w = m # ms \<Longrightarrow> returns (get w) (\<lambda>(r, w'). r = Some (view m) \<and> inv w' \<and> box w' = ms)"
    and get_empty: "inv w \<Longrightarrow> box w = [] \<Longrightarrow> get w = Some (None, w)"
begin

lemma run_fifo:
  "inv w \<Longrightarrow> \<forall>p \<in> set (arrivals es). valid p \<Longrightarrow>
   returns (run_mail put get es w) (\<lambda>(rs, w'). inv w' \<and>
     (\<exists>ms. rs = map view ms \<and> box w @ concat (map msgs (arrivals es)) = ms @ box w'))"
proof (induction es arbitrary: w)
  case (Cons e es)
  show ?case
  proof (cases e)
    case (Arrive p)
    with Cons.prems put_law [of w p] obtain v where v: "put p w = Some v" "inv v" "box v = box w @ msgs p"
      by (auto elim!: returnsE)
    show ?thesis
      using Cons.IH [of v] Cons.prems(2) v Arrive by simp
  next
    case Take
    show ?thesis
    proof (cases "box w")
      case Nil
      then show ?thesis
        using Cons.IH [of w] Cons.prems Take get_empty by (auto simp: returns_bind elim!: returns_conseq)
    next
      case (Cons m ms)
      then obtain v where v: "get w = Some (Some (view m), v)" "inv v" "box v = ms"
        using get_law [OF \<open>inv w\<close>, of m ms] by (auto elim!: returnsE)
      have "returns (run_mail put get es v) (\<lambda>(rs, w'). inv w' \<and>
          (\<exists>ks. rs = map view ks \<and> ms @ concat (map msgs (arrivals es)) = ks @ box w'))"
        using Cons.IH [OF v(2)] Cons.prems(2) Take v(3) by simp
      then show ?thesis
        using v(1) Take Cons by (auto simp: returns_bind intro: exI [of _ "m # _"] elim!: returns_conseq)
    qed
  qed
qed simp

end

text \<open>
  A socket as a mailbox: the packets are those \<open>udp_input\<close> is called with, the messages of a packet
  those addressed to the port of the socket, and the reader offers a slice of \<open>n\<close> octets.
\<close>

definition udp_put :: "IPAddr \<times> NetBuffer \<Rightarrow> 'a udp_world_scheme \<Rightarrow> 'a udp_world_scheme option" where
  "udp_put p w = udp_input (snd p) (fst p) w"

definition udp_get :: "nat \<Rightarrow> nat \<Rightarrow> 'a udp_world_scheme \<Rightarrow> ((int \<times> bytes \<times> IPAddr \<times> u16) option \<times> 'a udp_world_scheme) option" where
  "udp_get r n w = do {
     (res, w) \<leftarrow> udp_recv r (replicate n 0) w;
     Some (case res of Blocked \<Rightarrow> None | Ready x \<Rightarrow> Some x, w)
   }"

definition mail_inv :: "nat \<Rightarrow> u16 \<Rightarrow> 'a udp_world_scheme \<Rightarrow> bool" where
  "mail_inv r p w \<longleftrightarrow> udp_ok w \<and> UDP_PORT_MAP w p = Some r"

lemma mail_inv_socket: "mail_inv r p w \<Longrightarrow> r < length (udp_sockets w)"
  unfolding mail_inv_def udp_ok_def by blast

definition mail_valid :: "IPAddr \<times> NetBuffer \<Rightarrow> bool" where
  "mail_valid p \<longleftrightarrow> wf_buf (snd p) \<and> fragments (snd p) \<noteq> [] \<and> 8 \<le> length (head_bytes (snd p))"

fun mail_msgs :: "u16 \<Rightarrow> IPAddr \<times> NetBuffer \<Rightarrow> message list" where
  "mail_msgs p (src, packet) =
     (case contents packet of
        s0 # s1 # d0 # d1 # rest \<Rightarrow> if from_be_bytes d0 d1 = p then [(src, from_be_bytes s0 s1, drop 4 rest)] else []
      | _ \<Rightarrow> [])"

definition mail_view :: "nat \<Rightarrow> message \<Rightarrow> int \<times> bytes \<times> IPAddr \<times> u16" where
  "mail_view n m = (case m of (a, p, body) \<Rightarrow>
     (as_i32 (min (length body) n), take n body @ replicate (n - length body) 0, a, p))"

lemma be16_from_be_bytes: "be16 (from_be_bytes b0 b1) = [b0, b1]"
proof -
  have "ucast (drop_bit 8 (from_be_bytes b0 b1)) = b0" "ucast (from_be_bytes b0 b1) = b1"
    by (intro bit_word_eqI; auto simp: from_be_bytes_def bit_simps dest: bit_imp_le_length)+
  then show ?thesis by (simp add: be16_def)
qed

interpretation udp: mailbox udp_put "udp_get r n" "inbox r" "mail_inv r p" mail_valid "mail_msgs p" "mail_view n"
  for r n p
proof unfold_locales
  fix w :: "'a udp_world_scheme" and q
  assume w: "mail_inv r p w" and q: "mail_valid q"
  then have len: "4 \<le> length (contents (snd q))"
    by (auto simp: mail_valid_def contents_head_rest)
  then obtain s0 s1 d0 d1 rest where c: "contents (snd q) = s0 # s1 # d0 # d1 # rest"
    by (auto simp: numeral_eq_Suc Suc_le_length_iff)
  then have "contents (snd q) = be16 (from_be_bytes s0 s1) @ be16 (from_be_bytes d0 d1) @ rest"
    by (simp add: be16_from_be_bytes)
  moreover have "udp_ok w" "wf_buf (snd q)" "4 \<le> length (head_bytes (snd q))" "fragments (snd q) \<noteq> []" "8 \<le> length (contents (snd q))"
    using w q by (auto simp: mail_inv_def mail_valid_def contents_head_rest)
  ultimately have run: "returns (udp_input (snd q) (fst q) w) (\<lambda>w'. udp_ok w' \<and>
      (\<forall>r'. inbox r' w' = delivered (from_be_bytes d0 d1) (fst q, from_be_bytes s0 s1, drop 4 rest) r' w) \<and> UDP_PORT_MAP w' = UDP_PORT_MAP w)"
    using udp_input_returns [of w "snd q" "from_be_bytes s0 s1" "from_be_bytes d0 d1" rest "fst q"] by (auto elim!: returns_conseq)
  have msgs: "mail_msgs p q =
      (if from_be_bytes d0 d1 = p then [(fst q, from_be_bytes s0 s1, drop 4 rest)] else [])"
    using c by (cases q) simp
  have "UDP_PORT_MAP w d = Some r \<longleftrightarrow> d = p" for d
    using w unfolding mail_inv_def udp_ok_def by metis
  then show "returns (udp_put q w) (\<lambda>w'. mail_inv r p w' \<and> inbox r w' = inbox r w @ mail_msgs p q)"
    using run w by (auto simp: udp_put_def mail_inv_def delivered_def msgs elim!: returns_conseq)
next
  fix w :: "'a udp_world_scheme" and m ms
  assume w: "mail_inv r p w" and box: "inbox r w = m # ms"
  obtain a sp body where m: "m = (a, sp, body)" by (cases m)
  have "r < length (udp_sockets w)"
    using mail_inv_socket [OF w] .
  then show "returns (udp_get r n w) (\<lambda>(r', w'). r' = Some (mail_view n m) \<and> mail_inv r p w' \<and> inbox r w' = ms)"
    using udp_recv_returns [of w r a sp body ms "replicate n 0"] w box
    by (auto simp: udp_get_def m mail_inv_def mail_view_def returns_bind min_def elim!: returns_conseq)
next
  fix w :: "'a udp_world_scheme"
  assume "mail_inv r p w" "inbox r w = []"
  then show "udp_get r n w = Some (None, w)"
    using udp_recv_empty [OF mail_inv_socket, of r p w] by (simp add: udp_get_def)
qed

section \<open>Properties\<close>

text \<open>Input for the witnesses: one socket, bound to port 53.\<close>

definition sample_udp :: udp_world where
  "sample_udp = net_world.extend sample_net
     \<lparr>UDP_PORT_MAP = [53 \<mapsto> 0], udp_sockets = [UDPSocketState_new 53]\<rparr>"

lemma sample_udp_ok: "udp_ok sample_udp" "UDP_PORT_MAP sample_udp 53 = Some 0" "inbox 0 sample_udp = []"
    "tun_out sample_udp = []" "port (udp_sockets sample_udp ! 0) = 53" "length (udp_sockets sample_udp) = 1"
  by (auto simp: udp_ok_def sample_udp_def net_world.extend_def sample_net_def buf_world.extend_def sample_pool_def
      net_ok_def link_up_def pool_ok_def UDPSocketState_new_def inbox_def FRAGMENT_SIZE_def METRICS_init_def PerfCounter_new_def
      split: if_splits)

text \<open>
  C20: \<open>udp_send\<close> sends exactly one datagram: the UDP header with the port of the socket, the
  destination port and the length, the data behind it, and a checksum that covers the pseudo header
  and that a receiver accepts. The call succeeds for every payload of up to 3584 octets and panics
  for a longer one.
\<close>

theorem udp_send_correct:
  fixes dp :: u16
  assumes "udp_ok w" and "r < length (udp_sockets w)" and "wf_ip dest" and "length bs < 2 ^ 63"
  defines "segment \<equiv> udp_segment (local_for w dest) dest (port (udp_sockets w ! r)) dp bs"
  shows "(if length bs \<le> 3584
    then returns (udp_send r dest dp bs w) (\<lambda>(res, w'). res = Inr () \<and>
      tun_out w' = tun_out w @ [ip_datagram w PROTO_UDP dest segment] \<and>
      udp_ok w' \<and> (\<forall>s. inbox s w' = inbox s w) \<and> (\<forall>k. udp_balanced w k \<longrightarrow> udp_balanced w' k))
    else udp_send r dest dp bs w = None) \<and>
    take 6 segment = be16 (port (udp_sockets w ! r)) @ be16 dp @ be16 (of_nat (8 + length bs)) \<and>
    drop 8 segment = bs \<and>
    fold16 (pseudo_sum (local_for w dest) dest (8 + length bs) PROTO_UDP + words_sum segment) = 65535"
proof -
  have "if length bs \<le> 3584
    then returns (udp_send r dest dp bs w) (\<lambda>(res, w'). res = Inr () \<and> net_step w 0 [ip_datagram w PROTO_UDP dest segment] w' 0)
    else udp_send r dest dp bs w = None"
    using udp_send_cases [OF assms(1-4), of dp] by (simp add: segment_def MAX_PAYLOAD_eq)
  moreover have "take 6 segment = be16 (port (udp_sockets w ! r)) @ be16 dp @ be16 (of_nat (8 + length bs))" "drop 8 segment = bs"
    by (simp_all add: segment_def udp_segment_def udp_header_def)
  moreover have "tun_out w' = tun_out w @ xs \<and> udp_ok w' \<and> (\<forall>s. inbox s w' = inbox s w) \<and> (\<forall>k. udp_balanced w k \<longrightarrow> udp_balanced w' k)"
    if "net_step w 0 xs w' 0" for xs w'
    using net_step_tun_out [OF that] net_step_udp_ok [OF that assms(1)] net_step_inbox [OF that] net_step_udp_balanced [OF that]
    by simp
  ultimately show ?thesis
    by (simp add: segment_def udp_segment_sum split: if_split_asm) (auto elim!: returns_conseq)
qed

theorem udp_send_correct_witness:
  "returns (udp_send 0 (V4 [10, 0, 0, 1]) 5000 [1, 2, 3] sample_udp) (\<lambda>(res, w'). res = Inr () \<and> length (tun_out w') = 1)"
  using udp_send_correct [OF sample_udp_ok(1), of 0 "V4 [10, 0, 0, 1]" "[1, 2, 3]" 5000]
  by (auto simp: sample_udp_ok elim!: returns_conseq)

text \<open>
  C19: A socket is a mailbox. For any interleaving of arriving packets and calls of \<open>udp_recv\<close>, the
  calls that return a message return the datagrams addressed to the port of the socket, in the order
  of their arrival, each once, with the sender's address and port; what was not yet taken is still
  queued. No packet of another port is seen.
\<close>

theorem udp_socket_fifo:
  assumes "udp_ok w" and "UDP_PORT_MAP w p = Some r" and "inbox r w = []"
    and "\<forall>q \<in> set (arrivals es). mail_valid q"
  shows "returns (run_mail udp_put (udp_get r n) es w) (\<lambda>(rs, w'). udp_ok w' \<and>
    (\<exists>ms. rs = map (mail_view n) ms \<and> concat (map (mail_msgs p) (arrivals es)) = ms @ inbox r w'))"
  using udp.run_fifo [of r p w es n] assms by (auto simp: mail_inv_def elim!: returns_conseq)

definition sample_datagram :: NetBuffer where
  "sample_datagram = small_buffer [0x13, 0x88, 0, 53, 0, 10, 0, 0, 0x68, 0x69]"

lemma sample_datagram_valid: "mail_valid (V4 [10, 0, 0, 1], sample_datagram)"
    "mail_msgs 53 (V4 [10, 0, 0, 1], sample_datagram) = [(V4 [10, 0, 0, 1], 5000, [0x68, 0x69])]"
  using small_buffer_wf [of "[0x13, 0x88, 0, 53, 0, 10, 0, 0, 0x68, 0x69]"]
  by (simp_all add: sample_datagram_def mail_valid_def FRAGMENT_SIZE_def from_be_bytes_def)

theorem udp_socket_fifo_witness:
  "returns (run_mail udp_put (udp_get 0 4) [Arrive (V4 [10, 0, 0, 1], sample_datagram), Take] sample_udp) (\<lambda>(rs, w').
     \<exists>ms. rs = map (mail_view 4) ms \<and> [(V4 [10, 0, 0, 1], 5000, [0x68, 0x69])] = ms @ inbox 0 w')"
  using udp_socket_fifo [OF sample_udp_ok(1,2,3), of "[Arrive (V4 [10, 0, 0, 1], sample_datagram), Take]" 4]
  by (simp add: sample_datagram_valid del: mail_msgs.simps) (erule returns_conseq, blast)

text \<open>
  \<open>udp_open\<close> fails, without any effect, exactly for a port that is in use. Otherwise it returns a
  new socket with an empty queue for this port, and leaves the other sockets alone.
\<close>

theorem udp_open_correct:
  assumes "udp_ok w"
  shows "case udp_open p w of
      (Inl e, w') \<Rightarrow> UDP_PORT_MAP w p \<noteq> None \<and> w' = w
    | (Inr r, w') \<Rightarrow> UDP_PORT_MAP w p = None \<and> udp_ok w' \<and> UDP_PORT_MAP w' p = Some r \<and> inbox r w' = [] \<and>
        (\<forall>q. q \<noteq> p \<longrightarrow> UDP_PORT_MAP w' q = UDP_PORT_MAP w q) \<and>
        (\<forall>s < length (udp_sockets w). inbox s w' = inbox s w)"
proof (cases "UDP_PORT_MAP w p")
  case None
  show ?thesis
    by (rule udp_open_fresh [OF assms None]) (simp add: None)
next
  case (Some r)
  then show ?thesis
    by (simp add: udp_open_in_use [OF Some])
qed

theorem udp_open_correct_witness:
  "fst (udp_open 53 sample_udp) \<noteq> Inr 0"
  using udp_open_correct [OF sample_udp_ok(1), of 53] sample_udp_ok(2) by (auto split: sum.splits prod.splits)

text \<open>A datagram that is shorter than a UDP header panics the receiver.\<close>

theorem udp_input_short_panics:
  assumes "wf_buf packet" and "length (contents packet) < UDP_HEADER_LEN"
  shows "udp_input packet src w = None"
  using udp_input_short assms by (simp add: UDP_HEADER_LEN_def)

theorem udp_input_short_panics_witness:
  "udp_input (small_buffer [0, 1, 2, 3]) (V4 [10, 0, 0, 1]) sample_udp = None"
  using udp_input_short_panics [of "small_buffer [0, 1, 2, 3]"] small_buffer_wf [of "[0, 1, 2, 3]"]
  by (simp add: UDP_HEADER_LEN_def FRAGMENT_SIZE_def)

end
