(* ===== verification/Timer.thy ===== *)
theory Timer
  imports Udp "HOL-Library.Multiset"
begin

text \<open>
  \<open>src/src/stack/timer.rs\<close>: the list of pending timers and the thread that scans it. A closure is a
  value of the type \<open>'c\<close>, which \<open>run\<close> executes; the clock is the field \<open>clock_ms\<close>, which the
  environment advances. Timer ids (\<open>i32\<close>) are integers, since the callers keep -1 for \<open>no timer\<close>.
  The scan drops the lock while a closure runs, so that \<open>run\<close> may change the list it goes on with.
\<close>

type_synonym u64 = "64 word"

record 'c Timer =
  absolute_timeout_ms :: u64
  closure :: "'c option"
  timer_id :: int

record 'c timer_world = udp_world +
  PENDING_TIMERS :: "'c Timer list"
  NEXT_TIMER_ID :: u32
  clock_ms :: u64

definition TIMER_INTERVAL :: nat where
  "TIMER_INTERVAL = 50"

definition current_time_ms :: "('c, 'a) timer_world_scheme \<Rightarrow> u64" where
  "current_time_ms w = clock_ms w"

definition set_timer :: "u32 \<Rightarrow> 'c \<Rightarrow> ('c, 'a) timer_world_scheme \<Rightarrow> (int \<times> ('c, 'a) timer_world_scheme) option" where
  "set_timer timeout_ms c w = do {
     let ident = uint (NEXT_TIMER_ID w AND 0x7fffffff);
     let w = w\<lparr>NEXT_TIMER_ID := NEXT_TIMER_ID w + 1\<rparr>;
     deadline \<leftarrow> checked_add (current_time_ms w) (ucast timeout_ms);
     let w = w\<lparr>PENDING_TIMERS := PENDING_TIMERS w @
       [\<lparr>absolute_timeout_ms = deadline, closure = Some c, timer_id = ident\<rparr>]\<rparr>;
     Some (ident, w)
   }"

text \<open>\<open>Vec::swap_remove\<close>: the last element takes the place of the removed one.\<close>

definition swap_remove :: "nat \<Rightarrow> 'a list \<Rightarrow> 'a list" where
  "swap_remove i xs = butlast (xs[i := last xs])"

definition remove_at :: "nat \<Rightarrow> 'a list \<Rightarrow> 'a list" where
  "remove_at i xs = take i xs @ drop (Suc i) xs"

function cancel_loop :: "int \<Rightarrow> nat \<Rightarrow> 'c Timer list \<Rightarrow> bool \<times> 'c Timer list" where
  "cancel_loop ident i ts =
     (if i < length ts then
        if timer_id (ts ! i) = ident then (True, swap_remove i ts)
        else cancel_loop ident (i + 1) ts
      else (False, ts))"
  by pat_completeness auto
termination
  by (relation "measure (\<lambda>(ident, i, ts). length ts - i)") auto

declare cancel_loop.simps [simp del]

definition cancel_timer :: "int \<Rightarrow> ('c, 'a) timer_world_scheme \<Rightarrow> bool \<times> ('c, 'a) timer_world_scheme" where
  "cancel_timer ident w =
     (let (found, ts) = cancel_loop ident 0 (PENDING_TIMERS w)
      in (found, w\<lparr>PENDING_TIMERS := ts\<rparr>))"

text \<open>One round of the timer thread. It need not end: a closure may set a timer that is due at once.\<close>

partial_function (option) scan :: "('c \<Rightarrow> ('c, 'a) timer_world_scheme \<Rightarrow> ('c, 'a) timer_world_scheme option) \<Rightarrow>
    u64 \<Rightarrow> nat \<Rightarrow> ('c, 'a) timer_world_scheme \<Rightarrow> ('c, 'a) timer_world_scheme option" where
  "scan run now i w =
     (if i < length (PENDING_TIMERS w) then
        if absolute_timeout_ms (PENDING_TIMERS w ! i) \<le> now then do {
          c \<leftarrow> closure (PENDING_TIMERS w ! i);
          w \<leftarrow> run c (w\<lparr>PENDING_TIMERS := remove_at i (PENDING_TIMERS w)\<rparr>);
          scan run now i w
        } else scan run now (i + 1) w
      else Some w)"

definition tick :: "('c \<Rightarrow> ('c, 'a) timer_world_scheme \<Rightarrow> ('c, 'a) timer_world_scheme option) \<Rightarrow>
    ('c, 'a) timer_world_scheme \<Rightarrow> ('c, 'a) timer_world_scheme option" where
  "tick run w = scan run (current_time_ms w) 0 w"

section \<open>Setting and cancelling\<close>

lemma set_timer_returns:
  assumes "unat (clock_ms w) + unat timeout < 2 ^ 64"
  shows "set_timer timeout c w =
    Some (uint (NEXT_TIMER_ID w AND 0x7fffffff),
      w\<lparr>NEXT_TIMER_ID := NEXT_TIMER_ID w + 1,
        PENDING_TIMERS := PENDING_TIMERS w @
          [\<lparr>absolute_timeout_ms = clock_ms w + ucast timeout, closure = Some c,
            timer_id = uint (NEXT_TIMER_ID w AND 0x7fffffff)\<rparr>]\<rparr>)"
proof -
  have "unat (ucast timeout :: u64) = unat timeout"
    using unat_u32_less [of timeout] by (simp add: unsigned_ucast_eq take_bit_nat_eq_self)
  then show ?thesis
    using assms by (simp add: set_timer_def current_time_ms_def checked_add_Some Let_def)
qed

lemma uint_id: "uint (n AND (0x7fffffff :: u32)) = uint n mod 2 ^ 31"
proof -
  have "n AND 0x7fffffff = take_bit 31 n"
    by (simp only: take_bit_eq_mask) (simp add: mask_eq_exp_minus_1)
  then have "uint (n AND 0x7fffffff) = take_bit 31 (uint n)"
    by (simp only: unsigned_take_bit_eq)
  then show ?thesis
    by (simp only: take_bit_eq_mod)
qed

lemma timer_id_range: "0 \<le> uint (n AND (0x7fffffff :: u32))" "uint (n AND (0x7fffffff :: u32)) < 2 ^ 31"
  by (simp_all add: uint_id)

lemma timer_id_zero: "NEXT_TIMER_ID w = 0x80000000 \<Longrightarrow> returns (set_timer t c w) P \<Longrightarrow> \<exists>w'. set_timer t c w = Some (0, w')"
  by (auto simp: set_timer_def returns_bind bind_eq_Some_conv Let_def elim!: returnsE)

text \<open>Two ids agree only if the counter went through half of its range in between.\<close>

lemma timer_ids_distinct:
  assumes "0 < k" and "k < 2 ^ 31"
  shows "uint ((n + of_nat k) AND (0x7fffffff :: u32)) \<noteq> uint (n AND 0x7fffffff)"
proof -
  have "uint (n + of_nat k) mod 2 ^ 31 = (uint n + int k) mod 2 ^ 31"
    by (simp add: uint_word_ariths unsigned_of_nat take_bit_eq_mod mod_mod_cancel mod_simps of_nat_mod)
  moreover have "(uint n + int k) mod 2 ^ 31 \<noteq> uint n mod 2 ^ 31"
    using assms by (auto simp: mod_eq_dvd_iff dest: zdvd_imp_le)
  ultimately show ?thesis
    unfolding uint_id by simp
qed

lemma mset_swap_remove: "i < length xs \<Longrightarrow> mset (swap_remove i xs) = mset xs - {#xs ! i#}"
proof -
  assume i: "i < length xs"
  then obtain ys y where xs: "xs = ys @ [y]"
    by (cases xs rule: rev_cases) auto
  show ?thesis
    using i by (auto simp: swap_remove_def xs butlast_append list_update_append nth_append mset_update)
qed

lemma cancel_loop_cases:
  "length ts \<le> i \<Longrightarrow> cancel_loop ident i ts = (False, ts)"
  "i < length ts \<Longrightarrow> timer_id (ts ! i) = ident \<Longrightarrow> cancel_loop ident i ts = (True, swap_remove i ts)"
  "i < length ts \<Longrightarrow> timer_id (ts ! i) \<noteq> ident \<Longrightarrow> cancel_loop ident i ts = cancel_loop ident (Suc i) ts"
  by (subst cancel_loop.simps; simp)+

lemma cancel_loop_spec:
  "case cancel_loop ident i ts of (found, ts') \<Rightarrow>
     if found then \<exists>j. i \<le> j \<and> j < length ts \<and> timer_id (ts ! j) = ident \<and> ts' = swap_remove j ts
     else ts' = ts \<and> (\<forall>j. i \<le> j \<longrightarrow> j < length ts \<longrightarrow> timer_id (ts ! j) \<noteq> ident)"
proof (induction ident i ts rule: cancel_loop.induct)
  case (1 ident i ts)
  consider "length ts \<le> i" | "i < length ts" "timer_id (ts ! i) = ident" | "i < length ts" "timer_id (ts ! i) \<noteq> ident"
    by linarith
  then show ?case
  proof cases
    case 3
    obtain found ts' where run: "cancel_loop ident (Suc i) ts = (found, ts')"
      by fastforce
    with 1 3 have "if found then \<exists>j. Suc i \<le> j \<and> j < length ts \<and> timer_id (ts ! j) = ident \<and> ts' = swap_remove j ts
        else ts' = ts \<and> (\<forall>j. Suc i \<le> j \<longrightarrow> j < length ts \<longrightarrow> timer_id (ts ! j) \<noteq> ident)"
      by (cases found) simp_all
    with 3 run show ?thesis
      by (cases found) (auto simp: cancel_loop_cases(3) intro: Suc_leD, metis le_antisym not_less_eq_eq)
  qed (auto simp: cancel_loop_cases)
qed

text \<open>\<open>cancel_timer\<close> removes one timer with the id, or says that there is none.\<close>

lemma cancel_timer_mset:
  assumes "cancel_timer ident w = (found, w')"
  shows "found \<longleftrightarrow> ident \<in> timer_id ` set (PENDING_TIMERS w)"
    and "found \<Longrightarrow> \<exists>t \<in> set (PENDING_TIMERS w). timer_id t = ident \<and>
      mset (PENDING_TIMERS w') = mset (PENDING_TIMERS w) - {#t#}"
    and "\<not> found \<Longrightarrow> w' = w"
proof -
  obtain ts where ts: "cancel_loop ident 0 (PENDING_TIMERS w) = (found, ts)" "w' = w\<lparr>PENDING_TIMERS := ts\<rparr>"
    using assms by (auto simp: cancel_timer_def split: prod.splits)
  note spec = cancel_loop_spec [where ident = ident and i = 0 and ts = "PENDING_TIMERS w", unfolded ts(1)]
  show "found \<longleftrightarrow> ident \<in> timer_id ` set (PENDING_TIMERS w)"
    using spec by (force simp: in_set_conv_nth image_iff split: if_splits)
  show "found \<Longrightarrow> \<exists>t \<in> set (PENDING_TIMERS w). timer_id t = ident \<and>
      mset (PENDING_TIMERS w') = mset (PENDING_TIMERS w) - {#t#}"
    using spec ts(2) by (force simp: mset_swap_remove)
  show "\<not> found \<Longrightarrow> w' = w"
    using spec ts(2) by simp
qed

section \<open>A round of the timer thread\<close>

lemma scan_end: "length (PENDING_TIMERS w) \<le> i \<Longrightarrow> scan run now i w = Some w"
  by (subst scan.simps) simp

lemma scan_skip:
  "\<forall>t \<in> set (take k (drop i (PENDING_TIMERS w))). now < absolute_timeout_ms t \<Longrightarrow> i + k \<le> length (PENDING_TIMERS w) \<Longrightarrow>
   scan run now i w = scan run now (i + k) w"
proof (induction k arbitrary: i)
  case (Suc k)
  then have "drop i (PENDING_TIMERS w) = PENDING_TIMERS w ! i # drop (Suc i) (PENDING_TIMERS w)"
    by (simp add: Cons_nth_drop_Suc)
  with Suc.prems have "now < absolute_timeout_ms (PENDING_TIMERS w ! i)"
    and "\<forall>t \<in> set (take k (drop (Suc i) (PENDING_TIMERS w))). now < absolute_timeout_ms t"
    by simp_all
  with Suc.IH [of "Suc i"] Suc.prems(2) show ?case
    by (subst scan.simps) (simp flip: not_le)
qed simp

lemma scan_fire:
  assumes "PENDING_TIMERS w = us @ t # vs" and "absolute_timeout_ms t \<le> now" and "closure t = Some c"
  shows "scan run now (length us) w =
    do { w \<leftarrow> run c (w\<lparr>PENDING_TIMERS := us @ vs\<rparr>); scan run now (length us) w }"
  using assms by (subst scan.simps) (simp add: remove_at_def)

text \<open>
  What the timer thread asks of the closures: a closure returns and changes the list of timers by
  adding ones that are not due yet. Then a round ends; it runs the due timers, in the order of the
  list, and keeps the others. \<open>run_timers\<close> says what it is to run timers: one after the other is taken off
  the list and its closure is executed. \<open>inv\<close> is the invariant of the rest of the stack, which may depend on
  the timers that are pending.
\<close>

definition due :: "u64 \<Rightarrow> 'c Timer \<Rightarrow> bool" where
  "due now t \<longleftrightarrow> absolute_timeout_ms t \<le> now"

primrec run_timers :: "('c \<Rightarrow> ('c, 'a) timer_world_scheme \<Rightarrow> ('c, 'a) timer_world_scheme option) \<Rightarrow>
    'c Timer list \<Rightarrow> ('c, 'a) timer_world_scheme \<Rightarrow> ('c, 'a) timer_world_scheme option" where
  "run_timers run [] w = Some w"
| "run_timers run (t # ts) w = do {
     c \<leftarrow> closure t;
     w \<leftarrow> run c (w\<lparr>PENDING_TIMERS := remove1 t (PENDING_TIMERS w)\<rparr>);
     run_timers run ts w
   }"

locale timer_client =
  fixes run :: "'c \<Rightarrow> ('c, 'a) timer_world_scheme \<Rightarrow> ('c, 'a) timer_world_scheme option"
    and inv :: "('c, 'a) timer_world_scheme \<Rightarrow> bool"
  assumes run_law: "inv w \<Longrightarrow> PENDING_TIMERS w = us @ t # vs \<Longrightarrow> due (clock_ms w) t \<Longrightarrow>
      \<exists>c. closure t = Some c \<and> returns (run c (w\<lparr>PENDING_TIMERS := us @ vs\<rparr>)) (\<lambda>w'. inv w' \<and>
        clock_ms w' = clock_ms w \<and>
        (\<exists>ts. PENDING_TIMERS w' = us @ vs @ ts \<and> (\<forall>t \<in> set ts. \<not> due (clock_ms w) t)))"
begin

lemma scan_returns:
  assumes "inv w" and "clock_ms w = now" and "PENDING_TIMERS w = us @ vs" and "\<forall>t \<in> set us. \<not> due now t"
  shows "returns (scan run now (length us) w) (\<lambda>w'. inv w' \<and> clock_ms w' = now \<and>
    (\<exists>ts. PENDING_TIMERS w' = us @ filter (Not \<circ> due now) vs @ ts \<and> (\<forall>t \<in> set ts. \<not> due now t)) \<and>
    run_timers run (filter (due now) vs) w = Some w')"
  using assms
proof (induction "length (filter (due now) vs)" arbitrary: w us vs)
  case 0
  then have "filter (due now) vs = []" by simp
  then have none: "\<forall>t \<in> set vs. \<not> due now t"
    by (simp add: filter_empty_conv)
  then have "scan run now (length us) w = Some w"
    using scan_skip [of "length vs" "length us" w now run] scan_end [of w "length us + length vs"] 0
    by (simp add: due_def not_le)
  with 0 none \<open>filter (due now) vs = []\<close> show ?case
    by (auto simp: filter_id_conv)
next
  case (Suc n)
  then obtain ss t rest where vs: "vs = ss @ t # rest" "\<forall>s \<in> set ss. \<not> due now s" "due now t"
      "filter (due now) rest = tl (filter (due now) vs)"
    using filter_eq_ConsD [of "due now" vs "hd (filter (due now) vs)" "tl (filter (due now) vs)"]
    by (cases "filter (due now) vs") auto
  have skip: "scan run now (length us) w = scan run now (length (us @ ss)) w"
    using scan_skip [of "length ss" "length us" w now run] Suc.prems vs(1,2) by (simp add: due_def not_le)
  obtain c w1 ts where w1: "closure t = Some c" "run c (w\<lparr>PENDING_TIMERS := (us @ ss) @ rest\<rparr>) = Some w1" "inv w1"
      "clock_ms w1 = now" "PENDING_TIMERS w1 = (us @ ss) @ rest @ ts" "\<forall>t \<in> set ts. \<not> due now t"
    using run_law [of w "us @ ss" t rest] Suc.prems vs(1,3) by (auto elim!: returnsE)
  have "scan run now (length us) w = scan run now (length (us @ ss)) w1"
    using skip scan_fire [of w "us @ ss" t rest now c run] Suc.prems(3) vs(1,3) w1(1,2) by (simp add: due_def)
  moreover have "returns (scan run now (length (us @ ss)) w1) (\<lambda>w'. inv w' \<and> clock_ms w' = now \<and>
    (\<exists>ts'. PENDING_TIMERS w' = (us @ ss) @ filter (Not \<circ> due now) (rest @ ts) @ ts' \<and> (\<forall>t \<in> set ts'. \<not> due now t)) \<and>
    run_timers run (filter (due now) (rest @ ts)) w1 = Some w')"
  proof (rule Suc.hyps(1))
    show "n = length (filter (due now) (rest @ ts))"
      using Suc.hyps(2) vs(4) w1(6) by (simp add: filter_empty_conv)
  qed (use w1 Suc.prems(4) vs(2) in auto)
  moreover have "filter (Not \<circ> due now) vs = ss @ filter (Not \<circ> due now) rest" "filter (Not \<circ> due now) ts = ts"
    using vs w1(6) by (auto simp: filter_id_conv)
  moreover have "run_timers run (filter (due now) vs) w = run_timers run (filter (due now) (rest @ ts)) w1"
  proof -
    have "t \<notin> set (us @ ss)"
      using Suc.prems(4) vs(2,3) by auto
    then have "remove1 t (PENDING_TIMERS w) = (us @ ss) @ rest"
      using Suc.prems(3) vs(1) by (simp add: remove1_append)
    moreover have "filter (due now) vs = t # filter (due now) (rest @ ts)"
      using vs(1-3) w1(6) by (simp add: filter_empty_conv)
    ultimately show ?thesis
      using w1(1,2) by simp
  qed
  ultimately show ?case
    by simp (erule returns_conseq, use w1(6) in \<open>metis append.assoc Un_iff set_append\<close>)
qed

lemma tick_returns:
  assumes "inv w"
  shows "returns (tick run w) (\<lambda>w'. inv w' \<and> clock_ms w' = clock_ms w \<and>
    (\<exists>ts. PENDING_TIMERS w' = filter (Not \<circ> due (clock_ms w)) (PENDING_TIMERS w) @ ts \<and>
      (\<forall>t \<in> set ts. \<not> due (clock_ms w) t)) \<and>
    run_timers run (filter (due (clock_ms w)) (PENDING_TIMERS w)) w = Some w')"
  using scan_returns [OF assms refl, of "[]" "PENDING_TIMERS w"] by (simp add: tick_def current_time_ms_def)

end

section \<open>Properties\<close>

text \<open>Input for the witnesses: two pending timers at time 1000.\<close>

definition sample_timers :: "nat timer_world" where
  "sample_timers = udp_world.extend sample_udp
     \<lparr>PENDING_TIMERS = [\<lparr>absolute_timeout_ms = 1500, closure = Some 1, timer_id = 1\<rparr>,
                        \<lparr>absolute_timeout_ms = 900, closure = Some 2, timer_id = 2\<rparr>],
      NEXT_TIMER_ID = 3, clock_ms = 1000\<rparr>"

text \<open>
  C32: \<open>set_timer\<close> adds one pending timer with the given closure, due \<open>timeout\<close> milliseconds from now,
  and returns its id. The id is never negative, so that it differs from the -1 of the callers, and it
  differs from the ids of the last 2147483647 calls.
\<close>

theorem set_timer_correct:
  assumes "unat (clock_ms w) + unat timeout < 2 ^ 64"
  shows "returns (set_timer timeout c w) (\<lambda>(ident, w'). 0 \<le> ident \<and> ident < 2 ^ 31 \<and>
      PENDING_TIMERS w' = PENDING_TIMERS w @
        [\<lparr>absolute_timeout_ms = clock_ms w + ucast timeout, closure = Some c, timer_id = ident\<rparr>] \<and>
      unat (clock_ms w + ucast timeout) = unat (clock_ms w) + unat timeout \<and>
      NEXT_TIMER_ID w' = NEXT_TIMER_ID w + 1 \<and> udp_world.truncate w' = udp_world.truncate w \<and>
      (\<forall>k. 0 < k \<and> k < 2 ^ 31 \<longrightarrow> ident \<noteq> uint ((NEXT_TIMER_ID w - of_nat k) AND 0x7fffffff)))"
proof -
  have "unat (ucast timeout :: u64) = unat timeout"
    using unat_u32_less [of timeout] by (simp add: unsigned_ucast_eq take_bit_nat_eq_self)
  then have "unat (clock_ms w + ucast timeout) = unat (clock_ms w) + unat timeout"
    using assms by (simp add: unat_word_ariths)
  moreover have "uint (NEXT_TIMER_ID w AND 0x7fffffff) \<noteq> uint ((NEXT_TIMER_ID w - of_nat k) AND 0x7fffffff)"
    if "0 < k" "k < 2 ^ 31" for k
    using timer_ids_distinct [OF that, of "NEXT_TIMER_ID w - of_nat k"] by simp
  ultimately show ?thesis
    using set_timer_returns [OF assms, of c] timer_id_range [of "NEXT_TIMER_ID w"] by (simp add: udp_world.truncate_def)
qed

theorem set_timer_correct_witness:
  "returns (set_timer 500 9 sample_timers) (\<lambda>(ident, w'). length (PENDING_TIMERS w') = 3 \<and> ident \<noteq> 2)"
  using set_timer_correct [of sample_timers 500 9]
  by (auto simp: sample_timers_def udp_world.extend_def elim!: returns_conseq)

text \<open>
  \<open>cancel_timer\<close> removes exactly one pending timer with the given id and returns true, or changes
  nothing and returns false if none has it. The order of the timers may change, none is lost.
\<close>

theorem cancel_timer_correct:
  assumes "cancel_timer ident w = (found, w')"
  shows "(found \<longleftrightarrow> ident \<in> timer_id ` set (PENDING_TIMERS w)) \<and>
    (if found
     then \<exists>t \<in> set (PENDING_TIMERS w). timer_id t = ident \<and> mset (PENDING_TIMERS w') = mset (PENDING_TIMERS w) - {#t#}
     else w' = w) \<and>
    w' = w\<lparr>PENDING_TIMERS := PENDING_TIMERS w'\<rparr>"
  using cancel_timer_mset [OF assms] assms by (auto simp: cancel_timer_def split: prod.splits)

theorem cancel_timer_correct_witness:
  "mset (PENDING_TIMERS (snd (cancel_timer 1 sample_timers))) =
     {#\<lparr>absolute_timeout_ms = 900, closure = Some 2, timer_id = 2\<rparr>#}"
proof -
  obtain found w' where run: "cancel_timer 1 sample_timers = (found, w')" by fastforce
  have "PENDING_TIMERS sample_timers = [\<lparr>absolute_timeout_ms = 1500, closure = Some 1, timer_id = 1\<rparr>,
      \<lparr>absolute_timeout_ms = 900, closure = Some 2, timer_id = 2\<rparr>]"
    by (simp add: sample_timers_def udp_world.extend_def)
  with cancel_timer_correct [OF run] show ?thesis
    unfolding run by auto
qed

text \<open>
  The comment on \<open>set_timer\<close> says that ids are always positive. The id is 0 when the 32-bit
  counter has reached 2147483648.
\<close>

theorem timer_id_not_positive:
  assumes "NEXT_TIMER_ID w = 0x80000000" and "unat (clock_ms w) + unat timeout < 2 ^ 64"
  shows "\<exists>w'. set_timer timeout c w = Some (0, w')"
  using set_timer_returns [OF assms(2), of c] assms(1) by simp

theorem timer_id_not_positive_witness:
  "\<exists>w'. set_timer 500 9 (sample_timers\<lparr>NEXT_TIMER_ID := 0x80000000\<rparr>) = Some (0, w')"
  using timer_id_not_positive [of "sample_timers\<lparr>NEXT_TIMER_ID := 0x80000000\<rparr>" 500 9]
  by (simp add: sample_timers_def udp_world.extend_def)

end
