(* ===== verification/Reassembler.thy ===== *)
theory Reassembler
  imports Buf_Access
begin

text \<open>
  The reassembler of \<open>src/src/stack/tcp.rs\<close> (\<open>TCPReassembler\<close>): segments that arrive in order are
  passed on at once, together with the waiting segments they complete; the others wait. The
  sequence numbers are 32-bit words; what is proved is stated over positions in the byte stream of
  the sender, which \<open>pos_seq\<close> maps to sequence numbers.
\<close>

record TCPReassembler =
  next_sequence :: u32
  out_of_order :: "(u32 \<times> NetBuffer) list"

definition TCPReassembler_new :: TCPReassembler where
  "TCPReassembler_new = \<lparr>next_sequence = 0, out_of_order = []\<rparr>"

definition set_next_expect :: "u32 \<Rightarrow> TCPReassembler \<Rightarrow> TCPReassembler" where
  "set_next_expect seq_num r = r\<lparr>next_sequence := seq_num\<rparr>"

definition get_next_expect :: "TCPReassembler \<Rightarrow> u32" where
  "get_next_expect r = next_sequence r"

definition list_remove :: "nat \<Rightarrow> 'a list \<Rightarrow> 'a list" where
  "list_remove i xs = take i xs @ drop (Suc i) xs"

function reassemble_loop :: "u32 \<Rightarrow> nat \<Rightarrow> NetBuffer \<Rightarrow> TCPReassembler \<Rightarrow> 'a buf_world_scheme \<Rightarrow>
    (NetBuffer \<times> TCPReassembler \<times> 'a buf_world_scheme) option" where
  "reassemble_loop seq_num i packet r w =
     (if i < length (out_of_order r) then
        let (entry_seq, entry_packet) = out_of_order r ! i in
        if seq_gt seq_num entry_seq then
          reassemble_loop seq_num i packet (r\<lparr>out_of_order := list_remove i (out_of_order r)\<rparr>) (drop_buffer entry_packet w)
        else if entry_seq = next_sequence r then do {
          let r = r\<lparr>out_of_order := list_remove i (out_of_order r)\<rparr>;
          let r = r\<lparr>next_sequence := next_sequence r + of_nat (buf_length entry_packet)\<rparr>;
          packet \<leftarrow> append_buffer entry_packet packet;
          reassemble_loop seq_num 0 packet r w
        } else reassemble_loop seq_num (i + 1) packet r w
      else Some (packet, r, w))"
  by pat_completeness auto
termination
  by (relation "inv_image (less_than <*lex*> less_than)
      (\<lambda>(seq_num, i, packet, r, w). (length (out_of_order r), length (out_of_order r) - i))")
    (auto simp: list_remove_def)

declare reassemble_loop.simps [simp del]

definition add_packet :: "NetBuffer \<Rightarrow> u32 \<Rightarrow> TCPReassembler \<Rightarrow> 'a buf_world_scheme \<Rightarrow>
    (NetBuffer option \<times> TCPReassembler \<times> 'a buf_world_scheme) option" where
  "add_packet packet seq_num r w =
     (if seq_num = next_sequence r then do {
        let r = r\<lparr>next_sequence := next_sequence r + of_nat (buf_length packet)\<rparr>;
        (packet, r, w) \<leftarrow> reassemble_loop seq_num 0 packet r w;
        Some (Some packet, r, w)
      } else Some (None, r\<lparr>out_of_order := out_of_order r @ [(seq_num, packet)]\<rparr>, w))"

section \<open>Streams\<close>

text \<open>A buffer holds the piece of the stream that starts at position \<open>p\<close>.\<close>

definition piece :: "bytes \<Rightarrow> nat \<Rightarrow> NetBuffer \<Rightarrow> bool" where
  "piece strm p b \<longleftrightarrow> wf_buf b \<and> contents b \<noteq> [] \<and> p + length (contents b) \<le> length strm \<and>
     contents b = take (length (contents b)) (drop p strm)"

text \<open>
  A segment the reassembler may hold when it has passed on \<open>n\<close> octets: not older than half of the
  sequence space, and not further ahead than a quarter. A peer that respects the receive window
  stays far inside of it, since the window has 16 bits.
\<close>

definition near :: "nat \<Rightarrow> nat \<Rightarrow> nat \<Rightarrow> bool" where
  "near n p len \<longleftrightarrow> n < p + 2 ^ 31 \<and> p + len \<le> n + 2 ^ 30"

definition entry_at :: "bytes \<Rightarrow> u32 \<Rightarrow> nat \<Rightarrow> nat \<Rightarrow> u32 \<times> NetBuffer \<Rightarrow> bool" where
  "entry_at strm base n p e \<longleftrightarrow>
     fst e = pos_seq base p \<and> piece strm p (snd e) \<and> near n p (length (contents (snd e)))"

definition reassembler_ok :: "bytes \<Rightarrow> u32 \<Rightarrow> nat \<Rightarrow> TCPReassembler \<Rightarrow> bool" where
  "reassembler_ok strm base n r \<longleftrightarrow> n \<le> length strm \<and> length strm \<le> USIZE_MAX \<and> next_sequence r = pos_seq base n \<and>
     (\<forall>e \<in> set (out_of_order r). \<exists>p. entry_at strm base n p e)"

definition waiting :: "TCPReassembler \<Rightarrow> nat" where
  "waiting r = sum_list (map (\<lambda>e. nfrags (snd e)) (out_of_order r))"

section \<open>Steps of the loop\<close>

lemma loop_done: "reassemble_loop q (length es) b \<lparr>next_sequence = nx, out_of_order = es\<rparr> w =
    Some (b, \<lparr>next_sequence = nx, out_of_order = es\<rparr>, w)"
  by (subst reassemble_loop.simps) simp

lemma loop_stale: "seq_gt q (fst e) \<Longrightarrow>
   reassemble_loop q (length us) b \<lparr>next_sequence = nx, out_of_order = us @ e # vs\<rparr> w =
   reassemble_loop q (length us) b \<lparr>next_sequence = nx, out_of_order = us @ vs\<rparr> (drop_buffer (snd e) w)"
  by (subst reassemble_loop.simps) (simp add: list_remove_def split_def)

lemma loop_take: "\<not> seq_gt q (fst e) \<Longrightarrow> fst e = nx \<Longrightarrow>
   reassemble_loop q (length us) b \<lparr>next_sequence = nx, out_of_order = us @ e # vs\<rparr> w =
   do { b \<leftarrow> append_buffer (snd e) b;
        reassemble_loop q 0 b \<lparr>next_sequence = nx + of_nat (buf_length (snd e)), out_of_order = us @ vs\<rparr> w }"
  by (subst reassemble_loop.simps) (simp add: list_remove_def split_def)

lemma loop_skip: "\<not> seq_gt q (fst e) \<Longrightarrow> fst e \<noteq> nx \<Longrightarrow>
   reassemble_loop q (length us) b \<lparr>next_sequence = nx, out_of_order = us @ e # vs\<rparr> w =
   reassemble_loop q (length (us @ [e])) b \<lparr>next_sequence = nx, out_of_order = us @ e # vs\<rparr> w"
  by (subst reassemble_loop.simps) (simp add: split_def)

lemma near_seq_gt: "near n p l \<Longrightarrow> seq_gt (pos_seq base n) (pos_seq base p) \<longleftrightarrow> p < n"
  by (rule seq_gt_pos) (auto simp: near_def)

lemma near_next: "near n p l \<Longrightarrow> n \<le> p \<Longrightarrow> n \<le> m \<Longrightarrow> m \<le> n + 2 ^ 30 \<Longrightarrow> pos_seq base p = pos_seq base m \<longleftrightarrow> p = m"
  by (rule pos_seq_inj) (auto simp: near_def)

lemma piece_append:
  assumes "piece strm m c" and "contents b = take (m - n) (drop n strm)" and "n \<le> m"
  shows "contents b @ contents c = take (m + length (contents c) - n) (drop n strm)"
proof -
  have "drop m strm = drop (m - n) (drop n strm)"
    using assms(3) by simp
  then have "contents c = take (length (contents c)) (drop (m - n) (drop n strm))"
    using assms(1) unfolding piece_def by metis
  then show ?thesis
    using assms(2,3) take_add [of "m - n" "length (contents c)" "drop n strm"] by simp
qed

text \<open>
  From a loop that has passed on the stream from \<open>n\<close> to \<open>m\<close>: it reaches a position \<open>m'\<close> at which
  no waiting segment starts, and what it lets go is either older than \<open>n\<close> or part of what it
  passes on.
\<close>

definition kept :: "bytes \<Rightarrow> u32 \<Rightarrow> nat \<Rightarrow> nat \<Rightarrow> u32 \<times> NetBuffer \<Rightarrow> bool" where
  "kept strm base n m e \<longleftrightarrow> (\<exists>p. entry_at strm base n p e \<and> n \<le> p \<and> p \<noteq> m)"

definition spent :: "bytes \<Rightarrow> u32 \<Rightarrow> nat \<Rightarrow> nat \<Rightarrow> u32 \<times> NetBuffer \<Rightarrow> bool" where
  "spent strm base n m e \<longleftrightarrow> (\<exists>p. entry_at strm base n p e \<and> (p < n \<or> p + length (contents (snd e)) \<le> m))"

definition ends :: "bytes \<Rightarrow> u32 \<Rightarrow> nat \<Rightarrow> nat \<Rightarrow> u32 \<times> NetBuffer \<Rightarrow> bool" where
  "ends strm base n m e \<longleftrightarrow> (\<exists>p. entry_at strm base n p e \<and> p + length (contents (snd e)) = m)"

definition progress :: "bytes \<Rightarrow> u32 \<Rightarrow> nat \<Rightarrow> nat \<Rightarrow> (u32 \<times> NetBuffer) list \<Rightarrow> nat \<Rightarrow> TCPReassembler \<Rightarrow> bool" where
  "progress strm base n m es m' r \<longleftrightarrow> m \<le> m' \<and> m' \<le> length strm \<and> m' \<le> n + 2 ^ 30 \<and>
     next_sequence r = pos_seq base m' \<and> (\<forall>e \<in> set (out_of_order r). kept strm base n m' e) \<and>
     (\<forall>e \<in> set es. e \<in> set (out_of_order r) \<or> spent strm base n m' e) \<and>
     set (out_of_order r) \<subseteq> set es \<and> (m' = m \<or> (\<exists>e \<in> set es. ends strm base n m' e))"

definition reassembled :: "bytes \<Rightarrow> u32 \<Rightarrow> nat \<Rightarrow> nat \<Rightarrow> (u32 \<times> NetBuffer) list \<Rightarrow> nat \<Rightarrow> 'a buf_world_scheme \<Rightarrow>
    NetBuffer \<times> TCPReassembler \<times> 'a buf_world_scheme \<Rightarrow> bool" where
  "reassembled strm base n m es k w = (\<lambda>(b, r, w'). \<exists>m'. progress strm base n m es m' r \<and>
     wf_buf b \<and> contents b = take (m' - n) (drop n strm) \<and>
     pool_step w (k + sum_list (map (\<lambda>e. nfrags (snd e)) es)) w' (nfrags b + waiting r))"

lemma spent_mono: "spent strm base n m e \<Longrightarrow> m \<le> m' \<Longrightarrow> spent strm base n m' e"
  by (auto simp: spent_def)

lemma kept_entry: "kept strm base n m e \<Longrightarrow> \<exists>p. entry_at strm base n p e"
  by (auto simp: kept_def)

lemma reassembled_stale:
  assumes "reassembled strm base n m (us @ vs) k (drop_buffer (snd e) w) x" and "entry_at strm base n p e" and "p < n"
  shows "reassembled strm base n m (us @ e # vs) k w x"
proof -
  have "pool_step w (nfrags (snd e)) (drop_buffer (snd e) w) 0"
    using assms(2) by (intro drop_buffer_step) (simp add: entry_at_def piece_def)
  from pool_step_frame [OF this]
  have step: "pool_step w (j + nfrags (snd e)) (drop_buffer (snd e) w) j" for j by simp
  obtain b r w' where x: "x = (b, r, w')"
    by (cases x)
  obtain m' where m': "m \<le> m'" "m' \<le> length strm" "m' \<le> n + 2 ^ 30" "next_sequence r = pos_seq base m'" "wf_buf b"
      "contents b = take (m' - n) (drop n strm)" "\<forall>e \<in> set (out_of_order r). kept strm base n m' e"
      "\<forall>e \<in> set (us @ vs). e \<in> set (out_of_order r) \<or> spent strm base n m' e"
      "set (out_of_order r) \<subseteq> set (us @ vs)" "m' = m \<or> (\<exists>e \<in> set (us @ vs). ends strm base n m' e)"
      "pool_step (drop_buffer (snd e) w) (k + sum_list (map (\<lambda>e. nfrags (snd e)) (us @ vs))) w' (nfrags b + waiting r)"
    using assms(1) unfolding reassembled_def progress_def x by auto
  have "spent strm base n m' e"
    using assms(2,3) by (auto simp: spent_def)
  moreover have "pool_step w (k + sum_list (map (\<lambda>e. nfrags (snd e)) (us @ e # vs))) w' (nfrags b + waiting r)"
    using pool_step_trans [OF step m'(11)] by (simp add: ac_simps)
  ultimately show ?thesis
    unfolding reassembled_def progress_def x prod.case using m' by (intro exI [of _ m'] conjI) auto
qed

lemma reassembled_take:
  assumes "reassembled strm base n m1 (us @ vs) (k + nfrags (snd e)) w x"
    and "entry_at strm base n m e" and "m1 = m + length (contents (snd e))"
  shows "reassembled strm base n m (us @ e # vs) k w x"
proof -
  obtain b r w' where x: "x = (b, r, w')"
    by (cases x)
  obtain m' where m': "m1 \<le> m'" "m' \<le> length strm" "m' \<le> n + 2 ^ 30" "next_sequence r = pos_seq base m'" "wf_buf b"
      "contents b = take (m' - n) (drop n strm)" "\<forall>e \<in> set (out_of_order r). kept strm base n m' e"
      "\<forall>e \<in> set (us @ vs). e \<in> set (out_of_order r) \<or> spent strm base n m' e"
      "set (out_of_order r) \<subseteq> set (us @ vs)" "m' = m1 \<or> (\<exists>e \<in> set (us @ vs). ends strm base n m' e)"
      "pool_step w (k + nfrags (snd e) + sum_list (map (\<lambda>e. nfrags (snd e)) (us @ vs))) w' (nfrags b + waiting r)"
    using assms(1) unfolding reassembled_def progress_def x by auto
  have "spent strm base n m' e"
    using assms(2,3) m'(1) by (auto simp: spent_def)
  moreover have "m' = m1 \<Longrightarrow> ends strm base n m' e"
    using assms(2,3) by (auto simp: ends_def)
  moreover have "pool_step w (k + sum_list (map (\<lambda>e. nfrags (snd e)) (us @ e # vs))) w' (nfrags b + waiting r)"
    using m'(11) by (simp add: ac_simps)
  ultimately show ?thesis
    unfolding reassembled_def progress_def x prod.case using m' assms(3) by (intro exI [of _ m'] conjI) auto
qed

lemma reassemble_loop_returns:
  assumes "length strm \<le> USIZE_MAX"
  shows "wf_buf b \<Longrightarrow> contents b = take (m - n) (drop n strm) \<Longrightarrow> n \<le> m \<Longrightarrow> m \<le> length strm \<Longrightarrow> m \<le> n + 2 ^ 30 \<Longrightarrow>
    \<forall>e \<in> set us. kept strm base n m e \<Longrightarrow> \<forall>e \<in> set vs. \<exists>p. entry_at strm base n p e \<Longrightarrow>
    returns (reassemble_loop (pos_seq base n) (length us) b
        \<lparr>next_sequence = pos_seq base m, out_of_order = us @ vs\<rparr> w)
      (reassembled strm base n m (us @ vs) (nfrags b) w)"
proof (induction "length (us @ vs) * Suc (length (us @ vs)) + length vs" arbitrary: us vs m b w rule: less_induct)
  case less
  show ?case
  proof (cases vs)
    case Nil
    then show ?thesis
      using less.prems loop_done [of _ us b _ w] by (auto simp: reassembled_def progress_def waiting_def)
  next
    case (Cons e es)
    then obtain p where p: "entry_at strm base n p e"
      using less.prems(7) by auto
    then have e: "fst e = pos_seq base p" "piece strm p (snd e)" "near n p (length (contents (snd e)))"
      by (simp_all add: entry_at_def)
    have gt: "seq_gt (pos_seq base n) (fst e) \<longleftrightarrow> p < n"
      using near_seq_gt [OF e(3)] by (simp add: e(1))
    have es: "\<forall>e \<in> set es. \<exists>p. entry_at strm base n p e"
      using less.prems(7) Cons by simp
    show ?thesis
    proof (cases "p < n")
      case True
      have "returns (reassemble_loop (pos_seq base n) (length us) b
          \<lparr>next_sequence = pos_seq base m, out_of_order = us @ es\<rparr> (drop_buffer (snd e) w))
        (reassembled strm base n m (us @ es) (nfrags b) (drop_buffer (snd e) w))"
        using less.prems es Cons by (intro less.hyps) (simp_all add: add_mult_distrib2)
      then show ?thesis
        using True gt p by (simp add: Cons loop_stale) (blast intro: returns_conseq reassembled_stale)
    next
      case False
      then have next_iff: "fst e = pos_seq base m \<longleftrightarrow> p = m"
        using near_next [OF e(3)] less.prems(3,5) by (simp add: e(1))
      show ?thesis
      proof (cases "p = m")
        case True
        define m1 where "m1 = m + length (contents (snd e))"
        have m1: "m1 \<le> length strm" "m1 \<le> n + 2 ^ 30" "n \<le> m1"
          using e(2,3) True less.prems(3) by (simp_all add: m1_def piece_def near_def)
        have wf: "wf_buf (snd e)" "buf_length (snd e) = length (contents (snd e))"
          using e(2) by (simp_all add: piece_def length_contents)
        have len: "length (contents b) + length (contents (snd e)) \<le> USIZE_MAX"
          using less.prems(2-4) m1(1) assms by (simp add: m1_def)
        obtain c where c: "append_buffer (snd e) b = Some c" "wf_buf c" "contents c = contents b @ contents (snd e)"
            "nfrags c = nfrags b + nfrags (snd e)"
          using append_buffer_Some [OF less.prems(1) wf(1)] len by (auto elim!: returnsE)
        have "returns (reassemble_loop (pos_seq base n) (length ([] :: (u32 \<times> NetBuffer) list)) c
            \<lparr>next_sequence = pos_seq base m1, out_of_order = [] @ us @ es\<rparr> w)
          (reassembled strm base n m1 ([] @ us @ es) (nfrags c) w)"
        proof (rule less.hyps [where us = "[]" and vs = "us @ es" and b = c and m = m1 and w = w])
          show "contents c = take (m1 - n) (drop n strm)"
            using piece_append [of strm m "snd e" b n] e(2) True less.prems(2,3) c(3) by (simp add: m1_def)
          show "\<forall>e \<in> set (us @ es). \<exists>p. entry_at strm base n p e"
            using es less.prems(6) kept_entry by auto
        qed (use c(2) m1 Cons in \<open>simp_all add: add_mult_distrib2\<close>)
        moreover have "pos_seq base m + of_nat (buf_length (snd e)) = pos_seq base m1"
          by (simp add: pos_seq_def m1_def wf(2))
        ultimately show ?thesis
          using False True gt next_iff c(1,4) p
          by (simp add: Cons loop_take) (blast intro: returns_conseq reassembled_take m1_def)
      next
        case False
        with \<open>\<not> p < n\<close> have "kept strm base n m e"
          using p by (auto simp: kept_def)
        then have "returns (reassemble_loop (pos_seq base n) (length (us @ [e])) b
            \<lparr>next_sequence = pos_seq base m, out_of_order = (us @ [e]) @ es\<rparr> w)
          (reassembled strm base n m ((us @ [e]) @ es) (nfrags b) w)"
          using less.prems es Cons by (intro less.hyps) simp_all
        then show ?thesis
          using False \<open>\<not> p < n\<close> gt next_iff by (simp add: Cons loop_skip)
      qed
    qed
  qed
qed

section \<open>Segments that arrive\<close>

lemma entry_at_later: "entry_at strm base n p e \<Longrightarrow> n \<le> p \<Longrightarrow> n \<le> m \<Longrightarrow> m \<le> n + 2 ^ 30 \<Longrightarrow> entry_at strm base m p e"
  by (auto simp: entry_at_def near_def)

lemma add_packet_in_order:
  assumes "reassembler_ok strm base n r" and "piece strm n b" and "length (contents b) \<le> 2 ^ 30"
  shows "returns (add_packet b (pos_seq base n) r w) (\<lambda>(res, r', w'). \<exists>m b'. res = Some b' \<and>
     wf_buf b' \<and> contents b' = take (m - n) (drop n strm) \<and> reassembler_ok strm base m r' \<and>
     progress strm base n (n + length (contents b)) (out_of_order r) m r' \<and>
     pool_step w (nfrags b + waiting r) w' (nfrags b' + waiting r'))"
proof -
  define m where "m = n + length (contents b)"
  have b: "wf_buf b" "buf_length b = length (contents b)" "contents b = take (m - n) (drop n strm)" "m \<le> length strm"
    using assms(2) length_contents [of b] unfolding piece_def m_def by simp_all
  have r: "next_sequence r = pos_seq base n" "length strm \<le> USIZE_MAX" "\<forall>e \<in> set (out_of_order r). \<exists>p. entry_at strm base n p e"
    using assms(1) by (simp_all add: reassembler_ok_def)
  define q where "q = \<lparr>next_sequence = pos_seq base m, out_of_order = [] @ out_of_order r\<rparr>"
  have q: "r\<lparr>next_sequence := next_sequence r + of_nat (buf_length b)\<rparr> = q"
    by (cases r) (use r(1) b(2) in \<open>simp add: pos_seq_def m_def q_def\<close>)
  have "returns (reassemble_loop (pos_seq base n) (length ([] :: (u32 \<times> NetBuffer) list)) b q w)
      (reassembled strm base n m ([] @ out_of_order r) (nfrags b) w)"
    unfolding q_def
  proof (rule reassemble_loop_returns)
    show "n \<le> m" "m \<le> n + 2 ^ 30"
      using assms(3) by (simp_all add: m_def)
  qed (use r b in simp_all)
  then obtain x where x: "reassemble_loop (pos_seq base n) 0 b q w = Some x"
      "reassembled strm base n m (out_of_order r) (nfrags b) w x"
    by (auto elim!: returnsE)
  obtain b' r' w' where x_eq: "x = (b', r', w')" by (cases x)
  obtain m' where m': "progress strm base n m (out_of_order r) m' r'" "wf_buf b'" "contents b' = take (m' - n) (drop n strm)"
      "pool_step w (nfrags b + waiting r) w' (nfrags b' + waiting r')"
    using x(2) unfolding reassembled_def x_eq by (auto simp: waiting_def)
  have "\<exists>p. entry_at strm base m' p e" if "e \<in> set (out_of_order r')" for e
  proof -
    have "kept strm base n m' e" "n \<le> m'" "m' \<le> n + 2 ^ 30"
      using m'(1) that by (auto simp: progress_def m_def)
    then show ?thesis
      using entry_at_later [of strm base n _ e m'] unfolding kept_def by blast
  qed
  then have "reassembler_ok strm base m' r'"
    using m'(1) r(2) by (simp add: reassembler_ok_def progress_def)
  moreover have "add_packet b (pos_seq base n) r w = Some (Some b', r', w')"
    using r(1) q x(1) by (simp add: add_packet_def x_eq Let_def)
  ultimately show ?thesis
    using m' by (auto simp: m_def)
qed

lemma add_packet_out_of_order:
  assumes "reassembler_ok strm base n r" and "entry_at strm base n p (pos_seq base p, b)" and "p \<noteq> n"
  shows "add_packet b (pos_seq base p) r w = Some (None, r\<lparr>out_of_order := out_of_order r @ [(pos_seq base p, b)]\<rparr>, w)"
    and "reassembler_ok strm base n (r\<lparr>out_of_order := out_of_order r @ [(pos_seq base p, b)]\<rparr>)"
proof -
  have "pos_seq base p \<noteq> pos_seq base n"
    using assms(2,3) pos_seq_inj [of n p base] by (auto simp: entry_at_def near_def)
  then show "add_packet b (pos_seq base p) r w = Some (None, r\<lparr>out_of_order := out_of_order r @ [(pos_seq base p, b)]\<rparr>, w)"
    using assms(1) by (simp add: add_packet_def reassembler_ok_def)
  show "reassembler_ok strm base n (r\<lparr>out_of_order := out_of_order r @ [(pos_seq base p, b)]\<rparr>)"
    using assms(1,2) by (auto simp: reassembler_ok_def)
qed

section \<open>A whole stream\<close>

text \<open>The segments of a connection in the order they arrive, and the buffers passed on.\<close>

fun reassemble :: "(u32 \<times> NetBuffer) list \<Rightarrow> TCPReassembler \<Rightarrow> 'a buf_world_scheme \<Rightarrow>
    (NetBuffer list \<times> TCPReassembler \<times> 'a buf_world_scheme) option" where
  "reassemble [] r w = Some ([], r, w)"
| "reassemble ((seq_num, b) # segs) r w = do {
     (res, r, w) \<leftarrow> add_packet b seq_num r w;
     (bs, r, w) \<leftarrow> reassemble segs r w;
     Some ((case res of None \<Rightarrow> bs | Some b \<Rightarrow> b # bs), r, w)
   }"

text \<open>A stream of at most 1 GiB keeps every segment near every position.\<close>

lemma piece_entry_at:
  assumes "piece strm p b" and "length strm \<le> 2 ^ 30" and "n \<le> length strm"
  shows "entry_at strm base n p (pos_seq base p, b)"
  using assms by (auto simp: entry_at_def piece_def near_def)

lemma take_drop_join:
  "n \<le> m \<Longrightarrow> m \<le> k \<Longrightarrow> take (m - n) (drop n xs) @ take (k - m) (drop m xs) = take (k - n) (drop n xs)"
  using take_add [of "m - n" "k - m" "drop n xs"] by simp

definition segment_of :: "bytes \<Rightarrow> u32 \<Rightarrow> u32 \<times> NetBuffer \<Rightarrow> bool" where
  "segment_of strm base s \<longleftrightarrow> (\<exists>p. fst s = pos_seq base p \<and> piece strm p (snd s))"

text \<open>One step of a connection, for whatever invariant \<open>I\<close> of position and reassembler.\<close>

lemma reassemble_invariant:
  fixes w :: "'a buf_world_scheme"
  assumes step: "\<And>s n r (w :: 'a buf_world_scheme) K. s \<in> S \<Longrightarrow> I K n r \<Longrightarrow>
      returns (add_packet (snd s) (fst s) r w) (\<lambda>(res, r', w'). \<exists>m \<ge> n. I (insert s K) m r' \<and>
        (case res of None \<Rightarrow> m = n | Some b \<Rightarrow> contents b = take (m - n) (drop n strm)))"
  shows "set segs \<subseteq> S \<Longrightarrow> I K n r \<Longrightarrow> returns (reassemble segs r w) (\<lambda>(bs, r', w').
     \<exists>m \<ge> n. I (K \<union> set segs) m r' \<and> concat (map contents bs) = take (m - n) (drop n strm))"
proof (induction segs arbitrary: K n r w)
  case (Cons s segs)
  obtain res r1 w1 m where run: "add_packet (snd s) (fst s) r w = Some (res, r1, w1)" and m: "n \<le> m" "I (insert s K) m r1"
      "case res of None \<Rightarrow> m = n | Some b \<Rightarrow> contents b = take (m - n) (drop n strm)"
    using step [of s K n r w] Cons.prems by (auto elim!: returnsE)
  have "returns (reassemble segs r1 w1) (\<lambda>(bs, r', w').
     \<exists>k \<ge> m. I (insert s K \<union> set segs) k r' \<and> concat (map contents bs) = take (k - m) (drop m strm))"
    using Cons.IH [OF _ m(2)] Cons.prems(1) by simp
  then obtain bs r2 w2 k where rest: "reassemble segs r1 w1 = Some (bs, r2, w2)" "m \<le> k" "I (insert s K \<union> set segs) k r2"
      "concat (map contents bs) = take (k - m) (drop m strm)"
    by (auto elim!: returnsE)
  have "K \<union> set (s # segs) = insert s K \<union> set segs" by auto
  moreover have "reassemble (s # segs) r w = Some (case res of None \<Rightarrow> bs | Some b \<Rightarrow> b # bs, r2, w2)"
    using run rest(1) by (cases s) simp
  moreover have "concat (map contents (case res of None \<Rightarrow> bs | Some b \<Rightarrow> b # bs)) = take (k - n) (drop n strm)"
    using m(3) rest(4) take_drop_join [OF m(1) rest(2), of strm] by (cases res) auto
  ultimately show ?case
    using m(1) rest(2,3) by (auto intro!: exI [of _ k])
qed auto

lemma add_packet_stream:
  assumes "length strm \<le> 2 ^ 30" and "segment_of strm base s" and "reassembler_ok strm base n r"
  shows "returns (add_packet (snd s) (fst s) r w) (\<lambda>(res, r', w'). \<exists>m \<ge> n. reassembler_ok strm base m r' \<and>
    (case res of None \<Rightarrow> m = n | Some b \<Rightarrow> contents b = take (m - n) (drop n strm)))"
proof -
  obtain p where p: "fst s = pos_seq base p" "piece strm p (snd s)"
    using assms(2) by (auto simp: segment_of_def)
  have len: "length (contents (snd s)) \<le> 2 ^ 30" "n \<le> length strm"
    using p(2) assms(1,3) by (simp_all add: piece_def reassembler_ok_def)
  show ?thesis
  proof (cases "p = n")
    case True
    obtain b r' w' m where "add_packet (snd s) (pos_seq base n) r w = Some (Some b, r', w')"
        "contents b = take (m - n) (drop n strm)" "n + length (contents (snd s)) \<le> m" "reassembler_ok strm base m r'"
      using add_packet_in_order [OF assms(3) p(2) [unfolded True] len(1), of w] by (auto simp: progress_def elim!: returnsE)
    then show ?thesis
      by (auto simp: p(1) True intro!: exI [of _ m])
  next
    case False
    note ooo = add_packet_out_of_order [OF assms(3) piece_entry_at [OF p(2) assms(1) len(2)] False]
    show ?thesis
      using ooo(1) [of w] ooo(2) by (auto simp: p(1))
  qed
qed

lemma reassemble_safe:
  assumes "length strm \<le> 2 ^ 30" and "\<forall>s \<in> set segs. segment_of strm base s" and "reassembler_ok strm base n r"
  shows "returns (reassemble segs r w) (\<lambda>(bs, r', w'). \<exists>m \<ge> n. reassembler_ok strm base m r' \<and>
    concat (map contents bs) = take (m - n) (drop n strm))"
  using reassemble_invariant [where I = "\<lambda>_. reassembler_ok strm base" and S = "set segs"] add_packet_stream assms
  by fastforce

section \<open>Every segment of a stream\<close>

text \<open>A stream that was cut into chunks, each sent as one segment.\<close>

definition chunk_start :: "bytes list \<Rightarrow> nat \<Rightarrow> nat" where
  "chunk_start cs k = length (concat (take k cs))"

definition chunk_segment :: "bytes list \<Rightarrow> u32 \<Rightarrow> nat \<Rightarrow> u32 \<times> NetBuffer \<Rightarrow> bool" where
  "chunk_segment cs base k s \<longleftrightarrow> k < length cs \<and> fst s = pos_seq base (chunk_start cs k) \<and>
     wf_buf (snd s) \<and> contents (snd s) = cs ! k"

lemma chunk_start_Suc: "k < length cs \<Longrightarrow> chunk_start cs (Suc k) = chunk_start cs k + length (cs ! k)"
  by (simp add: chunk_start_def take_Suc_conv_app_nth)

lemma chunk_start_mono: "j \<le> k \<Longrightarrow> chunk_start cs j \<le> chunk_start cs k"
  unfolding chunk_start_def by (metis concat_append le_add1 length_append min.absorb1 take_add take_take le_add_diff_inverse)

lemma chunk_split: "k < length cs \<Longrightarrow> concat cs = concat (take k cs) @ cs ! k @ concat (drop (Suc k) cs)"
  by (metis append.assoc concat.simps(2) concat_append id_take_nth_drop)

lemma chunk_piece:
  assumes "chunk_segment cs base k s" and "[] \<notin> set cs"
  shows "piece (concat cs) (chunk_start cs k) (snd s)"
proof -
  have "cs ! k \<noteq> []"
    using assms by (metis chunk_segment_def nth_mem)
  then show ?thesis
    using assms(1) chunk_split [of k cs] by (auto simp: piece_def chunk_segment_def chunk_start_def)
qed

lemma chunk_start_less_iff:
  assumes "[] \<notin> set cs" and "k < length cs" and "j \<le> length cs"
  shows "chunk_start cs k < chunk_start cs j \<longleftrightarrow> k < j"
proof -
  have "chunk_start cs k < chunk_start cs (Suc k)"
    using assms(1,2) nth_mem [of k cs] by (metis chunk_start_Suc length_greater_0_conv less_add_same_cancel1)
  then show ?thesis
    using chunk_start_mono [of "Suc k" j cs] chunk_start_mono [of j k cs] by (metis Suc_leI leD le_less_linear order_less_le_trans)
qed

definition in_step :: "bytes list \<Rightarrow> u32 \<Rightarrow> (u32 \<times> NetBuffer) set \<Rightarrow> nat \<Rightarrow> TCPReassembler \<Rightarrow> bool" where
  "in_step cs base K m r \<longleftrightarrow> reassembler_ok (concat cs) base m r \<and> (\<exists>j \<le> length cs. m = chunk_start cs j) \<and>
     (\<forall>e \<in> set (out_of_order r). \<exists>k. chunk_segment cs base k e \<and> chunk_start cs k \<noteq> m) \<and>
     (\<forall>s \<in> K. \<forall>k. chunk_segment cs base k s \<longrightarrow> s \<in> set (out_of_order r) \<or> chunk_start cs (Suc k) \<le> m)"

lemma entry_chunk:
  assumes small: "length (concat cs) \<le> 2 ^ 30" and nonempty: "[] \<notin> set cs"
    and entry: "entry_at (concat cs) base n p e" and chunk: "chunk_segment cs base k e"
  shows "p = chunk_start cs k"
proof -
  have "p \<le> length (concat cs)" "chunk_start cs k \<le> length (concat cs)"
    using entry chunk_piece [OF chunk nonempty] by (simp_all add: entry_at_def piece_def)
  then show ?thesis
    using entry chunk small pos_seq_inj [of "chunk_start cs k" p base] by (simp add: entry_at_def chunk_segment_def)
qed

lemma chunk_segment_start:
  assumes small: "length (concat cs) \<le> 2 ^ 30" and nonempty: "[] \<notin> set cs"
    and s: "chunk_segment cs base j s" "chunk_segment cs base k s"
  shows "chunk_start cs j = chunk_start cs k"
proof -
  have "entry_at (concat cs) base 0 (chunk_start cs j) (pos_seq base (chunk_start cs j), snd s)"
    by (rule piece_entry_at [OF chunk_piece [OF s(1) nonempty] small]) simp
  moreover have "s = (pos_seq base (chunk_start cs j), snd s)"
    using s(1) by (cases s) (simp add: chunk_segment_def)
  ultimately show ?thesis
    using entry_chunk [OF small nonempty _ s(2)] by simp
qed

lemma chunk_segment_end:
  "chunk_segment cs base k s \<Longrightarrow> chunk_start cs (Suc k) = chunk_start cs k + length (contents (snd s))"
  by (simp add: chunk_segment_def chunk_start_Suc)

lemma chunk_end_le:
  "[] \<notin> set cs \<Longrightarrow> k < length cs \<Longrightarrow> j \<le> length cs \<Longrightarrow> chunk_start cs k < chunk_start cs j \<Longrightarrow> chunk_start cs (Suc k) \<le> chunk_start cs j"
  using chunk_start_less_iff [of cs k j] chunk_start_mono [of "Suc k" j cs] by simp

lemma in_step_in_order:
  assumes small: "length (concat cs) \<le> 2 ^ 30" and nonempty: "[] \<notin> set cs"
    and state: "in_step cs base K n r" and s: "chunk_segment cs base k s" and start: "chunk_start cs k = n"
    and prog: "progress (concat cs) base n (n + length (contents (snd s))) (out_of_order r) m r'"
    and ok: "reassembler_ok (concat cs) base m r'"
  shows "in_step cs base (insert s K) m r'"
proof -
  have m: "n + length (contents (snd s)) \<le> m" "set (out_of_order r') \<subseteq> set (out_of_order r)"
    using prog by (simp_all add: progress_def)
  have chunk: "\<exists>k. chunk_segment cs base k e" if "e \<in> set (out_of_order r)" for e
    using state that by (auto simp: in_step_def)
  have "\<exists>j \<le> length cs. m = chunk_start cs j"
  proof (cases "m = n + length (contents (snd s))")
    case True
    then show ?thesis
      using s start chunk_segment_end [OF s] by (intro exI [of _ "Suc k"]) (simp add: chunk_segment_def)
  next
    case False
    then obtain e where e: "e \<in> set (out_of_order r)" "ends (concat cs) base n m e"
      using prog unfolding progress_def by blast
    then obtain j where j: "chunk_segment cs base j e" using chunk by blast
    then have "m = chunk_start cs (Suc j)"
      using e(2) entry_chunk [OF small nonempty _ j] chunk_segment_end [OF j] by (auto simp: ends_def)
    then show ?thesis
      using j by (intro exI [of _ "Suc j"]) (simp add: chunk_segment_def)
  qed
  moreover have "\<exists>j. chunk_segment cs base j e \<and> chunk_start cs j \<noteq> m" if "e \<in> set (out_of_order r')" for e
  proof -
    obtain j where j: "chunk_segment cs base j e" using chunk m(2) \<open>e \<in> _\<close> by blast
    moreover have "kept (concat cs) base n m e"
      using prog \<open>e \<in> _\<close> by (simp add: progress_def)
    ultimately show ?thesis
      using entry_chunk [OF small nonempty _ j] by (auto simp: kept_def)
  qed
  moreover have "t \<in> set (out_of_order r') \<or> chunk_start cs (Suc j) \<le> m"
    if t: "t \<in> insert s K" and j: "chunk_segment cs base j t" for t j
  proof (cases "t = s")
    case True
    have "chunk_start cs j = n"
      using chunk_segment_start [OF small nonempty _ s, of j] j start True by simp
    then show ?thesis
      using chunk_segment_end [OF j] True m(1) by simp
  next
    case False
    with t have "t \<in> set (out_of_order r) \<or> chunk_start cs (Suc j) \<le> n"
      using state j unfolding in_step_def by blast
    then consider "chunk_start cs (Suc j) \<le> n" | "t \<in> set (out_of_order r')" | "spent (concat cs) base n m t"
      using prog unfolding progress_def by blast
    then show ?thesis
    proof cases
      case 3
      obtain i where i: "i \<le> length cs" "n = chunk_start cs i"
        using state by (auto simp: in_step_def)
      from 3 have "chunk_start cs j < n \<or> chunk_start cs (Suc j) \<le> m"
        using entry_chunk [OF small nonempty _ j] chunk_segment_end [OF j] by (auto simp: spent_def)
      then show ?thesis
        using chunk_end_le [OF nonempty _ i(1), of j] i(2) j m(1) by (auto simp: chunk_segment_def)
    qed (use m(1) in auto)
  qed
  ultimately show ?thesis
    using ok by (simp add: in_step_def)
qed

lemma add_packet_chunk:
  assumes small: "length (concat cs) \<le> 2 ^ 30" and nonempty: "[] \<notin> set cs"
    and s: "chunk_segment cs base k s" and state: "in_step cs base K n r"
  shows "returns (add_packet (snd s) (fst s) r w) (\<lambda>(res, r', w'). \<exists>m \<ge> n. in_step cs base (insert s K) m r' \<and>
    (case res of None \<Rightarrow> m = n | Some b \<Rightarrow> contents b = take (m - n) (drop n (concat cs))))"
proof -
  have p: "fst s = pos_seq base (chunk_start cs k)" "piece (concat cs) (chunk_start cs k) (snd s)"
    using s chunk_piece [OF s nonempty] by (simp_all add: chunk_segment_def)
  have r: "reassembler_ok (concat cs) base n r" "n \<le> length (concat cs)"
    using state by (simp_all add: in_step_def reassembler_ok_def)
  show ?thesis
  proof (cases "chunk_start cs k = n")
    case True
    have "length (contents (snd s)) \<le> 2 ^ 30"
      using p(2) small by (simp add: piece_def)
    then obtain b r' w' m where run: "add_packet (snd s) (pos_seq base n) r w = Some (Some b, r', w')"
        "contents b = take (m - n) (drop n (concat cs))" "reassembler_ok (concat cs) base m r'"
        "progress (concat cs) base n (n + length (contents (snd s))) (out_of_order r) m r'"
      using add_packet_in_order [OF r(1) p(2) [unfolded True], of w] by (auto elim!: returnsE)
    have "in_step cs base (insert s K) m r'" "n \<le> m"
      using in_step_in_order [OF small nonempty state s True run(4,3)] run(4) by (auto simp: progress_def)
    with run show ?thesis
      by (auto simp: p(1) True intro!: exI [of _ m])
  next
    case False
    note ooo = add_packet_out_of_order [OF r(1) piece_entry_at [OF p(2) small r(2)] False]
    have "in_step cs base (insert s K) n (r\<lparr>out_of_order := out_of_order r @ [(pos_seq base (chunk_start cs k), snd s)]\<rparr>)"
      using ooo(2) s state False by (auto simp: in_step_def simp flip: p(1))
    then show ?thesis
      using ooo(1) [of w] by (auto simp: p(1))
  qed
qed

text \<open>Whatever the order in which the segments come, and however often, the stream comes out.\<close>

lemma reassemble_complete:
  fixes w :: "'a buf_world_scheme"
  assumes "length (concat cs) \<le> 2 ^ 30" and "[] \<notin> set cs"
    and "\<forall>s \<in> set segs. \<exists>k. chunk_segment cs base k s"
    and "\<forall>k < length cs. \<exists>s \<in> set segs. chunk_segment cs base k s"
  shows "returns (reassemble segs \<lparr>next_sequence = base, out_of_order = []\<rparr> w)
    (\<lambda>(bs, r', w'). concat (map contents bs) = concat cs)"
proof -
  define r where "r = \<lparr>next_sequence = base, out_of_order = ([] :: (u32 \<times> NetBuffer) list)\<rparr>"
  have init: "in_step cs base {} 0 r"
    using assms(1) by (auto simp: in_step_def reassembler_ok_def r_def pos_seq_def chunk_start_def USIZE_MAX_def intro: exI [of _ 0])
  have "returns (reassemble segs r w) (\<lambda>(bs, r', w'). \<exists>m \<ge> 0. in_step cs base ({} \<union> set segs) m r' \<and>
      concat (map contents bs) = take (m - 0) (drop 0 (concat cs)))"
  proof (rule reassemble_invariant [where I = "in_step cs base" and S = "set segs"])
    fix s n q and v :: "'a buf_world_scheme" and K
    assume "s \<in> set segs" and state: "in_step cs base K n q"
    then obtain k where "chunk_segment cs base k s"
      using assms(3) by blast
    then show "returns (add_packet (snd s) (fst s) q v) (\<lambda>(res, r', w'). \<exists>m \<ge> n. in_step cs base (insert s K) m r' \<and>
        (case res of None \<Rightarrow> m = n | Some b \<Rightarrow> contents b = take (m - n) (drop n (concat cs))))"
      by (rule add_packet_chunk [OF assms(1,2) _ state])
  qed (simp_all add: init)
  then show ?thesis
    unfolding r_def [symmetric]
  proof (rule returns_conseq, clarify)
    fix bs r' and w' :: "'a buf_world_scheme" and m
    assume m: "in_step cs base ({} \<union> set segs) m r'" and out: "concat (map contents bs) = take (m - 0) (drop 0 (concat cs))"
    obtain j where j: "j \<le> length cs" "m = chunk_start cs j"
      using m by (auto simp: in_step_def)
    have "j = length cs"
    proof (rule ccontr)
      assume "j \<noteq> length cs"
      then obtain s where s: "s \<in> set segs" "chunk_segment cs base j s"
        using j(1) assms(4) by (metis le_neq_implies_less)
      have "m < chunk_start cs (Suc j)"
        using s(2) j(2) chunk_segment_end [OF s(2)] chunk_piece [OF s(2) assms(2)] by (simp add: piece_def)
      then obtain k where "chunk_segment cs base k s" "chunk_start cs k \<noteq> m"
        using m s by (fastforce simp: in_step_def)
      then show False
        using chunk_segment_start [OF assms(1,2) s(2)] j(2) by simp
    qed
    with out j(2) show "concat (map contents bs) = concat cs"
      by (simp add: chunk_start_def)
  qed
qed

section \<open>Properties\<close>

text \<open>Inputs for the witnesses: the stream 1 .. 5 in two segments, at the wrap-around of the sequence space.\<close>

definition sample_segments :: "(u32 \<times> NetBuffer) list" where
  "sample_segments = [(0xffffffff + 3, small_buffer [4, 5]), (0xffffffff, small_buffer [1, 2, 3])]"

lemma sample_chunks:
  "chunk_segment [[1, 2, 3], [4, 5]] 0xffffffff 1 (0xffffffff + 3, small_buffer [4, 5])"
  "chunk_segment [[1, 2, 3], [4, 5]] 0xffffffff 0 (0xffffffff, small_buffer [1, 2, 3])"
  using small_buffer_wf [of "[4, 5]"] small_buffer_wf [of "[1, 2, 3]"]
  by (simp_all add: chunk_segment_def chunk_start_def pos_seq_def FRAGMENT_SIZE_def)

text \<open>
  C16: The reassembler never corrupts the stream. Whatever segments of the stream arrive (in any order,
  repeated, overlapping, cut in different ways, or with some missing), what it passes on is a prefix
  of the stream from where it stood: no octet twice, none out of order, none made up.
\<close>

theorem reassembler_safe:
  assumes "length strm \<le> 2 ^ 30" and "\<forall>s \<in> set segs. segment_of strm base s"
  shows "returns (reassemble segs \<lparr>next_sequence = base, out_of_order = []\<rparr> w) (\<lambda>(bs, r', w').
    \<exists>m \<le> length strm. concat (map contents bs) = take m strm \<and> next_sequence r' = pos_seq base m)"
proof -
  have "reassembler_ok strm base 0 \<lparr>next_sequence = base, out_of_order = []\<rparr>"
    using assms(1) by (simp add: reassembler_ok_def pos_seq_def USIZE_MAX_def)
  from reassemble_safe [OF assms this, of w] show ?thesis
    by (auto simp: reassembler_ok_def elim!: returns_conseq)
qed

theorem reassembler_safe_witness:
  "returns (reassemble sample_segments \<lparr>next_sequence = 0xffffffff, out_of_order = []\<rparr> sample_pool) (\<lambda>(bs, r', w').
     \<exists>m \<le> length [1, 2, 3, 4, 5 :: u8]. concat (map contents bs) = take m [1, 2, 3, 4, 5])"
proof -
  have "\<forall>s \<in> set sample_segments. segment_of (concat [[1, 2, 3], [4, 5]]) 0xffffffff s"
    using sample_chunks chunk_piece [OF sample_chunks(1)] chunk_piece [OF sample_chunks(2)]
    by (auto simp: sample_segments_def segment_of_def chunk_segment_def)
  from reassembler_safe [OF _ this, of sample_pool] show ?thesis
    by (auto elim!: returns_conseq)
qed

text \<open>
  C17: The reassembler is complete. If a stream was sent in segments, and every one of them arrives at
  least once, in whatever order, then the whole stream comes out, although the loop looks only for a
  segment that starts exactly where the stream stands, and although it throws segments away.
\<close>

theorem reassembler_complete:
  assumes "length (concat cs) \<le> 2 ^ 30" and "[] \<notin> set cs"
    and "\<forall>s \<in> set segs. \<exists>k. chunk_segment cs base k s"
    and "\<forall>k < length cs. \<exists>s \<in> set segs. chunk_segment cs base k s"
  shows "returns (reassemble segs \<lparr>next_sequence = base, out_of_order = []\<rparr> w)
    (\<lambda>(bs, r', w'). concat (map contents bs) = concat cs)"
  by (rule reassemble_complete [OF assms])

theorem reassembler_complete_witness:
  "returns (reassemble sample_segments \<lparr>next_sequence = 0xffffffff, out_of_order = []\<rparr> sample_pool)
     (\<lambda>(bs, r', w'). concat (map contents bs) = [1, 2, 3, 4, 5])"
proof -
  have "\<forall>s \<in> set sample_segments. \<exists>k. chunk_segment [[1, 2, 3], [4, 5]] 0xffffffff k s"
    using sample_chunks by (auto simp: sample_segments_def)
  moreover have "\<forall>k < length [[1, 2, 3], [4, 5 :: u8]]. \<exists>s \<in> set sample_segments. chunk_segment [[1, 2, 3], [4, 5]] 0xffffffff k s"
    using sample_chunks by (auto simp: sample_segments_def less_Suc_eq)
  ultimately show ?thesis
    using reassembler_complete [of "[[1, 2, 3], [4, 5]]" sample_segments "0xffffffff" sample_pool] by simp
qed

end
