(* ===== verification/Tcp_State.thy ===== *)
theory Tcp_State
  imports Timer Reassembler
begin

text \<open>
  The data of \<open>src/src/stack/tcp.rs\<close>. A socket reference is an index into the list of sockets: the
  model keeps every socket that was ever made (the deallocation of an \<open>Arc\<close> is not modelled). The
  closures that TCP hands to the timers are the constructors of \<open>callback\<close>, with the reference they
  have captured. Values of \<open>rand::random\<close> are arguments.
\<close>

definition EPHEMERAL_PORT_BASE :: u16 where "EPHEMERAL_PORT_BASE = 49152"
definition RETRANSMIT_INTERVAL :: u32 where "RETRANSMIT_INTERVAL = 1000"
definition MAX_ACK_DELAY :: u32 where "MAX_ACK_DELAY = 500"
definition MAX_DELAYED_ACKS :: u32 where "MAX_DELAYED_ACKS = 5"
definition RESPONSE_TIMEOUT :: u32 where "RESPONSE_TIMEOUT = 3000"
definition TIME_WAIT_TIMEOUT :: u32 where "TIME_WAIT_TIMEOUT = 5000"
definition DEFAULT_TCP_MSS :: nat where "DEFAULT_TCP_MSS = 536"
definition MAX_RECEIVE_WINDOW :: u16 where "MAX_RECEIVE_WINDOW = 0xffff"
definition MAX_RETRIES :: u32 where "MAX_RETRIES = 5"
definition TCP_HEADER_LEN :: nat where "TCP_HEADER_LEN = 20"

datatype TCPState = Closed | SynSent | Established | CloseWait | LastAck | FinWait1 | FinWait2 | Closing | TimeWait
  | Listen | SynReceived

definition FLAG_FIN :: u8 where "FLAG_FIN = 1"
definition FLAG_SYN :: u8 where "FLAG_SYN = 2"
definition FLAG_RST :: u8 where "FLAG_RST = 4"
definition FLAG_PSH :: u8 where "FLAG_PSH = 8"
definition FLAG_ACK :: u8 where "FLAG_ACK = 16"

definition has_flag :: "u8 \<Rightarrow> u8 \<Rightarrow> bool" where
  "has_flag flags flag \<longleftrightarrow> flags AND flag \<noteq> 0"

record TCPSocketState =
  remote_ip :: IPAddr
  remote_port :: u16
  local_port :: u16
  state :: TCPState
  receive_next_seq :: u32
  receive_queue :: NetBuffer
  reassembler :: TCPReassembler
  delayed_ack_timer_id :: int
  num_delayed_acks :: u32
  send_unacked :: u32
  send_next_seq :: u32
  send_window :: u32
  send_last_win_seq :: u32
  send_last_win_ack :: u32
  send_mss :: nat
  retransmit_queue :: NetBuffer
  retransmit_timer_id :: int
  response_timer_id :: int
  request_retry_count :: u32
  socket_queue :: "nat list"

record TCPSendParams =
  source_port :: u16
  dest_ip :: IPAddr
  dest_port :: u16
  seq_num :: u32
  ack_num :: u32
  flags :: u8
  window :: u16
  options :: bytes

datatype callback = Retransmit nat | Delayed_ack nat | Response_timeout nat | Time_wait_timeout nat

type_synonym SocketKey = "IPAddr \<times> u16 \<times> u16"

record tcp_world = "callback timer_world" +
  TCP_PORT_MAP :: "SocketKey \<Rightarrow> nat option"
  tcp_sockets :: "TCPSocketState list"

text \<open>\<open>iss\<close> is the random initial sequence number.\<close>

definition TCPSocketState_new :: "u32 \<Rightarrow> IPAddr \<Rightarrow> u16 \<Rightarrow> u16 \<Rightarrow> TCPSocketState" where
  "TCPSocketState_new iss rip rport lport =
     \<lparr>remote_ip = rip, remote_port = rport, local_port = lport, state = Closed,
      receive_next_seq = 0, receive_queue = NetBuffer_new, reassembler = TCPReassembler_new,
      delayed_ack_timer_id = -1, num_delayed_acks = 0,
      send_unacked = 0, send_next_seq = iss, send_window = 0, send_last_win_seq = 0, send_last_win_ack = 0,
      send_mss = DEFAULT_TCP_MSS, retransmit_queue = NetBuffer_new, retransmit_timer_id = -1,
      response_timer_id = -1, request_retry_count = 0, socket_queue = []\<rparr>"

text \<open>\<open>Arc::new(TCPSocket::new(..))\<close>: the new reference.\<close>

definition TCPSocket_new :: "u32 \<Rightarrow> IPAddr \<Rightarrow> u16 \<Rightarrow> u16 \<Rightarrow> 'a tcp_world_scheme \<Rightarrow> nat \<times> 'a tcp_world_scheme" where
  "TCPSocket_new iss rip rport lport w =
     (length (tcp_sockets w), w\<lparr>tcp_sockets := tcp_sockets w @ [TCPSocketState_new iss rip rport lport]\<rparr>)"

text \<open>Locking a socket reads its state; the end of the critical section writes it back.\<close>

definition get_socket :: "nat \<Rightarrow> 'a tcp_world_scheme \<Rightarrow> TCPSocketState option" where
  "get_socket r w = index (tcp_sockets w) r"

definition put_socket :: "nat \<Rightarrow> TCPSocketState \<Rightarrow> 'a tcp_world_scheme \<Rightarrow> 'a tcp_world_scheme" where
  "put_socket r s w = w\<lparr>tcp_sockets := (tcp_sockets w)[r := s]\<rparr>"

definition set_state :: "TCPState \<Rightarrow> TCPSocketState \<Rightarrow> TCPSocketState" where
  "set_state new_state s = s\<lparr>state := new_state, request_retry_count := 0\<rparr>"

definition is_established :: "TCPSocketState \<Rightarrow> bool" where
  "is_established s \<longleftrightarrow> \<not> (state s = Closed \<or> state s = SynSent \<or> state s = TimeWait)"

section \<open>Ephemeral ports\<close>

text \<open>
  \<open>draws\<close> are the values of \<open>rand::random::<u16>()\<close>; \<^term>\<open>None\<close> means that they are used up and the loop
  is still running.
\<close>

fun find_ephemeral_port :: "u16 list \<Rightarrow> IPAddr \<Rightarrow> u16 \<Rightarrow> 'a tcp_world_scheme \<Rightarrow> u16 option" where
  "find_ephemeral_port [] rip rport w = None"
| "find_ephemeral_port (d # draws) rip rport w =
     (let RANGE = 0xffff - EPHEMERAL_PORT_BASE in do {
        p \<leftarrow> checked_add EPHEMERAL_PORT_BASE (d mod RANGE);
        if TCP_PORT_MAP w (rip, rport, p) = None then Some p
        else find_ephemeral_port draws rip rport w
      })"

end
