(* ===== verification/Tcp_Output.thy ===== *)
theory Tcp_Output
  imports Tcp_State
begin

text \<open>
  The sending half of \<open>src/src/stack/tcp.rs\<close>: \<open>tcp_output\<close> builds a segment and hands it to the IP
  layer, \<open>TCPSocketState::send_packet\<close> (here \<open>tcp_send_packet\<close>) fills in its parameters from the state of
  a socket.
\<close>

definition put_tcp_header :: "TCPSendParams \<Rightarrow> bytes \<Rightarrow> bytes option" where
  "put_tcp_header p h = do {
     h \<leftarrow> slice_mut 0 2 (set_be16 (source_port p)) h;
     h \<leftarrow> slice_mut 2 4 (set_be16 (dest_port p)) h;
     h \<leftarrow> slice_mut 4 8 (set_be32 (seq_num p)) h;
     h \<leftarrow> slice_mut 8 12 (set_be32 (ack_num p)) h;
     h \<leftarrow> store 12 (of_nat (push_bit 4 ((TCP_HEADER_LEN + length (options p)) div 4))) h;
     h \<leftarrow> store 13 (flags p) h;
     h \<leftarrow> slice_mut 14 16 (set_be16 (window p)) h;
     if options p \<noteq> [] then slice_mut 20 (20 + length (options p)) (copy_from_slice (options p)) h
     else Some h
   }"

definition tcp_output :: "NetBuffer \<Rightarrow> TCPSendParams \<Rightarrow> 'a net_world_scheme \<Rightarrow> 'a net_world_scheme option" where
  "tcp_output packet params w = do {
     assert_that (length (options params) mod 4 = 0);
     let header_length = TCP_HEADER_LEN + length (options params);
     (packet, w) \<leftarrow> alloc_header header_length packet w;
     let packet_length = (of_nat (buf_length packet) :: u16);
     packet \<leftarrow> header_mut (put_tcp_header params) packet;
     ph_checksum \<leftarrow> compute_pseudo_header_checksum
       (case dest_ip params of V4 _ \<Rightarrow> fst (get_ipaddr w) | V6 _ \<Rightarrow> snd (get_ipaddr w))
       (dest_ip params) (unat packet_length) PROTO_TCP;
     sum \<leftarrow> compute_buffer_ones_comp ph_checksum packet;
     packet \<leftarrow> header_mut (slice_mut 16 18 (set_be16 (sum XOR 0xffff))) packet;
     ip_output packet PROTO_TCP (dest_ip params) w
   }"

definition ack_of :: "TCPSocketState \<Rightarrow> u32 option" where
  "ack_of s = checked_add (get_next_expect (reassembler s))
     (if state s \<in> {FinWait1, FinWait2, Closing, CloseWait} \<and>
         receive_next_seq s = get_next_expect (reassembler s) then 1 else 0)"

definition tcp_send_packet :: "TCPSocketState \<Rightarrow> NetBuffer \<Rightarrow> u8 \<Rightarrow> 'a net_world_scheme \<Rightarrow> 'a net_world_scheme option" where
  "tcp_send_packet s packet fl w = do {
     let receive_window = MAX_RECEIVE_WINDOW - of_nat (buf_length (receive_queue s));
     ack_seq \<leftarrow> ack_of s;
     let opts = (if has_flag fl FLAG_SYN then [2, 4, 5, 0xdc] else []);
     tcp_output packet
       \<lparr>source_port = local_port s, dest_ip = remote_ip s, dest_port = remote_port s,
        seq_num = send_next_seq s, ack_num = ack_seq, flags = fl, window = receive_window, options = opts\<rparr> w
   }"

section \<open>What goes out\<close>

definition data_offset :: "bytes \<Rightarrow> u8" where
  "data_offset opts = of_nat (push_bit 4 ((TCP_HEADER_LEN + length opts) div 4))"

definition tcp_header :: "TCPSendParams \<Rightarrow> bytes" where
  "tcp_header p = be16 (source_port p) @ be16 (dest_port p) @ be32 (seq_num p) @ be32 (ack_num p) @
     [data_offset (options p), flags p] @ be16 (window p)"

definition tcp_segment :: "IPAddr \<Rightarrow> TCPSendParams \<Rightarrow> bytes \<Rightarrow> bytes" where
  "tcp_segment src p body =
     tcp_header p @
     be16 (complement_sum (pseudo_sum src (dest_ip p) (TCP_HEADER_LEN + length (options p) + length body) PROTO_TCP +
       words_sum (tcp_header p @ [0, 0] @ [0, 0] @ options p @ body))) @ [0, 0] @ options p @ body"

lemma length_tcp_header: "length (tcp_header p) = 16"
  by (simp add: tcp_header_def)

lemma tcp_segment_sum:
  "fold16 (pseudo_sum src (dest_ip p) (TCP_HEADER_LEN + length (options p) + length body) PROTO_TCP +
     words_sum (tcp_segment src p body)) = 65535"
  using complement_sum_completes [of "tcp_header p" _ "[0, 0] @ options p @ body"]
  by (simp add: tcp_segment_def length_tcp_header)

lemma put_tcp_header_zeros:
  "put_tcp_header p (replicate (20 + length (options p)) 0) = Some (tcp_header p @ [0, 0] @ [0, 0] @ options p)"
proof -
  have rep: "replicate (20 + length (options p)) (0 :: u8) =
      [0, 0, 0, 0, 0, 0, 0, 0, 0, 0, 0, 0, 0, 0, 0, 0, 0, 0, 0, 0] @ replicate (length (options p)) 0"
    unfolding replicate_add by (simp add: numeral_eq_Suc)
  obtain a0 a1 where a: "be16 (source_port p) = [a0, a1]" by (simp add: be16_def)
  obtain b0 b1 where b: "be16 (dest_port p) = [b0, b1]" by (simp add: be16_def)
  obtain c0 c1 c2 c3 where c: "be32 (seq_num p) = [c0, c1, c2, c3]" by (simp add: be32_def)
  obtain d0 d1 d2 d3 where d: "be32 (ack_num p) = [d0, d1, d2, d3]" by (simp add: be32_def)
  obtain e0 e1 where e: "be16 (window p) = [e0, e1]" by (simp add: be16_def)
  show ?thesis
    unfolding rep put_tcp_header_def tcp_header_def a b c d e
    by (simp add: slice_mut_def set_be16_eq set_be32_eq a b c d e data_offset_def cong: bind_weak_cong)
qed

text \<open>A segment with its header must fit in the vectors of one \<open>writev\<close>, otherwise sending it panics.\<close>

lemma tcp_output_cases:
  assumes "wf_buf b" and "packed (fragments b)" and "length (contents b) \<le> 0xffff"
    and "net_ok w" and "wf_ip (dest_ip p)" and "length (options p) mod 4 = 0" and "length (options p) \<le> 40"
  shows "if Suc (nfrags b) \<le> MAX_VECS
    then returns (tcp_output b p w) (\<lambda>w'. net_step w (nfrags b)
      [ip_datagram w PROTO_TCP (dest_ip p) (tcp_segment (local_for w (dest_ip p)) p (contents b))] w' 0)
    else tcp_output b p w = None"
proof -
  define h where "h = 20 + length (options p)"
  have h: "0 < h" "even h" "h + 40 \<le> FRAGMENT_SIZE" "h \<le> 60"
    using assms(6,7) by (auto simp: h_def FRAGMENT_SIZE_def)
  define n where "n = h + length (contents b)"
  define m where "m = unat (of_nat n :: u16)"
  obtain c where c: "compute_pseudo_header_checksum (local_for w (dest_ip p)) (dest_ip p) m PROTO_TCP = Some c"
    "unat c = fold16 (pseudo_sum (local_for w (dest_ip p)) (dest_ip p) m PROTO_TCP)"
    using compute_pseudo_header_checksum_returns [OF local_for_family [OF assms(4,5)]] by (blast elim: returnsE)
  define phm where "phm = (\<lambda>(q :: NetBuffer) (q' :: NetBuffer) (v :: 'a net_world_scheme). compute_pseudo_header_checksum
       (case dest_ip p of V4 _ \<Rightarrow> fst (get_ipaddr v) | V6 _ \<Rightarrow> snd (get_ipaddr v)) (dest_ip p)
       (unat (of_nat (buf_length q) :: u16)) PROTO_TCP)"
  have phm: "phm q q' v = Some c" if "buf_length q = n" "only_pool w v" for q q' v
    using c(1) that only_pool_fields [OF that(2)]
    by (cases "dest_ip p") (simp_all add: phm_def m_def local_for_def get_ipaddr_def)
  have "if Suc (nfrags b) \<le> MAX_VECS
    then returns (do {
       (q, v) \<leftarrow> alloc_header h b w;
       q' \<leftarrow> header_mut (put_tcp_header p) q;
       c \<leftarrow> phm q q' v;
       s \<leftarrow> compute_buffer_ones_comp c q';
       q' \<leftarrow> header_mut (slice_mut 16 (16 + 2) (set_be16 (s XOR 0xffff))) q';
       ip_output q' PROTO_TCP (dest_ip p) v
     }) (\<lambda>w'. net_step w (nfrags b) [ip_datagram w PROTO_TCP (dest_ip p)
        (tcp_header p @ be16 (complement_sum (unat c + words_sum (tcp_header p @ [0, 0] @ ([0, 0] @ options p) @ contents b))) @
          ([0, 0] @ options p) @ contents b)] w' 0)
    else (do {
       (q, v) \<leftarrow> alloc_header h b w;
       q' \<leftarrow> header_mut (put_tcp_header p) q;
       c \<leftarrow> phm q q' v;
       s \<leftarrow> compute_buffer_ones_comp c q';
       q' \<leftarrow> header_mut (slice_mut 16 (16 + 2) (set_be16 (s XOR 0xffff))) q';
       ip_output q' PROTO_TCP (dest_ip p) v
     }) = None"
    by (rule ip.header_and_emit [where put = "\<lambda>q. put_tcp_header p" and phm = phm])
      (use assms(1-5) h phm [unfolded n_def h_def] put_tcp_header_zeros [of p]
        in \<open>simp_all add: h_def length_tcp_header FRAGMENT_SIZE_def USIZE_MAX_def\<close>)
  moreover have "m = n" if "Suc (nfrags b) \<le> MAX_VECS"
  proof -
    have "n < 65536"
      using packed_length [OF assms(1), of "MAX_VECS - 1"] that h(4)
      by (simp add: n_def MAX_VECS_def FRAGMENT_SIZE_def)
    then show ?thesis
      by (simp add: m_def unsigned_of_nat take_bit_nat_eq_self)
  qed
  ultimately show ?thesis
    using assms(6) by (auto simp: tcp_output_def TCP_HEADER_LEN_def tcp_segment_def c(2) complement_sum_fold
        phm_def Let_def h_def n_def add.assoc)
qed

lemma tcp_output_returns:
  assumes "wf_buf b" and "packed (fragments b)" and "length (contents b) \<le> MAX_PAYLOAD"
    and "net_ok w" and "wf_ip (dest_ip p)" and "length (options p) mod 4 = 0" and "length (options p) \<le> 40"
  shows "returns (tcp_output b p w) (\<lambda>w'. net_step w (nfrags b)
     [ip_datagram w PROTO_TCP (dest_ip p) (tcp_segment (local_for w (dest_ip p)) p (contents b))] w' 0)"
  using tcp_output_cases [OF assms(1,2) _ assms(4-7)] packed_MAX_PAYLOAD [OF assms(1-3)] assms(3)
  by (simp add: MAX_PAYLOAD_eq)

text \<open>The segment a socket sends.\<close>

definition send_options :: "u8 \<Rightarrow> bytes" where
  "send_options fl = (if has_flag fl FLAG_SYN then [2, 4, 5, 0xdc] else [])"

definition socket_params :: "TCPSocketState \<Rightarrow> u8 \<Rightarrow> u32 \<Rightarrow> TCPSendParams" where
  "socket_params s fl ack =
     \<lparr>source_port = local_port s, dest_ip = remote_ip s, dest_port = remote_port s,
      seq_num = send_next_seq s, ack_num = ack, flags = fl,
      window = MAX_RECEIVE_WINDOW - of_nat (buf_length (receive_queue s)), options = send_options fl\<rparr>"

definition socket_frame :: "'a net_world_scheme \<Rightarrow> TCPSocketState \<Rightarrow> u8 \<Rightarrow> bytes \<Rightarrow> bytes" where
  "socket_frame w s fl body = ip_datagram w PROTO_TCP (remote_ip s)
     (tcp_segment (local_for w (remote_ip s)) (socket_params s fl (the (ack_of s))) body)"

lemma tcp_send_packet_eq:
  "ack_of s = Some a \<Longrightarrow> tcp_send_packet s b fl w = tcp_output b (socket_params s fl a) w"
  by (simp add: tcp_send_packet_def socket_params_def send_options_def Let_def)

lemma send_options_length: "length (send_options fl) mod 4 = 0" "length (send_options fl) \<le> 40"
  by (simp_all add: send_options_def)

lemma tcp_send_packet_returns:
  assumes "wf_buf b" and "packed (fragments b)" and "length (contents b) \<le> MAX_PAYLOAD"
    and "net_ok w" and "wf_ip (remote_ip s)" and "ack_of s \<noteq> None"
  shows "returns (tcp_send_packet s b fl w) (\<lambda>w'. net_step w (nfrags b) [socket_frame w s fl (contents b)] w' 0)"
  using tcp_output_returns [OF assms(1-4), of "socket_params s fl (the (ack_of s))"] assms(5,6) send_options_length [of fl]
  by (auto simp: tcp_send_packet_eq socket_params_def socket_frame_def)

text \<open>Whenever \<open>send_packet\<close> returns, one segment went out.\<close>

lemma tcp_send_packet_whenever:
  assumes "wf_buf b" and "packed (fragments b)" and "length (contents b) \<le> 0xffff"
    and "net_ok w" and "wf_ip (remote_ip s)"
  shows "whenever (tcp_send_packet s b fl w) (\<lambda>w'. net_step w (nfrags b) [socket_frame w s fl (contents b)] w' 0 \<and>
     Suc (nfrags b) \<le> MAX_VECS \<and> ack_of s \<noteq> None)"
proof (cases "ack_of s")
  case None
  then show ?thesis
    by (simp add: tcp_send_packet_def Let_def)
next
  case (Some a)
  then show ?thesis
    using tcp_output_cases [OF assms(1-4), of "socket_params s fl a"] assms(5) send_options_length [of fl]
    by (auto simp: tcp_send_packet_eq socket_params_def socket_frame_def split: if_splits intro: returns_whenever elim!: returns_conseq)
qed

lemma tcp_send_empty:
  assumes "net_ok w" and "wf_ip (remote_ip s)" and "ack_of s \<noteq> None"
  shows "returns (tcp_send_packet s NetBuffer_new fl w) (\<lambda>w'. net_step w 0 [socket_frame w s fl []] w' 0)"
  using tcp_send_packet_returns [of NetBuffer_new w s fl] assms by simp

text \<open>
  The acknowledgement number: one more than the next octet expected once a FIN was received and all
  the data before it, which is where the addition of the code overflows if that octet has the last
  sequence number.
\<close>

lemma ack_of_cases:
  "ack_of s = (if state s \<in> {FinWait1, FinWait2, Closing, CloseWait} \<and> receive_next_seq s = get_next_expect (reassembler s)
     then if get_next_expect (reassembler s) = 0xffffffff then None else Some (get_next_expect (reassembler s) + 1)
     else Some (get_next_expect (reassembler s)))"
proof -
  define x where "x = get_next_expect (reassembler s)"
  have "unat x < 2 ^ 32"
    using unat_u32_less [of x] by simp
  moreover have "x = 0xffffffff \<longleftrightarrow> unat x = 4294967295"
    by (simp add: word_unat_eq_iff)
  ultimately show ?thesis
    unfolding ack_of_def x_def [symmetric] by (auto simp: checked_add_def)
qed

end
