(* ===== verification/Tcp_Socket.thy ===== *)
theory Tcp_Socket
  imports Tcp_Output
begin

text \<open>
  The timers and the API of \<open>src/src/stack/tcp.rs\<close>. Every critical section of a socket is one
  definition: it reads the state of the socket, works on it and writes it back. Where a function
  waits on the condition variable it releases the lock; there the model returns \<open>Blocked\<close>, and the
  part of the function behind the wait is a definition of its own (\<open>tcp_open_wait\<close>,
  \<open>tcp_write_resume\<close>) or the function is run again.
\<close>

text \<open>\<open>PORT_MAP.lock().unwrap().remove(..)\<close>\<close>

definition tcp_unmap :: "SocketKey \<Rightarrow> 'a tcp_world_scheme \<Rightarrow> 'a tcp_world_scheme" where
  "tcp_unmap key w = w\<lparr>TCP_PORT_MAP := (TCP_PORT_MAP w)(key := None)\<rparr>"

section \<open>Timers\<close>

definition set_response_timer :: "nat \<Rightarrow> TCPSocketState \<Rightarrow> 'a tcp_world_scheme \<Rightarrow>
    (TCPSocketState \<times> 'a tcp_world_scheme) option" where
  "set_response_timer r s w = do {
     let w = (if response_timer_id s \<noteq> -1 then snd (cancel_timer (response_timer_id s) w) else w);
     (ident, w) \<leftarrow> set_timer RESPONSE_TIMEOUT (Response_timeout r) w;
     Some (s\<lparr>response_timer_id := ident\<rparr>, w)
   }"

definition response_timeout :: "nat \<Rightarrow> 'a tcp_world_scheme \<Rightarrow> 'a tcp_world_scheme option" where
  "response_timeout r w = do {
     s \<leftarrow> get_socket r w;
     if request_retry_count s \<ge> MAX_RETRIES then Some (put_socket r (set_state Closed s) w)
     else do {
       (s, w) \<leftarrow>
         (case state s of
            Closed \<Rightarrow> Some (s, w)
          | Established \<Rightarrow> Some (s, w)
          | SynSent \<Rightarrow> do {
              w \<leftarrow> tcp_send_packet s NetBuffer_new FLAG_SYN w;
              set_response_timer r s w
            }
          | FinWait1 \<Rightarrow> do {
              w \<leftarrow> tcp_send_packet s NetBuffer_new FLAG_FIN w;
              set_response_timer r s w
            }
          | LastAck \<Rightarrow> do {
              w \<leftarrow> tcp_send_packet s NetBuffer_new FLAG_FIN w;
              set_response_timer r s w
            }
          | Closing \<Rightarrow> do {
              w \<leftarrow> tcp_send_packet s NetBuffer_new FLAG_ACK w;
              set_response_timer r s w
            }
          | CloseWait \<Rightarrow> do {
              w \<leftarrow> tcp_send_packet s NetBuffer_new FLAG_ACK w;
              set_response_timer r s w
            }
          | _ \<Rightarrow> None);
       (s, w) \<leftarrow> set_response_timer r s w;
       Some (put_socket r s w)
     }
   }"

text \<open>\<open>time_wait_timeout\<close> has two critical sections, that of the socket and that of the port map.\<close>

definition time_wait_socket :: "nat \<Rightarrow> 'a tcp_world_scheme \<Rightarrow> (SocketKey \<times> 'a tcp_world_scheme) option" where
  "time_wait_socket r w = do {
     s \<leftarrow> get_socket r w;
     let w = put_socket r (set_state Closed s) w;
     Some ((remote_ip s, remote_port s, local_port s), w)
   }"

definition time_wait_timeout :: "nat \<Rightarrow> 'a tcp_world_scheme \<Rightarrow> 'a tcp_world_scheme option" where
  "time_wait_timeout r w = do {
     (key, w) \<leftarrow> time_wait_socket r w;
     Some (tcp_unmap key w)
   }"

definition retransmit :: "nat \<Rightarrow> 'a tcp_world_scheme \<Rightarrow> 'a tcp_world_scheme option" where
  "retransmit r w = do {
     s \<leftarrow> get_socket r w;
     if state s = Closed then Some w
     else do {
       let w = w\<lparr>METRICS := (METRICS w)\<lparr>packets_retransmitted := PerfCounter_inc (packets_retransmitted (METRICS w))\<rparr>\<rparr>;
       if \<not> is_empty (retransmit_queue s) then do {
         (packet, w) \<leftarrow> append_from_buffer (retransmit_queue s) (send_mss s) NetBuffer_new w;
         w \<leftarrow> tcp_send_packet s packet (FLAG_ACK OR FLAG_PSH) w;
         (ident, w) \<leftarrow> set_timer RETRANSMIT_INTERVAL (Retransmit r) w;
         Some (put_socket r (s\<lparr>retransmit_timer_id := ident\<rparr>) w)
       } else Some w
     }
   }"

text \<open>The closure that \<open>tcp_input\<close> sets for a deferred acknowledgement.\<close>

definition delayed_ack :: "nat \<Rightarrow> 'a tcp_world_scheme \<Rightarrow> 'a tcp_world_scheme option" where
  "delayed_ack r w = do {
     s \<leftarrow> get_socket r w;
     if state s = Closed then Some w
     else do {
       w \<leftarrow> tcp_send_packet s NetBuffer_new FLAG_ACK w;
       Some (put_socket r (s\<lparr>delayed_ack_timer_id := -1, num_delayed_acks := 0\<rparr>) w)
     }
   }"

fun run_callback :: "callback \<Rightarrow> 'a tcp_world_scheme \<Rightarrow> 'a tcp_world_scheme option" where
  "run_callback (Retransmit r) w = retransmit r w"
| "run_callback (Delayed_ack r) w = delayed_ack r w"
| "run_callback (Response_timeout r) w = response_timeout r w"
| "run_callback (Time_wait_timeout r) w = time_wait_timeout r w"

section \<open>Opening and closing\<close>

text \<open>\<open>tcp_open\<close> up to its first wait: the critical section of the port map, then that of the socket.\<close>

definition tcp_open_insert :: "u16 list \<Rightarrow> u32 \<Rightarrow> IPAddr \<Rightarrow> u16 \<Rightarrow> 'a tcp_world_scheme \<Rightarrow> (nat \<times> 'a tcp_world_scheme) option" where
  "tcp_open_insert draws iss rip rport w = do {
     lport \<leftarrow> find_ephemeral_port draws rip rport w;
     let (r, w) = TCPSocket_new iss rip rport lport w;
     Some (r, w\<lparr>TCP_PORT_MAP := (TCP_PORT_MAP w)((rip, rport, lport) \<mapsto> r)\<rparr>)
   }"

definition tcp_open_connect :: "nat \<Rightarrow> 'a tcp_world_scheme \<Rightarrow> 'a tcp_world_scheme option" where
  "tcp_open_connect r w = do {
     s \<leftarrow> get_socket r w;
     let s = set_state SynSent s;
     w \<leftarrow> tcp_send_packet s NetBuffer_new FLAG_SYN w;
     (s, w) \<leftarrow> set_response_timer r s w;
     Some (put_socket r s w)
   }"

definition tcp_open :: "u16 list \<Rightarrow> u32 \<Rightarrow> IPAddr \<Rightarrow> u16 \<Rightarrow> 'a tcp_world_scheme \<Rightarrow> (nat \<times> 'a tcp_world_scheme) option" where
  "tcp_open draws iss rip rport w = do {
     (r, w) \<leftarrow> tcp_open_insert draws iss rip rport w;
     w \<leftarrow> tcp_open_connect r w;
     Some (r, w)
   }"

text \<open>The loop of \<open>tcp_open\<close> after a wake-up.\<close>

definition tcp_open_wait :: "nat \<Rightarrow> 'a tcp_world_scheme \<Rightarrow> (string + nat) blocking option" where
  "tcp_open_wait r w = do {
     s \<leftarrow> get_socket r w;
     if state s = Closed then Some (Ready (Inl ''Connection failed''))
     else if state s = Established then Some (Ready (Inr r))
     else Some Blocked
   }"

text \<open>
  \<open>tcp_close\<close> has two critical sections: it closes the socket, then it takes the key of a listening socket
  out of the port map. Between the two the socket can still be found there.
\<close>

definition tcp_close_socket :: "nat \<Rightarrow> 'a tcp_world_scheme \<Rightarrow> (SocketKey option \<times> 'a tcp_world_scheme) option" where
  "tcp_close_socket r w = do {
     s \<leftarrow> get_socket r w;
     (case state s of
        Listen \<Rightarrow> Some (Some (IPAddr_new, 0, local_port s), put_socket r (set_state Closed s) w)
      | Established \<Rightarrow> do {
          w \<leftarrow> tcp_send_packet s NetBuffer_new (FLAG_FIN OR FLAG_ACK) w;
          (s, w) \<leftarrow> set_response_timer r s w;
          Some (None, put_socket r (set_state FinWait1 s) w)
        }
      | CloseWait \<Rightarrow> do {
          w \<leftarrow> tcp_send_packet s NetBuffer_new (FLAG_FIN OR FLAG_ACK) w;
          (s, w) \<leftarrow> set_response_timer r s w;
          Some (None, put_socket r (set_state LastAck s) w)
        }
      | _ \<Rightarrow> Some (None, w))
   }"

definition tcp_close :: "nat \<Rightarrow> 'a tcp_world_scheme \<Rightarrow> 'a tcp_world_scheme option" where
  "tcp_close r w = do {
     (key, w) \<leftarrow> tcp_close_socket r w;
     Some (case key of None \<Rightarrow> w | Some key \<Rightarrow> tcp_unmap key w)
   }"

definition tcp_listen :: "u32 \<Rightarrow> u16 \<Rightarrow> 'a tcp_world_scheme \<Rightarrow> ((string + nat) \<times> 'a tcp_world_scheme) option" where
  "tcp_listen iss lport w = do {
     let (r, w) = TCPSocket_new iss IPAddr_new 0 lport w;
     s \<leftarrow> get_socket r w;
     let w = put_socket r (set_state Listen s) w;
     if TCP_PORT_MAP w (IPAddr_new, 0, lport) \<noteq> None then Some (Inl ''Port already in use'', w)
     else Some (Inr r, w\<lparr>TCP_PORT_MAP := (TCP_PORT_MAP w)((IPAddr_new, 0, lport) \<mapsto> r)\<rparr>)
   }"

definition tcp_accept :: "nat \<Rightarrow> 'a tcp_world_scheme \<Rightarrow> (nat blocking \<times> 'a tcp_world_scheme) option" where
  "tcp_accept r w = do {
     s \<leftarrow> get_socket r w;
     (case socket_queue s of
        [] \<Rightarrow> Some (Blocked, w)
      | q # qs \<Rightarrow> Some (Ready q, put_socket r (s\<lparr>socket_queue := qs\<rparr>) w))
   }"

section \<open>Reading and writing\<close>

definition tcp_read :: "nat \<Rightarrow> bytes \<Rightarrow> 'a tcp_world_scheme \<Rightarrow> ((int \<times> bytes) blocking \<times> 'a tcp_world_scheme) option" where
  "tcp_read r dest w = do {
     s \<leftarrow> get_socket r w;
     if state s \<noteq> Established \<and> is_empty (receive_queue s) then Some (Ready (-1, dest), w)
     else if \<not> is_empty (receive_queue s) then do {
       (got, dest) \<leftarrow> copy_to_slice dest (receive_queue s);
       (q, w) \<leftarrow> trim_head got (receive_queue s) w;
       Some (Ready (as_i32 got, dest), put_socket r (s\<lparr>receive_queue := q\<rparr>) w)
     } else Some (Blocked, w)
   }"

text \<open>\<open>Write_blocked offset\<close>: the writer waits for the window with \<open>offset\<close> octets written.\<close>

datatype write_result = Write_blocked nat | Write_done int

definition window_closed :: "TCPSocketState \<Rightarrow> nat \<Rightarrow> bool" where
  "window_closed s packet_length \<longleftrightarrow>
     (let max_segment = send_unacked s + send_window s
      in seq_gt (send_next_seq s + of_nat packet_length) max_segment)"

definition write_segment :: "nat \<Rightarrow> bytes \<Rightarrow> TCPSocketState \<Rightarrow> 'a tcp_world_scheme \<Rightarrow> (TCPSocketState \<times> 'a tcp_world_scheme) option" where
  "write_segment r packet_slice s w = do {
     (packet, w) \<leftarrow> append_from_slice packet_slice NetBuffer_new w;
     w \<leftarrow> tcp_send_packet s packet (FLAG_ACK OR FLAG_PSH) w;
     let s = s\<lparr>send_next_seq := send_next_seq s + of_nat (length packet_slice)\<rparr>;
     (q, w) \<leftarrow> append_from_slice packet_slice (retransmit_queue s) w;
     let s = s\<lparr>retransmit_queue := q\<rparr>;
     if retransmit_timer_id s = -1 then do {
       (ident, w) \<leftarrow> set_timer RETRANSMIT_INTERVAL (Retransmit r) w;
       Some (s\<lparr>retransmit_timer_id := ident\<rparr>, w)
     } else Some (s, w)
   }"

text \<open>The loop of \<open>tcp_write\<close>. With \<open>send_mss = 0\<close> and an open window it never ends.\<close>

partial_function (option) tcp_write_loop :: "nat \<Rightarrow> bytes \<Rightarrow> nat \<Rightarrow> TCPSocketState \<Rightarrow> 'a tcp_world_scheme \<Rightarrow>
    (write_result \<times> TCPSocketState \<times> 'a tcp_world_scheme) option" where
  "tcp_write_loop r bs offset s w =
     (if offset < length bs then
        if window_closed s (min (length bs - offset) (send_mss s)) then Some (Write_blocked offset, s, w)
        else do {
          packet_slice \<leftarrow> subslice offset (offset + min (length bs - offset) (send_mss s)) bs;
          (s', w) \<leftarrow> write_segment r packet_slice s w;
          tcp_write_loop r bs (offset + min (length bs - offset) (send_mss s)) s' w
        }
      else do {
        assert_that (offset = length bs);
        Some (Write_done (as_i32 (length bs)), s, w)
      })"

definition tcp_write :: "nat \<Rightarrow> bytes \<Rightarrow> 'a tcp_world_scheme \<Rightarrow> (write_result \<times> 'a tcp_world_scheme) option" where
  "tcp_write r bs w = do {
     s \<leftarrow> get_socket r w;
     if state s = Closed then Some (Write_done (-1), w)
     else do {
       (res, s, w) \<leftarrow> tcp_write_loop r bs 0 s w;
       Some (res, put_socket r s w)
     }
   }"

text \<open>\<open>tcp_write\<close> after a wake-up at \<open>offset\<close>.\<close>

definition tcp_write_resume :: "nat \<Rightarrow> bytes \<Rightarrow> nat \<Rightarrow> 'a tcp_world_scheme \<Rightarrow> (write_result \<times> 'a tcp_world_scheme) option" where
  "tcp_write_resume r bs offset w = do {
     s \<leftarrow> get_socket r w;
     if state s = Closed then Some (Write_done (as_i32 offset), w)
     else do {
       (res, s, w) \<leftarrow> tcp_write_loop r bs offset s w;
       Some (res, put_socket r s w)
     }
   }"

end
