(* ===== verification/Tcp_Input.thy ===== *)
theory Tcp_Input
  imports Tcp_Socket
begin

text \<open>
  The receiving half of \<open>src/src/stack/tcp.rs\<close>: \<open>validate_checksum\<close>, \<open>parse_options\<close>,
  \<open>handle_new_connection\<close> and \<open>tcp_input\<close>. \<open>tcp_input\<close> is split where the code has its sections: the
  handling of data, of the acknowledgement and the state machine each get a definition, and
  \<open>tcp_input_socket\<close> runs them in the critical section of the socket.
\<close>

definition validate_checksum :: "NetBuffer \<Rightarrow> IPAddr \<Rightarrow> 'a net_world_scheme \<Rightarrow> bool option" where
  "validate_checksum packet source_ip w = do {
     let dst = (case source_ip of V4 _ \<Rightarrow> fst (get_ipaddr w) | V6 _ \<Rightarrow> snd (get_ipaddr w));
     ph_checksum \<leftarrow> compute_pseudo_header_checksum source_ip dst (buf_length packet) PROTO_TCP;
     sum \<leftarrow> compute_buffer_ones_comp ph_checksum packet;
     Some (sum XOR 0xffff = 0)
   }"

text \<open>
  The options of a segment; the maximum segment size is all that is kept. An option of length 0
  makes the loop run for ever, a truncated one panics: both are \<^term>\<open>None\<close>.
\<close>

partial_function (option) options_loop :: "bytes \<Rightarrow> nat \<Rightarrow> nat \<Rightarrow> nat option" where
  "options_loop hdr opt_offset mss =
     (if opt_offset < length hdr then do {
        option_type \<leftarrow> index hdr opt_offset;
        if option_type = 0 then Some mss
        else if option_type = 1 then options_loop hdr (opt_offset + 1) mss
        else do {
          option_length \<leftarrow> index hdr (opt_offset + 1);
          if option_type = 2 then do {
            s \<leftarrow> subslice (opt_offset + 2) (opt_offset + 4) hdr;
            v \<leftarrow> get_be16 s;
            options_loop hdr (opt_offset + unat option_length) (unat v)
          } else options_loop hdr (opt_offset + unat option_length) mss
        }
      } else Some mss)"

definition parse_options :: "bytes \<Rightarrow> nat option" where
  "parse_options hdr = options_loop hdr 0 0"

text \<open>The fields of a segment that the code uses.\<close>

record segment =
  seg_source_port :: u16
  seg_dest_port :: u16
  seg_seq :: u32
  seg_ack :: u32
  seg_header_length :: nat
  seg_flags :: u8
  seg_window :: u16

definition decode_header :: "bytes \<Rightarrow> segment option" where
  "decode_header h = do {
     s \<leftarrow> subslice 0 2 h; sport \<leftarrow> get_be16 s;
     s \<leftarrow> subslice 2 4 h; dport \<leftarrow> get_be16 s;
     s \<leftarrow> subslice 4 8 h; sq \<leftarrow> get_be32 s;
     s \<leftarrow> subslice 8 12 h; ak \<leftarrow> get_be32 s;
     b \<leftarrow> index h 12;
     s \<leftarrow> subslice 14 16 h; win \<leftarrow> get_be16 s;
     fl \<leftarrow> index h 13;
     Some \<lparr>seg_source_port = sport, seg_dest_port = dport, seg_seq = sq, seg_ack = ak,
       seg_header_length = unat (drop_bit 4 b * 4), seg_flags = fl, seg_window = win\<rparr>
   }"

definition handle_new_connection :: "u32 \<Rightarrow> nat \<Rightarrow> IPAddr \<Rightarrow> segment \<Rightarrow> nat \<Rightarrow> 'a tcp_world_scheme \<Rightarrow>
    (nat \<times> 'a tcp_world_scheme) option" where
  "handle_new_connection iss listen_ref source_ip g max_segment_size w = do {
     let (r, w) = TCPSocket_new iss source_ip (seg_source_port g) (seg_dest_port g) w;
     s \<leftarrow> get_socket r w;
     let s = s\<lparr>remote_ip := source_ip, remote_port := seg_source_port g\<rparr>;
     let s = set_state SynReceived s;
     let s = s\<lparr>send_mss := max_segment_size, receive_next_seq := seg_seq g + 1,
               reassembler := set_next_expect (seg_seq g + 1) (reassembler s)\<rparr>;
     w \<leftarrow> tcp_send_packet s NetBuffer_new (FLAG_SYN OR FLAG_ACK) w;
     let s = s\<lparr>send_unacked := seg_seq g, send_last_win_ack := seg_ack g, send_last_win_seq := seg_seq g,
               send_window := ucast (seg_window g)\<rparr>;
     (s, w) \<leftarrow> set_response_timer r s w;
     let w = put_socket r s w;
     l \<leftarrow> get_socket listen_ref w;
     assert_that (state l = Listen);
     Some (r, put_socket listen_ref (l\<lparr>socket_queue := socket_queue l @ [r]\<rparr>) w)
   }"

text \<open>Handling of received data; \<open>packet\<close> is what is behind the header, and not empty.\<close>

definition cancel_delayed_ack :: "TCPSocketState \<Rightarrow> 'a tcp_world_scheme \<Rightarrow> TCPSocketState \<times> 'a tcp_world_scheme" where
  "cancel_delayed_ack s w =
     (if delayed_ack_timer_id s \<noteq> -1
      then (s\<lparr>delayed_ack_timer_id := -1\<rparr>, snd (cancel_timer (delayed_ack_timer_id s) w))
      else (s, w))"

definition receive_data :: "segment \<Rightarrow> NetBuffer \<Rightarrow> TCPSocketState \<Rightarrow> 'a tcp_world_scheme \<Rightarrow>
    (TCPSocketState \<times> 'a tcp_world_scheme) option" where
  "receive_data g packet s w = do {
     let s = s\<lparr>receive_next_seq := wrapping_max (receive_next_seq s) (seg_seq g + of_nat (buf_length packet))\<rparr>;
     (got, ra, w) \<leftarrow> add_packet packet (seg_seq g) (reassembler s) w;
     let s = s\<lparr>reassembler := ra\<rparr>;
     s \<leftarrow>
       (case got of
          None \<Rightarrow> Some s
        | Some socketdata \<Rightarrow> do {
            q \<leftarrow> append_buffer socketdata (receive_queue s);
            Some (s\<lparr>receive_queue := q\<rparr>)
          });
     Some (s, w)
   }"

definition schedule_ack :: "nat \<Rightarrow> segment \<Rightarrow> TCPSocketState \<Rightarrow> 'a tcp_world_scheme \<Rightarrow>
    (TCPSocketState \<times> 'a tcp_world_scheme) option" where
  "schedule_ack r g s w =
     (if state s = Established then do {
        n \<leftarrow> checked_add (num_delayed_acks s) 1;
        let s = s\<lparr>num_delayed_acks := n\<rparr>;
        if n \<ge> MAX_DELAYED_ACKS \<or> has_flag (seg_flags g) FLAG_FIN then do {
          let s = s\<lparr>num_delayed_acks := 0\<rparr>;
          let (s, w) = cancel_delayed_ack s w;
          w \<leftarrow> tcp_send_packet s NetBuffer_new FLAG_ACK w;
          Some (s, w)
        } else if delayed_ack_timer_id s = -1 then do {
          (ident, w) \<leftarrow> set_timer MAX_ACK_DELAY (Delayed_ack r) w;
          Some (s\<lparr>delayed_ack_timer_id := ident\<rparr>, w)
        } else Some (s, w)
      } else do {
        let (s, w) = cancel_delayed_ack s w;
        w \<leftarrow> tcp_send_packet s NetBuffer_new FLAG_ACK w;
        Some (s, w)
      })"

definition handle_data :: "nat \<Rightarrow> segment \<Rightarrow> NetBuffer \<Rightarrow> TCPSocketState \<Rightarrow> 'a tcp_world_scheme \<Rightarrow>
    (TCPSocketState \<times> 'a tcp_world_scheme) option" where
  "handle_data r g packet s w = do {
     (s, w) \<leftarrow> receive_data g packet s w;
     schedule_ack r g s w
   }"

text \<open>The acknowledgement field: what it acknowledges leaves the retransmission queue, then the window is updated.\<close>

definition acknowledge :: "segment \<Rightarrow> TCPSocketState \<Rightarrow> 'a tcp_world_scheme \<Rightarrow> (TCPSocketState \<times> 'a tcp_world_scheme) option" where
  "acknowledge g s w =
     (if seq_lt (send_unacked s) (seg_ack g) \<and> seq_le (seg_ack g) (send_next_seq s) then do {
        let trim = unat (seg_ack g - send_unacked s);
        (q, w) \<leftarrow> trim_head trim (retransmit_queue s) w;
        let s = s\<lparr>retransmit_queue := q\<rparr>;
        let (s, w) =
          (if is_empty (retransmit_queue s)
           then (s\<lparr>retransmit_timer_id := -1\<rparr>, snd (cancel_timer (retransmit_timer_id s) w))
           else (s, w));
        Some (s\<lparr>send_unacked := seg_ack g\<rparr>, w)
      } else Some (s, w))"

definition update_window :: "segment \<Rightarrow> TCPSocketState \<Rightarrow> TCPSocketState" where
  "update_window g s =
     (if seq_le (send_unacked s) (seg_ack g) \<and> seq_le (seg_ack g) (send_next_seq s) \<and>
         (seq_lt (send_last_win_seq s) (seg_seq g) \<or>
          (send_last_win_seq s = seg_seq g \<and> seq_le (send_last_win_ack s) (seg_ack g)))
      then s\<lparr>send_window := ucast (seg_window g), send_last_win_seq := seg_seq g, send_last_win_ack := seg_ack g\<rparr>
      else s)"

definition handle_ack :: "segment \<Rightarrow> TCPSocketState \<Rightarrow> 'a tcp_world_scheme \<Rightarrow> (TCPSocketState \<times> 'a tcp_world_scheme) option" where
  "handle_ack g s w = do {
     (s, w) \<leftarrow> acknowledge g s w;
     Some (update_window g s, w)
   }"

text \<open>The timer that ends \<open>TimeWait\<close>; its id is not kept.\<close>

definition set_time_wait_timer :: "nat \<Rightarrow> 'a tcp_world_scheme \<Rightarrow> 'a tcp_world_scheme option" where
  "set_time_wait_timer r w = do {
     (_, w) \<leftarrow> set_timer TIME_WAIT_TIMEOUT (Time_wait_timeout r) w;
     Some w
   }"

text \<open>The \<open>match\<close> on the state at the end of \<open>tcp_input\<close>.\<close>

definition handle_state :: "nat \<Rightarrow> segment \<Rightarrow> TCPSocketState \<Rightarrow> 'a tcp_world_scheme \<Rightarrow>
    (TCPSocketState \<times> 'a tcp_world_scheme) option" where
  "handle_state r g s w =
     (let ack = has_flag (seg_flags g) FLAG_ACK; fin = has_flag (seg_flags g) FLAG_FIN in
      case state s of
        SynSent \<Rightarrow>
          if ack then do {
            let s = set_state Established s;
            let s = s\<lparr>receive_next_seq := seg_seq g + 1, reassembler := set_next_expect (seg_seq g + 1) (reassembler s),
                      send_window := ucast (seg_window g), send_last_win_seq := seg_seq g,
                      send_last_win_ack := seg_ack g, send_unacked := seg_ack g\<rparr>;
            let s = s\<lparr>send_next_seq := send_next_seq s + 1\<rparr>;
            w \<leftarrow> tcp_send_packet s NetBuffer_new FLAG_ACK w;
            set_response_timer r s w
          } else Some (s, w)
      | SynReceived \<Rightarrow>
          if ack then do {
            let s = set_state Established s;
            Some (s\<lparr>send_next_seq := send_next_seq s + 1, send_unacked := seg_ack g\<rparr>, w)
          } else Some (s, w)
      | Established \<Rightarrow> if fin then Some (set_state CloseWait s, w) else Some (s, w)
      | LastAck \<Rightarrow> if ack then Some (set_state Closed s, w) else Some (s, w)
      | FinWait1 \<Rightarrow>
          if ack \<and> fin \<and> seg_ack g = send_next_seq s + 1 then do {
            let s = set_state TimeWait s;
            w \<leftarrow> set_time_wait_timer r w;
            Some (s, w)
          } else if fin then do {
            let s = set_state Closing s;
            w \<leftarrow> tcp_send_packet s NetBuffer_new FLAG_ACK w;
            set_response_timer r s w
          } else if ack \<and> seg_ack g = send_next_seq s + 1 then Some (set_state FinWait2 s, w)
          else Some (s, w)
      | FinWait2 \<Rightarrow>
          if fin then do {
            w \<leftarrow> tcp_send_packet s NetBuffer_new FLAG_ACK w;
            (s, w) \<leftarrow> set_response_timer r s w;
            let s = set_state TimeWait s;
            w \<leftarrow> set_time_wait_timer r w;
            Some (s, w)
          } else Some (s, w)
      | Closing \<Rightarrow>
          if ack then do {
            let s = set_state TimeWait s;
            w \<leftarrow> set_time_wait_timer r w;
            Some (s, w)
          } else Some (s, w)
      | _ \<Rightarrow> Some (s, w))"

text \<open>
  The critical section of the socket in \<open>tcp_input\<close>. A packet that \<open>handle_data\<close> did not take over is
  dropped at the end of the function.
\<close>

definition tcp_input_socket :: "nat \<Rightarrow> segment \<Rightarrow> nat \<Rightarrow> NetBuffer \<Rightarrow> TCPSocketState \<Rightarrow> 'a tcp_world_scheme \<Rightarrow>
    (TCPSocketState \<times> 'a tcp_world_scheme) option" where
  "tcp_input_socket r g max_segment_size packet s w = do {
     let s = (if max_segment_size \<noteq> 0 then s\<lparr>send_mss := max_segment_size\<rparr> else s);
     let (s, w) =
       (if response_timer_id s \<noteq> -1
        then (s\<lparr>response_timer_id := -1\<rparr>, snd (cancel_timer (response_timer_id s) w))
        else (s, w));
     if has_flag (seg_flags g) FLAG_RST then Some (set_state Closed s, drop_buffer packet w)
     else do {
       (s, w) \<leftarrow> (if \<not> is_empty packet then handle_data r g packet s w else Some (s, w));
       (s, w) \<leftarrow> (if has_flag (seg_flags g) FLAG_ACK \<and> is_established s then handle_ack g s w else Some (s, w));
       (s, w) \<leftarrow> handle_state r g s w;
       Some (s, if \<not> is_empty packet then w else drop_buffer packet w)
     }
   }"

text \<open>The answer to a segment for which there is no socket.\<close>

definition tcp_reset :: "NetBuffer \<Rightarrow> IPAddr \<Rightarrow> segment \<Rightarrow> 'a net_world_scheme \<Rightarrow> 'a net_world_scheme option" where
  "tcp_reset packet source_ip g w = do {
     ack \<leftarrow> checked_add (seg_seq g) 1;
     w \<leftarrow> tcp_output NetBuffer_new
       \<lparr>source_port = seg_dest_port g, dest_ip = source_ip, dest_port = seg_source_port g, seq_num = 1,
        ack_num = ack, flags = FLAG_RST OR FLAG_ACK, window = 0, options = []\<rparr> w;
     Some (drop_buffer packet w)
   }"

text \<open>The lookup of the socket a segment is for, and what is done with it. \<open>iss\<close> is the random initial
  sequence number of the socket of a new connection.\<close>

definition tcp_dispatch :: "u32 \<Rightarrow> IPAddr \<Rightarrow> segment \<Rightarrow> nat \<Rightarrow> NetBuffer \<Rightarrow> 'a tcp_world_scheme \<Rightarrow> 'a tcp_world_scheme option" where
  "tcp_dispatch iss source_ip g max_segment_size packet w =
     (case TCP_PORT_MAP w (source_ip, seg_source_port g, seg_dest_port g) of
        None \<Rightarrow>
          (case TCP_PORT_MAP w (IPAddr_new, 0, seg_dest_port g) of
             Some listen_socket \<Rightarrow>
               if has_flag (seg_flags g) FLAG_SYN then do {
                 (new_socket, w) \<leftarrow> handle_new_connection iss listen_socket source_ip g max_segment_size w;
                 let w = w\<lparr>TCP_PORT_MAP := (TCP_PORT_MAP w)((source_ip, seg_source_port g, seg_dest_port g) \<mapsto> new_socket)\<rparr>;
                 Some (drop_buffer packet w)
               } else tcp_reset packet source_ip g w
           | None \<Rightarrow> tcp_reset packet source_ip g w)
      | Some r \<Rightarrow> do {
          s \<leftarrow> get_socket r w;
          (s, w) \<leftarrow> tcp_input_socket r g max_segment_size packet s w;
          Some (put_socket r s w)
        })"

definition tcp_input :: "u32 \<Rightarrow> NetBuffer \<Rightarrow> IPAddr \<Rightarrow> 'a tcp_world_scheme \<Rightarrow> 'a tcp_world_scheme option" where
  "tcp_input iss packet source_ip w = do {
     ok \<leftarrow> validate_checksum packet source_ip w;
     if \<not> ok then Some (drop_buffer packet w)
     else do {
       let packet_length = buf_length packet;
       h \<leftarrow> header packet;
       g \<leftarrow> decode_header h;
       _ \<leftarrow> usize_sub packet_length (seg_header_length g);
       opts \<leftarrow> subslice 20 (seg_header_length g) h;
       max_segment_size \<leftarrow> parse_options opts;
       (packet, w) \<leftarrow> trim_head (seg_header_length g) packet w;
       tcp_dispatch iss source_ip g max_segment_size packet w
     }
   }"

end
