(* ===== verification/Tcp_Laws.thy ===== *)
theory Tcp_Laws
  imports Tcp_Input
begin

text \<open>
  What every piece of TCP keeps: the buffers of a socket are valid, the fragments it holds are
  accounted for, nothing but the pool, the interface and the timers changes outside the socket, and
  the timers it sets refer to it. \<open>sock_step\<close> states this of one piece of a critical section, so that
  the handlers are compositions of such steps.
\<close>

named_theorems step_intros \<open>rules for the calls in a handler\<close>

section \<open>Valid sockets\<close>

definition socket_ok :: "TCPSocketState \<Rightarrow> bool" where
  "socket_ok s \<longleftrightarrow> wf_ip (remote_ip s) \<and> wf_buf (receive_queue s) \<and> wf_buf (retransmit_queue s) \<and>
     (\<forall>e \<in> set (out_of_order (reassembler s)). wf_buf (snd e)) \<and> send_mss s \<le> 0xffff"

text \<open>The fragments a socket holds.\<close>

definition held :: "TCPSocketState \<Rightarrow> nat" where
  "held s = nfrags (receive_queue s) + nfrags (retransmit_queue s) + waiting (reassembler s)"

definition same_socket :: "TCPSocketState \<Rightarrow> TCPSocketState \<Rightarrow> bool" where
  "same_socket s s' \<longleftrightarrow> remote_ip s' = remote_ip s \<and> remote_port s' = remote_port s \<and>
     local_port s' = local_port s \<and> socket_queue s' = socket_queue s"

fun callback_socket :: "callback \<Rightarrow> nat" where
  "callback_socket (Retransmit r) = r"
| "callback_socket (Delayed_ack r) = r"
| "callback_socket (Response_timeout r) = r"
| "callback_socket (Time_wait_timeout r) = r"

definition timer_of :: "nat \<Rightarrow> callback Timer \<Rightarrow> bool" where
  "timer_of r t \<longleftrightarrow> (\<exists>c. closure t = Some c \<and> callback_socket c = r)"

definition timers_from :: "nat \<Rightarrow> 'a tcp_world_scheme \<Rightarrow> 'a tcp_world_scheme \<Rightarrow> bool" where
  "timers_from r w w' \<longleftrightarrow> (\<forall>t \<in> set (PENDING_TIMERS w'). t \<in> set (PENDING_TIMERS w) \<or> timer_of r t)"

definition tcp_frame :: "'a tcp_world_scheme \<Rightarrow> 'a tcp_world_scheme \<Rightarrow> bool" where
  "tcp_frame w w' \<longleftrightarrow>
     w' = w\<lparr>free_list := free_list w', METRICS := METRICS w', tun_out := tun_out w', NEXT_PACKET_ID := NEXT_PACKET_ID w',
            PENDING_TIMERS := PENDING_TIMERS w', NEXT_TIMER_ID := NEXT_TIMER_ID w'\<rparr> \<and>
     (\<exists>frames. tun_out w' = tun_out w @ frames)"

lemma same_socket_refl [simp]: "same_socket s s"
  by (simp add: same_socket_def)

lemma timers_from_refl [simp]: "timers_from r w w"
  by (simp add: timers_from_def)

lemma tcp_frame_refl [simp]: "tcp_frame w w"
  by (simp add: tcp_frame_def)

lemma tcp_frame_trans:
  assumes "tcp_frame u v" and "tcp_frame v w"
  shows "tcp_frame u w"
proof -
  have "\<exists>frames. tun_out w = tun_out u @ frames"
    using assms unfolding tcp_frame_def by (metis append.assoc)
  with assms show ?thesis
    by (cases u; cases v; cases w) (simp add: tcp_frame_def)
qed

lemma net_step_tcp_frame: "net_step w n xs w' m \<Longrightarrow> tcp_frame w w'"
  by (cases w; cases w') (auto simp: net_step_def only_net_def tcp_frame_def)

lemma tcp_frame_fields:
  assumes "tcp_frame w w'"
  shows "LOCAL_IPV4 w' = LOCAL_IPV4 w" "LOCAL_IPV6 w' = LOCAL_IPV6 w" "tun_writev w' = tun_writev w"
    "UDP_PORT_MAP w' = UDP_PORT_MAP w" "udp_sockets w' = udp_sockets w" "clock_ms w' = clock_ms w"
    "TCP_PORT_MAP w' = TCP_PORT_MAP w" "tcp_sockets w' = tcp_sockets w"
  using assms by (cases w; cases w'; simp add: tcp_frame_def)+

lemma net_step_timers:
  assumes "net_step w n xs w' m"
  shows "PENDING_TIMERS w' = PENDING_TIMERS w" "NEXT_TIMER_ID w' = NEXT_TIMER_ID w"
  using assms by (cases w; cases w'; simp add: net_step_def only_net_def)+

section \<open>Steps of a critical section\<close>

text \<open>\<open>n\<close> counts the fragments of the packets at hand that are not yet in a queue of the socket.\<close>

definition sock_step :: "nat \<Rightarrow> nat \<times> TCPSocketState \<times> 'a tcp_world_scheme \<Rightarrow>
    nat \<times> TCPSocketState \<times> 'a tcp_world_scheme \<Rightarrow> bool" where
  "sock_step r = (\<lambda>(n, s, w) (n', s', w'). socket_ok s \<and> net_ok w \<longrightarrow>
     socket_ok s' \<and> net_ok w' \<and> same_socket s s' \<and> tcp_frame w w' \<and> timers_from r w w' \<and>
     (\<forall>k. balanced w (k + n + held s) \<longrightarrow> balanced w' (k + n' + held s')))"

lemma sock_step_refl [simp]: "sock_step r a a"
  by (cases a) (simp add: sock_step_def)

lemma sock_step_trans [trans]:
  assumes "sock_step r a b" and "sock_step r b c"
  shows "sock_step r a c"
proof -
  obtain n s w n' s' w' m t v where [simp]: "a = (n, s, w)" "b = (n', s', w')" "c = (m, t, v)"
    by (metis prod_cases3)
  show ?thesis
  proof (unfold sock_step_def, simp, intro impI)
    assume "socket_ok s \<and> net_ok w"
    then have ab: "socket_ok s'" "net_ok w'" "same_socket s s'" "tcp_frame w w'" "timers_from r w w'"
        "\<forall>k. balanced w (k + n + held s) \<longrightarrow> balanced w' (k + n' + held s')"
      using assms(1) by (simp_all add: sock_step_def)
    then have bc: "socket_ok t" "net_ok v" "same_socket s' t" "tcp_frame w' v" "timers_from r w' v"
        "\<forall>k. balanced w' (k + n' + held s') \<longrightarrow> balanced v (k + m + held t)"
      using assms(2) by (simp_all add: sock_step_def)
    from ab bc tcp_frame_trans [of w w' v] show "socket_ok t \<and> net_ok v \<and> same_socket s t \<and> tcp_frame w v \<and> timers_from r w v \<and>
        (\<forall>k. balanced w (k + n + held s) \<longrightarrow> balanced v (k + m + held t))"
      by (auto simp: same_socket_def timers_from_def)
  qed
qed

text \<open>Updates that touch neither the buffers nor the identity of a socket.\<close>

definition quiet :: "TCPSocketState \<Rightarrow> TCPSocketState \<Rightarrow> bool" where
  "quiet s s' \<longleftrightarrow> same_socket s s' \<and> receive_queue s' = receive_queue s \<and> retransmit_queue s' = retransmit_queue s \<and>
     out_of_order (reassembler s') = out_of_order (reassembler s) \<and> send_mss s' = send_mss s"

lemma quiet_step: "quiet s s' \<Longrightarrow> sock_step r (n, s, w) (n, s', w)"
  by (simp add: sock_step_def quiet_def socket_ok_def held_def same_socket_def waiting_def)

text \<open>A step of the interface or the pool that moves fragments between the socket and the packets at hand.\<close>

lemma net_sock_stepI:
  assumes "net_step w m xs w' m'" and "socket_ok s'" and "same_socket s s'"
    and "n + held s = j + m" and "n' + held s' = j + m'"
  shows "sock_step r (n, s, w) (n', s', w')"
proof -
  have "balanced w' (k + n' + held s')" if "balanced w (k + n + held s)" for k
  proof -
    have "balanced w (k + j + m)"
      using that assms(4) by (simp add: add.assoc)
    then have "balanced w' (k + j + m')"
      using assms(1) by (simp add: net_step_def)
    then show ?thesis
      using assms(5) by (simp add: add.assoc)
  qed
  then show ?thesis
    using assms net_step_net_ok [OF assms(1)] net_step_tcp_frame [OF assms(1)] net_step_timers(1) [OF assms(1)]
    by (simp add: sock_step_def timers_from_def)
qed

lemma sock_stepI:
  "(socket_ok s \<Longrightarrow> net_ok w \<Longrightarrow> sock_step r (n, s, w) b) \<Longrightarrow> sock_step r (n, s, w) b"
  by (cases b) (auto simp: sock_step_def)

lemma net_sock_step: "net_step w m xs w' m' \<Longrightarrow> sock_step r (n + m, s, w) (n + m', s, w')"
  by (rule sock_stepI) (rule net_sock_stepI [where j = "n + held s"], simp_all)

lemma timer_sock_step:
  assumes "w' = w\<lparr>PENDING_TIMERS := PENDING_TIMERS w', NEXT_TIMER_ID := NEXT_TIMER_ID w'\<rparr>" and "timers_from r w w'"
  shows "sock_step r (n, s, w) (n, s, w')"
proof -
  have "net_ok w' = net_ok w" "\<And>k. balanced w' k = balanced w k" "tcp_frame w w'"
    by (subst assms(1); simp add: net_ok_def pool_ok_def link_up_def balanced_def tcp_frame_def)+
  with assms(2) show ?thesis
    by (simp add: sock_step_def)
qed

lemma set_timer_step:
  assumes "set_timer t c w = Some (ident, w')" and "callback_socket c = r"
  shows "sock_step r (n, s, w) (n, s, w')"
proof (rule timer_sock_step)
  show "w' = w\<lparr>PENDING_TIMERS := PENDING_TIMERS w', NEXT_TIMER_ID := NEXT_TIMER_ID w'\<rparr>" "timers_from r w w'"
    using assms by (auto simp: set_timer_def bind_eq_Some_conv Let_def timers_from_def timer_of_def)
qed

lemma cancel_timer_step: "sock_step r (n, s, w) (n, s, snd (cancel_timer ident w))"
proof (rule timer_sock_step)
  obtain found w' where run: "cancel_timer ident w = (found, w')"
    by fastforce
  show "snd (cancel_timer ident w) = w\<lparr>PENDING_TIMERS := PENDING_TIMERS (snd (cancel_timer ident w)),
      NEXT_TIMER_ID := NEXT_TIMER_ID (snd (cancel_timer ident w))\<rparr>"
    by (simp add: cancel_timer_def split: prod.splits)
  have "set (PENDING_TIMERS w') \<subseteq> set (PENDING_TIMERS w)"
  proof (cases found)
    case True
    then obtain t where "mset (PENDING_TIMERS w') = mset (PENDING_TIMERS w) - {#t#}"
      using cancel_timer_mset(2) [OF run] by blast
    then show ?thesis
      by (metis diff_subset_eq_self set_mset_mono set_mset_mset)
  qed (use cancel_timer_mset(3) [OF run] in simp)
  then show "timers_from r w (snd (cancel_timer ident w))"
    by (auto simp: run timers_from_def)
qed

text \<open>Composition: the pieces of a handler are run one after the other.\<close>

lemma whenever_step:
  assumes "whenever m (\<lambda>x. sock_step r a (n, x))"
    and "\<And>t v. whenever (f (t, v)) (\<lambda>x. sock_step r (n, t, v) (n', x))"
  shows "whenever (Option.bind m f) (\<lambda>x. sock_step r a (n', x))"
  using assms(1) by (rule whenever_bindI) (auto intro: whenever_conseq [OF assms(2)] sock_step_trans)

lemma whenever_world_step:
  assumes "whenever m (\<lambda>v. sock_step r a (n, t, v))"
    and "\<And>v. whenever (f v) (\<lambda>x. sock_step r (n, t, v) (n', x))"
  shows "whenever (Option.bind m f) (\<lambda>x. sock_step r a (n', x))"
  using assms(1) by (rule whenever_bindI) (auto intro: whenever_conseq [OF assms(2)] sock_step_trans)

lemma step_then:
  assumes "sock_step r a b" and "whenever m (\<lambda>x. sock_step r b (n', x))"
  shows "whenever m (\<lambda>x. sock_step r a (n', x))"
  using assms(2) by (rule whenever_conseq) (auto intro: sock_step_trans [OF assms(1)])

section \<open>The pieces of the handlers\<close>

lemma whenever_sock_stepI:
  "(socket_ok s \<Longrightarrow> net_ok w \<Longrightarrow> whenever m (\<lambda>x. sock_step r (n, s, w) (f x))) \<Longrightarrow>
   whenever m (\<lambda>x. sock_step r (n, s, w) (f x))"
  by (cases "socket_ok s \<and> net_ok w") (auto simp: whenever_def sock_step_def split: prod.splits)

lemma send_packet_step:
  assumes "wf_buf b" and "packed (fragments b)" and "length (contents b) \<le> 0xffff"
  shows "whenever (tcp_send_packet s b fl w) (\<lambda>w'. sock_step r (n + nfrags b, s, w) (n, s, w'))"
proof (rule whenever_sock_stepI)
  assume "socket_ok s" and "net_ok w"
  then have "whenever (tcp_send_packet s b fl w) (\<lambda>w'. net_step w (nfrags b) [socket_frame w s fl (contents b)] w' 0)"
    using tcp_send_packet_whenever [OF assms, of w s fl] by (auto simp: socket_ok_def elim: whenever_conseq)
  then show "whenever (tcp_send_packet s b fl w) (\<lambda>w'. sock_step r (n + nfrags b, s, w) (n, s, w'))"
    by (rule whenever_conseq) (use net_sock_step [where m' = 0] in force)
qed

lemma send_empty_step: "whenever (tcp_send_packet s NetBuffer_new fl w) (\<lambda>w'. sock_step r (n, s, w) (n, s, w'))"
  using send_packet_step [of NetBuffer_new s fl w r n] by simp

lemma set_response_timer_step:
  "whenever (set_response_timer r s w) (\<lambda>x. sock_step r (n, s, w) (n, x))"
proof -
  define v where "v = (if response_timer_id s \<noteq> -1 then snd (cancel_timer (response_timer_id s) w) else w)"
  have "sock_step r (n, s, w) (n, s, v)"
    by (simp add: v_def cancel_timer_step)
  moreover have "whenever (set_timer RESPONSE_TIMEOUT (Response_timeout r) v)
      (\<lambda>(ident, w'). sock_step r (n, s, v) (n, s\<lparr>response_timer_id := ident\<rparr>, w'))"
    by (rule wheneverI)
      (auto intro!: sock_step_trans [OF set_timer_step quiet_step] simp: quiet_def same_socket_def)
  ultimately show ?thesis
    unfolding set_response_timer_def v_def [symmetric] Let_def
    by (auto simp: whenever_bind case_prod_unfold elim!: whenever_conseq intro: sock_step_trans)
qed

lemma cancel_delayed_ack_step: "sock_step r (n, s, w) (n, cancel_delayed_ack s w)"
  by (auto simp: cancel_delayed_ack_def quiet_def same_socket_def
      intro: sock_step_trans [OF cancel_timer_step quiet_step])

lemma set_time_wait_timer_step:
  "whenever (set_time_wait_timer r w) (\<lambda>w'. sock_step r (n, s, w) (n, s, w'))"
  by (auto simp: set_time_wait_timer_def whenever_bind intro!: wheneverI set_timer_step)

lemma trim_head_whenever:
  assumes "wf_buf b"
  shows "whenever (trim_head n b w) (\<lambda>(b', w'). n \<le> length (contents b) \<and> wf_buf b' \<and> contents b' = drop n (contents b) \<and>
     pool_step w (nfrags b) w' (nfrags b'))"
proof (cases "n \<le> length (contents b)")
  case True
  then show ?thesis
    using trim_head_returns [OF assms True] by (auto dest!: returns_whenever)
qed (simp add: trim_head_def length_contents [OF assms])

subsection \<open>Data\<close>

definition entries_ok :: "TCPReassembler \<Rightarrow> bool" where
  "entries_ok ra \<longleftrightarrow> (\<forall>e \<in> set (out_of_order ra). wf_buf (snd e))"

lemma set_list_remove: "set (list_remove i xs) \<subseteq> set xs"
  by (auto simp: list_remove_def dest: in_set_takeD in_set_dropD)

lemma sum_list_remove:
  fixes f :: "'x \<Rightarrow> nat"
  assumes "i < length xs"
  shows "sum_list (map f xs) = f (xs ! i) + sum_list (map f (list_remove i xs))"
  unfolding list_remove_def by (subst (1) id_take_nth_drop [OF assms]) simp

lemma append_buffer_whenever:
  assumes "wf_buf b" and "wf_buf c"
  shows "whenever (append_buffer c b) (\<lambda>b'. wf_buf b' \<and> contents b' = contents b @ contents c \<and> nfrags b' = nfrags b + nfrags c)"
proof (cases "length (contents b) + length (contents c) \<le> USIZE_MAX")
  case True
  then show ?thesis
    by (intro returns_whenever append_buffer_Some [OF assms])
qed (simp add: append_buffer_def length_contents assms usize_add_def)

lemma pool_step_drop:
  "wf_buf e \<Longrightarrow> pool_step (drop_buffer e w) n w' n' \<Longrightarrow> pool_step w (nfrags e + n) w' n'"
  using drop_buffer_step [of e w] pool_step_frame' [of w "nfrags e" "drop_buffer e w" 0 n]
  by (auto intro: pool_step_trans)

lemma reassemble_loop_whenever:
  "wf_buf b \<Longrightarrow> entries_ok ra \<Longrightarrow> whenever (reassemble_loop q i b ra w) (\<lambda>(b', ra', w').
     wf_buf b' \<and> entries_ok ra' \<and> pool_step w (nfrags b + waiting ra) w' (nfrags b' + waiting ra'))"
proof (induction q i b ra w rule: reassemble_loop.induct)
  case (1 q i b ra w)
  obtain es e where e: "out_of_order ra ! i = (es, e)"
    by fastforce
  define ra1 where "ra1 = ra\<lparr>out_of_order := list_remove i (out_of_order ra)\<rparr>"
  define ra2 where "ra2 = ra1\<lparr>next_sequence := next_sequence ra1 + of_nat (buf_length e)\<rparr>"
  have ok: "entries_ok ra1" "entries_ok ra2"
    using 1(5) set_list_remove [of i "out_of_order ra"] by (auto simp: entries_ok_def ra1_def ra2_def)
  show ?case
  proof (cases "i < length (out_of_order ra)")
    case False
    with 1(4,5) show ?thesis
      by (subst reassemble_loop.simps) simp
  next
    case True
    then have wf: "wf_buf e"
      using 1(5) e nth_mem [OF True] by (auto simp: entries_ok_def)
    have wait: "waiting ra = nfrags e + waiting ra1" "waiting ra2 = waiting ra1"
      using sum_list_remove [OF True, of "\<lambda>e. nfrags (snd e)"] by (simp_all add: waiting_def ra1_def ra2_def e)
    consider "seq_gt q es" | "\<not> seq_gt q es" "es = next_sequence ra" | "\<not> seq_gt q es" "es \<noteq> next_sequence ra"
      by blast
    then show ?thesis
    proof cases
      case 1
      then have "reassemble_loop q i b ra w = reassemble_loop q i b ra1 (drop_buffer e w)"
        using True e by (subst reassemble_loop.simps) (simp add: ra1_def)
      moreover have "pool_step w (nfrags b + waiting ra) w' n" if "pool_step (drop_buffer e w) (nfrags b + waiting ra1) w' n" for w' n
        using pool_step_drop [OF wf that] by (simp add: wait ac_simps)
      ultimately show ?thesis
        using "1.IH"(1) [OF True refl e [symmetric] 1 "1.prems"(1)] ok(1) unfolding ra1_def [symmetric]
        by (auto elim!: whenever_conseq)
    next
      case 2
      then have "reassemble_loop q i b ra w = Option.bind (append_buffer e b) (\<lambda>b. reassemble_loop q 0 b ra2 w)"
        using True e by (subst reassemble_loop.simps) (simp add: ra1_def ra2_def)
      moreover have "whenever (append_buffer e b) (\<lambda>b'. append_buffer e b = Some b' \<and> wf_buf b' \<and> nfrags b' = nfrags b + nfrags e)"
        using append_buffer_whenever [OF "1.prems"(1) wf] by (auto simp: whenever_def)
      moreover have "whenever (reassemble_loop q 0 b' ra2 w) (\<lambda>(b'', ra', w'). wf_buf b'' \<and> entries_ok ra' \<and>
          pool_step w (nfrags b + waiting ra) w' (nfrags b'' + waiting ra'))"
        if b': "append_buffer e b = Some b' \<and> wf_buf b' \<and> nfrags b' = nfrags b + nfrags e" for b'
        using "1.IH"(2) [OF True refl e [symmetric] 2 ra1_def ra2_def, of b'] b' ok(2) wait by (simp add: add.assoc)
      ultimately show ?thesis
        by (auto intro: whenever_bindI)
    next
      case 3
      then have "reassemble_loop q i b ra w = reassemble_loop q (i + 1) b ra w"
        using True e by (subst reassemble_loop.simps) simp
      with 3 show ?thesis
        using "1.IH"(3) [OF True refl e [symmetric]] "1.prems" by simp
    qed
  qed
qed

lemma add_packet_whenever:
  assumes "wf_buf b" and "entries_ok ra"
  shows "whenever (add_packet b q ra w) (\<lambda>(got, ra', w'). (\<forall>b' \<in> set_option got. wf_buf b') \<and> entries_ok ra' \<and>
     pool_step w (nfrags b + waiting ra) w' ((case got of None \<Rightarrow> 0 | Some b' \<Rightarrow> nfrags b') + waiting ra'))"
proof (cases "q = next_sequence ra")
  case True
  then show ?thesis
    using reassemble_loop_whenever [OF assms(1), of "ra\<lparr>next_sequence := next_sequence ra + of_nat (buf_length b)\<rparr>" q 0 w] assms(2)
    by (auto simp: add_packet_def entries_ok_def waiting_def case_prod_unfold whenever_bind elim!: whenever_conseq)
next
  case False
  with assms show ?thesis
    by (simp add: add_packet_def entries_ok_def waiting_def add.commute)
qed

lemma receive_data_step:
  assumes "wf_buf packet"
  shows "whenever (receive_data g packet s w) (\<lambda>x. sock_step r (n + nfrags packet, s, w) (n, x))"
proof (rule whenever_sock_stepI, rule wheneverI)
  fix x
  assume ok: "socket_ok s" and run: "receive_data g packet s w = Some x"
  define v where "v = wrapping_max (receive_next_seq s) (seg_seq g + of_nat (buf_length packet))"
  obtain got ra w' where add: "add_packet packet (seg_seq g) (reassembler s) w = Some (got, ra, w')"
    using run by (auto simp: receive_data_def Let_def bind_eq_Some_conv)
  obtain s' where x: "x = (s', w')"
    and s': "(case got of None \<Rightarrow> s' = s\<lparr>receive_next_seq := v, reassembler := ra\<rparr>
      | Some b \<Rightarrow> \<exists>q. append_buffer b (receive_queue s) = Some q \<and>
          s' = s\<lparr>receive_next_seq := v, reassembler := ra, receive_queue := q\<rparr>)"
    using run add by (cases got) (auto simp: receive_data_def Let_def v_def bind_eq_Some_conv)
  have "entries_ok (reassembler s)"
    using ok by (simp add: socket_ok_def entries_ok_def)
  from wheneverD [OF add_packet_whenever [OF assms this] add]
  have got: "\<forall>b \<in> set_option got. wf_buf b" "entries_ok ra"
    "pool_step w (nfrags packet + waiting (reassembler s)) w' ((case got of None \<Rightarrow> 0 | Some b \<Rightarrow> nfrags b) + waiting ra)"
    by simp_all
  have "socket_ok s' \<and> same_socket s s' \<and> retransmit_queue s' = retransmit_queue s \<and> reassembler s' = ra \<and>
      nfrags (receive_queue s') = nfrags (receive_queue s) + (case got of None \<Rightarrow> 0 | Some b \<Rightarrow> nfrags b)"
  proof (cases got)
    case None
    with s' ok got(2) show ?thesis
      by (simp add: socket_ok_def entries_ok_def same_socket_def)
  next
    case (Some b)
    with s' obtain q where q: "append_buffer b (receive_queue s) = Some q"
      and s'': "s' = s\<lparr>receive_next_seq := v, reassembler := ra, receive_queue := q\<rparr>"
      by auto
    have "wf_buf q" "nfrags q = nfrags (receive_queue s) + nfrags b"
      using wheneverD [OF append_buffer_whenever q] ok got(1) Some by (simp_all add: socket_ok_def)
    with Some s'' ok got(2) show ?thesis
      by (simp add: socket_ok_def entries_ok_def same_socket_def)
  qed
  then have s'_ok: "socket_ok s'" "same_socket s s'"
    and s'_held: "nfrags (receive_queue s') = nfrags (receive_queue s) + (case got of None \<Rightarrow> 0 | Some b \<Rightarrow> nfrags b)"
      "retransmit_queue s' = retransmit_queue s" "reassembler s' = ra"
    by simp_all
  show "sock_step r (n + nfrags packet, s, w) (n, x)"
    unfolding x using s'_ok s'_held
    by (intro net_sock_stepI [OF pool_net_step [OF got(3)], where j = "n + nfrags (receive_queue s) + nfrags (retransmit_queue s)"])
      (auto simp: held_def)
qed

subsection \<open>Composition by the simplifier\<close>

text \<open>
  Rules for the calls in a handler: \<open>s'\<close> is the state the call works on, which differs from \<open>s\<close> in fields
  that carry no buffers.
\<close>

lemma quiet_then: "quiet s s' \<Longrightarrow> sock_step r (n, s', w) b \<Longrightarrow> sock_step r (n, s, w) b"
  by (rule sock_step_trans [OF quiet_step])

lemma send_then [step_intros]:
  assumes "quiet s s'" and "\<And>v. whenever (f v) (\<lambda>x. sock_step r (n, s', v) (n', x))"
  shows "whenever (Option.bind (tcp_send_packet s' NetBuffer_new fl w) f) (\<lambda>x. sock_step r (n, s, w) (n', x))"
  by (rule step_then [OF quiet_step [OF assms(1)]]) (rule whenever_world_step [OF send_empty_step assms(2)])

lemma response_then [step_intros]:
  assumes "quiet s s'" and "\<And>t v. whenever (f (t, v)) (\<lambda>x. sock_step r (n, t, v) (n', x))"
  shows "whenever (Option.bind (set_response_timer r s' w) f) (\<lambda>x. sock_step r (n, s, w) (n', x))"
  by (rule step_then [OF quiet_step [OF assms(1)]]) (rule whenever_step [OF set_response_timer_step assms(2)])

lemma response_last [step_intros]:
  assumes "quiet s s'"
  shows "whenever (set_response_timer r s' w) (\<lambda>x. sock_step r (n, s, w) (n, x))"
  by (rule step_then [OF quiet_step [OF assms(1)]]) (rule set_response_timer_step)

lemma set_timer_then [step_intros]:
  assumes "callback_socket c = r" and "\<And>ident v. whenever (f (ident, v)) (\<lambda>x. sock_step r (n, s, v) (n', x))"
  shows "whenever (Option.bind (set_timer t c w) f) (\<lambda>x. sock_step r (n, s, w) (n', x))"
proof -
  have "whenever (set_timer t c w) (\<lambda>(ident, v). sock_step r (n, s, w) (n, s, v))"
    by (rule wheneverI) (auto intro: set_timer_step [OF _ assms(1)])
  then show ?thesis
    by (rule whenever_bindI) (auto intro: whenever_conseq [OF assms(2)] sock_step_trans)
qed

lemma time_wait_then [step_intros]:
  assumes "\<And>v. whenever (f v) (\<lambda>x. sock_step r (n, s, v) (n', x))"
  shows "whenever (Option.bind (set_time_wait_timer r w) f) (\<lambda>x. sock_step r (n, s, w) (n', x))"
  by (rule whenever_world_step [OF set_time_wait_timer_step assms])

lemma cancel_ack_then [step_intros]:
  assumes "quiet s s'" and "\<And>t v. whenever (f t v) (\<lambda>x. sock_step r (n, t, v) (n', x))"
  shows "whenever (case cancel_delayed_ack s' w of (t, v) \<Rightarrow> f t v) (\<lambda>x. sock_step r (n, s, w) (n', x))"
proof -
  obtain t v where run: "cancel_delayed_ack s' w = (t, v)"
    by fastforce
  with quiet_then [OF assms(1) cancel_delayed_ack_step, of r n w] assms(2) [of t v] show ?thesis
    by (auto intro: step_then)
qed

lemma quiet_last [step_intros]: "quiet s s' \<Longrightarrow> sock_step r (n, s, w) (n, s', w)"
  by (rule quiet_step)

lemma schedule_ack_step: "whenever (schedule_ack r g s w) (\<lambda>x. sock_step r (n, s, w) (n, x))"
  unfolding schedule_ack_def Let_def
  by (auto simp: quiet_def same_socket_def whenever_bind [of "checked_add _ _"]
      intro!: step_intros wheneverI [of "checked_add _ _"])

lemma handle_data_step:
  assumes "wf_buf packet"
  shows "whenever (handle_data r g packet s w) (\<lambda>x. sock_step r (n + nfrags packet, s, w) (n, x))"
  unfolding handle_data_def by (rule whenever_step [OF receive_data_step [OF assms]]) (simp add: schedule_ack_step)

lemma acknowledge_step: "whenever (acknowledge g s w) (\<lambda>x. sock_step r (n, s, w) (n, x))"
proof (cases "seq_lt (send_unacked s) (seg_ack g) \<and> seq_le (seg_ack g) (send_next_seq s)")
  case True
  show ?thesis
  proof (rule whenever_sock_stepI, rule wheneverI)
    fix x
    assume ok: "socket_ok s" and run: "acknowledge g s w = Some x"
    obtain q v where trim: "trim_head (unat (seg_ack g - send_unacked s)) (retransmit_queue s) w = Some (q, v)"
      using run True by (auto simp: acknowledge_def Let_def bind_eq_Some_conv simp del: TCPSocketState.update_convs)
    define t where "t = s\<lparr>retransmit_queue := q\<rparr>"
    have x: "x = (if is_empty q
        then (t\<lparr>retransmit_timer_id := -1, send_unacked := seg_ack g\<rparr>, snd (cancel_timer (retransmit_timer_id s) v))
        else (t\<lparr>send_unacked := seg_ack g\<rparr>, v))"
      using run True trim by (cases "is_empty q") (simp_all add: acknowledge_def t_def)
    have q: "wf_buf q" "pool_step w (nfrags (retransmit_queue s)) v (nfrags q)"
      using wheneverD [OF trim_head_whenever trim] ok by (simp_all add: socket_ok_def)
    then have "sock_step r (n, s, w) (n, t, v)"
      using ok unfolding t_def by (intro net_sock_stepI [OF pool_net_step [OF q(2)], where j = "n + nfrags (receive_queue s) + waiting (reassembler s)"])
        (auto simp: socket_ok_def same_socket_def held_def)
    moreover have "sock_step r (n, t, v) (n, x)"
      using sock_step_trans [OF cancel_timer_step quiet_step, of t _ r n v] quiet_step [of t _ r n v]
      by (simp add: x quiet_def same_socket_def)
    ultimately show "sock_step r (n, s, w) (n, x)"
      by (rule sock_step_trans)
  qed
qed (auto simp: acknowledge_def)

lemma handle_ack_step: "whenever (handle_ack g s w) (\<lambda>x. sock_step r (n, s, w) (n, x))"
  unfolding handle_ack_def
  by (rule whenever_step [OF acknowledge_step])
    (auto simp: update_window_def quiet_def same_socket_def intro: quiet_step)

lemma handle_state_step: "whenever (handle_state r g s w) (\<lambda>x. sock_step r (n, s, w) (n, x))"
  unfolding handle_state_def Let_def
  by (auto simp: quiet_def same_socket_def set_state_def set_next_expect_def split: TCPState.splits intro!: step_intros)

subsection \<open>The critical section of \<open>tcp_input\<close>\<close>

lemma drop_buffer_step': "wf_buf b \<Longrightarrow> sock_step r (n + nfrags b, s, w) (n, s, drop_buffer b w)"
  using net_sock_step [OF pool_net_step [OF drop_buffer_step], of b r n s w] by simp

lemma mss_step: "m \<le> 0xffff \<Longrightarrow> sock_step r (n, s, w) (n, if m \<noteq> 0 then s\<lparr>send_mss := m\<rparr> else s, w)"
  by (simp add: sock_step_def socket_ok_def same_socket_def held_def)

lemma cancel_response_step:
  "sock_step r (n, s, w) (n, if response_timer_id s \<noteq> -1
     then (s\<lparr>response_timer_id := -1\<rparr>, snd (cancel_timer (response_timer_id s) w)) else (s, w))"
  using sock_step_trans [OF cancel_timer_step quiet_step, of s "s\<lparr>response_timer_id := -1\<rparr>" r n w]
  by (simp add: quiet_def same_socket_def)

text \<open>The handling of a segment without RST, behind the two fields that are set first.\<close>

definition input_stages :: "nat \<Rightarrow> segment \<Rightarrow> NetBuffer \<Rightarrow> TCPSocketState \<Rightarrow> 'a tcp_world_scheme \<Rightarrow>
    (TCPSocketState \<times> 'a tcp_world_scheme) option" where
  "input_stages r g packet s w = do {
     (s, w) \<leftarrow> (if \<not> is_empty packet then handle_data r g packet s w else Some (s, w));
     (s, w) \<leftarrow> (if has_flag (seg_flags g) FLAG_ACK \<and> is_established s then handle_ack g s w else Some (s, w));
     handle_state r g s w
   }"

lemma input_stages_step:
  assumes "wf_buf packet"
  shows "whenever (input_stages r g packet s w)
    (\<lambda>x. sock_step r (n + nfrags packet, s, w) (if is_empty packet then n + nfrags packet else n, x))"
proof -
  define m where "m = (if is_empty packet then n + nfrags packet else n)"
  have "whenever (if \<not> is_empty packet then handle_data r g packet s w else Some (s, w))
      (\<lambda>x. sock_step r (n + nfrags packet, s, w) (m, x))"
    using handle_data_step [OF assms] by (auto simp: m_def)
  then have "whenever (input_stages r g packet s w) (\<lambda>x. sock_step r (n + nfrags packet, s, w) (m, x))"
    unfolding input_stages_def
  proof (rule whenever_step)
    fix t v
    have "whenever (if has_flag (seg_flags g) FLAG_ACK \<and> is_established t then handle_ack g t v else Some (t, v))
        (\<lambda>x. sock_step r (m, t, v) (m, x))"
      using handle_ack_step by auto
    then show "whenever (case (t, v) of (s, w) \<Rightarrow> do {
        (s, w) \<leftarrow> (if has_flag (seg_flags g) FLAG_ACK \<and> is_established s then handle_ack g s w else Some (s, w));
        handle_state r g s w
      }) (\<lambda>x. sock_step r (m, t, v) (m, x))"
      unfolding prod.case by (rule whenever_step) (simp add: handle_state_step)
  qed
  then show ?thesis
    by (simp add: m_def)
qed

lemma tcp_input_socket_eq:
  "tcp_input_socket r g m packet s w =
     (let s = (if m \<noteq> 0 then s\<lparr>send_mss := m\<rparr> else s);
          (s, w) = (if response_timer_id s \<noteq> -1
            then (s\<lparr>response_timer_id := -1\<rparr>, snd (cancel_timer (response_timer_id s) w)) else (s, w))
      in if has_flag (seg_flags g) FLAG_RST then Some (set_state Closed s, drop_buffer packet w)
         else do {
           (s, w) \<leftarrow> input_stages r g packet s w;
           Some (s, if \<not> is_empty packet then w else drop_buffer packet w)
         })"
  by (simp add: tcp_input_socket_def input_stages_def Let_def case_prod_unfold)

lemma tcp_input_socket_step:
  assumes "wf_buf packet" and "m \<le> 0xffff"
  shows "whenever (tcp_input_socket r g m packet s w) (\<lambda>x. sock_step r (n + nfrags packet, s, w) (n, x))"
proof -
  define s1 where "s1 = (if m \<noteq> 0 then s\<lparr>send_mss := m\<rparr> else s)"
  obtain t v where tv: "(if response_timer_id s1 \<noteq> -1
      then (s1\<lparr>response_timer_id := -1\<rparr>, snd (cancel_timer (response_timer_id s1) w)) else (s1, w)) = (t, v)"
    by fastforce
  have pre: "sock_step r (n + nfrags packet, s, w) (n + nfrags packet, t, v)"
    using sock_step_trans [OF mss_step [OF assms(2)] cancel_response_step, of r "n + nfrags packet" s w]
    unfolding s1_def [symmetric] tv .
  have "whenever (if has_flag (seg_flags g) FLAG_RST then Some (set_state Closed t, drop_buffer packet v)
      else do {
        (s, w) \<leftarrow> input_stages r g packet t v;
        Some (s, if \<not> is_empty packet then w else drop_buffer packet w)
      }) (\<lambda>x. sock_step r (n + nfrags packet, t, v) (n, x))"
  proof (cases "has_flag (seg_flags g) FLAG_RST")
    case True
    then show ?thesis
      using sock_step_trans [OF drop_buffer_step' [OF assms(1)] quiet_step, of t "set_state Closed t" r n v]
      by (simp add: quiet_def same_socket_def set_state_def)
  next
    case False
    then show ?thesis
      by simp (rule whenever_step [OF input_stages_step [OF assms(1)]], simp add: drop_buffer_step' [OF assms(1)])
  qed
  moreover have "tcp_input_socket r g m packet s w = (if has_flag (seg_flags g) FLAG_RST then Some (set_state Closed t, drop_buffer packet v)
      else do {
        (s, w) \<leftarrow> input_stages r g packet t v;
        Some (s, if \<not> is_empty packet then w else drop_buffer packet w)
      })"
    by (simp only: tcp_input_socket_eq Let_def s1_def [symmetric] tv prod.case)
  ultimately show ?thesis
    using step_then [OF pre] by simp
qed

subsection \<open>Writing\<close>

lemma append_whenever:
  assumes "wf_buf b" and "pool_ok w"
  shows "whenever (append_from_slice bs b w) (\<lambda>(q, v). wf_buf q \<and> contents q = contents b @ bs \<and>
    (packed (fragments b) \<longrightarrow> packed (fragments q)) \<and> pool_step w (nfrags b) v (nfrags q))"
proof (cases "length (contents b) + length bs \<le> USIZE_MAX")
  case True
  from append_from_slice_returns [OF assms True] show ?thesis
    by (auto dest!: returns_whenever elim!: whenever_conseq)
next
  case False
  then have "bs \<noteq> []"
    using wf_buf_bound [OF assms(1)] length_contents [OF assms(1)] by auto
  with False have "append_from_slice bs b w \<noteq> Some x" for x
    by (auto simp: append_from_slice_def length_contents [OF assms(1)] usize_add_def bind_eq_Some_conv)
  then show ?thesis
    by (simp add: whenever_def)
qed

lemma write_segment_step:
  assumes "length bs \<le> 0xffff"
  shows "whenever (write_segment r bs s w) (\<lambda>x. sock_step r (n, s, w) (n, x))"
proof (rule whenever_sock_stepI, rule wheneverI)
  fix x
  assume ok: "socket_ok s" "net_ok w" and run: "write_segment r bs s w = Some x"
  then obtain p w1 w2 q w3 where p: "append_from_slice bs NetBuffer_new w = Some (p, w1)"
    and sent: "tcp_send_packet s p (FLAG_ACK OR FLAG_PSH) w1 = Some w2"
    and q: "append_from_slice bs (retransmit_queue s) w2 = Some (q, w3)"
    by (auto simp: write_segment_def Let_def bind_eq_Some_conv)
  define t where "t = s\<lparr>send_next_seq := send_next_seq s + of_nat (length bs), retransmit_queue := q\<rparr>"
  have rest: "(if retransmit_timer_id t = -1 then do {
       (ident, w) \<leftarrow> set_timer RETRANSMIT_INTERVAL (Retransmit r) w3;
       Some (t\<lparr>retransmit_timer_id := ident\<rparr>, w)
     } else Some (t, w3)) = Some x"
    using run p sent q by (cases "retransmit_timer_id s = -1") (simp_all add: write_segment_def t_def)
  have p': "wf_buf p" "contents p = bs" "packed (fragments p)" "pool_step w 0 w1 (nfrags p)"
    using wheneverD [OF append_whenever p] ok(2) by (simp_all add: net_ok_pool)
  have "sock_step r (n, s, w) (n + nfrags p, s, w1)"
    using net_sock_step [OF pool_net_step [OF p'(4)], of r n s] by simp
  also have "sock_step r (n + nfrags p, s, w1) (n, s, w2)"
    using wheneverD [OF send_packet_step [OF p'(1,3)] sent] assms p'(2) by simp
  finally have step2: "sock_step r (n, s, w) (n, s, w2)" .
  then have "net_ok w2"
    using ok by (simp add: sock_step_def)
  then have q': "wf_buf q" "pool_step w2 (nfrags (retransmit_queue s)) w3 (nfrags q)"
    using wheneverD [OF append_whenever q] ok(1) by (simp_all add: net_ok_pool socket_ok_def)
  note step2
  also have "sock_step r (n, s, w2) (n, t, w3)"
    using ok(1) q'(1) unfolding t_def
    by (intro net_sock_stepI [OF pool_net_step [OF q'(2)], where j = "n + nfrags (receive_queue s) + waiting (reassembler s)"])
      (auto simp: socket_ok_def same_socket_def held_def)
  also have "whenever (if retransmit_timer_id t = -1 then do {
       (ident, w) \<leftarrow> set_timer RETRANSMIT_INTERVAL (Retransmit r) w3;
       Some (t\<lparr>retransmit_timer_id := ident\<rparr>, w)
     } else Some (t, w3)) (\<lambda>x. sock_step r (n, t, w3) (n, x))"
    by (auto simp: quiet_def same_socket_def intro!: step_intros)
  from wheneverD [OF this rest] have "sock_step r (n, t, w3) (n, x)" .
  finally show "sock_step r (n, s, w) (n, x)" .
qed

lemma tcp_write_loop_step:
  assumes "tcp_write_loop r bs offset s w = Some (res, s', w')"
  shows "sock_step r (n, s, w) (n, s', w')"
proof -
  have "case x of (res, y) \<Rightarrow> sock_step r (n, s, w) (n, y)" if "tcp_write_loop r bs offset s w = Some x" for x
  proof (rule tcp_write_loop.raw_induct [OF _ that])
    fix loop :: "nat \<Rightarrow> bytes \<Rightarrow> nat \<Rightarrow> TCPSocketState \<Rightarrow> 'a tcp_world_scheme \<Rightarrow> (write_result \<times> TCPSocketState \<times> 'a tcp_world_scheme) option"
      and r bs offset s w x
    assume IH: "\<And>r bs offset s w x. loop r bs offset s w = Some x \<Longrightarrow> case x of (res, y) \<Rightarrow> sock_step r (n, s, w) (n, y)"
      and run: "(if offset < length bs then
        if window_closed s (min (length bs - offset) (send_mss s)) then Some (Write_blocked offset, s, w)
        else do {
          packet_slice \<leftarrow> subslice offset (offset + min (length bs - offset) (send_mss s)) bs;
          (s', w) \<leftarrow> write_segment r packet_slice s w;
          loop r bs (offset + min (length bs - offset) (send_mss s)) s' w
        }
      else do {
        assert_that (offset = length bs);
        Some (Write_done (as_i32 (length bs)), s, w)
      }) = Some x"
    show "case x of (res, y) \<Rightarrow> sock_step r (n, s, w) (n, y)"
    proof (rule case_prodI2, rule sock_stepI)
      fix res y
      assume x: "x = (res, y)" and "socket_ok s"
      then have mss: "send_mss s \<le> 0xffff"
        by (simp add: socket_ok_def)
      show "sock_step r (n, s, w) (n, y)"
      proof (cases "offset < length bs \<and> \<not> window_closed s (min (length bs - offset) (send_mss s))")
        case True
        then obtain sl t v where sl: "subslice offset (offset + min (length bs - offset) (send_mss s)) bs = Some sl"
          and seg: "write_segment r sl s w = Some (t, v)"
          and rest: "loop r bs (offset + min (length bs - offset) (send_mss s)) t v = Some x"
          using run by (auto simp: bind_eq_Some_conv simp del: subslice_Some)
        have "length sl \<le> 0xffff"
          using sl mss by (auto simp: subslice_def split: if_splits)
        from wheneverD [OF write_segment_step [OF this] seg] IH [OF rest] show ?thesis
          by (auto simp: x intro: sock_step_trans)
      next
        case False
        then have "y = (s, w)"
          using run by (auto simp: x bind_eq_Some_conv split: if_splits)
        then show ?thesis
          by simp
      qed
    qed
  qed
  from this [OF assms] show ?thesis
    by simp
qed

section \<open>The world\<close>

definition socket_key :: "TCPSocketState \<Rightarrow> SocketKey" where
  "socket_key s = (remote_ip s, remote_port s, local_port s)"

definition tcp_held :: "'a tcp_world_scheme \<Rightarrow> nat" where
  "tcp_held w = sum_list (map held (tcp_sockets w))"

definition tcp_ok :: "'a tcp_world_scheme \<Rightarrow> bool" where
  "tcp_ok w \<longleftrightarrow> udp_ok w \<and>
     (\<forall>key r. TCP_PORT_MAP w key = Some r \<longrightarrow> r < length (tcp_sockets w) \<and> socket_key (tcp_sockets w ! r) = key) \<and>
     (\<forall>s \<in> set (tcp_sockets w). socket_ok s \<and> (\<forall>q \<in> set (socket_queue s). q < length (tcp_sockets w))) \<and>
     (\<forall>t \<in> set (PENDING_TIMERS w). \<exists>r < length (tcp_sockets w). timer_of r t)"

text \<open>
  \<open>n\<close> is the number of fragments in the hands of the caller; all others that are allocated are held by
  the sockets of UDP and TCP.
\<close>

definition tcp_balanced :: "'a tcp_world_scheme \<Rightarrow> nat \<Rightarrow> bool" where
  "tcp_balanced w n \<longleftrightarrow> udp_balanced w (n + tcp_held w)"

text \<open>What every operation keeps.\<close>

definition tcp_keeps :: "nat \<Rightarrow> 'a tcp_world_scheme \<Rightarrow> nat \<Rightarrow> 'a tcp_world_scheme \<Rightarrow> bool" where
  "tcp_keeps n w n' w' \<longleftrightarrow> (tcp_ok w \<longrightarrow> tcp_ok w' \<and> length (tcp_sockets w) \<le> length (tcp_sockets w') \<and>
     udp_follows w w' \<and> (\<forall>k. tcp_balanced w (k + n) \<longrightarrow> tcp_balanced w' (k + n')))"

lemma tcp_keeps_refl [simp]: "tcp_keeps n w n w"
  by (simp add: tcp_keeps_def)

lemma tcp_keeps_trans [trans]: "tcp_keeps n u m v \<Longrightarrow> tcp_keeps m v k w \<Longrightarrow> tcp_keeps n u k w"
  unfolding tcp_keeps_def using le_trans udp_follows_trans by blast

lemma get_socket_Some: "get_socket r w = Some s \<longleftrightarrow> r < length (tcp_sockets w) \<and> s = tcp_sockets w ! r"
  by (auto simp: get_socket_def index_def)

lemma tcp_frame_udp:
  assumes "tcp_frame w v"
  shows "udp_held v = udp_held w" and "udp_ok w \<Longrightarrow> net_ok v \<Longrightarrow> udp_ok v"
  using tcp_frame_fields [OF assms] by (simp_all add: udp_held_def udp_ok_def)

lemma timers_from_ok:
  "timers_from r w v \<Longrightarrow> r < n \<Longrightarrow> \<forall>t \<in> set (PENDING_TIMERS w). \<exists>r < n. timer_of r t \<Longrightarrow>
   \<forall>t \<in> set (PENDING_TIMERS v). \<exists>r < n. timer_of r t"
  unfolding timers_from_def by blast

lemma put_socket_fields [simp]:
  "TCP_PORT_MAP (put_socket r s w) = TCP_PORT_MAP w" "PENDING_TIMERS (put_socket r s w) = PENDING_TIMERS w"
  "tcp_sockets (put_socket r s w) = (tcp_sockets w)[r := s]" "udp_ok (put_socket r s w) = udp_ok w"
  "net_ok (put_socket r s w) = net_ok w" "udp_held (put_socket r s w) = udp_held w"
  "balanced (put_socket r s w) n = balanced w n" "clock_ms (put_socket r s w) = clock_ms w"
  "tun_out (put_socket r s w) = tun_out w" "UDP_PORT_MAP (put_socket r s w) = UDP_PORT_MAP w"
  "NEXT_TIMER_ID (put_socket r s w) = NEXT_TIMER_ID w"
  "LOCAL_IPV4 (put_socket r s w) = LOCAL_IPV4 w" "LOCAL_IPV6 (put_socket r s w) = LOCAL_IPV6 w"
  by (simp_all add: put_socket_def udp_ok_def net_ok_def pool_ok_def link_up_def udp_held_def balanced_def)

text \<open>The end of a critical section, which may also have changed the queue of waiting connections.\<close>

lemma put_socket_keeps:
  assumes get: "get_socket r w = Some s" and step: "sock_step r (n, s, w) (n', s', v)"
    and s'': "quiet s' (s''\<lparr>socket_queue := socket_queue s'\<rparr>)" "\<forall>q \<in> set (socket_queue s''). q \<in> set (socket_queue s') \<or> q < length (tcp_sockets w)"
  shows "tcp_keeps n w n' (put_socket r s'' v)"
  unfolding tcp_keeps_def
proof (intro impI)
  assume ok: "tcp_ok w"
  have r: "r < length (tcp_sockets w)" "s = tcp_sockets w ! r"
    using get by (simp_all add: get_socket_Some)
  have "socket_ok s" "net_ok w"
    using ok r by (simp_all add: tcp_ok_def udp_ok_def)
  then have s': "socket_ok s'" "net_ok v" "same_socket s s'" "timers_from r w v" and frame: "tcp_frame w v"
    and bal: "\<And>k. balanced w (k + n + held s) \<Longrightarrow> balanced v (k + n' + held s')"
    using step by (auto simp: sock_step_def)
  have key: "socket_key s'' = socket_key s" and ok'': "socket_ok s''" and held: "held s'' = held s'"
    using s'(1,3) s''(1) by (simp_all add: socket_key_def same_socket_def quiet_def socket_ok_def held_def waiting_def)
  have "\<forall>x \<in> set (socket_queue s). x < length (tcp_sockets w)"
    using ok nth_mem [OF r(1)] r(2) by (auto simp: tcp_ok_def)
  then have queue: "\<forall>x \<in> set (socket_queue s''). x < length (tcp_sockets w)"
    using s''(2) s'(3) by (auto simp: same_socket_def)
  note v = tcp_frame_fields [OF frame]
  have "udp_ok v"
    using tcp_frame_udp(2) [OF frame] s'(2) ok by (simp add: tcp_ok_def)
  moreover have "\<forall>t \<in> set (PENDING_TIMERS v). \<exists>r < length (tcp_sockets w). timer_of r t"
    using timers_from_ok [OF s'(4) r(1)] ok by (simp add: tcp_ok_def)
  moreover have "\<forall>k i. TCP_PORT_MAP w k = Some i \<longrightarrow> i < length (tcp_sockets w) \<and> socket_key ((tcp_sockets w)[r := s''] ! i) = k"
    using ok key r by (auto simp: tcp_ok_def nth_list_update)
  moreover have "\<forall>s \<in> set ((tcp_sockets w)[r := s'']). socket_ok s \<and> (\<forall>q \<in> set (socket_queue s). q < length (tcp_sockets w))"
    using ok ok'' queue set_update_subset_insert [of "tcp_sockets w" r s''] by (auto simp: tcp_ok_def)
  ultimately have "tcp_ok (put_socket r s'' v)"
    by (simp add: tcp_ok_def v)
  moreover have "tcp_balanced (put_socket r s'' v) (k + n')" if "tcp_balanced w (k + n)" for k
  proof -
    have sum: "sum_list (map held ((tcp_sockets w)[r := s''])) + held s = tcp_held w + held s'"
      using sum_list_update_nat [OF r(1), of held s''] held r(2) by (simp add: tcp_held_def)
    have "held s \<le> tcp_held w"
      using elem_le_sum_list [of r "map held (tcp_sockets w)"] r by (simp add: tcp_held_def)
    then obtain x where x: "tcp_held w = x + held s"
      by (metis le_add_diff_inverse2)
    then have "balanced w ((k + x + udp_held w) + n + held s)"
      using that by (simp add: tcp_balanced_def udp_balanced_def ac_simps)
    from bal [OF this] have "balanced v ((k + x + udp_held w) + n' + held s')" .
    then show ?thesis
      using sum x by (simp add: tcp_balanced_def udp_balanced_def tcp_held_def v tcp_frame_udp(1) [OF frame] ac_simps)
  qed
  moreover have "udp_follows w (put_socket r s'' v)"
    by (rule udp_follows_same) (simp_all add: put_socket_def v)
  ultimately show "tcp_ok (put_socket r s'' v) \<and> length (tcp_sockets w) \<le> length (tcp_sockets (put_socket r s'' v)) \<and>
      udp_follows w (put_socket r s'' v) \<and> (\<forall>k. tcp_balanced w (k + n) \<longrightarrow> tcp_balanced (put_socket r s'' v) (k + n'))"
    by (simp add: v)
qed

lemma put_keeps:
  "get_socket r w = Some s \<Longrightarrow> sock_step r (n, s, w) (n', s', v) \<Longrightarrow> tcp_keeps n w n' (put_socket r s' v)"
  by (rule put_socket_keeps [where s' = s']) (simp_all add: quiet_def)

end
