(* ===== verification/Tcp_Options.thy ===== *)
theory Tcp_Options
  imports Tcp_Input
begin

text \<open>
  \<open>parse_options\<close> of \<open>src/src/stack/tcp.rs\<close>. \<open>options_spec\<close> reads the options by recursion on the rest of the
  list and is total; the loop of the code returns exactly where it does, with the same result. The
  loop does not return for an option of length 0, and panics for one that ends before its length octet or, if
  it is a maximum segment size, before its value does; other options may be cut off.
\<close>

text \<open>The maximum segment size that the options announce, or \<^term>\<open>None\<close> if the code does not return.\<close>

function options_spec :: "bytes \<Rightarrow> nat \<Rightarrow> nat option" where
  "options_spec [] mss = Some mss"
| "options_spec (kind # rest) mss =
     (if kind = 0 then Some mss
      else if kind = 1 then options_spec rest mss
      else case rest of
          [] \<Rightarrow> None
        | len # body \<Rightarrow>
            if len = 0 \<or> (kind = 2 \<and> length body < 2) then None
            else options_spec (drop (unat len - 1) rest)
              (if kind = 2 then unat (from_be_bytes (body ! 0) (body ! 1)) else mss))"
  by pat_completeness auto
termination
  by (relation "measure (\<lambda>(bs, mss). length bs)") auto

text \<open>One turn of the loop, in terms of the rest of the options.\<close>

lemma options_loop_end: "length hdr \<le> i \<Longrightarrow> options_loop hdr i mss = Some mss"
  by (subst options_loop.simps) simp

lemma options_loop_turn:
  assumes "drop i hdr = kind # rest"
  shows "options_loop hdr i mss =
    (if kind = 0 then Some mss
     else if kind = 1 then options_loop hdr (i + 1) mss
     else case rest of
         [] \<Rightarrow> None
       | len # body \<Rightarrow>
           if kind = 2
           then if length body < 2 then None
             else options_loop hdr (i + unat len) (unat (from_be_bytes (body ! 0) (body ! 1)))
           else options_loop hdr (i + unat len) mss)"
proof -
  have split: "hdr = take i hdr @ kind # rest" "i < length hdr"
    using assms by (metis append_take_drop_id) (metis assms drop_eq_Nil linorder_not_le list.distinct(1))
  define pre where "pre = take i hdr"
  have hdr: "hdr = pre @ kind # rest" and i: "i = length pre"
    using split by (simp_all add: pre_def)
  show ?thesis
  proof (cases rest)
    case Nil
    then show ?thesis
      by (subst options_loop.simps) (simp add: hdr i nth_append index_def)
  next
    case (Cons len body)
    have len: "index hdr (i + 1) = Some len"
      by (simp add: hdr i Cons nth_append)
    consider "kind \<noteq> 2" | b0 b1 tail where "body = b0 # b1 # tail" | "kind = 2" "length body < 2"
      by (cases body; cases "tl body") auto
    then show ?thesis
    proof cases
      case 3
      then have "subslice (i + 2) (i + 4) hdr = None"
        by (simp add: subslice_None_iff hdr i Cons)
      with 3 len Cons show ?thesis
        by (subst options_loop.simps) (simp add: hdr i)
    qed (subst options_loop.simps, use len in \<open>simp add: hdr i Cons get_be16_eq\<close>)+
  qed
qed

text \<open>An option of length 0 keeps the loop where it is.\<close>

lemma options_loop_stuck:
  assumes "kind \<noteq> 0" and "kind \<noteq> 1" and "options_loop hdr i mss = Some y"
  shows "drop i hdr \<noteq> kind # 0 # body"
proof (rule options_loop.raw_induct [OF _ assms(3)])
  fix loop :: "bytes \<Rightarrow> nat \<Rightarrow> nat \<Rightarrow> nat option" and hdr i mss y
  assume IH: "\<And>hdr i mss y. loop hdr i mss = Some y \<Longrightarrow> drop i hdr \<noteq> kind # 0 # body"
    and run: "(if i < length hdr then do {
        option_type \<leftarrow> index hdr i;
        if option_type = 0 then Some mss
        else if option_type = 1 then loop hdr (i + 1) mss
        else do {
          option_length \<leftarrow> index hdr (i + 1);
          if option_type = 2 then do {
            s \<leftarrow> subslice (i + 2) (i + 4) hdr;
            v \<leftarrow> get_be16 s;
            loop hdr (i + unat option_length) (unat v)
          } else loop hdr (i + unat option_length) mss
        }
      } else Some mss) = Some y"
  show "drop i hdr \<noteq> kind # 0 # body"
  proof
    assume at: "drop i hdr = kind # 0 # body"
    define pre where "pre = take i hdr"
    have "i < length hdr"
      using at by (metis drop_eq_Nil linorder_not_le list.distinct(1))
    then have "hdr = pre @ kind # 0 # body" "i = length pre"
      using at by (simp_all add: pre_def) (metis append_take_drop_id)
    then have "index hdr i = Some kind" "index hdr (i + 1) = Some 0" "i < length hdr"
      by (simp_all add: nth_append)
    with run assms(1,2) at show False
      by (auto simp: bind_eq_Some_conv split: if_splits dest: IH)
  qed
qed

lemma options_loop_spec: "options_loop hdr i mss = options_spec (drop i hdr) mss"
proof (induction "drop i hdr" mss arbitrary: i rule: options_spec.induct)
  case (1 mss)
  then show ?case
    by (simp add: options_loop_end)
next
  case (2 kind rest mss)
  note drop = \<open>kind # rest = drop i hdr\<close> [symmetric]
  have rest: "drop (Suc i) hdr = rest"
    using drop by (metis drop_Suc list.sel(3) tl_drop)
  show ?case
  proof (cases rest)
    case Nil
    with 2(1) rest show ?thesis
      by (simp add: drop options_loop_turn [OF drop])
  next
    case (Cons len body)
    show ?thesis
    proof (cases "len = 0")
      case True
      have "options_loop hdr i mss = None" if "kind \<noteq> 0" "kind \<noteq> 1"
        using options_loop_stuck [OF that, of hdr i mss] drop Cons True
        by (cases "options_loop hdr i mss") auto
      with 2(1) rest Cons True show ?thesis
        by (cases "kind = 0"; cases "kind = 1") (simp_all add: drop options_loop_turn [OF drop])
    next
      case False
      then have pos: "0 < unat len"
        by (simp add: unat_gt_0)
      then have "drop (i + unat len) hdr = drop (unat len - 1) rest"
        by (simp flip: rest add: add.commute)
      with 2(1) 2(2) [of len body "i + unat len"] rest Cons False show ?thesis
        by (auto simp: drop options_loop_turn [OF drop])
    qed
  qed
qed

lemma parse_options_spec: "parse_options hdr = options_spec hdr 0"
  by (simp add: parse_options_def options_loop_spec)

section \<open>The options that the loop comes to\<close>

text \<open>
  \<open>comes_to hdr i j\<close>: reading options from the offset \<open>i\<close> on, there is one at \<open>j\<close>. \<open>complete hdr i\<close>: of the
  option at \<open>i\<close> everything is there that the code looks at, and its length is not 0.
\<close>

definition complete :: "bytes \<Rightarrow> nat \<Rightarrow> bool" where
  "complete hdr i \<longleftrightarrow> hdr ! i = 0 \<or> hdr ! i = 1 \<or>
     i + 1 < length hdr \<and> hdr ! (i + 1) \<noteq> 0 \<and> (hdr ! i = 2 \<longrightarrow> i + 3 < length hdr)"

definition option_size :: "bytes \<Rightarrow> nat \<Rightarrow> nat" where
  "option_size hdr i = (if hdr ! i = 1 then 1 else unat (hdr ! (i + 1)))"

inductive comes_to :: "bytes \<Rightarrow> nat \<Rightarrow> nat \<Rightarrow> bool" for hdr where
  here: "i < length hdr \<Longrightarrow> comes_to hdr i i"
| further: "i < length hdr \<Longrightarrow> hdr ! i \<noteq> 0 \<Longrightarrow> complete hdr i \<Longrightarrow> comes_to hdr (i + option_size hdr i) j \<Longrightarrow> comes_to hdr i j"

lemma options_loop_at:
  assumes "i < length hdr" and "hdr ! i \<noteq> 0" and "complete hdr i"
  shows "\<exists>mss'. options_loop hdr i mss = options_loop hdr (i + option_size hdr i) mss'"
proof -
  have drop: "drop i hdr = hdr ! i # drop (Suc i) hdr"
    using assms(1) by (simp add: Cons_nth_drop_Suc)
  show ?thesis
  proof (cases "hdr ! i = 1")
    case False
    then have len: "Suc i < length hdr" "hdr ! i = 2 \<Longrightarrow> Suc (Suc (Suc i)) < length hdr"
      using assms(2,3) by (auto simp: complete_def)
    then have "drop (Suc i) hdr = hdr ! Suc i # drop (Suc (Suc i)) hdr"
      by (simp add: Cons_nth_drop_Suc)
    with len False assms(2) show ?thesis
      by (auto simp: options_loop_turn [OF drop] option_size_def)
  qed (use options_loop_turn [OF drop] in \<open>auto simp: option_size_def\<close>)
qed

lemma options_loop_incomplete:
  assumes "i < length hdr" and "\<not> complete hdr i"
  shows "options_loop hdr i mss = None"
proof -
  have drop: "drop i hdr = hdr ! i # drop (Suc i) hdr"
    using assms(1) by (simp add: Cons_nth_drop_Suc)
  from assms(2) have kind: "hdr ! i \<noteq> 0" "hdr ! i \<noteq> 1"
    by (auto simp: complete_def)
  show ?thesis
  proof (cases "Suc i < length hdr")
    case True
    then have rest: "drop (Suc i) hdr = hdr ! Suc i # drop (Suc (Suc i)) hdr"
      by (simp add: Cons_nth_drop_Suc)
    have "options_loop hdr i mss = None" if "hdr ! Suc i = 0"
      using options_loop_stuck [OF kind, of hdr i mss _ "drop (Suc (Suc i)) hdr"] drop rest that
      by (cases "options_loop hdr i mss") auto
    moreover have "options_loop hdr i mss = None" if "hdr ! Suc i \<noteq> 0"
      using assms(2) True that kind by (auto simp: options_loop_turn [OF drop] rest complete_def)
    ultimately show ?thesis
      by blast
  qed (use kind in \<open>simp add: options_loop_turn [OF drop]\<close>)
qed

lemma options_loop_returns: "(\<exists>y. options_loop hdr i mss = Some y) \<longleftrightarrow> (\<forall>j. comes_to hdr i j \<longrightarrow> complete hdr j)"
proof (induction "length hdr - i" arbitrary: i mss rule: less_induct)
  case less
  consider "length hdr \<le> i" | "i < length hdr" "hdr ! i = 0" | "i < length hdr" "\<not> complete hdr i"
    | "i < length hdr" "hdr ! i \<noteq> 0" "complete hdr i"
    by linarith
  then show ?case
  proof cases
    case 1
    then have "\<not> comes_to hdr i j" for j
      by (metis comes_to.cases leD)
    with 1 show ?thesis
      by (simp add: options_loop_end)
  next
    case 2
    then have "drop i hdr = 0 # drop (Suc i) hdr"
      by (metis Cons_nth_drop_Suc)
    from options_loop_turn [OF this] have "\<exists>y. options_loop hdr i mss = Some y"
      by simp
    moreover have "j = i" if "comes_to hdr i j" for j
      using that 2(2) by (metis comes_to.cases)
    ultimately show ?thesis
      using 2(2) by (auto simp: complete_def)
  next
    case 3
    then show ?thesis
      using options_loop_incomplete [OF 3] comes_to.here [OF 3(1)] by auto
  next
    case 4
    have "0 < option_size hdr i"
      using 4(2,3) by (auto simp: option_size_def complete_def unat_gt_0)
    then have "length hdr - (i + option_size hdr i) < length hdr - i"
      using 4(1) by simp
    moreover obtain mss' where "options_loop hdr i mss = options_loop hdr (i + option_size hdr i) mss'"
      using options_loop_at [OF 4] by blast
    moreover have "comes_to hdr i j \<longleftrightarrow> j = i \<or> comes_to hdr (i + option_size hdr i) j" for j
      using comes_to.intros [of i hdr] 4 by (metis comes_to.cases)
    ultimately show ?thesis
      using less [of "i + option_size hdr i" mss'] 4(3) by metis
  qed
qed

section \<open>Well-formed options\<close>

datatype tcp_option = No_operation | Max_segment_size u16 | Other_option u8 bytes

fun encode_option :: "tcp_option \<Rightarrow> bytes" where
  "encode_option No_operation = [1]"
| "encode_option (Max_segment_size mss) = [2, 4] @ be16 mss"
| "encode_option (Other_option kind body) = [kind, of_nat (length body + 2)] @ body"

fun valid_option :: "tcp_option \<Rightarrow> bool" where
  "valid_option (Other_option kind body) \<longleftrightarrow> kind \<notin> {0, 1, 2} \<and> length body + 2 < 256"
| "valid_option _ \<longleftrightarrow> True"

fun announced_mss :: "tcp_option list \<Rightarrow> nat \<Rightarrow> nat" where
  "announced_mss [] mss = mss"
| "announced_mss (Max_segment_size v # os) mss = announced_mss os (unat v)"
| "announced_mss (_ # os) mss = announced_mss os mss"

definition encode_options :: "tcp_option list \<Rightarrow> bytes" where
  "encode_options os = concat (map encode_option os)"

lemma options_spec_encode:
  "\<forall>opt \<in> set os. valid_option opt \<Longrightarrow>
   options_spec (encode_options os @ tail) mss = options_spec tail (announced_mss os mss)"
proof (induction os mss rule: announced_mss.induct [case_names Empty Mss Nop Other])
  case (Mss v os mss)
  obtain b0 b1 where v: "be16 v = [b0, b1]" "from_be_bytes b0 b1 = v"
    using from_be16 [of v] by (simp add: be16_def)
  have "unat (4 :: u8) = 4"
    by simp
  with Mss v show ?case
    by (simp add: encode_options_def numeral_3_eq_3 del: unsigned_numeral)
next
  case (Other kind body os mss)
  then have small: "length body + 2 < 256"
    by simp
  define n where "n = length body + 2"
  have "unat (of_nat n :: u8) = n"
    using small [folded n_def] by (simp add: unsigned_of_nat take_bit_nat_eq_self)
  then have len: "unat (of_nat (length body + 2) :: u8) = length body + 2"
    by (simp only: n_def)
  then have "of_nat (length body + 2) \<noteq> (0 :: u8)"
    by (metis add_is_0 unsigned_0 zero_neq_numeral)
  with Other len show ?case
    by (simp add: encode_options_def del: of_nat_add of_nat_Suc)
qed (simp_all add: encode_options_def)

section \<open>Properties\<close>

text \<open>
  C14: \<open>parse_options\<close> returns for every well-formed list of options, padded or not, and its result is the
  last maximum segment size that they announce, or 0 if they announce none.
\<close>

theorem parse_options_round_trip:
  assumes "\<forall>opt \<in> set os. valid_option opt" and "padding = [] \<or> hd padding = 0"
  shows "parse_options (encode_options os @ padding) = Some (announced_mss os 0)"
  using assms(2) options_spec_encode [OF assms(1), of padding 0] by (cases padding) (simp_all add: parse_options_spec)

lemma be16_1460: "be16 1460 = [5, 0xb4]"
  by code_simp

theorem parse_options_round_trip_witness:
  "parse_options ([1, 8, 4, 9, 9, 2, 4, 5, 0xb4] @ [0, 7]) = Some 1460"
  using parse_options_round_trip [of "[No_operation, Other_option 8 [9, 9], Max_segment_size 1460]" "[0, 7]"]
  by (simp add: encode_options_def be16_1460)

text \<open>
  C15: Exactly when \<open>parse_options\<close> returns: if no option that the loop comes to lacks its length octet or
  has the length 0, and no maximum segment size option among them lacks an octet of its value. So behind
  well-formed options it does not return for an option whose length is 0 or missing, whatever follows, nor for
  a maximum segment size that is cut off; an option of another kind that is cut off within its body is
  accepted, and ends the list.
\<close>

theorem parse_options_termination:
  "((\<exists>mss. parse_options hdr = Some mss) \<longleftrightarrow> (\<forall>i. comes_to hdr 0 i \<longrightarrow> complete hdr i)) \<and>
   ((\<forall>opt \<in> set os. valid_option opt) \<and> kind \<notin> {0, 1} \<longrightarrow>
      parse_options (encode_options os @ [kind]) = None \<and>
      parse_options (encode_options os @ kind # 0 # body) = None \<and>
      (kind = 2 \<and> length body < 2 \<longrightarrow> parse_options (encode_options os @ kind # len # body) = None) \<and>
      (kind \<noteq> 2 \<and> length body + 2 < unat len \<longrightarrow>
         parse_options (encode_options os @ kind # len # body) = Some (announced_mss os 0)))"
proof (rule conjI)
  show "(\<exists>mss. parse_options hdr = Some mss) \<longleftrightarrow> (\<forall>i. comes_to hdr 0 i \<longrightarrow> complete hdr i)"
    unfolding parse_options_def by (rule options_loop_returns)
qed (use options_spec_encode [of os _ 0] in \<open>auto simp: parse_options_spec\<close>)

theorem parse_options_termination_witness:
  "parse_options [1, 3, 0, 7, 7] = None \<and> parse_options [1, 3] = None \<and> parse_options [1, 2, 4, 5] = None \<and>
   parse_options [2, 4, 5, 0xb4, 3, 10, 1] = Some 1460"
  using parse_options_termination [of "[]" "[No_operation]" 3 "[7, 7]" 0]
    parse_options_termination [of "[]" "[No_operation]" 2 "[5]" 4]
    parse_options_termination [of "[]" "[Max_segment_size 1460]" 3 "[1]" 10]
  by (simp add: encode_options_def be16_1460)

end
