(* ===== verification/Tcp_Invariant.thy ===== *)
theory Tcp_Invariant
  imports Tcp_Laws Tcp_Options
begin

text \<open>
  The invariant of TCP and the operations that keep it. The operations are those of the threads that use
  a socket, of the receive thread and of the timer thread, each up to the point where it releases its
  lock, so that \<open>stack_step\<close> interleaves them freely.
\<close>

section \<open>The operations of one socket\<close>

lemma with_socket:
  assumes "\<And>s. get_socket r w = Some s \<Longrightarrow> whenever (f s) P"
  shows "whenever (Option.bind (get_socket r w) f) P"
  using assms by (cases "get_socket r w") simp_all

text \<open>A critical section that ends with \<open>put_socket\<close>.\<close>

lemma section_keeps:
  assumes "get_socket r w = Some s" and "whenever m (\<lambda>x. sock_step r (n, s, w) (n', x))"
  shows "whenever (Option.bind m (\<lambda>(s, w). Some (put_socket r s w))) (\<lambda>w'. tcp_keeps n w n' w')"
  using assms(2) by (rule whenever_bindI) (auto intro: put_keeps [OF assms(1)])

lemma response_timeout_keeps: "whenever (response_timeout r w) (tcp_keeps 0 w 0)"
  unfolding response_timeout_def
proof (rule with_socket)
  fix s
  assume get: "get_socket r w = Some s"
  have "whenever (case state s of
            Closed \<Rightarrow> Some (s, w)
          | Established \<Rightarrow> Some (s, w)
          | SynSent \<Rightarrow> do { w \<leftarrow> tcp_send_packet s NetBuffer_new FLAG_SYN w; set_response_timer r s w }
          | FinWait1 \<Rightarrow> do { w \<leftarrow> tcp_send_packet s NetBuffer_new FLAG_FIN w; set_response_timer r s w }
          | LastAck \<Rightarrow> do { w \<leftarrow> tcp_send_packet s NetBuffer_new FLAG_FIN w; set_response_timer r s w }
          | Closing \<Rightarrow> do { w \<leftarrow> tcp_send_packet s NetBuffer_new FLAG_ACK w; set_response_timer r s w }
          | CloseWait \<Rightarrow> do { w \<leftarrow> tcp_send_packet s NetBuffer_new FLAG_ACK w; set_response_timer r s w }
          | _ \<Rightarrow> None) (\<lambda>x. sock_step r (0, s, w) (0, x))" (is "whenever ?m _")
    by (auto simp: quiet_def split: TCPState.split intro!: step_intros)
  then have "whenever (do { (s, w) \<leftarrow> ?m; set_response_timer r s w }) (\<lambda>x. sock_step r (0, s, w) (0, x))"
    by (rule whenever_step) (simp add: set_response_timer_step)
  from section_keeps [OF get this] put_keeps [OF get quiet_step, of "set_state Closed s" 0]
  show "whenever (if request_retry_count s \<ge> MAX_RETRIES then Some (put_socket r (set_state Closed s) w)
     else do { (s, w) \<leftarrow> ?m; (s, w) \<leftarrow> set_response_timer r s w; Some (put_socket r s w) }) (tcp_keeps 0 w 0)"
    by (simp add: quiet_def same_socket_def set_state_def case_prod_unfold del: bind_split)
qed

lemma quiet_refl [simp]: "quiet s s"
  by (simp add: quiet_def)

lemma quiet_set_state [simp]: "quiet s (set_state st s)"
  by (simp add: quiet_def same_socket_def set_state_def)

lemma tcp_update_simps [simp]:
  "udp_ok (w\<lparr>TCP_PORT_MAP := m\<rparr>) = udp_ok w" "udp_ok (w\<lparr>tcp_sockets := ss\<rparr>) = udp_ok w"
  "udp_balanced (w\<lparr>TCP_PORT_MAP := m\<rparr>) n = udp_balanced w n" "udp_balanced (w\<lparr>tcp_sockets := ss\<rparr>) n = udp_balanced w n"
  by (simp_all add: udp_ok_def net_ok_def pool_ok_def link_up_def udp_balanced_def udp_held_def balanced_def)

lemma net_keeps:
  assumes "net_step w n xs w' n'"
  shows "tcp_keeps n w n' w'"
  unfolding tcp_keeps_def
proof (intro impI conjI allI)
  assume ok: "tcp_ok w"
  note v = tcp_frame_fields [OF net_step_tcp_frame [OF assms]] net_step_timers [OF assms]
  show "tcp_ok w'"
    using ok net_step_udp_ok [OF assms] by (simp add: tcp_ok_def v)
  show "length (tcp_sockets w) \<le> length (tcp_sockets w')"
    by (simp add: v)
  show "udp_follows w w'"
    by (rule net_step_follows [OF assms])
  show "tcp_balanced w' (k + n')" if "tcp_balanced w (k + n)" for k
    using that net_step_udp_balanced [OF assms, of "k + tcp_held w"] by (simp add: tcp_balanced_def tcp_held_def v ac_simps)
qed

lemma unmap_keeps: "tcp_keeps n w n (tcp_unmap key w)"
  by (simp add: tcp_keeps_def udp_follows_same tcp_unmap_def tcp_ok_def tcp_balanced_def tcp_held_def)

lemma new_socket_keeps:
  assumes "socket_ok s" and "held s = 0" and "socket_queue s = []"
  shows "tcp_keeps n w n (w\<lparr>tcp_sockets := tcp_sockets w @ [s]\<rparr>)"
  using assms
  by (auto simp: tcp_keeps_def udp_follows_same tcp_ok_def tcp_balanced_def tcp_held_def nth_append less_SucI) (meson less_SucI)

lemma map_socket_keeps:
  assumes "get_socket r w = Some s" and "socket_key s = key"
  shows "tcp_keeps n w n (w\<lparr>TCP_PORT_MAP := (TCP_PORT_MAP w)(key \<mapsto> r)\<rparr>)"
  using assms by (auto simp: tcp_keeps_def udp_follows_same tcp_ok_def tcp_balanced_def tcp_held_def get_socket_Some)

lemma TCPSocketState_new_ok:
  "wf_ip rip \<Longrightarrow> socket_ok (TCPSocketState_new iss rip rport lport)" "held (TCPSocketState_new iss rip rport lport) = 0"
  "socket_queue (TCPSocketState_new iss rip rport lport) = []"
  by (simp_all add: socket_ok_def held_def TCPSocketState_new_def TCPReassembler_new_def waiting_def DEFAULT_TCP_MSS_def)

lemma TCPSocket_new_keeps:
  assumes "wf_ip rip" and "TCPSocket_new iss rip rport lport w = (r, v)"
  shows "tcp_keeps n w n v" and "get_socket r v = Some (TCPSocketState_new iss rip rport lport)"
  using assms new_socket_keeps [OF TCPSocketState_new_ok, where w = w and n = n]
  by (auto simp: TCPSocket_new_def get_socket_Some nth_append)

subsection \<open>The timer thread\<close>

lemma time_wait_socket_keeps: "whenever (time_wait_socket r w) (\<lambda>(key, w'). tcp_keeps 0 w 0 w')"
  unfolding time_wait_socket_def
  by (rule with_socket) (auto simp: Let_def intro: put_keeps [OF _ quiet_step])

lemma time_wait_timeout_keeps: "whenever (time_wait_timeout r w) (tcp_keeps 0 w 0)"
  unfolding time_wait_timeout_def
  by (rule whenever_bindI [OF time_wait_socket_keeps]) (auto intro: tcp_keeps_trans [OF _ unmap_keeps])

lemma delayed_ack_keeps: "whenever (delayed_ack r w) (tcp_keeps 0 w 0)"
  unfolding delayed_ack_def
proof (rule with_socket)
  fix s
  assume get: "get_socket r w = Some s"
  have "whenever (do {
      w \<leftarrow> tcp_send_packet s NetBuffer_new FLAG_ACK w;
      Some (s\<lparr>delayed_ack_timer_id := -1, num_delayed_acks := 0\<rparr>, w)
    }) (\<lambda>x. sock_step r (0, s, w) (0, x))"
    by (auto simp: quiet_def same_socket_def intro!: step_intros)
  from section_keeps [OF get this]
  show "whenever (if state s = Closed then Some w
     else do {
       w \<leftarrow> tcp_send_packet s NetBuffer_new FLAG_ACK w;
       Some (put_socket r (s\<lparr>delayed_ack_timer_id := -1, num_delayed_acks := 0\<rparr>) w)
     }) (tcp_keeps 0 w 0)"
    by simp
qed

lemma append_from_buffer_whenever:
  assumes "wf_buf c" and "pool_ok w"
  shows "whenever (append_from_buffer c n NetBuffer_new w) (\<lambda>(q, v). wf_buf q \<and> contents q = take n (contents c) \<and>
    packed (fragments q) \<and> pool_step w 0 v (nfrags q))"
  using append_from_buffer_returns [of NetBuffer_new c w n] assms wf_buf_bound [OF assms(1)]
  by (auto simp: length_contents dest!: returns_whenever elim!: whenever_conseq)

lemma metrics_keeps:
  assumes "buffers_allocated m = buffers_allocated (METRICS w)" and "buffers_freed m = buffers_freed (METRICS w)"
    and "buffers_created m = buffers_created (METRICS w)"
  shows "tcp_keeps n w n (w\<lparr>METRICS := m\<rparr>)"
  using assms by (simp add: tcp_keeps_def udp_follows_same tcp_ok_def udp_ok_def net_ok_def pool_ok_def link_up_def tcp_balanced_def
      udp_balanced_def balanced_def tcp_held_def udp_held_def)

lemma retransmit_keeps: "whenever (retransmit r w) (tcp_keeps 0 w 0)"
  unfolding retransmit_def
proof (rule with_socket)
  fix s
  assume get: "get_socket r w = Some s"
  define u where "u = w\<lparr>METRICS := (METRICS w)\<lparr>packets_retransmitted := PerfCounter_inc (packets_retransmitted (METRICS w))\<rparr>\<rparr>"
  have "tcp_keeps 0 w 0 u"
    unfolding u_def by (rule metrics_keeps) simp_all
  moreover have get': "get_socket r u = Some s"
    using get by (simp add: u_def get_socket_def)
  have "whenever (do {
      (packet, w) \<leftarrow> append_from_buffer (retransmit_queue s) (send_mss s) NetBuffer_new u;
      w \<leftarrow> tcp_send_packet s packet (FLAG_ACK OR FLAG_PSH) w;
      (ident, w) \<leftarrow> set_timer RETRANSMIT_INTERVAL (Retransmit r) w;
      Some (s\<lparr>retransmit_timer_id := ident\<rparr>, w)
    }) (\<lambda>x. sock_step r (0, s, u) (0, x))" (is "whenever ?m _")
  proof (rule whenever_sock_stepI)
    assume ok: "socket_ok s" "net_ok u"
    from append_from_buffer_whenever [of "retransmit_queue s" u "send_mss s"] this
    have "whenever (append_from_buffer (retransmit_queue s) (send_mss s) NetBuffer_new u) (\<lambda>(q, v). wf_buf q \<and>
        length (contents q) \<le> 0xffff \<and> packed (fragments q) \<and> sock_step r (0, s, u) (nfrags q, s, v))"
      by (auto simp: socket_ok_def net_ok_pool elim!: whenever_conseq dest!: pool_net_step net_sock_step [where n = 0 and s = s])
    then show "whenever ?m (\<lambda>x. sock_step r (0, s, u) (0, x))"
    proof (rule whenever_bindI, clarify)
      fix q v
      assume q: "wf_buf q" "length (contents q) \<le> 0xffff" "packed (fragments q)" "sock_step r (0, s, u) (nfrags q, s, v)"
      have "whenever (tcp_send_packet s q (FLAG_ACK OR FLAG_PSH) v) (\<lambda>v'. sock_step r (0, s, u) (0, s, v'))"
        by (rule whenever_conseq [OF send_packet_step [OF q(1,3,2), where n = 0 and r = r]])
          (simp add: sock_step_trans [OF q(4)])
      then show "whenever (do {
          w \<leftarrow> tcp_send_packet s q (FLAG_ACK OR FLAG_PSH) v;
          (ident, w) \<leftarrow> set_timer RETRANSMIT_INTERVAL (Retransmit r) w;
          Some (s\<lparr>retransmit_timer_id := ident\<rparr>, w)
        }) (\<lambda>x. sock_step r (0, s, u) (0, x))"
        by (rule whenever_world_step) (auto simp: quiet_def same_socket_def intro!: step_intros)
    qed
  qed
  from section_keeps [OF get' this] have "whenever (do {
      (s, w) \<leftarrow> ?m; Some (put_socket r s w) }) (tcp_keeps 0 u 0)" .
  ultimately
  show "whenever (if state s = Closed then Some w else do {
       let w = w\<lparr>METRICS := (METRICS w)\<lparr>packets_retransmitted := PerfCounter_inc (packets_retransmitted (METRICS w))\<rparr>\<rparr>;
       if \<not> is_empty (retransmit_queue s) then do {
         (packet, w) \<leftarrow> append_from_buffer (retransmit_queue s) (send_mss s) NetBuffer_new w;
         w \<leftarrow> tcp_send_packet s packet (FLAG_ACK OR FLAG_PSH) w;
         (ident, w) \<leftarrow> set_timer RETRANSMIT_INTERVAL (Retransmit r) w;
         Some (put_socket r (s\<lparr>retransmit_timer_id := ident\<rparr>) w)
       } else Some w
     }) (tcp_keeps 0 w 0)"
    unfolding u_def [symmetric] Let_def
    by (auto simp: case_prod_unfold elim!: whenever_conseq intro: tcp_keeps_trans)
qed

lemma run_callback_keeps: "whenever (run_callback c w) (tcp_keeps 0 w 0)"
  by (cases c) (simp_all add: retransmit_keeps delayed_ack_keeps response_timeout_keeps time_wait_timeout_keeps)

subsection \<open>The threads that use a socket\<close>

lemma tcp_open_insert_keeps:
  assumes "wf_ip rip"
  shows "whenever (tcp_open_insert draws iss rip rport w) (\<lambda>(r, w'). tcp_keeps 0 w 0 w')"
proof (rule wheneverI, clarify)
  fix r w'
  assume run: "tcp_open_insert draws iss rip rport w = Some (r, w')"
  then obtain lport where lport: "find_ephemeral_port draws rip rport w = Some lport"
    by (auto simp: tcp_open_insert_def bind_eq_Some_conv)
  obtain r' v where v: "TCPSocket_new iss rip rport lport w = (r', v)"
    by fastforce
  with run lport have w': "w' = v\<lparr>TCP_PORT_MAP := (TCP_PORT_MAP v)((rip, rport, lport) \<mapsto> r')\<rparr>"
    by (auto simp: tcp_open_insert_def)
  have "tcp_keeps 0 w 0 v"
    by (rule TCPSocket_new_keeps(1) [OF assms v])
  also have "tcp_keeps 0 v 0 w'"
    unfolding w' by (rule map_socket_keeps [OF TCPSocket_new_keeps(2) [OF assms v]])
      (simp add: socket_key_def TCPSocketState_new_def)
  finally show "tcp_keeps 0 w 0 w'" .
qed

lemma tcp_open_connect_keeps: "whenever (tcp_open_connect r w) (tcp_keeps 0 w 0)"
  unfolding tcp_open_connect_def
proof (rule with_socket)
  fix s
  assume get: "get_socket r w = Some s"
  have "whenever (do {
      w \<leftarrow> tcp_send_packet (set_state SynSent s) NetBuffer_new FLAG_SYN w;
      set_response_timer r (set_state SynSent s) w
    }) (\<lambda>x. sock_step r (0, s, w) (0, x))"
    by (auto intro!: step_intros)
  from section_keeps [OF get this] show "whenever (let s = set_state SynSent s in do {
      w \<leftarrow> tcp_send_packet s NetBuffer_new FLAG_SYN w;
      (s, w) \<leftarrow> set_response_timer r s w;
      Some (put_socket r s w)
    }) (tcp_keeps 0 w 0)"
    by (simp add: Let_def)
qed

text \<open>The part of \<open>tcp_close\<close> that sends a FIN.\<close>

lemma send_fin_keeps:
  assumes "get_socket r w = Some s"
  shows "whenever (do {
      w \<leftarrow> tcp_send_packet s NetBuffer_new fl w;
      (s, w) \<leftarrow> set_response_timer r s w;
      Some (None, put_socket r (set_state st s) w)
    }) (\<lambda>(key, w'). tcp_keeps 0 w 0 w')"
proof -
  have "whenever (do {
      w \<leftarrow> tcp_send_packet s NetBuffer_new fl w;
      (s, w) \<leftarrow> set_response_timer r s w;
      Some (set_state st s, w)
    }) (\<lambda>x. sock_step r (0, s, w) (0, x))"
    by (auto simp: quiet_def same_socket_def set_state_def intro!: step_intros)
  from section_keeps [OF assms this] show ?thesis
    by (simp add: whenever_bind case_prod_unfold)
qed

lemma tcp_close_socket_keeps: "whenever (tcp_close_socket r w) (\<lambda>(key, w'). tcp_keeps 0 w 0 w')"
  unfolding tcp_close_socket_def
  by (rule with_socket) (auto split: TCPState.split intro!: send_fin_keeps put_keeps [OF _ quiet_step])

lemma tcp_listen_keeps: "whenever (tcp_listen iss lport w) (\<lambda>(res, w'). tcp_keeps 0 w 0 w')"
proof (rule wheneverI, clarify)
  fix res w'
  assume run: "tcp_listen iss lport w = Some (res, w')"
  obtain r v where v: "TCPSocket_new iss IPAddr_new 0 lport w = (r, v)"
    by fastforce
  have new: "tcp_keeps 0 w 0 v" "get_socket r v = Some (TCPSocketState_new iss IPAddr_new 0 lport)"
    by (rule TCPSocket_new_keeps [OF _ v], simp add: IPAddr_new_def)+
  define s where "s = set_state Listen (TCPSocketState_new iss IPAddr_new 0 lport)"
  have "tcp_keeps 0 v 0 (put_socket r s v)"
    unfolding s_def by (rule put_keeps [OF new(2) quiet_step]) simp
  moreover have "tcp_keeps 0 u 0 (u\<lparr>TCP_PORT_MAP := (TCP_PORT_MAP u)((IPAddr_new, 0, lport) \<mapsto> r)\<rparr>)" if "u = put_socket r s v" for u
  proof (rule map_socket_keeps)
    show "get_socket r u = Some s"
      using new(2) by (simp add: that get_socket_Some)
    show "socket_key s = (IPAddr_new, 0, lport)"
      by (simp add: s_def socket_key_def set_state_def TCPSocketState_new_def)
  qed
  moreover have "w' = put_socket r s v \<or> w' = (put_socket r s v)\<lparr>TCP_PORT_MAP := (TCP_PORT_MAP (put_socket r s v))((IPAddr_new, 0, lport) \<mapsto> r)\<rparr>"
    using run new v by (cases "TCP_PORT_MAP v (IPAddr_new, 0, lport)") (auto simp: tcp_listen_def s_def [symmetric] Let_def)
  ultimately show "tcp_keeps 0 w 0 w'"
    using new(1) by (auto intro: tcp_keeps_trans)
qed

lemma tcp_accept_keeps: "whenever (tcp_accept r w) (\<lambda>(res, w'). tcp_keeps 0 w 0 w')"
  unfolding tcp_accept_def
  by (rule with_socket)
    (auto simp: quiet_def same_socket_def split: list.split intro!: put_socket_keeps [OF _ sock_step_refl])

lemma tcp_read_keeps: "whenever (tcp_read r dest w) (\<lambda>(res, w'). tcp_keeps 0 w 0 w')"
  unfolding tcp_read_def
proof (rule with_socket)
  fix s
  assume get: "get_socket r w = Some s"
  have "whenever (trim_head n (receive_queue s) w) (\<lambda>(q, v). sock_step r (0, s, w) (0, s\<lparr>receive_queue := q\<rparr>, v))" for n
  proof (rule wheneverI, clarify, rule sock_stepI)
    fix q v
    assume trim: "trim_head n (receive_queue s) w = Some (q, v)" and ok: "socket_ok s"
    then have q: "wf_buf q" "pool_step w (nfrags (receive_queue s)) v (nfrags q)"
      using wheneverD [OF trim_head_whenever trim] by (simp_all add: socket_ok_def)
    with ok show "sock_step r (0, s, w) (0, s\<lparr>receive_queue := q\<rparr>, v)"
      by (intro net_sock_stepI [OF pool_net_step [OF q(2)], where j = "nfrags (retransmit_queue s) + waiting (reassembler s)"])
        (auto simp: socket_ok_def same_socket_def held_def)
  qed
  then have *: "whenever (trim_head n (receive_queue s) w) (\<lambda>(q, v). tcp_keeps 0 w 0 (put_socket r (s\<lparr>receive_queue := q\<rparr>) v))" for n
    by (rule whenever_conseq) (auto intro: put_keeps [OF get])
  show "whenever (if state s \<noteq> Established \<and> is_empty (receive_queue s) then Some (Ready (-1, dest), w)
     else if \<not> is_empty (receive_queue s) then do {
       (got, dest) \<leftarrow> copy_to_slice dest (receive_queue s);
       (q, w) \<leftarrow> trim_head got (receive_queue s) w;
       Some (Ready (as_i32 got, dest), put_socket r (s\<lparr>receive_queue := q\<rparr>) w)
     } else Some (Blocked, w)) (\<lambda>(res, w'). tcp_keeps 0 w 0 w')"
    by (rule wheneverI) (auto simp: bind_eq_Some_conv split: if_splits dest: wheneverD [OF *])
qed

lemma tcp_write_section:
  assumes "get_socket r w = Some s"
  shows "whenever (do {
      (res, s, w) \<leftarrow> tcp_write_loop r bs offset s w;
      Some (res, put_socket r s w)
    }) (\<lambda>(res, w'). tcp_keeps 0 w 0 w')"
  by (rule wheneverI) (auto simp: bind_eq_Some_conv intro: put_keeps [OF assms tcp_write_loop_step])

lemma tcp_write_keeps:
  "whenever (tcp_write r bs w) (\<lambda>(res, w'). tcp_keeps 0 w 0 w')"
  "whenever (tcp_write_resume r bs offset w) (\<lambda>(res, w'). tcp_keeps 0 w 0 w')"
  unfolding tcp_write_def tcp_write_resume_def
  by (rule with_socket, simp add: tcp_write_section)+

subsection \<open>The receive thread\<close>

lemma tcp_keeps_frame: "tcp_keeps n w n' w' \<Longrightarrow> tcp_keeps (n + m) w (n' + m) w'"
proof -
  assume keeps: "tcp_keeps n w n' w'"
  have "tcp_balanced w' (k + (n' + m))" if "tcp_ok w" "tcp_balanced w (k + (n + m))" for k
  proof -
    have "tcp_balanced w ((k + m) + n)"
      using that(2) by (simp add: ac_simps)
    then have "tcp_balanced w' ((k + m) + n')"
      using keeps that(1) by (simp only: tcp_keeps_def)
    then show ?thesis
      by (simp add: ac_simps)
  qed
  with keeps show ?thesis
    by (simp add: tcp_keeps_def)
qed

lemma drop_keeps: "wf_buf b \<Longrightarrow> tcp_keeps (n + nfrags b) w n (drop_buffer b w)"
  using tcp_keeps_frame [OF net_keeps [OF pool_net_step [OF drop_buffer_step]], of b n w] by (simp add: add.commute)

lemma tcp_keeps_ok: "tcp_keeps n w n' w' \<Longrightarrow> tcp_ok w \<Longrightarrow> tcp_ok w'"
  by (simp add: tcp_keeps_def)

lemma tcp_keepsI: "(tcp_ok w \<Longrightarrow> tcp_keeps n w n' w') \<Longrightarrow> tcp_keeps n w n' w'"
  by (auto simp: tcp_keeps_def)

lemma options_spec_bound: "options_spec bs m = Some v \<Longrightarrow> m \<le> 0xffff \<Longrightarrow> v \<le> 0xffff"
proof (induction bs m rule: options_spec.induct)
  case (2 kind rest mss)
  have bound: "unat (x :: u16) \<le> 0xffff" for x
    using unat_u16_less [of x] by simp
  consider "kind = 0" | "kind = 1" | "rest = []" "kind \<noteq> 0" "kind \<noteq> 1"
    | len body where "rest = len # body" "kind \<noteq> 0" "kind \<noteq> 1"
    by (cases rest) auto
  then show ?case
  proof cases
    case 4
    with "2.prems" "2.IH"(2) [OF 4(2,3,1)] bound show ?thesis
      by (simp split: if_split_asm)
  qed (use 2 in simp_all)
qed simp

lemma handle_new_connection_keeps:
  assumes "wf_ip src" and "m \<le> 0xffff" and ok: "tcp_ok w"
  shows "whenever (handle_new_connection iss l src g m w) (\<lambda>(r, w'). tcp_keeps 0 w 0 w' \<and>
    (\<exists>s. get_socket r w' = Some s \<and> socket_key s = (src, seg_source_port g, seg_dest_port g)))"
proof (rule wheneverI, clarify)
  fix r w'
  assume run: "handle_new_connection iss l src g m w = Some (r, w')"
  obtain r' v where v: "TCPSocket_new iss src (seg_source_port g) (seg_dest_port g) w = (r', v)"
    by fastforce
  define s0 where "s0 = TCPSocketState_new iss src (seg_source_port g) (seg_dest_port g)"
  note new = TCPSocket_new_keeps [OF assms(1) v, folded s0_def]
  define s1 where "s1 = (set_state SynReceived (s0\<lparr>remote_ip := src, remote_port := seg_source_port g\<rparr>))
    \<lparr>send_mss := m, receive_next_seq := seg_seq g + 1, reassembler := set_next_expect (seg_seq g + 1) (reassembler s0)\<rparr>"
  define s2 where "s2 = s1\<lparr>send_unacked := seg_seq g, send_last_win_ack := seg_ack g, send_last_win_seq := seg_seq g,
    send_window := ucast (seg_window g)\<rparr>"
  have r: "r' = r" and rest: "\<exists>v1 s v2 li. tcp_send_packet s1 NetBuffer_new (FLAG_SYN OR FLAG_ACK) v = Some v1 \<and>
      set_response_timer r' s2 v1 = Some (s, v2) \<and> get_socket l (put_socket r' s v2) = Some li \<and>
      w' = put_socket l (li\<lparr>socket_queue := socket_queue li @ [r']\<rparr>) (put_socket r' s v2)"
    using run v new(2) by (auto simp: handle_new_connection_def s1_def s2_def s0_def set_state_def Let_def bind_eq_Some_conv)
  then obtain v1 s v2 li where v1: "tcp_send_packet s1 NetBuffer_new (FLAG_SYN OR FLAG_ACK) v = Some v1"
    and s: "set_response_timer r' s2 v1 = Some (s, v2)" and li: "get_socket l (put_socket r' s v2) = Some li"
    and w': "w' = put_socket l (li\<lparr>socket_queue := socket_queue li @ [r']\<rparr>) (put_socket r' s v2)"
    by blast
  have "sock_step r' (0, s0, v) (0, s1, v)"
    using assms by (simp add: sock_step_def socket_ok_def same_socket_def held_def waiting_def s1_def set_state_def
        set_next_expect_def s0_def TCPSocketState_new_def)
  also have "sock_step r' (0, s1, v) (0, s1, v1)"
    using wheneverD [OF send_empty_step v1] by simp
  also have "sock_step r' (0, s1, v1) (0, s2, v1)"
    by (rule quiet_step) (simp add: s2_def quiet_def same_socket_def)
  also have "sock_step r' (0, s2, v1) (0, s, v2)"
    using wheneverD [OF set_response_timer_step s] .
  finally have step: "sock_step r' (0, s0, v) (0, s, v2)" .
  have "tcp_ok v"
    using tcp_keeps_ok [OF new(1) ok] .
  then have "socket_ok s0" "net_ok v"
    using new(2) by (auto simp: tcp_ok_def get_socket_Some udp_ok_def)
  then have "tcp_frame v v2" and same: "same_socket s0 s"
    using step by (simp_all add: sock_step_def)
  then have len: "r' < length (tcp_sockets v2)"
    using new(2) by (simp add: tcp_frame_fields get_socket_Some)
  note new(1)
  also have "tcp_keeps 0 v 0 (put_socket r' s v2)"
    by (rule put_keeps [OF new(2) step])
  also have "tcp_keeps 0 (put_socket r' s v2) 0 w'"
    unfolding w'
    by (rule put_socket_keeps [OF li sock_step_refl])
      (use len in \<open>auto simp: quiet_def same_socket_def\<close>)
  finally have "tcp_keeps 0 w 0 w'" .
  moreover have "\<exists>t. get_socket r w' = Some t \<and> socket_key t = socket_key s"
    using li len by (auto simp: w' r get_socket_Some nth_list_update socket_key_def)
  moreover have "socket_key s = (src, seg_source_port g, seg_dest_port g)"
    using same by (simp add: same_socket_def socket_key_def s0_def TCPSocketState_new_def)
  ultimately show "tcp_keeps 0 w 0 w' \<and> (\<exists>s. get_socket r w' = Some s \<and>
      socket_key s = (src, seg_source_port g, seg_dest_port g))"
    by simp
qed

lemma tcp_reset_keeps:
  assumes "wf_buf packet" and "wf_ip src" and ok: "tcp_ok w"
  shows "whenever (tcp_reset packet src g w) (tcp_keeps (nfrags packet) w 0)"
proof (rule wheneverI)
  fix w'
  assume "tcp_reset packet src g w = Some w'"
  then obtain p v where out: "tcp_output NetBuffer_new p w = Some v" "dest_ip p = src" "options p = []"
    and w': "w' = drop_buffer packet v"
    by (auto simp: tcp_reset_def bind_eq_Some_conv)
  have "net_ok w"
    using ok by (simp add: tcp_ok_def udp_ok_def)
  with out obtain xs where "net_step w 0 xs v 0"
    using tcp_output_cases [of NetBuffer_new w p] assms(2) by (auto split: if_splits elim: returnsE)
  then have "tcp_keeps (0 + nfrags packet) w (0 + nfrags packet) v"
    by (intro tcp_keeps_frame net_keeps)
  also have "tcp_keeps (0 + nfrags packet) v 0 w'"
    unfolding w' by (rule drop_keeps [OF assms(1)])
  finally show "tcp_keeps (nfrags packet) w 0 w'"
    by simp
qed

lemma tcp_socket_input_keeps:
  assumes "wf_buf packet" and "m \<le> 0xffff"
  shows "whenever (do {
      s \<leftarrow> get_socket r w;
      (s, w) \<leftarrow> tcp_input_socket r g m packet s w;
      Some (put_socket r s w)
    }) (tcp_keeps (nfrags packet) w 0)"
proof (rule with_socket)
  fix s
  assume "get_socket r w = Some s"
  from section_keeps [OF this tcp_input_socket_step [OF assms, where n = 0]]
  show "whenever (do { (s, w) \<leftarrow> tcp_input_socket r g m packet s w; Some (put_socket r s w) }) (tcp_keeps (nfrags packet) w 0)"
    by simp
qed

lemma tcp_new_connection_keeps:
  assumes "wf_buf packet" and "wf_ip src" and "m \<le> 0xffff" and "tcp_ok w"
  shows "whenever (do {
      (new_socket, w) \<leftarrow> handle_new_connection iss l src g m w;
      let w = w\<lparr>TCP_PORT_MAP := (TCP_PORT_MAP w)((src, seg_source_port g, seg_dest_port g) \<mapsto> new_socket)\<rparr>;
      Some (drop_buffer packet w)
    }) (tcp_keeps (nfrags packet) w 0)"
proof (rule whenever_bindI [OF handle_new_connection_keeps [OF assms(2-4)]], clarify)
  fix r v s
  assume v: "tcp_keeps 0 w 0 v" "get_socket r v = Some s" "socket_key s = (src, seg_source_port g, seg_dest_port g)"
  define u where "u = v\<lparr>TCP_PORT_MAP := (TCP_PORT_MAP v)((src, seg_source_port g, seg_dest_port g) \<mapsto> r)\<rparr>"
  have "tcp_keeps (0 + nfrags packet) w (0 + nfrags packet) u"
    unfolding u_def by (intro tcp_keeps_frame tcp_keeps_trans [OF v(1)] map_socket_keeps [OF v(2,3)])
  also have "tcp_keeps (0 + nfrags packet) u 0 (drop_buffer packet u)"
    by (rule drop_keeps [OF assms(1)])
  finally show "whenever (let w = v\<lparr>TCP_PORT_MAP := (TCP_PORT_MAP v)((src, seg_source_port g, seg_dest_port g) \<mapsto> r)\<rparr>
      in Some (drop_buffer packet w)) (tcp_keeps (nfrags packet) w 0)"
    by (simp add: u_def)
qed

lemma tcp_dispatch_keeps:
  assumes "wf_buf packet" and "wf_ip src" and "m \<le> 0xffff" and "tcp_ok w"
  shows "whenever (tcp_dispatch iss src g m packet w) (tcp_keeps (nfrags packet) w 0)"
  unfolding tcp_dispatch_def
  using tcp_reset_keeps [OF assms(1,2,4)] tcp_socket_input_keeps [OF assms(1,3)] tcp_new_connection_keeps [OF assms]
  by (auto split: option.split)

lemma tcp_input_keeps:
  assumes "wf_buf packet" and "wf_ip src" and ok: "tcp_ok w"
  shows "whenever (tcp_input iss packet src w) (tcp_keeps (nfrags packet) w 0)"
proof (rule wheneverI)
  fix w'
  assume run: "tcp_input iss packet src w = Some w'"
  show "tcp_keeps (nfrags packet) w 0 w'"
  proof (cases "validate_checksum packet src w")
    case None
    with run show ?thesis
      by (simp add: tcp_input_def)
  next
    case (Some valid)
    show ?thesis
    proof (cases valid)
      case False
      with run Some show ?thesis
        using drop_keeps [OF assms(1), of 0 w] by (simp add: tcp_input_def)
    next
      case True
      with run Some obtain g m bs p v where m: "parse_options bs = Some m"
        and p: "trim_head (seg_header_length g) packet w = Some (p, v)"
        and w': "tcp_dispatch iss src g m p v = Some w'"
        by (auto simp: tcp_input_def Let_def bind_eq_Some_conv)
      have trim: "wf_buf p" "tcp_keeps (nfrags packet) w (nfrags p) v"
        using wheneverD [OF trim_head_whenever [OF assms(1)] p] by (auto intro: net_keeps pool_net_step)
      have "m \<le> 0xffff"
        using m options_spec_bound [of bs 0 m] by (simp add: parse_options_spec)
      with trim show ?thesis
        using wheneverD [OF tcp_dispatch_keeps w'] tcp_keeps_ok [OF trim(2) ok] assms(2)
        by (auto intro: tcp_keeps_trans)
    qed
  qed
qed

end
