(* ===== verification/Icmp.thy ===== *)
theory Icmp
  imports Transport
begin

text \<open>
  \<open>src/src/stack/icmp.rs\<close>: echo requests are answered. Each function is modelled whole; a packet a
  function owns is dropped where it goes out of scope.
\<close>

definition ICMPV4_ECHO_REQUEST :: u8 where "ICMPV4_ECHO_REQUEST = 8"
definition ICMPV4_ECHO_REPLY :: u8 where "ICMPV4_ECHO_REPLY = 0"
definition ICMPV6_ECHO_REQUEST :: u8 where "ICMPV6_ECHO_REQUEST = 128"
definition ICMPV6_ECHO_REPLY :: u8 where "ICMPV6_ECHO_REPLY = 129"
definition ICMP_HEADER_LEN :: nat where "ICMP_HEADER_LEN = 4"

definition icmp_output_v4 :: "NetBuffer \<Rightarrow> u8 \<Rightarrow> IPAddr \<Rightarrow> 'a net_world_scheme \<Rightarrow> 'a net_world_scheme option" where
  "icmp_output_v4 packet packet_type dest_addr w = do {
     (packet, w) \<leftarrow> alloc_header ICMP_HEADER_LEN packet w;
     packet \<leftarrow> header_mut (store 0 packet_type) packet;
     sum \<leftarrow> compute_buffer_ones_comp 0 packet;
     packet \<leftarrow> header_mut (slice_mut 2 4 (set_be16 (sum XOR 0xffff))) packet;
     ip_output packet PROTO_ICMPV4 dest_addr w
   }"

definition icmp_output_v6 :: "NetBuffer \<Rightarrow> u8 \<Rightarrow> IPAddr \<Rightarrow> 'a net_world_scheme \<Rightarrow> 'a net_world_scheme option" where
  "icmp_output_v6 packet packet_type dest_addr w = do {
     (packet, w) \<leftarrow> alloc_header ICMP_HEADER_LEN packet w;
     packet \<leftarrow> header_mut (store 0 packet_type) packet;
     ph_checksum \<leftarrow> compute_pseudo_header_checksum (snd (get_ipaddr w)) dest_addr (buf_length packet) PROTO_ICMPV6;
     sum \<leftarrow> compute_buffer_ones_comp ph_checksum packet;
     packet \<leftarrow> header_mut (slice_mut 2 4 (set_be16 (sum XOR 0xffff))) packet;
     ip_output packet PROTO_ICMPV6 dest_addr w
   }"

definition icmp_input_v4 :: "NetBuffer \<Rightarrow> IPAddr \<Rightarrow> 'a net_world_scheme \<Rightarrow> 'a net_world_scheme option" where
  "icmp_input_v4 packet source_ip w = do {
     hdr \<leftarrow> header packet;
     sum \<leftarrow> compute_buffer_ones_comp 0 packet;
     if sum XOR 0xffff \<noteq> 0 then Some (drop_buffer packet w)
     else do {
       packet_type \<leftarrow> index hdr 0;
       (packet, w) \<leftarrow> trim_head ICMP_HEADER_LEN packet w;
       w \<leftarrow>
         (if packet_type = ICMPV4_ECHO_REQUEST then do {
            (response, w) \<leftarrow> append_from_buffer packet USIZE_MAX NetBuffer_new w;
            icmp_output_v4 response ICMPV4_ECHO_REPLY source_ip w
          } else Some w);
       Some (drop_buffer packet w)
     }
   }"

definition icmp_input_v6 :: "NetBuffer \<Rightarrow> IPAddr \<Rightarrow> 'a net_world_scheme \<Rightarrow> 'a net_world_scheme option" where
  "icmp_input_v6 packet source_ip w = do {
     ph_checksum \<leftarrow> compute_pseudo_header_checksum source_ip (snd (get_ipaddr w)) (buf_length packet) PROTO_ICMPV6;
     hdr \<leftarrow> header packet;
     sum \<leftarrow> compute_buffer_ones_comp ph_checksum packet;
     if sum XOR 0xffff \<noteq> 0 then Some (drop_buffer packet w)
     else do {
       packet_type \<leftarrow> index hdr 0;
       (packet, w) \<leftarrow> trim_head ICMP_HEADER_LEN packet w;
       w \<leftarrow>
         (if packet_type = ICMPV6_ECHO_REQUEST then do {
            (response, w) \<leftarrow> append_from_buffer packet USIZE_MAX NetBuffer_new w;
            icmp_output_v6 response ICMPV6_ECHO_REPLY source_ip w
          } else Some w);
       Some (drop_buffer packet w)
     }
   }"

section \<open>What goes out\<close>

definition icmp_message :: "u8 \<Rightarrow> nat \<Rightarrow> bytes \<Rightarrow> bytes" where
  "icmp_message t ph body = [t, 0] @ be16 (complement_sum (ph + words_sum ([t, 0, 0, 0] @ body))) @ body"

lemma icmp_message_sum: "fold16 (ph + words_sum (icmp_message t ph body)) = 65535"
  using complement_sum_completes [of "[t, 0]" ph body] by (simp add: icmp_message_def)

lemma icmp_output_v4_returns:
  assumes "wf_buf b" and "packed (fragments b)" and "length (contents b) \<le> MAX_PAYLOAD"
    and "net_ok w" and "wf_ip dest"
  shows "returns (icmp_output_v4 b t dest w)
    (\<lambda>w'. net_step w (nfrags b) [ip_datagram w PROTO_ICMPV4 dest (icmp_message t 0 (contents b))] w' 0)"
proof -
  have "returns (do {
       (p, v) \<leftarrow> alloc_header 4 b w;
       q \<leftarrow> header_mut (store 0 t) p;
       c \<leftarrow> Some 0;
       s \<leftarrow> compute_buffer_ones_comp c q;
       q \<leftarrow> header_mut (slice_mut 2 (2 + 2) (set_be16 (s XOR 0xffff))) q;
       ip_output q PROTO_ICMPV4 dest v
     }) (\<lambda>w'. net_step w (nfrags b) [ip_datagram w PROTO_ICMPV4 dest
        ([t, 0] @ be16 (complement_sum (unat (0 :: u16) + words_sum ([t, 0] @ [0, 0] @ [] @ contents b))) @ [] @ contents b)] w' 0)"
    by (rule ip.send_with_header [where put = "\<lambda>p. store 0 t" and phm = "\<lambda>p q v. Some 0"])
      (use assms packed_MAX_PAYLOAD [of b] MAX_PAYLOAD_bound [of "length (contents b)" 4]
        in \<open>simp_all add: replicate_small FRAGMENT_SIZE_def\<close>)
  then show ?thesis
    by (simp add: icmp_output_v4_def ICMP_HEADER_LEN_def icmp_message_def)
qed

lemma icmp_output_v6_returns:
  assumes "wf_buf b" and "packed (fragments b)" and "length (contents b) \<le> MAX_PAYLOAD"
    and "net_ok w" and "wf_ip dest" and "\<not> is_v4 dest"
  shows "returns (icmp_output_v6 b t dest w)
    (\<lambda>w'. net_step w (nfrags b) [ip_datagram w PROTO_ICMPV6 dest
       (icmp_message t (pseudo_sum (LOCAL_IPV6 w) dest (4 + length (contents b)) PROTO_ICMPV6) (contents b))] w' 0)"
proof -
  define n where "n = 4 + length (contents b)"
  have "same_family (LOCAL_IPV6 w) dest"
    using assms(4-6) by (simp add: same_family_def net_ok_def)
  then obtain c where c: "compute_pseudo_header_checksum (LOCAL_IPV6 w) dest n PROTO_ICMPV6 = Some c"
    "unat c = fold16 (pseudo_sum (LOCAL_IPV6 w) dest n PROTO_ICMPV6)"
    using compute_pseudo_header_checksum_returns by (blast elim: returnsE)
  have "returns (do {
       (p, v) \<leftarrow> alloc_header 4 b w;
       q \<leftarrow> header_mut (store 0 t) p;
       c \<leftarrow> compute_pseudo_header_checksum (snd (get_ipaddr v)) dest (buf_length q) PROTO_ICMPV6;
       s \<leftarrow> compute_buffer_ones_comp c q;
       q \<leftarrow> header_mut (slice_mut 2 (2 + 2) (set_be16 (s XOR 0xffff))) q;
       ip_output q PROTO_ICMPV6 dest v
     }) (\<lambda>w'. net_step w (nfrags b) [ip_datagram w PROTO_ICMPV6 dest
        ([t, 0] @ be16 (complement_sum (unat c + words_sum ([t, 0] @ [0, 0] @ [] @ contents b))) @ [] @ contents b)] w' 0)"
    by (rule ip.send_with_header [where put = "\<lambda>p. store 0 t"
          and phm = "\<lambda>p q v. compute_pseudo_header_checksum (snd (get_ipaddr v)) dest (buf_length q) PROTO_ICMPV6"])
      (use assms c(1) packed_MAX_PAYLOAD [of b] MAX_PAYLOAD_bound [of "length (contents b)" 4]
        in \<open>simp_all add: replicate_small FRAGMENT_SIZE_def get_ipaddr_def only_pool_fields flip: n_def\<close>)
  then show ?thesis
    by (simp add: icmp_output_v6_def ICMP_HEADER_LEN_def icmp_message_def c(2) complement_sum_fold flip: n_def)
qed

section \<open>What a request causes\<close>

text \<open>The answer to an echo request: the rest of its message behind a reply header.\<close>

lemma echo_body:
  assumes "wf_buf packet" and "net_ok w" and "4 \<le> length (contents packet)"
  shows "returns (do {
       (p, w) \<leftarrow> trim_head ICMP_HEADER_LEN packet w;
       (r, w) \<leftarrow> append_from_buffer p USIZE_MAX NetBuffer_new w;
       Some (p, r, w)
     }) (\<lambda>(p, r, v). wf_buf p \<and> wf_buf r \<and> packed (fragments r) \<and> contents r = drop 4 (contents packet) \<and>
       pool_step w (nfrags packet) v (nfrags p + nfrags r) \<and> net_ok v)"
proof -
  obtain p w1 where p: "trim_head ICMP_HEADER_LEN packet w = Some (p, w1)" "wf_buf p"
      "contents p = drop 4 (contents packet)" "pool_step w (nfrags packet) w1 (nfrags p)"
    using trim_head_returns [OF assms(1), of 4 w] assms(3) by (auto simp: ICMP_HEADER_LEN_def elim!: returnsE)
  have ok: "net_ok w1"
    using p(4) assms(2) by (blast intro: net_step_net_ok pool_net_step)
  have bound: "length (contents p) \<le> USIZE_MAX"
    using p(2) by (simp add: length_contents wf_buf_bound)
  obtain r w2 where r: "append_from_buffer p USIZE_MAX NetBuffer_new w1 = Some (r, w2)" "wf_buf r"
      "contents r = contents p" "packed (fragments r)" "pool_step w1 0 w2 (nfrags r)"
    using append_from_buffer_returns [of NetBuffer_new p w1 USIZE_MAX] p(2) ok bound
    by (auto simp: net_ok_pool elim!: returnsE)
  have "pool_step w1 (nfrags p) w2 (nfrags p + nfrags r)"
    using pool_step_frame [OF r(5), of "nfrags p"] by simp
  with p r ok show ?thesis
    by (auto intro: pool_step_trans net_step_net_ok pool_net_step)
qed

lemma echo_body_then:
  assumes "wf_buf packet" and "net_ok w" and "4 \<le> length (contents packet)" and "length (contents packet) \<le> MAX_PAYLOAD"
    and out: "\<And>r v. wf_buf r \<Longrightarrow> packed (fragments r) \<Longrightarrow> contents r = drop 4 (contents packet) \<Longrightarrow>
      net_ok v \<Longrightarrow> only_pool w v \<Longrightarrow> returns (emit r v) (\<lambda>v'. net_step v (nfrags r) frames v' 0)"
  shows "returns (do {
       (p, w) \<leftarrow> trim_head ICMP_HEADER_LEN packet w;
       w \<leftarrow> do {
         (r, w) \<leftarrow> append_from_buffer p USIZE_MAX NetBuffer_new w;
         emit r w
       };
       Some (drop_buffer p w)
     }) (\<lambda>w'. net_step w (nfrags packet) frames w' 0)"
proof -
  obtain p w1 r v where steps: "trim_head ICMP_HEADER_LEN packet w = Some (p, w1)"
      "append_from_buffer p USIZE_MAX NetBuffer_new w1 = Some (r, v)"
    and r: "wf_buf p" "wf_buf r" "packed (fragments r)" "contents r = drop 4 (contents packet)"
      "pool_step w (nfrags packet) v (nfrags p + nfrags r)" "net_ok v"
    using echo_body [OF assms(1-3)] by (auto simp: bind_eq_Some_conv elim!: returnsE)
  obtain v' where v': "emit r v = Some v'" "net_step v (nfrags r) frames v' 0"
    using out [OF r(2-4,6)] r(5) by (auto simp: pool_step_def elim!: returnsE)
  have "net_step w (nfrags packet) frames v' (nfrags p)"
    using net_step_trans_Nil [OF pool_net_step [OF r(5)] net_step_frame [OF v'(2), of "nfrags p"]] by simp
  then have "net_step w (nfrags packet) frames (drop_buffer p v') 0"
    by (rule net_step_trans_Nil') (rule pool_net_step [OF drop_buffer_step [OF r(1)]])
  with steps v' show ?thesis
    by simp
qed

lemma verify_checksum:
  assumes "wf_buf b" and "aligned (fragments b)"
  shows "returns (compute_buffer_ones_comp ph b)
    (\<lambda>s. s XOR 0xffff = 0 \<longleftrightarrow> fold16 (unat ph + words_sum (contents b)) = 65535)"
  using compute_buffer_ones_comp_returns [OF assms, of ph]
  by (rule returns_conseq) (simp only: xor_ffff_eq_0_iff)

definition icmp_reply_v4 :: "'a net_world_scheme \<Rightarrow> IPAddr \<Rightarrow> bytes \<Rightarrow> bytes list" where
  "icmp_reply_v4 w src msg =
     (if fold16 (words_sum msg) = 65535 \<and> hd msg = ICMPV4_ECHO_REQUEST
      then [ip_datagram w PROTO_ICMPV4 src (icmp_message ICMPV4_ECHO_REPLY 0 (drop 4 msg))] else [])"

definition icmp_reply_v6 :: "'a net_world_scheme \<Rightarrow> IPAddr \<Rightarrow> bytes \<Rightarrow> bytes list" where
  "icmp_reply_v6 w src msg =
     (if fold16 (pseudo_sum src (LOCAL_IPV6 w) (length msg) PROTO_ICMPV6 + words_sum msg) = 65535 \<and> hd msg = ICMPV6_ECHO_REQUEST
      then [ip_datagram w PROTO_ICMPV6 src (icmp_message ICMPV6_ECHO_REPLY
        (pseudo_sum (LOCAL_IPV6 w) src (length msg) PROTO_ICMPV6) (drop 4 msg))] else [])"

lemma index_header: "fragments b \<noteq> [] \<Longrightarrow> wf_buf b \<Longrightarrow> index (head_bytes b) 0 = Some (hd (contents b))"
proof -
  assume a: "fragments b \<noteq> []" "wf_buf b"
  then have "head_bytes b \<noteq> []"
    by (simp add: head_bytes_def wf_buf_frags frag_bytes_nonempty)
  then show ?thesis
    using contents_head_rest [OF a(1)] by (simp add: index_def hd_conv_nth nth_append)
qed

lemma drop_after_trim:
  assumes "wf_buf packet" and "4 \<le> length (contents packet)"
  shows "returns (do {
       (p, w) \<leftarrow> trim_head ICMP_HEADER_LEN packet w;
       Some (drop_buffer p w)
     }) (\<lambda>w'. net_step w (nfrags packet) [] w' 0)"
  using trim_head_returns [OF assms(1), of 4 w] assms(2)
  by (fastforce simp: ICMP_HEADER_LEN_def returns_bind elim!: returns_conseq
      intro: pool_net_step pool_step_trans drop_buffer_step)

lemma icmp_input_v4_returns:
  assumes "wf_buf packet" and "aligned (fragments packet)" and "net_ok w" and "wf_ip src"
    and "4 \<le> length (contents packet)" and "length (contents packet) \<le> MAX_PAYLOAD"
  shows "returns (icmp_input_v4 packet src w)
    (\<lambda>w'. net_step w (nfrags packet) (icmp_reply_v4 w src (contents packet)) w' 0)"
proof -
  have ne: "fragments packet \<noteq> []"
    using assms(1,5) contents_empty_iff by fastforce
  obtain s where s: "compute_buffer_ones_comp 0 packet = Some s"
      "s XOR 0xffff = 0 \<longleftrightarrow> fold16 (words_sum (contents packet)) = 65535"
    using verify_checksum [OF assms(1,2), of 0] by (auto elim!: returnsE)
  define t where "t = hd (contents packet)"
  note facts = s(1) header_Some [OF assms(1) ne] index_header [OF ne assms(1)]
  consider "s XOR 0xffff \<noteq> 0" | "s XOR 0xffff = 0" "t = ICMPV4_ECHO_REQUEST" | "s XOR 0xffff = 0" "t \<noteq> ICMPV4_ECHO_REQUEST"
    by blast
  then show ?thesis
  proof cases
    case 1
    then show ?thesis
      using facts s(2) pool_net_step [OF drop_buffer_step [OF assms(1)]]
      by (simp add: icmp_input_v4_def icmp_reply_v4_def)
  next
    case 2
    have "returns (do {
       (p, w) \<leftarrow> trim_head ICMP_HEADER_LEN packet w;
       w \<leftarrow> do {
         (r, w) \<leftarrow> append_from_buffer p USIZE_MAX NetBuffer_new w;
         icmp_output_v4 r ICMPV4_ECHO_REPLY src w
       };
       Some (drop_buffer p w)
     }) (\<lambda>w'. net_step w (nfrags packet) (icmp_reply_v4 w src (contents packet)) w' 0)"
    proof (rule echo_body_then [OF assms(1,3,5,6)])
      fix r and v :: "'a net_world_scheme"
      assume r: "wf_buf r" "packed (fragments r)" "contents r = drop 4 (contents packet)" "net_ok v" "only_pool w v"
      show "returns (icmp_output_v4 r ICMPV4_ECHO_REPLY src v)
          (\<lambda>v'. net_step v (nfrags r) (icmp_reply_v4 w src (contents packet)) v' 0)"
        using icmp_output_v4_returns [OF r(1,2) _ r(4) assms(4), of ICMPV4_ECHO_REPLY] 2 s(2) assms(6)
        by (simp add: icmp_reply_v4_def t_def r(3) ip_datagram_stable [OF r(5)])
    qed
    with 2 facts show ?thesis
      by (simp add: icmp_input_v4_def t_def)
  next
    case 3
    then show ?thesis
      using facts drop_after_trim [OF assms(1,5), of w]
      by (simp add: icmp_input_v4_def icmp_reply_v4_def t_def)
  qed
qed

lemma icmp_input_v6_returns:
  assumes "wf_buf packet" and "aligned (fragments packet)" and "net_ok w" and "wf_ip src" and "\<not> is_v4 src"
    and "4 \<le> length (contents packet)" and "length (contents packet) \<le> MAX_PAYLOAD"
  shows "returns (icmp_input_v6 packet src w)
    (\<lambda>w'. net_step w (nfrags packet) (icmp_reply_v6 w src (contents packet)) w' 0)"
proof -
  have ne: "fragments packet \<noteq> []"
    using assms(1,6) contents_empty_iff by fastforce
  have "same_family src (LOCAL_IPV6 w)"
    using assms(3-5) by (simp add: same_family_def net_ok_def)
  then obtain c where c: "compute_pseudo_header_checksum src (LOCAL_IPV6 w) (length (contents packet)) PROTO_ICMPV6 = Some c"
    "unat c = fold16 (pseudo_sum src (LOCAL_IPV6 w) (length (contents packet)) PROTO_ICMPV6)"
    using compute_pseudo_header_checksum_returns by (blast elim: returnsE)
  obtain s where s: "compute_buffer_ones_comp c packet = Some s"
      "s XOR 0xffff = 0 \<longleftrightarrow>
       fold16 (pseudo_sum src (LOCAL_IPV6 w) (length (contents packet)) PROTO_ICMPV6 + words_sum (contents packet)) = 65535"
    using verify_checksum [OF assms(1,2), of c] by (auto simp: c(2) fold16_add elim!: returnsE)
  define t where "t = hd (contents packet)"
  note facts = s(1) header_Some [OF assms(1) ne] index_header [OF ne assms(1)]
    c(1) [unfolded length_contents [OF assms(1)]]
  consider "s XOR 0xffff \<noteq> 0" | "s XOR 0xffff = 0" "t = ICMPV6_ECHO_REQUEST" | "s XOR 0xffff = 0" "t \<noteq> ICMPV6_ECHO_REQUEST"
    by blast
  then show ?thesis
  proof cases
    case 1
    then show ?thesis
      using facts s(2) pool_net_step [OF drop_buffer_step [OF assms(1)]]
      by (simp add: icmp_input_v6_def icmp_reply_v6_def get_ipaddr_def)
  next
    case 2
    have "returns (do {
       (p, w) \<leftarrow> trim_head ICMP_HEADER_LEN packet w;
       w \<leftarrow> do {
         (r, w) \<leftarrow> append_from_buffer p USIZE_MAX NetBuffer_new w;
         icmp_output_v6 r ICMPV6_ECHO_REPLY src w
       };
       Some (drop_buffer p w)
     }) (\<lambda>w'. net_step w (nfrags packet) (icmp_reply_v6 w src (contents packet)) w' 0)"
    proof (rule echo_body_then [OF assms(1,3,6,7)])
      fix r and v :: "'a net_world_scheme"
      assume r: "wf_buf r" "packed (fragments r)" "contents r = drop 4 (contents packet)" "net_ok v" "only_pool w v"
      show "returns (icmp_output_v6 r ICMPV6_ECHO_REPLY src v)
          (\<lambda>v'. net_step v (nfrags r) (icmp_reply_v6 w src (contents packet)) v' 0)"
        using icmp_output_v6_returns [OF r(1,2) _ r(4) assms(4,5), of ICMPV6_ECHO_REPLY] 2 s(2) assms(6,7)
        by (simp add: icmp_reply_v6_def t_def r(3) ip_datagram_stable [OF r(5)] only_pool_fields [OF r(5)])
    qed
    with 2 facts show ?thesis
      by (simp add: icmp_input_v6_def t_def get_ipaddr_def)
  next
    case 3
    then show ?thesis
      using facts drop_after_trim [OF assms(1,6), of w]
      by (simp add: icmp_input_v6_def icmp_reply_v6_def t_def get_ipaddr_def)
  qed
qed

text \<open>
  Where the receiver stops the process: an empty message, a message shorter than its header whose
  sum happens to be right, and an ICMPv6 message that came in an IPv4 packet.
\<close>

lemma icmp_input_v4_empty: "contents packet = [] \<Longrightarrow> wf_buf packet \<Longrightarrow> icmp_input_v4 packet src w = None"
  by (simp add: icmp_input_v4_def header_None contents_empty_iff)

lemma trim_head_short: "n > buf_length b \<Longrightarrow> trim_head n b w = None"
  by (simp add: trim_head_def)

lemma icmp_input_v4_short:
  assumes "wf_buf packet" and "aligned (fragments packet)" and "length (contents packet) < 4"
    and "fold16 (words_sum (contents packet)) = 65535"
  shows "icmp_input_v4 packet src w = None"
proof -
  obtain s where "compute_buffer_ones_comp 0 packet = Some s" "s XOR 0xffff = 0"
    using verify_checksum [OF assms(1,2), of 0] assms(4) by (auto elim!: returnsE)
  then show ?thesis
    using assms trim_head_short [of packet 4 w]
    by (cases "header packet"; cases "index (the (header packet)) 0")
      (simp_all add: icmp_input_v4_def length_contents [symmetric] ICMP_HEADER_LEN_def)
qed

lemma icmp_input_v6_over_ipv4:
  assumes "is_v4 src" and "wf_ip src" and "net_ok w"
  shows "icmp_input_v6 packet src w = None"
  using assms
  by (cases src; cases "LOCAL_IPV6 w")
    (simp_all add: icmp_input_v6_def compute_pseudo_header_checksum_def get_ipaddr_def slice_mut_def
      copy_to_def copy_from_slice_def net_ok_def)

section \<open>Properties\<close>

text \<open>
  C21: An ICMPv4 message with a wrong checksum is dropped in silence, and so is one with a right
  checksum that is no echo request. An echo request is answered with one datagram to the sender: an
  echo reply with the octets behind the header of the request (identifier, sequence number and
  data) and a checksum the sender accepts. No fragment is lost in any case.
\<close>

theorem icmp_input_v4_correct:
  assumes "wf_buf packet" and "aligned (fragments packet)" and "net_ok w" and "wf_ip src"
    and "4 \<le> length (contents packet)" and "length (contents packet) \<le> MAX_PAYLOAD"
  defines "reply \<equiv> icmp_message ICMPV4_ECHO_REPLY 0 (drop 4 (contents packet))"
  shows "returns (icmp_input_v4 packet src w) (\<lambda>w'. net_ok w' \<and>
      tun_out w' = tun_out w @
        (if fold16 (words_sum (contents packet)) = 65535 \<and> hd (contents packet) = ICMPV4_ECHO_REQUEST
         then [ip_datagram w PROTO_ICMPV4 src reply] else []) \<and>
      (\<forall>k. balanced w (k + nfrags packet) \<longrightarrow> balanced w' k)) \<and>
    fold16 (words_sum reply) = 65535 \<and> drop 4 reply = drop 4 (contents packet)"
proof -
  obtain w' where w': "icmp_input_v4 packet src w = Some w'" and step: "net_step w (nfrags packet) (icmp_reply_v4 w src (contents packet)) w' 0"
    using icmp_input_v4_returns [OF assms(1-6)] by (auto elim!: returnsE)
  have "fold16 (words_sum reply) = 65535"
    using icmp_message_sum [of 0] by (simp add: reply_def)
  moreover have "drop 4 reply = drop 4 (contents packet)"
    by (simp add: reply_def icmp_message_def be16_def)
  ultimately show ?thesis
    using w' net_step_net_ok [OF step assms(3)] net_step_tun_out [OF step] step
    by (simp add: net_step_def icmp_reply_v4_def reply_def)
qed

definition sample_ping :: NetBuffer where
  "sample_ping = small_buffer [8, 0, 0x96, 0x9d, 0x61, 0x62]"

lemma sample_ping_wf: "wf_buf sample_ping" "contents sample_ping = [8, 0, 0x96, 0x9d, 0x61, 0x62]" "aligned (fragments sample_ping)"
  using small_buffer_wf [of "[8, 0, 0x96, 0x9d, 0x61, 0x62]"] packed_aligned by (auto simp: sample_ping_def FRAGMENT_SIZE_def)

lemma octet_reduce: "(40605 :: u8) = 157" "(7514 :: u8) = 90" "(40605 :: u16) div 256 = 158"
  by simp_all

theorem icmp_input_v4_correct_witness:
  "returns (icmp_input_v4 sample_ping (V4 [10, 0, 0, 1]) sample_net) (\<lambda>w'. tun_out w' =
     [ip_datagram sample_net PROTO_ICMPV4 (V4 [10, 0, 0, 1]) [0, 0, 0x9e, 0x9d, 0x61, 0x62]])"
  using icmp_input_v4_correct [OF sample_ping_wf(1,3) sample_net_ok(1), of "V4 [10, 0, 0, 1]"]
  by (auto simp: sample_ping_wf(2) sample_net_ok(3) MAX_PAYLOAD_eq fold16_def ICMPV4_ECHO_REQUEST_def ICMPV4_ECHO_REPLY_def
      icmp_message_def complement_sum_def be16_def octet_reduce elim!: returns_conseq)

text \<open>
  C22: The same for ICMPv6, where the checksums of request and reply also cover the pseudo header
  with the two addresses.
\<close>

theorem icmp_input_v6_correct:
  assumes "wf_buf packet" and "aligned (fragments packet)" and "net_ok w" and "wf_ip src" and "\<not> is_v4 src"
    and "4 \<le> length (contents packet)" and "length (contents packet) \<le> MAX_PAYLOAD"
  defines "n \<equiv> length (contents packet)"
    and "reply \<equiv> icmp_message ICMPV6_ECHO_REPLY (pseudo_sum (LOCAL_IPV6 w) src (length (contents packet)) PROTO_ICMPV6) (drop 4 (contents packet))"
  shows "returns (icmp_input_v6 packet src w) (\<lambda>w'. net_ok w' \<and>
      tun_out w' = tun_out w @
        (if fold16 (pseudo_sum src (LOCAL_IPV6 w) n PROTO_ICMPV6 + words_sum (contents packet)) = 65535 \<and>
           hd (contents packet) = ICMPV6_ECHO_REQUEST
         then [ip_datagram w PROTO_ICMPV6 src reply] else []) \<and>
      (\<forall>k. balanced w (k + nfrags packet) \<longrightarrow> balanced w' k)) \<and>
    fold16 (pseudo_sum (LOCAL_IPV6 w) src n PROTO_ICMPV6 + words_sum reply) = 65535 \<and>
    drop 4 reply = drop 4 (contents packet)"
proof -
  obtain w' where w': "icmp_input_v6 packet src w = Some w'" and step: "net_step w (nfrags packet) (icmp_reply_v6 w src (contents packet)) w' 0"
    using icmp_input_v6_returns [OF assms(1-7)] by (auto elim!: returnsE)
  have "drop 4 reply = drop 4 (contents packet)"
    by (simp add: reply_def icmp_message_def be16_def)
  then show ?thesis
    using w' net_step_net_ok [OF step assms(3)] net_step_tun_out [OF step] step
    by (simp add: net_step_def icmp_reply_v6_def reply_def n_def icmp_message_sum)
qed

definition sample_ping6 :: NetBuffer where
  "sample_ping6 = small_buffer [0x80, 0, 0x1e, 0x5a, 0x61, 0x62]"

lemma sample_ping6_wf: "wf_buf sample_ping6" "contents sample_ping6 = [0x80, 0, 0x1e, 0x5a, 0x61, 0x62]" "aligned (fragments sample_ping6)"
  using small_buffer_wf [of "[0x80, 0, 0x1e, 0x5a, 0x61, 0x62]"] packed_aligned by (auto simp: sample_ping6_def FRAGMENT_SIZE_def)

theorem icmp_input_v6_correct_witness:
  "returns (icmp_input_v6 sample_ping6 (V6 (replicate 15 0 @ [1])) sample_net) (\<lambda>w'. tun_out w' =
     [ip_datagram sample_net PROTO_ICMPV6 (V6 (replicate 15 0 @ [1])) [0x81, 0, 0x1d, 0x5a, 0x61, 0x62]])"
proof -
  have rep: "replicate 15 (0 :: u8) = [0, 0, 0, 0, 0, 0, 0, 0, 0, 0, 0, 0, 0, 0, 0]"
    by (simp add: numeral_eq_Suc)
  have "LOCAL_IPV6 sample_net = V6 (replicate 15 0 @ [2])"
    by (simp add: sample_net_def buf_world.extend_def)
  then have sums: "pseudo_sum (V6 (replicate 15 0 @ [1])) (LOCAL_IPV6 sample_net) (length (contents sample_ping6)) PROTO_ICMPV6 = 67"
    "pseudo_sum (LOCAL_IPV6 sample_net) (V6 (replicate 15 0 @ [1])) (length (contents sample_ping6)) PROTO_ICMPV6 = 67"
    by (simp_all add: sample_ping6_wf(2) rep pseudo_sum_def pseudo_header_def be32_def PROTO_ICMPV6_def)
  show ?thesis
    using icmp_input_v6_correct [OF sample_ping6_wf(1,3) sample_net_ok(1), of "V6 (replicate 15 0 @ [1])", unfolded sums]
    by (auto simp: sample_ping6_wf(2) sample_net_ok(3) MAX_PAYLOAD_eq fold16_def ICMPV6_ECHO_REQUEST_def ICMPV6_ECHO_REPLY_def
        icmp_message_def complement_sum_def be16_def octet_reduce elim!: returns_conseq)
qed

text \<open>
  C40: Where the receiver takes the whole stack down: it panics on an empty ICMP message, on one
  shorter than its header whose octets happen to sum up to 0xffff, and on an ICMPv6 message that
  came in an IPv4 packet (the pseudo header cannot be built from addresses of both families).
\<close>

theorem icmp_input_panics:
  assumes "wf_buf packet"
  shows "(contents packet = [] \<longrightarrow> icmp_input_v4 packet src w = None) \<and>
    (aligned (fragments packet) \<and> length (contents packet) < 4 \<and> fold16 (words_sum (contents packet)) = 65535 \<longrightarrow>
      icmp_input_v4 packet src w = None) \<and>
    (is_v4 src \<and> wf_ip src \<and> net_ok w \<longrightarrow> icmp_input_v6 packet src w = None)"
  using icmp_input_v4_empty icmp_input_v4_short icmp_input_v6_over_ipv4 assms by blast

theorem icmp_input_panics_witness:
  "icmp_input_v4 (small_buffer [0xff, 0xff]) (V4 [10, 0, 0, 1]) sample_net = None"
  using icmp_input_panics [of "small_buffer [0xff, 0xff]" "V4 [10, 0, 0, 1]" sample_net] small_buffer_wf [of "[0xff, 0xff]"] packed_aligned
  by (auto simp: FRAGMENT_SIZE_def fold16_def)

end
