(* ===== verification/Stack.thy ===== *)
theory Stack
  imports Icmp Tcp_Input
begin

text \<open>
  The receiving half of \<open>src/src/stack/ip.rs\<close> and the threads of \<open>src/src/stack/lib.rs\<close>: a frame from
  the interface goes through \<open>ip_input\<close> to the protocol it is for, and the timer thread runs the
  closures of TCP. The messages that are printed for packets that are dropped are not modelled.
\<close>

definition ip_input_common :: "u32 \<Rightarrow> NetBuffer \<Rightarrow> u8 \<Rightarrow> IPAddr \<Rightarrow> 'a tcp_world_scheme \<Rightarrow> 'a tcp_world_scheme option" where
  "ip_input_common iss packet protocol source_addr w =
     (if protocol = PROTO_ICMPV4 then icmp_input_v4 packet source_addr w
      else if protocol = PROTO_ICMPV6 then icmp_input_v6 packet source_addr w
      else if protocol = PROTO_TCP then tcp_input iss packet source_addr w
      else if protocol = PROTO_UDP then udp_input packet source_addr w
      else Some (drop_buffer packet w))"

definition ip_input_v4 :: "u32 \<Rightarrow> NetBuffer \<Rightarrow> 'a tcp_world_scheme \<Rightarrow> 'a tcp_world_scheme option" where
  "ip_input_v4 iss packet w = do {
     h \<leftarrow> header packet;
     b \<leftarrow> index h 0;
     let header_len = unat (b AND 0xf) * 4;
     hdr \<leftarrow> subslice 0 header_len h;
     checksum \<leftarrow> compute_checksum hdr;
     if checksum \<noteq> 0 then Some (drop_buffer packet w)
     else do {
       s \<leftarrow> subslice 6 8 h;
       frag \<leftarrow> get_be16 s;
       if frag AND 0x3fff \<noteq> 0 then Some (drop_buffer packet w)
       else do {
         protocol \<leftarrow> index h 9;
         s \<leftarrow> subslice 12 16 h;
         source_addr \<leftarrow> new_from s;
         (packet, w) \<leftarrow> trim_head header_len packet w;
         ip_input_common iss packet protocol source_addr w
       }
     }
   }"

definition ip_input_v6 :: "u32 \<Rightarrow> NetBuffer \<Rightarrow> 'a tcp_world_scheme \<Rightarrow> 'a tcp_world_scheme option" where
  "ip_input_v6 iss packet w = do {
     h \<leftarrow> header packet;
     protocol \<leftarrow> index h 6;
     s \<leftarrow> subslice 8 24 h;
     source_addr \<leftarrow> new_from s;
     (packet, w) \<leftarrow> trim_head IPV6_HEADER_LEN packet w;
     ip_input_common iss packet protocol source_addr w
   }"

definition ip_input :: "u32 \<Rightarrow> NetBuffer \<Rightarrow> 'a tcp_world_scheme \<Rightarrow> 'a tcp_world_scheme option" where
  "ip_input iss packet w = do {
     h \<leftarrow> header packet;
     b \<leftarrow> index h 0;
     let version = drop_bit 4 b;
     if version = 4 then ip_input_v4 iss packet w
     else if version = 6 then ip_input_v6 iss packet w
     else Some (drop_buffer packet w)
   }"

text \<open>One round of \<open>packet_receive_thread\<close>, and one round of the timer thread.\<close>

definition packet_receive :: "(bytes list \<Rightarrow> int \<times> bytes list) \<Rightarrow> u32 \<Rightarrow> 'a tcp_world_scheme \<Rightarrow> 'a tcp_world_scheme option" where
  "packet_receive readv iss w = do {
     (packet, w) \<leftarrow> recv_packet readv w;
     ip_input iss packet w
   }"

definition timer_round :: "'a tcp_world_scheme \<Rightarrow> 'a tcp_world_scheme option" where
  "timer_round w = tick run_callback w"

definition init_netstack :: "'a tcp_world_scheme \<Rightarrow> 'a tcp_world_scheme option" where
  "init_netstack w = netif_init w"

end
