(* ===== verification/Stack_Invariant.thy ===== *)
theory Stack_Invariant
  imports Tcp_Invariant Stack
begin

text \<open>
  The invariant of the whole stack. Every operation that a thread can run, on any input, keeps the
  sockets valid and accounts for every fragment it takes from or returns to the pool.
\<close>

section \<open>UDP\<close>

definition udp_keeps :: "nat \<Rightarrow> 'a udp_world_scheme \<Rightarrow> nat \<Rightarrow> 'a udp_world_scheme \<Rightarrow> bool" where
  "udp_keeps n w n' w' \<longleftrightarrow> udp_world.more w' = udp_world.more w \<and>
     (udp_ok w \<longrightarrow> udp_ok w' \<and> udp_follows w w' \<and> (\<forall>k. udp_balanced w (k + n) \<longrightarrow> udp_balanced w' (k + n')))"

lemma udp_more_tcp:
  fixes w :: "'a tcp_world_scheme"
  assumes "udp_world.more w' = udp_world.more w"
  shows "tcp_held w' = tcp_held w" and "tcp_sockets w' = tcp_sockets w" and "tcp_ok w \<Longrightarrow> udp_ok w' \<Longrightarrow> tcp_ok w'"
proof -
  have same: "TCP_PORT_MAP w' = TCP_PORT_MAP w" "tcp_sockets w' = tcp_sockets w" "PENDING_TIMERS w' = PENDING_TIMERS w"
    using assms by (cases w; cases w'; simp)+
  then show "tcp_held w' = tcp_held w" "tcp_sockets w' = tcp_sockets w" "tcp_ok w \<Longrightarrow> udp_ok w' \<Longrightarrow> tcp_ok w'"
    by (simp_all add: tcp_ok_def tcp_held_def)
qed

lemma udp_keeps_tcp:
  fixes w :: "'a tcp_world_scheme"
  assumes "udp_keeps n w n' w'"
  shows "tcp_keeps n w n' w'"
proof -
  have "udp_world.more w' = udp_world.more w"
    using assms by (simp add: udp_keeps_def)
  note same = udp_more_tcp [OF this]
  have "udp_balanced w' (k + n' + tcp_held w)" if "udp_ok w" "udp_balanced w (k + n + tcp_held w)" for k
  proof -
    have "udp_balanced w ((k + tcp_held w) + n)"
      using that(2) by (simp add: ac_simps)
    then have "udp_balanced w' ((k + tcp_held w) + n')"
      using assms that(1) by (simp only: udp_keeps_def)
    then show ?thesis
      by (simp add: ac_simps)
  qed
  moreover have "udp_ok w" "udp_ok w'" "udp_follows w w'" if "tcp_ok w"
    using assms that by (simp_all add: udp_keeps_def tcp_ok_def)
  ultimately show ?thesis
    using same by (simp add: tcp_keeps_def tcp_balanced_def)
qed

lemma net_udp_keeps: "net_step w n xs w' n' \<Longrightarrow> udp_keeps n w n' w'"
  using net_step_udp_fields [of w n xs w' n'] net_step_udp_ok [of w n xs w' n'] net_step_udp_balanced [of w n xs w' n']
    net_step_follows [of w n xs w' n']
  by (simp add: udp_keeps_def)

text \<open>\<open>udp_open\<close> adds a socket, so it follows only in what it keeps valid.\<close>

lemma udp_open_more: "udp_world.more (snd (udp_open p w)) = udp_world.more w"
  by (simp add: udp_open_def Let_def split: option.split)

lemma udp_open_ok:
  assumes "udp_ok w"
  shows "udp_ok (snd (udp_open p w))" and "udp_balanced w k \<Longrightarrow> udp_balanced (snd (udp_open p w)) k"
proof -
  have "udp_ok (snd (udp_open p w)) \<and> (udp_balanced w k \<longrightarrow> udp_balanced (snd (udp_open p w)) k)" for k
  proof (cases "UDP_PORT_MAP w p")
    case None
    then show ?thesis
      by (rule udp_open_fresh [OF assms]) simp
  qed (simp add: udp_open_in_use assms)
  then show "udp_ok (snd (udp_open p w))" "udp_balanced w k \<Longrightarrow> udp_balanced (snd (udp_open p w)) k"
    by blast+
qed

lemma udp_open_tcp:
  fixes w :: "'a tcp_world_scheme"
  assumes "tcp_ok w"
  shows "tcp_ok (snd (udp_open p w))" and "tcp_balanced w k \<Longrightarrow> tcp_balanced (snd (udp_open p w)) k"
proof -
  have "udp_ok w"
    using assms by (simp add: tcp_ok_def)
  note opened = udp_open_ok [OF this, where p = p] udp_more_tcp [OF udp_open_more [of p w]]
  show "tcp_ok (snd (udp_open p w))" "tcp_balanced w k \<Longrightarrow> tcp_balanced (snd (udp_open p w)) k"
    using opened assms by (simp_all add: tcp_balanced_def)
qed

lemma udp_send_keeps:
  assumes "udp_ok w" and "wf_ip dest" and "length bs < 2 ^ 63"
  shows "whenever (udp_send r dest dp bs w) (\<lambda>(res, w'). udp_keeps 0 w 0 w')"
proof (cases "r < length (udp_sockets w)")
  case True
  then show ?thesis
    using udp_send_cases [OF assms(1) True assms(2,3), of dp]
    by (auto split: if_split_asm dest!: returns_whenever elim!: whenever_conseq intro: net_udp_keeps)
qed (simp add: udp_send_def index_None)

lemma free_chain_more: "udp_world.more (free_chain fs w) = udp_world.more w"
  by (induction fs arbitrary: w) (simp_all add: free_def)

lemma udp_recv_more: "whenever (udp_recv r dest w) (\<lambda>(res, w'). udp_world.more w' = udp_world.more w)"
  by (auto simp: udp_recv_def whenever_bind drop_buffer_def Let_def free_chain_more
      split: list.split intro!: wheneverI [of "index _ _"] wheneverI [of "slice_mut _ _ _ _"])

lemma udp_recv_follows:
  assumes "udp_ok w"
  shows "whenever (udp_recv r dest w) (\<lambda>(res, w'). udp_follows w w')"
proof (rule wheneverI, clarify)
  fix res w'
  assume run: "udp_recv r dest w = Some (res, w')"
  then obtain s where s: "r < length (udp_sockets w)" "s = udp_sockets w ! r"
    by (auto simp: udp_recv_def bind_eq_Some_conv index_def split: if_split_asm)
  then have "s \<in> set (udp_sockets w)"
    by simp
  show "udp_follows w w'"
  proof (cases "UDPSocketState.receive_queue s")
    case Nil
    then show ?thesis
      using run s by (simp add: udp_recv_def index_def)
  next
    case (Cons e q)
    define v where "v = w\<lparr>udp_sockets := (udp_sockets w)[r := s\<lparr>UDPSocketState.receive_queue := q\<rparr>]\<rparr>"
    have w': "w' = drop_buffer (snd (snd e)) v"
      using run s Cons by (cases e) (auto simp: udp_recv_def index_def v_def bind_eq_Some_conv Let_def)
    have "udp_follows w v"
      unfolding v_def using s Cons senders_okD [of w r] by (intro udp_follows_update) simp_all
    moreover have "wf_buf (snd (snd e))"
      using assms \<open>s \<in> set (udp_sockets w)\<close> Cons by (auto simp: udp_ok_def)
    then have "udp_follows v w'"
      unfolding w' by (rule net_step_follows [OF pool_net_step [OF drop_buffer_step]])
    ultimately show ?thesis
      by (rule udp_follows_trans)
  qed
qed

lemma udp_recv_keeps:
  assumes "udp_ok w"
  shows "whenever (udp_recv r dest w) (\<lambda>(res, w'). udp_keeps 0 w 0 w')"
proof (cases "r < length (udp_sockets w)")
  case True
  show ?thesis
  proof (cases "inbox r w")
    case Nil
    then show ?thesis
      by (simp add: udp_recv_empty [OF True] udp_keeps_def)
  next
    case (Cons m ms)
    obtain a p body where m: "m = (a, p, body)"
      by (cases m)
    with udp_recv_returns [OF assms True, of a p body ms dest] udp_recv_more [of r dest w] udp_recv_follows [OF assms, of r dest] Cons
    show ?thesis
      by (auto simp: udp_keeps_def whenever_def dest!: returns_whenever)
  qed
qed (simp add: udp_recv_def index_None)

lemma udp_input_follows:
  assumes "wf_buf packet" and "wf_ip src"
  shows "whenever (udp_input packet src w) (udp_follows w)"
proof (rule wheneverI)
  fix w'
  assume "udp_input packet src w = Some w'"
  then obtain sp dp b v where trim: "trim_head UDP_HEADER_LEN packet w = Some (b, v)"
    and w': "(case UDP_PORT_MAP v dp of
        None \<Rightarrow> Some (drop_buffer b v)
      | Some socket \<Rightarrow> do {
          guard \<leftarrow> index (udp_sockets v) socket;
          let guard = guard\<lparr>UDPSocketState.receive_queue := UDPSocketState.receive_queue guard @ [(src, sp, b)]\<rparr>;
          Some (v\<lparr>udp_sockets := (udp_sockets v)[socket := guard]\<rparr>)
        }) = Some w'"
    by (auto simp: udp_input_def bind_eq_Some_conv)
  have b: "wf_buf b" and v: "udp_follows w v"
    using wheneverD [OF trim_head_whenever [OF assms(1)] trim] by (auto intro: net_step_follows pool_net_step)
  have "udp_follows v w'"
  proof (cases "UDP_PORT_MAP v dp")
    case None
    then show ?thesis
      using w' net_step_follows [OF pool_net_step [OF drop_buffer_step [OF b]], of v] by simp
  next
    case (Some r)
    then show ?thesis
      using w' assms(2) by (auto simp: bind_eq_Some_conv index_def Let_def split: if_split_asm intro!: udp_follows_update)
        (metis fst_conv senders_okD)
  qed
  with v show "udp_follows w w'"
    by (rule udp_follows_trans)
qed

lemma udp_input_keeps:
  assumes "udp_ok w" and "wf_buf packet" and "wf_ip src"
  shows "whenever (udp_input packet src w) (\<lambda>w'. udp_keeps (nfrags packet) w 0 w')"
proof (rule wheneverI)
  fix w'
  assume run: "udp_input packet src w = Some w'"
  then have ne: "fragments packet \<noteq> []"
    by (auto simp: udp_input_def header_def)
  have len: "8 \<le> length (contents packet)"
    using run udp_input_short [OF assms(2), of src w] by (metis not_le option.distinct(1))
  have "4 \<le> length (head_bytes packet)"
    using run header_Some [OF assms(2) ne] by (auto simp: udp_input_def subslice_def bind_eq_Some_conv split: if_splits)
  moreover have "4 \<le> length (contents packet)"
    using len by simp
  then obtain s0 s1 d0 d1 rest where "contents packet = s0 # s1 # d0 # d1 # rest"
    by (auto simp: numeral_eq_Suc Suc_le_length_iff)
  then have "contents packet = be16 (from_be_bytes s0 s1) @ be16 (from_be_bytes d0 d1) @ rest"
    by (simp add: be16_from_be_bytes)
  ultimately show "udp_keeps (nfrags packet) w 0 w'"
    using udp_input_returns [OF assms(1,2) _ ne len, of "from_be_bytes s0 s1" "from_be_bytes d0 d1" rest src] run
      wheneverD [OF udp_input_follows [OF assms(2,3), of w] run]
    by (auto simp: udp_keeps_def)
qed

section \<open>ICMP\<close>

lemma short_message:
  assumes "wf_buf packet" and "length (contents packet) < 4"
  shows "trim_head ICMP_HEADER_LEN packet w = None"
  using assms by (simp add: trim_head_def ICMP_HEADER_LEN_def length_contents [symmetric])

lemma icmp_input_v4_keeps:
  assumes "wf_buf packet" and "aligned (fragments packet)" and "net_ok w" and "wf_ip src"
    and "length (contents packet) \<le> MAX_PAYLOAD"
  shows "whenever (icmp_input_v4 packet src w) (\<lambda>w'. udp_keeps (nfrags packet) w 0 w')"
proof (cases "4 \<le> length (contents packet)")
  case True
  from returns_whenever [OF icmp_input_v4_returns [OF assms(1-4) True assms(5)]] show ?thesis
    by (rule whenever_conseq) (rule net_udp_keeps)
next
  case False
  then have "whenever (icmp_input_v4 packet src w) (\<lambda>w'. w' = drop_buffer packet w)"
    using short_message [OF assms(1), of w]
    by (auto simp: icmp_input_v4_def whenever_def bind_eq_Some_conv)
  then show ?thesis
    by (rule whenever_conseq) (simp add: net_udp_keeps [OF pool_net_step [OF drop_buffer_step [OF assms(1)]]])
qed

lemma icmp_input_v6_keeps:
  assumes "wf_buf packet" and "aligned (fragments packet)" and "net_ok w" and "wf_ip src"
    and "length (contents packet) \<le> MAX_PAYLOAD"
  shows "whenever (icmp_input_v6 packet src w) (\<lambda>w'. udp_keeps (nfrags packet) w 0 w')"
proof (cases "is_v4 src")
  case True
  then have "slice_mut 0 16 (copy_to src) (replicate 40 0) = None"
    using assms(4) by (cases src) (simp_all add: slice_mut_def copy_to_def copy_from_slice_def)
  moreover have "\<not> is_v4 (LOCAL_IPV6 w)"
    using assms(3) by (simp add: net_ok_def)
  ultimately have "icmp_input_v6 packet src w = None"
    by (cases "LOCAL_IPV6 w") (simp_all add: icmp_input_v6_def compute_pseudo_header_checksum_def get_ipaddr_def)
  then show ?thesis
    by simp
next
  case v6: False
  show ?thesis
  proof (cases "4 \<le> length (contents packet)")
    case True
    from returns_whenever [OF icmp_input_v6_returns [OF assms(1-4) v6 True assms(5)]] show ?thesis
      by (rule whenever_conseq) (rule net_udp_keeps)
  next
    case False
    then have "whenever (icmp_input_v6 packet src w) (\<lambda>w'. w' = drop_buffer packet w)"
      using short_message [OF assms(1), of w]
      by (auto simp: icmp_input_v6_def whenever_def bind_eq_Some_conv)
    then show ?thesis
      by (rule whenever_conseq) (simp add: net_udp_keeps [OF pool_net_step [OF drop_buffer_step [OF assms(1)]]])
  qed
qed

section \<open>The receive thread\<close>

lemma ip_input_common_keeps:
  assumes "wf_buf packet" and "aligned (fragments packet)" and "wf_ip src"
    and "length (contents packet) \<le> MAX_PAYLOAD" and "tcp_ok w"
  shows "whenever (ip_input_common iss packet protocol src w) (tcp_keeps (nfrags packet) w 0)"
proof -
  have ok: "udp_ok w" "net_ok w"
    using assms(5) by (simp_all add: tcp_ok_def udp_ok_def)
  show ?thesis
    unfolding ip_input_common_def
    using icmp_input_v4_keeps [OF assms(1,2) ok(2) assms(3,4)] icmp_input_v6_keeps [OF assms(1,2) ok(2) assms(3,4)]
      tcp_input_keeps [OF assms(1,3,5), of iss] udp_input_keeps [OF ok(1) assms(1,3)] drop_keeps [OF assms(1), of 0 w]
    by (auto elim!: whenever_conseq intro: udp_keeps_tcp)
qed

lemma new_from_wf: "new_from bs = Some a \<Longrightarrow> wf_ip a"
  by (auto simp: new_from_def new_v4_def new_v6_def bind_eq_Some_conv split: if_splits)

lemma trimmed_keeps:
  assumes "trim_head n packet w = Some (p, v)" and "ip_input_common iss p protocol src v = Some w'"
    and "wf_buf packet" and "aligned (fragments packet)" and "wf_ip src" and "even n"
    and "length (contents packet) \<le> MAX_PAYLOAD" and "tcp_ok w"
  shows "tcp_keeps (nfrags packet) w 0 w'"
proof -
  have trim: "wf_buf p" "contents p = drop n (contents packet)" "tcp_keeps (nfrags packet) w (nfrags p) v"
    using wheneverD [OF trim_head_whenever [OF assms(3)] assms(1)] by (auto intro: net_keeps pool_net_step)
  have "aligned (fragments p)"
    by (rule aligned_trim_head [OF assms(1,6,4)])
  moreover have "length (contents p) \<le> MAX_PAYLOAD"
    using assms(7) by (simp add: trim(2))
  ultimately have "tcp_keeps (nfrags p) v 0 w'"
    using wheneverD [OF ip_input_common_keeps assms(2)] trim(1) assms(5) tcp_keeps_ok [OF trim(3) assms(8)] by blast
  with trim(3) show ?thesis
    by (rule tcp_keeps_trans)
qed

lemma ip_input_keeps:
  assumes "wf_buf packet" and "aligned (fragments packet)" and "length (contents packet) \<le> MAX_PAYLOAD" and "tcp_ok w"
  shows "whenever (ip_input iss packet w) (tcp_keeps (nfrags packet) w 0)"
proof -
  note trimmed = trimmed_keeps [OF _ _ assms(1,2) _ _ assms(3,4)]
  have dropped: "tcp_keeps (nfrags packet) w 0 (drop_buffer packet w)"
    using drop_keeps [OF assms(1), of 0 w] by simp
  have "whenever (ip_input_v4 iss packet w) (tcp_keeps (nfrags packet) w 0)"
    by (rule wheneverI)
      (auto simp: ip_input_v4_def bind_eq_Some_conv Let_def split: if_splits intro: dropped trimmed dest: new_from_wf)
  moreover have "whenever (ip_input_v6 iss packet w) (tcp_keeps (nfrags packet) w 0)"
    by (rule wheneverI)
      (auto simp: ip_input_v6_def bind_eq_Some_conv Let_def IPV6_HEADER_LEN_def split: if_splits intro: trimmed dest: new_from_wf)
  ultimately show ?thesis
    by (auto simp: ip_input_def whenever_def bind_eq_Some_conv Let_def dropped split: if_splits)
qed

lemma packet_receive_keeps:
  assumes "delivers readv frame" and "frame \<noteq> []" and "tcp_ok w"
  shows "whenever (packet_receive readv iss w) (tcp_keeps 0 w 0)"
proof (rule wheneverI)
  fix w'
  assume run: "packet_receive readv iss w = Some w'"
  have "net_ok w"
    using assms(3) by (simp add: tcp_ok_def udp_ok_def)
  from recv_packet_returns [OF this assms(1,2)] run
  obtain b v where b: "wf_buf b" "contents b = take MRU frame" "aligned (fragments b)" and v: "pool_step w 0 v (nfrags b)"
    and w': "ip_input iss b (v\<lparr>METRICS := (METRICS v)\<lparr>packets_received := packets_received (METRICS w) + 1\<rparr>\<rparr>) = Some w'"
    by (auto simp: packet_receive_def elim!: returnsE)
  have "tcp_keeps 0 w (nfrags b) v"
    by (rule net_keeps [OF pool_net_step [OF v]])
  also have "tcp_keeps (nfrags b) v (nfrags b) (v\<lparr>METRICS := (METRICS v)\<lparr>packets_received := packets_received (METRICS w) + 1\<rparr>\<rparr>)"
    by (rule metrics_keeps) simp_all
  finally have start: "tcp_keeps 0 w (nfrags b) (v\<lparr>METRICS := (METRICS v)\<lparr>packets_received := packets_received (METRICS w) + 1\<rparr>\<rparr>)" .
  have "length (contents b) \<le> MAX_PAYLOAD"
    using b(2) by (simp add: MRU_def MAX_PAYLOAD_eq)
  from wheneverD [OF ip_input_keeps [OF b(1,3) this tcp_keeps_ok [OF start assms(3)]] w'] start
  show "tcp_keeps 0 w 0 w'"
    by (blast intro: tcp_keeps_trans)
qed

section \<open>Interleavings\<close>

text \<open>
  The threads of the program, interleaved where they release their locks. The state of the system is the
  closure that the timer thread has taken off the list and not yet run, the keys that calls of
  \<open>tcp_close\<close> and the closure of \<open>TimeWait\<close> have yet to take out of the port map, the sockets that calls of \<open>tcp_open\<close> have yet to
  connect, and the world.
\<close>

type_synonym 'a sys = "callback option \<times> SocketKey list \<times> nat list \<times> 'a tcp_world_scheme"

datatype event = Receive bytes | Fire callback | Run callback | Clock u64
  | Udp_open u16 | Udp_send nat IPAddr u16 bytes | Udp_recv nat
  | Open_insert IPAddr u16 | Open_connect nat | Listen_on u16 | Accept nat | Close nat | Unmap SocketKey
  | Read nat | Write nat bytes | Write_on nat bytes nat

inductive stack_step :: "event \<Rightarrow> 'a sys \<Rightarrow> 'a sys \<Rightarrow> bool" where
  receive_step: "delivers readv frame \<Longrightarrow> frame \<noteq> [] \<Longrightarrow>
    packet_receive readv iss w = Some w' \<Longrightarrow> stack_step (Receive frame) (c, ks, os, w) (c, ks, os, w')"
| fire_step: "PENDING_TIMERS w = us @ t # vs \<Longrightarrow> due (clock_ms w) t \<Longrightarrow> closure t = Some cb \<Longrightarrow>
    stack_step (Fire cb) (None, ks, os, w) (Some cb, ks, os, w\<lparr>PENDING_TIMERS := us @ vs\<rparr>)"
| run_step: "run_callback cb w = Some w' \<Longrightarrow> stack_step (Run cb) (Some cb, ks, os, w) (None, ks, os, w')"
| time_wait_step: "time_wait_socket r w = Some (k, w') \<Longrightarrow>
    stack_step (Run (Time_wait_timeout r)) (Some (Time_wait_timeout r), us @ vs, os, w) (None, us @ k # vs, os, w')"
| clock_step: "clock_ms w \<le> t \<Longrightarrow> stack_step (Clock t) (c, ks, os, w) (c, ks, os, w\<lparr>clock_ms := t\<rparr>)"
| udp_open_step: "udp_open p w = (res, w') \<Longrightarrow> stack_step (Udp_open p) (c, ks, os, w) (c, ks, os, w')"
| udp_send_step: "wf_ip dest \<Longrightarrow> length bs < 2 ^ 63 \<Longrightarrow> udp_send r dest dp bs w = Some (res, w') \<Longrightarrow>
    stack_step (Udp_send r dest dp bs) (c, ks, os, w) (c, ks, os, w')"
| udp_recv_step: "udp_recv r dest w = Some (res, w') \<Longrightarrow> stack_step (Udp_recv r) (c, ks, os, w) (c, ks, os, w')"
| open_insert_step: "wf_ip rip \<Longrightarrow> tcp_open_insert draws iss rip rport w = Some (r, w') \<Longrightarrow>
    stack_step (Open_insert rip rport) (c, ks, os, w) (c, ks, r # os, w')"
| open_connect_step: "tcp_open_connect r w = Some w' \<Longrightarrow> stack_step (Open_connect r) (c, ks, us @ r # vs, w) (c, ks, us @ vs, w')"
| listen_step: "tcp_listen iss p w = Some (res, w') \<Longrightarrow> stack_step (Listen_on p) (c, ks, os, w) (c, ks, os, w')"
| accept_step: "tcp_accept r w = Some (res, w') \<Longrightarrow> stack_step (Accept r) (c, ks, os, w) (c, ks, os, w')"
| close_socket_step: "tcp_close_socket r w = Some (key, w') \<Longrightarrow>
    stack_step (Close r) (c, ks, os, w) (c, (case key of None \<Rightarrow> ks | Some k \<Rightarrow> k # ks), os, w')"
| unmap_step: "stack_step (Unmap k) (c, us @ k # vs, os, w) (c, us @ vs, os, tcp_unmap k w)"
| read_step: "tcp_read r dest w = Some (res, w') \<Longrightarrow> stack_step (Read r) (c, ks, os, w) (c, ks, os, w')"
| write_step: "tcp_write r bs w = Some (res, w') \<Longrightarrow> stack_step (Write r bs) (c, ks, os, w) (c, ks, os, w')"
| write_on_step: "tcp_write_resume r bs offset w = Some (res, w') \<Longrightarrow> stack_step (Write_on r bs offset) (c, ks, os, w) (c, ks, os, w')"

inductive_cases receive_stepE: "stack_step (Receive frame) s s'"
inductive_cases run_stepE: "stack_step (Run cb) s s'"
inductive_cases close_stepE: "stack_step (Close r) s s'"
inductive_simps clock_step_simp: "stack_step (Clock t) (c, ks, os, w) s'"

text \<open>The world when the program starts: no sockets, no timers, an empty pool, a TUN device that takes every frame.\<close>

definition boot_world :: "(bytes list \<Rightarrow> bytes list \<Rightarrow> int) \<Rightarrow> u64 \<Rightarrow> tcp_world" where
  "boot_world writev now =
     \<lparr>free_list = [], METRICS = METRICS_init, tun_out = [], tun_writev = writev,
      LOCAL_IPV4 = IPAddr_new, LOCAL_IPV6 = IPAddr_new, NEXT_PACKET_ID = 0,
      UDP_PORT_MAP = Map.empty, udp_sockets = [],
      PENDING_TIMERS = [], NEXT_TIMER_ID = 1, clock_ms = now,
      TCP_PORT_MAP = Map.empty, tcp_sockets = []\<rparr>"

inductive reachable :: "unit sys \<Rightarrow> bool" where
  boot_step: "link_up (boot_world writev now) \<Longrightarrow> init_netstack (boot_world writev now) = Some w \<Longrightarrow> reachable (None, [], [], w)"
| step_step: "reachable s \<Longrightarrow> stack_step ev s s' \<Longrightarrow> reachable s'"

definition sys_ok :: "'a sys \<Rightarrow> bool" where
  "sys_ok = (\<lambda>(c, ks, os, w). tcp_ok w \<and> tcp_balanced w 0 \<and>
     (\<forall>cb. c = Some cb \<longrightarrow> callback_socket cb < length (tcp_sockets w)))"

lemma keeps_sys_ok: "tcp_keeps 0 w 0 w' \<Longrightarrow> sys_ok (c, ks, os, w) \<Longrightarrow> sys_ok (c, ks', os', w')"
  by (fastforce simp: sys_ok_def tcp_keeps_def)

lemma whenever_sys_ok:
  "whenever m (\<lambda>(res, w'). tcp_keeps 0 w 0 w') \<Longrightarrow> m = Some (res, w') \<Longrightarrow> sys_ok (c, ks, os, w) \<Longrightarrow> sys_ok (c, ks', os', w')"
  by (auto intro: keeps_sys_ok dest: wheneverD)

lemma idle_ok: "sys_ok (c, ks, os, w) \<Longrightarrow> sys_ok (None, ks, os, w)"
  by (simp add: sys_ok_def)

lemma sys_ok_world: "sys_ok (c, ks, os, w) \<Longrightarrow> tcp_ok w"
  by (simp add: sys_ok_def)

lemma fire_ok:
  assumes "sys_ok (c, ks, os, w)" and "PENDING_TIMERS w = us @ t # vs" and "closure t = Some cb"
  shows "sys_ok (Some cb, ks, os, w\<lparr>PENDING_TIMERS := us @ vs\<rparr>)"
  using assms
  by (auto simp: sys_ok_def tcp_ok_def udp_ok_def net_ok_def pool_ok_def link_up_def tcp_balanced_def udp_balanced_def
      balanced_def udp_held_def tcp_held_def timer_of_def)

lemma clock_keeps: "tcp_keeps n w n (w\<lparr>clock_ms := t\<rparr>)"
  by (simp add: tcp_keeps_def udp_follows_same tcp_ok_def udp_ok_def net_ok_def pool_ok_def link_up_def tcp_balanced_def udp_balanced_def
      balanced_def udp_held_def tcp_held_def)

lemma stack_step_ok: "stack_step ev s s' \<Longrightarrow> sys_ok s \<Longrightarrow> sys_ok s'"
proof (induction rule: stack_step.induct)
  case (receive_step readv frame iss w w' c ks os)
  then show ?case
    by (blast intro: keeps_sys_ok wheneverD [OF packet_receive_keeps] sys_ok_world)
next
  case (run_step cb w w' ks os)
  then show ?case
    by (blast intro: keeps_sys_ok idle_ok wheneverD [OF run_callback_keeps])
next
  case (time_wait_step r w k w' us vs os)
  then show ?case
    by (blast intro: whenever_sys_ok time_wait_socket_keeps idle_ok)
next
  case (udp_send_step dest bs r dp w res w' c ks os)
  then have "udp_keeps 0 w 0 w'"
    using wheneverD [OF udp_send_keeps [of w dest bs r dp]] by (auto simp: sys_ok_def tcp_ok_def)
  with udp_send_step show ?case
    by (blast intro: keeps_sys_ok udp_keeps_tcp)
next
  case (udp_recv_step r dest w res w' c ks os)
  then have "udp_keeps 0 w 0 w'"
    using wheneverD [OF udp_recv_keeps [of w r dest]] by (auto simp: sys_ok_def tcp_ok_def)
  with udp_recv_step show ?case
    by (blast intro: keeps_sys_ok udp_keeps_tcp)
next
  case (udp_open_step p w res w' c ks os)
  then show ?case
    using udp_open_tcp [of w, where p = p] udp_more_tcp(2) [OF udp_open_more [of p w]] by (auto simp: sys_ok_def)
next
  case (fire_step w us t vs cb ks os)
  then show ?case
    by (blast intro: fire_ok)
next
  case (unmap_step k c us vs os w)
  then show ?case
    by (blast intro: keeps_sys_ok unmap_keeps)
next
  case (clock_step w t c ks os)
  then show ?case
    by (blast intro: keeps_sys_ok clock_keeps)
next
  case (open_insert_step rip draws iss rport w r w' c ks os)
  then show ?case
    by (blast intro: whenever_sys_ok tcp_open_insert_keeps)
next
  case (open_connect_step r w w' c ks us vs)
  then show ?case
    by (blast intro: keeps_sys_ok wheneverD [OF tcp_open_connect_keeps])
next
  case (listen_step iss p w res w' c ks os)
  then show ?case
    by (blast intro: whenever_sys_ok tcp_listen_keeps)
next
  case (accept_step r w res w' c ks os)
  then show ?case
    by (blast intro: whenever_sys_ok tcp_accept_keeps)
next
  case (close_socket_step r w key w' c ks os)
  then show ?case
    by (blast intro: whenever_sys_ok tcp_close_socket_keeps)
next
  case (read_step r dest w res w' c ks os)
  then show ?case
    by (blast intro: whenever_sys_ok tcp_read_keeps)
next
  case (write_step r bs w res w' c ks os)
  then show ?case
    by (blast intro: whenever_sys_ok tcp_write_keeps)
next
  case (write_on_step r bs offset w res w' c ks os)
  then show ?case
    by (blast intro: whenever_sys_ok tcp_write_keeps)
qed

lemma boot_ok:
  assumes "link_up (boot_world writev now)" and "init_netstack (boot_world writev now) = Some w"
  shows "sys_ok (None, [], [], w)"
  using assms
  by (auto simp: sys_ok_def init_netstack_def netif_init_def new_from_def new_v4_def new_v6_def boot_world_def tcp_ok_def
      udp_ok_def net_ok_def link_up_def pool_ok_def tcp_balanced_def udp_balanced_def balanced_def tcp_held_def udp_held_def
      METRICS_init_def PerfCounter_new_def) blast

lemma reachable_ok: "reachable s \<Longrightarrow> sys_ok s"
  by (induction rule: reachable.induct) (auto intro: boot_ok stack_step_ok)

section \<open>Properties\<close>

text \<open>A state for the witnesses: a program that has just listened on port 80.\<close>

definition listening_world :: tcp_world where
  "listening_world = the (do {
     w \<leftarrow> init_netstack (boot_world (\<lambda>sent vecs. int (length (concat vecs))) 1000);
     (res, w) \<leftarrow> tcp_listen 5 80 w;
     Some w
   })"

lemma listening_world_reachable: "reachable (None, [], [], listening_world)"
  and listening_world_fields: "tcp_sockets listening_world = [set_state Listen (TCPSocketState_new 5 IPAddr_new 0 80)]"
    "TCP_PORT_MAP listening_world = [(IPAddr_new, 0, 80) \<mapsto> 0]" "clock_ms listening_world = 1000"
    "LOCAL_IPV4 listening_world = V4 [10, 0, 0, 2]" "tun_out listening_world = []"
proof -
  define b where "b = boot_world (\<lambda>sent vecs. int (length (concat vecs))) 1000"
  define w where "w = b\<lparr>LOCAL_IPV4 := V4 [10, 0, 0, 2], LOCAL_IPV6 := V6 [0xfe, 0x80, 0, 0, 0, 0, 0, 0, 0, 0, 0, 0, 0, 0, 0, 2]\<rparr>"
  have up: "link_up b" and init: "init_netstack b = Some w"
    by (simp_all add: b_def boot_world_def link_up_def init_netstack_def netif_init_def new_from_def new_v4_def new_v6_def w_def)
  define v where "v = w\<lparr>tcp_sockets := [set_state Listen (TCPSocketState_new 5 IPAddr_new 0 80)],
    TCP_PORT_MAP := [(IPAddr_new, 0, 80) \<mapsto> 0]\<rparr>"
  have listen: "tcp_listen 5 80 w = Some (Inr 0, v)"
    by (simp add: tcp_listen_def TCPSocket_new_def get_socket_def put_socket_def w_def b_def boot_world_def v_def)
  have v: "listening_world = v"
    using init listen by (simp add: listening_world_def b_def)
  have "stack_step (Listen_on 80) (None, [], [], w) (None, [], [], v)"
    by (rule stack_step.listen_step [OF listen])
  then show "reachable (None, [], [], listening_world)"
    unfolding v by (rule reachable.step_step [OF reachable.boot_step [OF up [unfolded b_def] init [unfolded b_def]]])
  show "tcp_sockets listening_world = [set_state Listen (TCPSocketState_new 5 IPAddr_new 0 80)]"
    "TCP_PORT_MAP listening_world = [(IPAddr_new, 0, 80) \<mapsto> 0]" "clock_ms listening_world = 1000"
    "LOCAL_IPV4 listening_world = V4 [10, 0, 0, 2]" "tun_out listening_world = []"
    unfolding v by (simp_all add: v_def w_def b_def boot_world_def)
qed

text \<open>
  C6: Whatever the threads of the program do, in whatever order, and whatever frames arrive: a port that
  is mapped to a socket is mapped to one that exists and has this key, the buffers of every socket and
  of the pool are well formed, connections in the queue of a listener exist, the maximum segment size is
  a 16-bit number, and every pending timer, and the one that has been taken off the list, calls back a
  socket that exists.
\<close>

theorem reachable_well_formed:
  assumes "reachable (c, ks, os, w)"
  shows "(\<forall>key r. TCP_PORT_MAP w key = Some r \<longrightarrow> r < length (tcp_sockets w) \<and>
      (let s = tcp_sockets w ! r in (remote_ip s, remote_port s, local_port s) = key)) \<and>
    (\<forall>s \<in> set (tcp_sockets w). wf_ip (remote_ip s) \<and> wf_buf (receive_queue s) \<and> wf_buf (retransmit_queue s) \<and>
      (\<forall>e \<in> set (out_of_order (reassembler s)). wf_buf (snd e)) \<and> send_mss s \<le> 0xffff \<and>
      (\<forall>q \<in> set (socket_queue s). q < length (tcp_sockets w))) \<and>
    (\<forall>p r. UDP_PORT_MAP w p = Some r \<longrightarrow> r < length (udp_sockets w) \<and> port (udp_sockets w ! r) = p) \<and>
    (\<forall>s \<in> set (udp_sockets w). \<forall>e \<in> set (UDPSocketState.receive_queue s). wf_buf (snd (snd e))) \<and>
    (\<forall>f \<in> set (free_list w). length (data f) = FRAGMENT_SIZE) \<and>
    (\<forall>t \<in> set (PENDING_TIMERS w). \<exists>cb. closure t = Some cb \<and> callback_socket cb < length (tcp_sockets w)) \<and>
    (\<forall>cb. c = Some cb \<longrightarrow> callback_socket cb < length (tcp_sockets w))"
  using reachable_ok [OF assms]
  by (fastforce simp: sys_ok_def tcp_ok_def udp_ok_def net_ok_def pool_ok_def socket_ok_def socket_key_def timer_of_def Let_def)

theorem reachable_well_formed_witness:
  "\<exists>r. TCP_PORT_MAP listening_world (IPAddr_new, 0, 80) = Some r \<and> r < length (tcp_sockets listening_world) \<and>
     wf_buf (receive_queue (tcp_sockets listening_world ! r))"
  using reachable_well_formed [OF listening_world_reachable] by (auto simp: listening_world_fields)

text \<open>
  C4: No fragment is ever lost or freed twice: in every reachable state the fragments that are allocated
  and not freed are those in the queues of the sockets, and all that were ever created are these and the
  ones in the pool.
\<close>

theorem reachable_balanced:
  assumes "reachable (c, ks, os, w)"
  shows "buffers_allocated (METRICS w) - buffers_freed (METRICS w) =
      of_nat (sum_list (map (\<lambda>s. sum_list (map (\<lambda>e. nfrags (snd (snd e))) (UDPSocketState.receive_queue s))) (udp_sockets w)) +
        sum_list (map (\<lambda>s. nfrags (receive_queue s) + nfrags (retransmit_queue s) + waiting (reassembler s)) (tcp_sockets w))) \<and>
    buffers_created (METRICS w) =
      of_nat (length (free_list w)) + (buffers_allocated (METRICS w) - buffers_freed (METRICS w))"
  using reachable_ok [OF assms]
  by (simp add: sys_ok_def tcp_balanced_def udp_balanced_def balanced_def tcp_held_def udp_held_def held_def [abs_def] queued_def [abs_def]
      add.commute)

theorem reachable_balanced_witness:
  "buffers_created (METRICS listening_world) = of_nat (length (free_list listening_world))"
proof -
  obtain s where s: "tcp_sockets listening_world = [s]" "held s = 0"
    by (simp add: listening_world_fields held_def set_state_def TCPSocketState_new_def waiting_def TCPReassembler_new_def)
  have udp: "udp_sockets listening_world = []"
    by (simp add: listening_world_def boot_world_def init_netstack_def netif_init_def new_from_def new_v4_def new_v6_def
        tcp_listen_def TCPSocket_new_def get_socket_def put_socket_def)
  show ?thesis
    using reachable_balanced [OF listening_world_reachable] s by (simp add: udp held_def)
qed

end
