(* ===== verification/Receive.thy ===== *)
theory Receive
  imports Stack_Invariant
begin

text \<open>
  Two stacks on one link: what one of them sends, the other one receives. The lemmas follow a datagram
  from \<open>ip_output\<close> of the sender through \<open>recv_packet\<close> and \<open>ip_input\<close> of the receiver to the transport
  protocol.
\<close>

section \<open>Datagrams\<close>

lemma ip_input_v4_delivers:
  assumes "wf_buf b" and "contents b = ipv4_header len ident proto (ipv4_checksum len ident proto src dst) src dst @ payload"
    and "length src = 4" and "length dst = 4" and "20 \<le> length (head_bytes b)"
  shows "ip_input iss b w = do { (p, u) \<leftarrow> trim_head 20 b w; ip_input_common iss p proto (V4 src) u }"
proof -
  define c where "c = ipv4_checksum len ident proto src dst"
  define h where "h = ipv4_header len ident proto c src dst"
  have "fragments b \<noteq> []"
    using assms(2) by (auto simp: ipv4_header_def contents_def)
  then have head: "header b = Some (head_bytes b)" and "\<exists>tail. head_bytes b = h @ tail"
    using header_Some [OF assms(1)] head_bytes_prefix [of b h payload] assms(2-5)
    by (simp_all add: h_def c_def length_ipv4_header)
  then obtain tail where tail: "head_bytes b = h @ tail"
    by blast
  obtain l0 l1 i0 i1 c0 c1 where w: "be16 len = [l0, l1]" "be16 ident = [i0, i1]" "be16 c = [c0, c1]"
    by (simp add: be16_def)
  obtain s0 s1 s2 s3 d0 d1 d2 d3 where o: "src = [s0, s1, s2, s3]" "dst = [d0, d1, d2, d3]"
    using assms(3,4) by (auto simp: length_Suc_conv numeral_eq_Suc)
  have h: "h = [0x45, 0, l0, l1, i0, i1, 0, 0, DEFAULT_TTL, proto, c0, c1, s0, s1, s2, s3, d0, d1, d2, d3]"
    by (simp add: h_def ipv4_header_def w o)
  have "compute_checksum h = Some 0"
    using ipv4_header_checksum [OF assms(3,4), of len ident proto] compute_checksum_eq [of h]
    by (simp add: h_def c_def [symmetric] length_ipv4_header assms(3,4)) (simp add: ipv4_header_def)
  moreover have "index (h @ tail) 0 = Some 0x45" "index (h @ tail) 9 = Some proto"
    "subslice 0 20 (h @ tail) = Some h" "subslice 6 8 (h @ tail) = Some [0, 0]" "subslice 12 16 (h @ tail) = Some src"
    by (simp_all add: h index_def subslice_def o)
  moreover have "drop_bit 4 (0x45 :: u8) = 4" "unat ((0x45 :: u8) AND 0xf) * 4 = 20"
    by code_simp+
  moreover have "get_be16 [0, 0] = Some 0"
    by (simp add: get_be16_def from_be_bytes_def)
  ultimately show ?thesis
    using assms(3) by (simp add: ip_input_def ip_input_v4_def head tail new_from_def new_v4_def)
qed

lemma ip_input_v6_delivers:
  assumes "wf_buf b" and "contents b = ipv6_header len proto src dst @ payload"
    and "length src = 16" and "length dst = 16" and "40 \<le> length (head_bytes b)"
  shows "ip_input iss b w = do { (p, u) \<leftarrow> trim_head 40 b w; ip_input_common iss p proto (V6 src) u }"
proof -
  define h where "h = ipv6_header len proto src dst"
  have "fragments b \<noteq> []"
    using assms(2) by (auto simp: ipv6_header_def contents_def)
  then have head: "header b = Some (head_bytes b)" and "\<exists>tail. head_bytes b = h @ tail"
    using header_Some [OF assms(1)] head_bytes_prefix [of b h payload] assms(2-5)
    by (simp_all add: h_def length_ipv6_header)
  then obtain tail where tail: "head_bytes b = h @ tail"
    by blast
  obtain l0 l1 where w: "be16 len = [l0, l1]"
    by (simp add: be16_def)
  have h: "h = [0x60, 0, 0, 0, l0, l1, proto, DEFAULT_TTL] @ src @ dst"
    by (simp add: h_def ipv6_header_def w)
  have "index (h @ tail) 0 = Some 0x60" "index (h @ tail) 6 = Some proto"
    "subslice 8 24 (h @ tail) = Some src"
    using assms(3,4) by (simp_all add: h index_def subslice_def)
  moreover have "drop_bit 4 (0x60 :: u8) = 6"
    by code_simp
  ultimately show ?thesis
    using assms(3) by (simp add: ip_input_def ip_input_v6_def head tail new_from_def new_v6_def IPV6_HEADER_LEN_def)
qed

lemma trim_head_head:
  assumes "trim_head n b w = Some (p, u)" and "wf_buf b" and "n < length (head_bytes b)" and "fragments b \<noteq> []"
  shows "head_bytes p = drop n (head_bytes b)" "fragments p \<noteq> []"
proof -
  obtain f fs where fs: "fragments b = f # fs"
    using assms(4) by (cases "fragments b") auto
  then have "n < frag_len f"
    using assms(3) wf_buf_frags [OF assms(2)] by (simp add: head_bytes_def length_frag_bytes)
  then have "fragments p = f\<lparr>range_start := range_start f + n\<rparr> # fs"
    using assms(1) fs by (cases "n = 0") (auto simp: trim_head_def bind_eq_Some_conv)
  then show "head_bytes p = drop n (head_bytes b)" "fragments p \<noteq> []"
    using fs by (simp_all add: head_bytes_def frag_bytes_def frag_len_def drop_take add.commute)
qed

lemma pool_step_more:
  assumes "pool_step w n w' n'"
  shows "buf_world.more w' = buf_world.more w" "packets_received (METRICS w') = packets_received (METRICS w)"
    "packets_sent (METRICS w') = packets_sent (METRICS w)"
  using assms by (cases w; cases w'; simp add: pool_step_def only_pool_def)+

text \<open>What receiving a packet of \<open>n\<close> fragments has done to the world before the transport protocol sees it.\<close>

definition received :: "'a tcp_world_scheme \<Rightarrow> nat \<Rightarrow> 'a tcp_world_scheme \<Rightarrow> bool" where
  "received w n u \<longleftrightarrow> buf_world.more u = buf_world.more w \<and> (pool_ok w \<longrightarrow> pool_ok u) \<and>
     (\<forall>k. balanced w k \<longrightarrow> balanced u (k + n)) \<and>
     packets_received (METRICS u) = packets_received (METRICS w) + 1 \<and> packets_sent (METRICS u) = packets_sent (METRICS w)"

lemma received_fields:
  assumes "received w n u"
  shows "tun_out u = tun_out w" "LOCAL_IPV4 u = LOCAL_IPV4 w" "LOCAL_IPV6 u = LOCAL_IPV6 w" "tun_writev u = tun_writev w"
    "NEXT_PACKET_ID u = NEXT_PACKET_ID w"
    "UDP_PORT_MAP u = UDP_PORT_MAP w" "udp_sockets u = udp_sockets w" "PENDING_TIMERS u = PENDING_TIMERS w"
    "NEXT_TIMER_ID u = NEXT_TIMER_ID w" "clock_ms u = clock_ms w"
    "TCP_PORT_MAP u = TCP_PORT_MAP w" "tcp_sockets u = tcp_sockets w"
proof -
  have "u = w\<lparr>free_list := free_list u, METRICS := METRICS u\<rparr>"
    using assms by (intro buf_world.equality) (simp_all add: received_def)
  then obtain fl m where u: "u = w\<lparr>free_list := fl, METRICS := m\<rparr>"
    by blast
  show "tun_out u = tun_out w" "LOCAL_IPV4 u = LOCAL_IPV4 w" "LOCAL_IPV6 u = LOCAL_IPV6 w" "tun_writev u = tun_writev w"
    "NEXT_PACKET_ID u = NEXT_PACKET_ID w"
    "UDP_PORT_MAP u = UDP_PORT_MAP w" "udp_sockets u = udp_sockets w" "PENDING_TIMERS u = PENDING_TIMERS w"
    "NEXT_TIMER_ID u = NEXT_TIMER_ID w" "clock_ms u = clock_ms w"
    "TCP_PORT_MAP u = TCP_PORT_MAP w" "tcp_sockets u = tcp_sockets w"
    by (simp_all add: u)
qed

lemma received_ok:
  assumes "received w n u"
  shows "net_ok w \<Longrightarrow> net_ok u" "udp_ok w \<Longrightarrow> udp_ok u" "tcp_ok w \<Longrightarrow> tcp_ok u"
  using assms received_fields [OF assms]
  by (simp_all add: net_ok_def udp_ok_def tcp_ok_def link_up_def received_def)

lemma packet_receive_delivers:
  assumes "net_ok v" and "wf_ip dest" and "net_ok w" and "delivers readv (ip_datagram v proto dest payload)"
    and "payload \<noteq> []"
  obtains p u where "packet_receive readv iss w = ip_input_common iss p proto (local_for v dest) u"
    and "wf_buf p" and "contents p = take (MRU - ip_header_len dest) payload" and "aligned (fragments p)" and "fragments p \<noteq> []"
    and "length (head_bytes p) = min (FRAGMENT_SIZE - ip_header_len dest) (length payload)"
    and "received w (nfrags p) u"
proof -
  define frame where "frame = ip_datagram v proto dest payload"
  define h where "h = ip_header_len dest"
  define payload' where "payload' = take (MRU - h) payload"
  have h: "even h" "h < FRAGMENT_SIZE" "0 < h" "h < MRU"
    by (simp_all add: h_def ip_header_len_def IPV4_BASE_HEADER_LEN_def IPV6_HEADER_LEN_def FRAGMENT_SIZE_def MRU_def)
  have frame: "drop h frame = payload"
    using ip_datagram_payload [OF assms(1,2)] by (simp add: h_def frame_def)
  have len: "length frame = h + length payload"
  proof (cases dest)
    case (V4 d)
    then show ?thesis
      using assms(1,2) by (cases "LOCAL_IPV4 v")
        (simp_all add: frame_def ip_datagram_def net_ok_def length_ipv4_header h_def ip_header_len_def IPV4_BASE_HEADER_LEN_def Let_def)
  next
    case (V6 d)
    then show ?thesis
      using assms(1,2) by (cases "LOCAL_IPV6 v")
        (simp_all add: frame_def ip_datagram_def net_ok_def length_ipv6_header h_def ip_header_len_def IPV6_HEADER_LEN_def Let_def)
  qed
  obtain b x where run: "recv_packet readv w = Some (b, x\<lparr>METRICS := (METRICS x)\<lparr>packets_received := packets_received (METRICS w) + 1\<rparr>\<rparr>)"
    and b: "wf_buf b" "contents b = take MRU frame" "aligned (fragments b)" "length (head_bytes b) = min FRAGMENT_SIZE (length frame)"
    and x: "pool_step w 0 x (nfrags b)"
    using recv_packet_returns [OF assms(3), of readv frame] assms(4,5) len h(3) ip_datagram_nonempty [of v proto dest payload]
    by (auto simp: frame_def [symmetric] h_def [symmetric] elim!: returnsE)
  define y where "y = x\<lparr>METRICS := (METRICS x)\<lparr>packets_received := packets_received (METRICS w) + 1\<rparr>\<rparr>"
  have "0 < length payload"
    using assms(5) by simp
  then have short: "h < length (head_bytes b)"
    using h(2) by (simp add: b(4) len)
  have ne: "fragments b \<noteq> []"
    using b(2) len h(3,4) by (auto simp: contents_def)
  have front: "take MRU frame = take h frame @ payload'"
    using take_add [of h "MRU - h" frame] h(4) frame by (simp add: payload'_def)
  obtain p u where trim: "trim_head h b y = Some (p, u)" and p: "wf_buf p" "contents p = payload'" "pool_step y (nfrags b) u (nfrags p)"
    using trim_head_returns [OF b(1), of h y] len by (auto simp: b(2) front elim!: returnsE)
  have "ip_input iss b y = do { (p, u) \<leftarrow> trim_head h b y; ip_input_common iss p proto (local_for v dest) u }"
  proof (cases dest)
    case (V4 d)
    obtain s where s: "LOCAL_IPV4 v = V4 s" "length s = 4"
      using assms(1) by (cases "LOCAL_IPV4 v") (simp_all add: net_ok_def)
    have "contents b = ipv4_header (of_nat (20 + length payload)) (NEXT_PACKET_ID v) proto
        (ipv4_checksum (of_nat (20 + length payload)) (NEXT_PACKET_ID v) proto s d) s d @ payload'"
      using assms(2) s(2) unfolding b(2) front
      by (simp add: frame_def ip_datagram_def V4 s Let_def IPV4_BASE_HEADER_LEN_def length_ipv4_header h_def ip_header_len_def)
    from ip_input_v4_delivers [OF b(1) this s(2)] show ?thesis
      using assms(2) short V4 s(1) by (simp add: h_def ip_header_len_def IPV4_BASE_HEADER_LEN_def local_for_def)
  next
    case (V6 d)
    obtain s where s: "LOCAL_IPV6 v = V6 s" "length s = 16"
      using assms(1) by (cases "LOCAL_IPV6 v") (simp_all add: net_ok_def)
    have "contents b = ipv6_header (of_nat (length payload)) proto s d @ payload'"
      using assms(2) s(2) unfolding b(2) front
      by (simp add: frame_def ip_datagram_def V6 s length_ipv6_header h_def ip_header_len_def IPV6_HEADER_LEN_def)
    from ip_input_v6_delivers [OF b(1) this s(2)] show ?thesis
      using assms(2) short V6 s(1) by (simp add: h_def ip_header_len_def IPV6_HEADER_LEN_def local_for_def)
  qed
  then have "packet_receive readv iss w = ip_input_common iss p proto (local_for v dest) u"
    by (simp add: packet_receive_def run y_def [symmetric] trim)
  moreover have "aligned (fragments p)"
    by (rule aligned_trim_head [OF trim h(1) b(3)])
  moreover have "fragments p \<noteq> []" "length (head_bytes p) = min (FRAGMENT_SIZE - h) (length payload)"
    using trim_head_head [OF trim b(1) short ne] by (simp_all add: b(4) len)
  moreover have "received w (nfrags p) u"
  proof -
    have "balanced u (k + nfrags p)" if "balanced w k" for k
    proof -
      have "balanced y (k + nfrags b)"
        using x that by (simp add: pool_step_def balanced_def y_def)
      then show ?thesis
        using p(3) by (simp add: pool_step_def)
    qed
    moreover have "buf_world.more u = buf_world.more y" "buf_world.more y = buf_world.more w"
      "packets_received (METRICS u) = packets_received (METRICS y)" "packets_sent (METRICS u) = packets_sent (METRICS w)"
      using pool_step_more [OF p(3)] pool_step_more [OF x] by (simp_all add: y_def)
    moreover have "pool_ok y = pool_ok x"
      by (simp add: y_def pool_ok_def)
    then have "pool_ok w \<longrightarrow> pool_ok u"
      using net_step_ok [OF pool_net_step [OF p(3)]] net_step_ok [OF pool_net_step [OF x]] by blast
    ultimately show ?thesis
      by (simp add: received_def y_def)
  qed
  ultimately show ?thesis
    using that p(1,2) by (simp add: h_def payload'_def)
qed

section \<open>UDP\<close>

text \<open>The header of a datagram, as the receiver reads it.\<close>

lemma udp_segment_layout:
  "\<exists>rest. udp_segment src dst sp dp body = be16 sp @ be16 dp @ rest \<and> drop 4 rest = body \<and> 4 \<le> length rest"
  by (simp add: udp_segment_def udp_header_def be16_def)

text \<open>The receiver has room for \<open>MRU\<close> octets; of a longer datagram it gets the front.\<close>

definition room_for :: "IPAddr \<Rightarrow> nat" where
  "room_for dest = MRU - ip_header_len dest - 8"

lemma udp_datagram_delivered:
  assumes "net_ok v" and "wf_ip dest" and "tcp_ok w"
    and "delivers readv (ip_datagram v PROTO_UDP dest (udp_segment (local_for v dest) dest sp dp bs))"
  shows "returns (packet_receive readv iss w) (\<lambda>w'. tcp_ok w' \<and>
     (\<forall>q. inbox q w' = delivered dp (local_for v dest, sp, take (room_for dest) bs) q w) \<and> tcp_sockets w' = tcp_sockets w \<and>
     (\<forall>k. tcp_balanced w k \<longrightarrow> tcp_balanced w' k))"
proof -
  define seg where "seg = udp_segment (local_for v dest) dest sp dp bs"
  obtain rest where rest: "seg = be16 sp @ be16 dp @ rest" "drop 4 rest = bs" "4 \<le> length rest"
    using udp_segment_layout [of "local_for v dest" dest sp dp bs] by (auto simp: seg_def)
  have len: "length seg = 8 + length bs"
    using rest by (auto simp: be16_def)
  have ne: "seg \<noteq> []"
    using len by auto
  obtain rest' where rest': "take (MRU - ip_header_len dest) seg = be16 sp @ be16 dp @ rest'" "drop 4 rest' = take (room_for dest) bs" "4 \<le> length rest'"
  proof -
    define k where "k = MRU - ip_header_len dest - 4"
    have k: "4 \<le> k" "MRU - ip_header_len dest = 4 + k" "room_for dest = k - 4"
      by (simp_all add: k_def room_for_def ip_header_len_def IPV4_BASE_HEADER_LEN_def IPV6_HEADER_LEN_def MRU_def)
    show ?thesis
      using rest k by (intro that [of "take k rest"]) (auto simp: be16_def drop_take numeral_eq_Suc)
  qed
  have ok: "udp_ok w" "net_ok w"
    using assms(3) by (simp_all add: tcp_ok_def udp_ok_def)
  obtain p u where run: "packet_receive readv iss w = ip_input_common iss p PROTO_UDP (local_for v dest) u"
    and p: "wf_buf p" "contents p = take (MRU - ip_header_len dest) seg" "aligned (fragments p)" "fragments p \<noteq> []"
      "length (head_bytes p) = min (FRAGMENT_SIZE - ip_header_len dest) (length seg)"
    and u: "received w (nfrags p) u"
    by (rule packet_receive_delivers [OF assms(1,2) ok(2) assms(4) [folded seg_def] ne])
  note fields = received_fields [OF u]
  have "4 \<le> length (head_bytes p)"
    by (simp add: p(5) len ip_header_len_def FRAGMENT_SIZE_def IPV4_BASE_HEADER_LEN_def IPV6_HEADER_LEN_def)
  from udp_input_returns [OF received_ok(2) [OF u ok(1)] p(1) this p(4) _ p(2) [unfolded rest'(1)], of "local_for v dest"] rest'(1,3) p(2)
  obtain w' where w': "udp_input p (local_for v dest) u = Some w'" "udp_ok w'" "udp_world.more w' = udp_world.more u"
    and box: "\<And>q. inbox q w' = delivered dp (local_for v dest, sp, take (room_for dest) bs) q u"
    and bal: "\<And>k. udp_balanced u (k + nfrags p) \<Longrightarrow> udp_balanced w' k"
    by (auto simp: rest'(2) be16_def elim!: returnsE)
  have "wf_ip (local_for v dest)"
    using assms(1) by (simp add: local_for_def net_ok_def)
  then have keeps: "tcp_keeps (nfrags p) u 0 w'"
    using bal w'(2,3) wheneverD [OF udp_input_follows [OF p(1)] w'(1)]
    by (intro udp_keeps_tcp) (simp add: udp_keeps_def)
  have bal_u: "tcp_balanced u (k + nfrags p)" if "tcp_balanced w k" for k
  proof -
    have "balanced w (k + tcp_held w + udp_held w)"
      using that by (simp add: tcp_balanced_def udp_balanced_def ac_simps)
    then have "balanced u (k + tcp_held w + udp_held w + nfrags p)"
      using u unfolding received_def by blast
    then show ?thesis
      by (simp add: tcp_balanced_def udp_balanced_def tcp_held_def udp_held_def fields ac_simps)
  qed
  have "packet_receive readv iss w = Some w'"
    using w'(1) by (simp add: run ip_input_common_def PROTO_UDP_def PROTO_TCP_def PROTO_ICMPV4_def PROTO_ICMPV6_def)
  moreover have "tcp_ok w'" "\<forall>k. tcp_balanced w k \<longrightarrow> tcp_balanced w' k"
    using keeps received_ok(3) [OF u assms(3)] bal_u by (simp_all add: tcp_keeps_def)
  moreover have "tcp_sockets w' = tcp_sockets w"
    using w'(3) fields(12) by (cases w'; cases u) simp
  moreover have "delivered dp m q u = delivered dp m q w" for m q
    by (simp add: delivered_def inbox_def fields)
  ultimately show ?thesis
    using box by simp
qed

section \<open>Properties\<close>

text \<open>
  C7: UDP works from end to end. What a socket of one stack sends, up to the 3584 octets that \<open>udp_send\<close>
  accepts, to a bound port of another one ends up behind the messages in the queue of the socket there, with
  the address and the port of the sender: unchanged up to 2020 octets over IPv4 and 2000 over IPv6, which is
  what the receive buffer holds; of a longer datagram the first 2020 or 2000 octets are delivered, as if they
  were all of it. If no socket has the port it is dropped. No other socket sees it, no TCP socket changes, and
  neither of the stacks loses a fragment.
\<close>

theorem udp_end_to_end:
  fixes dp :: u16
  assumes "udp_ok v" and "r < length (udp_sockets v)" and "wf_ip dest" and "length bs \<le> 3584" and "tcp_ok w"
  shows "returns (udp_send r dest dp bs v) (\<lambda>(res, v'). res = Inr () \<and> (\<exists>frame. tun_out v' = tun_out v @ [frame] \<and>
    (\<forall>readv. delivers readv frame \<longrightarrow> returns (packet_receive readv iss w) (\<lambda>w'.
      (\<forall>q. inbox q w' = inbox q w @
        (if UDP_PORT_MAP w dp = Some q
         then [(if is_v4 dest then LOCAL_IPV4 v else LOCAL_IPV6 v, port (udp_sockets v ! r),
                take (if is_v4 dest then 2020 else 2000) bs)] else [])) \<and>
      tcp_ok w' \<and> tcp_sockets w' = tcp_sockets w \<and> (\<forall>k. tcp_balanced w k \<longrightarrow> tcp_balanced w' k)))) \<and>
    (\<forall>k. udp_balanced v k \<longrightarrow> udp_balanced v' k))"
proof -
  define frame where "frame = ip_datagram v PROTO_UDP dest (udp_segment (local_for v dest) dest (port (udp_sockets v ! r)) dp bs)"
  have "length bs < 2 ^ 63" "length bs \<le> MAX_PAYLOAD"
    using assms(4) by (simp_all add: MAX_PAYLOAD_eq)
  then obtain v' where v': "udp_send r dest dp bs v = Some (Inr (), v')" and step: "net_step v 0 [frame] v' 0"
    using udp_send_cases [OF assms(1-3), of bs dp] by (auto simp: frame_def elim!: returnsE)
  have net: "net_ok v"
    using assms(1) by (simp add: udp_ok_def)
  have room: "room_for dest = (if is_v4 dest then 2020 else 2000)"
    by (cases dest) (simp_all add: room_for_def ip_header_len_def IPV4_BASE_HEADER_LEN_def IPV6_HEADER_LEN_def MRU_def)
  have "returns (packet_receive readv iss w) (\<lambda>w'.
      (\<forall>q. inbox q w' = inbox q w @ (if UDP_PORT_MAP w dp = Some q
         then [(local_for v dest, port (udp_sockets v ! r), take (room_for dest) bs)] else [])) \<and>
      tcp_ok w' \<and> tcp_sockets w' = tcp_sockets w \<and> (\<forall>k. tcp_balanced w k \<longrightarrow> tcp_balanced w' k))"
    if "delivers readv frame" for readv
    using udp_datagram_delivered [OF net assms(3,5) that [unfolded frame_def], of iss]
    by (auto simp: delivered_def elim!: returns_conseq)
  moreover have "tun_out v' = tun_out v @ [frame]" "\<forall>k. udp_balanced v k \<longrightarrow> udp_balanced v' k"
    using net_step_tun_out [OF step] net_step_udp_balanced [OF step] by simp_all
  ultimately show ?thesis
    unfolding v' local_for_def [symmetric] room [symmetric] by auto
qed

text \<open>The receiver of the witness has bound port 53.\<close>

definition bound_world :: tcp_world where
  "bound_world = the (map_option (snd \<circ> udp_open 53) (init_netstack (boot_world (\<lambda>sent vecs. int (length (concat vecs))) 1000)))"

lemma bound_world_ok: "tcp_ok bound_world" "UDP_PORT_MAP bound_world 53 = Some 0" "inbox 0 bound_world = []"
proof -
  define b where "b = boot_world (\<lambda>sent vecs. int (length (concat vecs))) 1000"
  define w where "w = b\<lparr>LOCAL_IPV4 := V4 [10, 0, 0, 2], LOCAL_IPV6 := V6 [0xfe, 0x80, 0, 0, 0, 0, 0, 0, 0, 0, 0, 0, 0, 0, 0, 2]\<rparr>"
  have up: "link_up b" and init: "init_netstack b = Some w"
    by (simp_all add: b_def boot_world_def link_up_def init_netstack_def netif_init_def new_from_def new_v4_def new_v6_def w_def)
  have bw: "bound_world = snd (udp_open 53 w)"
    using init by (simp add: bound_world_def b_def)
  have "tcp_ok w"
    using boot_ok [OF up [unfolded b_def] init [unfolded b_def]] by (simp add: sys_ok_def)
  then show "tcp_ok bound_world"
    unfolding bw by (rule udp_open_tcp)
  show "UDP_PORT_MAP bound_world 53 = Some 0" "inbox 0 bound_world = []"
    by (simp_all add: bw udp_open_def w_def b_def boot_world_def inbox_def UDPSocketState_new_def)
qed

theorem udp_end_to_end_witness:
  "\<exists>v' frame. udp_send 0 (V4 [10, 0, 0, 2]) 53 [1, 2, 3] sample_udp = Some (Inr (), v') \<and> tun_out v' = [frame] \<and>
     returns (packet_receive (scatter frame) 9 bound_world) (\<lambda>w'. inbox 0 w' = [(V4 [10, 0, 0, 2], 53, [1, 2, 3])])"
proof -
  have "LOCAL_IPV4 sample_udp = V4 [10, 0, 0, 2]"
    by (simp add: sample_udp_def net_world.extend_def sample_net_def buf_world.extend_def)
  with udp_end_to_end [OF sample_udp_ok(1), of 0 "V4 [10, 0, 0, 2]" "[1, 2, 3]" bound_world 53 9]
  show ?thesis
    by (auto simp: sample_udp_ok bound_world_ok elim!: returnsE)
      (drule spec [where P = "\<lambda>readv. delivers readv f \<longrightarrow> Q readv" for f Q], erule impE, rule delivers_scatter,
        erule returns_conseq, simp add: bound_world_ok sample_udp_ok)
qed

end
