(* ===== verification/Tcp_Diagram.thy ===== *)
theory Tcp_Diagram
  imports Stack_Invariant
begin

text \<open>
  The state diagram of a connection as an abstract machine, and the proof that the stack implements it: a
  step of any thread moves at most one socket, along an arc of the diagram whose trigger is the call
  that was made, the arrival of a segment or the timer that ran out.
\<close>

section \<open>The abstract machine\<close>

datatype trigger = Connect | Close_call | Arrival | Time_wait_over

inductive arc :: "trigger \<Rightarrow> TCPState \<Rightarrow> TCPState \<Rightarrow> bool" where
  connect: "arc Connect Closed SynSent"
| close_listener: "arc Close_call Listen Closed"
| close_established: "arc Close_call Established FinWait1"
| close_after_peer: "arc Close_call CloseWait LastAck"
| answer_of_syn: "arc Arrival SynSent Established"
| ack_of_syn: "arc Arrival SynReceived Established"
| fin_of_peer: "arc Arrival Established CloseWait"
| last_ack: "arc Arrival LastAck Closed"
| fin_acked: "arc Arrival FinWait1 FinWait2"
| fin_crossed: "arc Arrival FinWait1 Closing"
| fin_and_ack: "arc Arrival FinWait1 TimeWait"
| fin_in_FinWait2: "arc Arrival FinWait2 TimeWait"
| fin_of_Closing_acked: "arc Arrival Closing TimeWait"
| reset: "arc Arrival s Closed"
| time_wait_over: "arc Time_wait_over TimeWait Closed"

inductive_simps arc_Closed: "arc t Closed y"
inductive_simps arc_TimeWait: "arc t TimeWait y"

text \<open>The machine has the states of all sockets; a socket is made closed (\<open>tcp_open\<close>), listening or by a SYN.\<close>

fun trigger_of :: "event \<Rightarrow> trigger option" where
  "trigger_of (Receive frame) = Some Arrival"
| "trigger_of (Run (Time_wait_timeout r)) = Some Time_wait_over"
| "trigger_of (Open_connect r) = Some Connect"
| "trigger_of (Close r) = Some Close_call"
| "trigger_of _ = None"

fun birth :: "event \<Rightarrow> TCPState option" where
  "birth (Receive frame) = Some SynReceived"
| "birth (Open_insert rip rport) = Some Closed"
| "birth (Listen_on p) = Some Listen"
| "birth _ = None"

inductive diagram_step :: "event \<Rightarrow> TCPState list \<Rightarrow> TCPState list \<Rightarrow> bool" where
  stay: "diagram_step ev xs xs"
| move: "r < length xs \<Longrightarrow> trigger_of ev = Some tr \<Longrightarrow> arc tr (xs ! r) y \<Longrightarrow> diagram_step ev xs (xs[r := y])"
| new: "birth ev = Some y \<Longrightarrow> diagram_step ev xs (xs @ [y])"

definition states :: "'a tcp_world_scheme \<Rightarrow> TCPState list" where
  "states w = map state (tcp_sockets w)"

section \<open>What sending and the pool leave alone\<close>

named_theorems frame_rules \<open>operations that change nothing above the pool or the interface\<close>

lemma free_chain_same [simp]: "buf_world.more (free_chain fs w) = buf_world.more w"
  by (induction fs w rule: free_chain.induct) (simp_all add: free_def Let_def)

lemma drop_buffer_more [simp]: "buf_world.more (drop_buffer b w) = buf_world.more w"
  by (simp add: drop_buffer_def)

lemma grow_loop_more [simp]: "buf_world.more (grow_loop n w) = buf_world.more w"
  by (induction n arbitrary: w) simp_all

lemma alloc_more: "alloc w = Some (f, w') \<Longrightarrow> buf_world.more w' = buf_world.more w"
  by (auto simp: alloc_def grow_def Let_def split: list.splits if_splits)

lemma alloc_header_more: "alloc_header n b w = Some (b', w') \<Longrightarrow> buf_world.more w' = buf_world.more w"
  by (auto simp: alloc_header_def Let_def bind_eq_Some_conv alloc_more split: if_splits)

lemma trim_head_loop_more: "trim_head_loop n fs w = Some (k, fs', w') \<Longrightarrow> buf_world.more w' = buf_world.more w"
  by (induction n fs w rule: trim_head_loop.induct) (auto simp: free_def Let_def split: if_splits)

lemma trim_head_more [frame_rules]: "trim_head n b w = Some (b', w') \<Longrightarrow> buf_world.more w' = buf_world.more w"
  by (auto simp: trim_head_def bind_eq_Some_conv trim_head_loop_more)

lemma append_loop_more: "append_loop src k f w = Some (fs, w') \<Longrightarrow> buf_world.more w' = buf_world.more w"
proof (induction src k f w arbitrary: fs w' rule: append_loop.induct)
  case (1 src k f w)
  from "1.prems" show ?case
    by (subst (asm) append_loop.simps)
      (auto simp: Let_def bind_eq_Some_conv alloc_more split: if_splits dest!: "1.IH" [rotated -1])
qed

lemma append_last_more: "append_last src fs w = Some (fs', w') \<Longrightarrow> buf_world.more w' = buf_world.more w"
  by (induction src fs w arbitrary: fs' rule: append_last.induct) (auto simp: bind_eq_Some_conv append_loop_more)

lemma append_from_slice_more [frame_rules]:
  "append_from_slice bs b w = Some (b', w') \<Longrightarrow> buf_world.more w' = buf_world.more w"
  by (auto simp: append_from_slice_def bind_eq_Some_conv split: if_splits dest!: append_last_more append_loop_more alloc_more)

lemma append_slices_more: "append_slices ss b w = Some (b', w') \<Longrightarrow> buf_world.more w' = buf_world.more w"
  by (induction ss b w rule: append_slices.induct) (auto simp: bind_eq_Some_conv append_from_slice_more)

lemma append_from_buffer_more [frame_rules]:
  "append_from_buffer c n b w = Some (b', w') \<Longrightarrow> buf_world.more w' = buf_world.more w"
  by (auto simp: append_from_buffer_def bind_eq_Some_conv append_slices_more)

lemma reassemble_loop_more: "reassemble_loop q i b ra w = Some (b', ra', w') \<Longrightarrow> buf_world.more w' = buf_world.more w"
proof (induction q i b ra w rule: reassemble_loop.induct)
  case (1 q i b ra w)
  from "1.prems" show ?case
    by (subst (asm) reassemble_loop.simps)
      (auto simp: Let_def bind_eq_Some_conv simp del: One_nat_def split: if_splits prod.splits dest!: "1.IH" [rotated -1])
qed

lemma add_packet_more [frame_rules]: "add_packet b q ra w = Some (got, ra', w') \<Longrightarrow> buf_world.more w' = buf_world.more w"
  by (auto simp: add_packet_def bind_eq_Some_conv reassemble_loop_more split: if_splits)

lemma buf_more_net_more:
  fixes w :: "'a net_world_scheme"
  shows "buf_world.more w' = buf_world.more w \<Longrightarrow> net_world.more w' = net_world.more w"
  by (cases w; cases w') simp

lemma send_packet_more: "send_packet b w = Some w' \<Longrightarrow> net_world.more w' = net_world.more w"
  by (auto simp: send_packet_def Let_def bind_eq_Some_conv buf_more_net_more [OF drop_buffer_more] split: if_splits)

lemma ip_output_more: "ip_output b p d w = Some w' \<Longrightarrow> net_world.more w' = net_world.more w"
  by (auto simp: ip_output_def ip_output_v4_def ip_output_v6_def Let_def bind_eq_Some_conv split: IPAddr.splits
      dest!: send_packet_more alloc_header_more buf_more_net_more)

lemma tcp_output_more: "tcp_output b p w = Some w' \<Longrightarrow> net_world.more w' = net_world.more w"
  by (auto simp: tcp_output_def Let_def bind_eq_Some_conv dest!: ip_output_more alloc_header_more buf_more_net_more)

lemma tcp_send_packet_more: "tcp_send_packet s b fl w = Some w' \<Longrightarrow> net_world.more w' = net_world.more w"
  by (auto simp: tcp_send_packet_def Let_def bind_eq_Some_conv dest!: tcp_output_more)

lemma net_more_fields:
  fixes w :: "'a tcp_world_scheme"
  assumes "net_world.more w' = net_world.more w"
  shows "tcp_sockets w' = tcp_sockets w" "PENDING_TIMERS w' = PENDING_TIMERS w"
  using assms by (cases w; cases w'; simp)+

lemma buf_more_fields:
  fixes w :: "'a tcp_world_scheme"
  assumes "buf_world.more w' = buf_world.more w"
  shows "tcp_sockets w' = tcp_sockets w" "PENDING_TIMERS w' = PENDING_TIMERS w"
  using assms by (cases w; cases w'; simp)+

section \<open>Moves of a critical section\<close>

text \<open>
  What a critical section of the socket \<open>r\<close> does: no other socket changes, this one stays in its state or
  moves along an arc of the trigger, and the timers it sets are its own. The timer that ends \<open>TimeWait\<close>
  is set only on the way into this state.
\<close>

definition own_timer :: "nat \<Rightarrow> callback Timer \<Rightarrow> bool" where
  "own_timer r t \<longleftrightarrow> (\<exists>c. closure t = Some c \<and> callback_socket c = r \<and> c \<noteq> Time_wait_timeout r)"

definition moves :: "trigger option \<Rightarrow> nat \<Rightarrow> TCPSocketState \<times> 'a tcp_world_scheme \<Rightarrow>
    TCPSocketState \<times> 'a tcp_world_scheme \<Rightarrow> bool" where
  "moves tr r = (\<lambda>(s, w) (s', w'). tcp_sockets w' = tcp_sockets w \<and>
     (\<forall>t \<in> set (PENDING_TIMERS w'). t \<in> set (PENDING_TIMERS w) \<or> own_timer r t \<or>
       (tr \<noteq> None \<and> closure t = Some (Time_wait_timeout r) \<and> state s' = TimeWait)) \<and>
     (state s' = state s \<and> request_retry_count s' = request_retry_count s \<or>
      (\<exists>t. tr = Some t \<and> arc t (state s) (state s') \<and> request_retry_count s' = 0)))"

abbreviation calm :: "nat \<Rightarrow> TCPSocketState \<times> 'a tcp_world_scheme \<Rightarrow> TCPSocketState \<times> 'a tcp_world_scheme \<Rightarrow> bool" where
  "calm \<equiv> moves None"

lemma calm_refl [simp]: "moves tr r a a"
  by (cases a) (simp add: moves_def)

lemma calm_moves: "calm r a b \<Longrightarrow> moves tr r b c \<Longrightarrow> moves tr r a c"
  by (cases a; cases b; cases c) (fastforce simp: moves_def)

lemma moves_calm: "moves tr r a b \<Longrightarrow> calm r b c \<Longrightarrow> moves tr r a c"
  by (cases a; cases b; cases c) (fastforce simp: moves_def)

lemma calm_any: "calm r a b \<Longrightarrow> moves tr r a b"
  by (cases a; cases b) (auto simp: moves_def)

text \<open>Updates that leave the state and the retry counter alone.\<close>

definition same_view :: "TCPSocketState \<Rightarrow> TCPSocketState \<Rightarrow> bool" where
  "same_view s s' \<longleftrightarrow> state s' = state s \<and> request_retry_count s' = request_retry_count s"

lemma same_view_calm: "same_view s s' \<Longrightarrow> calm r (s', w) (s, w)" "same_view s s' \<Longrightarrow> calm r (s, w) (s', w)"
  by (simp_all add: same_view_def moves_def)

named_theorems move_intros \<open>rules for the calls in a critical section\<close>

lemma whenever_calm:
  assumes "whenever m (\<lambda>x. calm r a x)" and "\<And>t v. whenever (f (t, v)) (moves tr r (t, v))"
  shows "whenever (Option.bind m f) (moves tr r a)"
  using assms(1) by (rule whenever_bindI) (auto intro: whenever_conseq [OF assms(2)] calm_moves)

lemma whenever_calm_world:
  assumes "whenever m (\<lambda>v. calm r a (t, v))" and "\<And>v. whenever (f v) (moves tr r (t, v))"
  shows "whenever (Option.bind m f) (moves tr r a)"
  using assms(1) by (rule whenever_bindI) (auto intro: whenever_conseq [OF assms(2)] calm_moves)

lemma send_calm: "same_view s s' \<Longrightarrow> whenever (tcp_send_packet s' b fl w) (\<lambda>v. calm r (s, w) (s', v))"
  by (rule wheneverI) (simp add: moves_def same_view_def net_more_fields [OF tcp_send_packet_more])

lemma cancel_timer_subset: "set (PENDING_TIMERS (snd (cancel_timer ident w))) \<subseteq> set (PENDING_TIMERS w)"
proof -
  obtain found w' where run: "cancel_timer ident w = (found, w')"
    by fastforce
  show ?thesis
  proof (cases found)
    case True
    then obtain t where "mset (PENDING_TIMERS w') = mset (PENDING_TIMERS w) - {#t#}"
      using cancel_timer_mset(2) [OF run] by blast
    then show ?thesis
      by (metis diff_subset_eq_self set_mset_mono set_mset_mset run snd_conv)
  qed (use cancel_timer_mset(3) [OF run] run in simp)
qed

lemma cancel_timer_fields [simp]: "tcp_sockets (snd (cancel_timer ident w)) = tcp_sockets w"
  by (simp add: cancel_timer_def split: prod.splits)

lemma cancel_calm: "same_view s s' \<Longrightarrow> calm r (s, w) (s', snd (cancel_timer ident w))"
  using cancel_timer_subset [of ident w] by (auto simp: moves_def same_view_def)

lemma set_timer_calm:
  assumes "callback_socket c = r" and "c \<noteq> Time_wait_timeout r"
  shows "whenever (set_timer t c w) (\<lambda>(ident, v). calm r (s, w) (s, v))"
proof (rule wheneverI, clarify)
  fix ident v
  assume "set_timer t c w = Some (ident, v)"
  then have "\<exists>x. closure x = Some c \<and> PENDING_TIMERS v = PENDING_TIMERS w @ [x] \<and> tcp_sockets v = tcp_sockets w"
    by (auto simp: set_timer_def bind_eq_Some_conv Let_def)
  then obtain x where "closure x = Some c" "PENDING_TIMERS v = PENDING_TIMERS w @ [x]" "tcp_sockets v = tcp_sockets w"
    by blast
  moreover from this(1) have "own_timer r x"
    using assms by (simp add: own_timer_def)
  ultimately show "calm r (s, w) (s, v)"
    by (simp add: moves_def)
qed

lemma send_moves [move_intros]:
  assumes "same_view s s'" and "\<And>v. whenever (f v) (moves tr r (s', v))"
  shows "whenever (Option.bind (tcp_send_packet s' b fl w) f) (moves tr r (s, w))"
  by (rule whenever_calm_world [OF send_calm [OF assms(1)] assms(2)])

lemma set_timer_moves [move_intros]:
  assumes "callback_socket c = r" and "c \<noteq> Time_wait_timeout r" and "\<And>ident v. whenever (f (ident, v)) (moves tr r (s, v))"
  shows "whenever (Option.bind (set_timer t c w) f) (moves tr r (s, w))"
proof (rule whenever_bindI [OF set_timer_calm [OF assms(1,2), where s = s]], clarify)
  fix ident v
  assume "calm r (s, w) (s, v)"
  then show "whenever (f (ident, v)) (moves tr r (s, w))"
    by (rule whenever_conseq [OF assms(3) calm_moves])
qed

lemma set_response_timer_calm: "whenever (set_response_timer r s w) (calm r (s, w))"
proof -
  define v where "v = (if response_timer_id s \<noteq> -1 then snd (cancel_timer (response_timer_id s) w) else w)"
  have "calm r (s, w) (s, v)"
    using cancel_calm [of s s r w "response_timer_id s"] by (auto simp: v_def same_view_def)
  moreover have "whenever (do { (ident, w) \<leftarrow> set_timer RESPONSE_TIMEOUT (Response_timeout r) v;
      Some (s\<lparr>response_timer_id := ident\<rparr>, w) }) (calm r (s, v))"
    by (auto simp: same_view_def intro!: move_intros same_view_calm)
  ultimately show ?thesis
    unfolding set_response_timer_def v_def [symmetric] Let_def by (auto intro: whenever_conseq [OF _ calm_moves])
qed

lemma response_moves [move_intros]:
  assumes "same_view s s'" and "\<And>t v. whenever (f (t, v)) (moves tr r (t, v))"
  shows "whenever (Option.bind (set_response_timer r s' w) f) (moves tr r (s, w))"
proof (rule whenever_calm [OF _ assms(2)])
  show "whenever (set_response_timer r s' w) (calm r (s, w))"
    by (rule whenever_conseq [OF set_response_timer_calm]) (rule calm_moves [OF same_view_calm(2) [OF assms(1)]])
qed

lemma response_last_moves [move_intros]:
  assumes "same_view s s'"
  shows "whenever (set_response_timer r s' w) (moves tr r (s, w))"
  by (rule whenever_conseq [OF set_response_timer_calm])
    (blast intro: calm_any calm_moves same_view_calm(2) [OF assms])

lemma same_view_last [move_intros]: "same_view s s' \<Longrightarrow> moves tr r (s, w) (s', w)"
  by (simp add: same_view_calm calm_any)

text \<open>Moves along an arc come first in a handler, or last, with the timer of \<open>TimeWait\<close>.\<close>

lemma arc_then:
  assumes "arc tr (state s) (state s')" and "request_retry_count s' = 0" and "whenever m (calm r (s', w))"
  shows "whenever m (moves (Some tr) r (s, w))"
proof (rule whenever_conseq [OF assms(3)])
  show "moves (Some tr) r (s, w) x" if "calm r (s', w) x" for x
    by (rule moves_calm [OF _ that]) (simp add: moves_def assms(1,2))
qed

lemma arc_last:
  "arc tr (state s) (state s') \<Longrightarrow> request_retry_count s' = 0 \<Longrightarrow> moves (Some tr) r (s, w) (s', w)"
  by (simp add: moves_def)

lemma time_wait_last:
  assumes "arc tr (state s) TimeWait"
  shows "whenever (do { w \<leftarrow> set_time_wait_timer r w; Some (set_state TimeWait s, w) }) (moves (Some tr) r (s, w))"
  using assms
  by (auto simp: set_time_wait_timer_def set_timer_def whenever_def bind_eq_Some_conv Let_def moves_def set_state_def)

lemma receive_data_calm: "whenever (receive_data g packet s w) (calm r (s, w))"
proof (rule wheneverI)
  fix x
  assume "receive_data g packet s w = Some x"
  then have "\<exists>got ra. add_packet packet (seg_seq g) (reassembler s) w = Some (got, ra, snd x) \<and> same_view s (fst x)"
    by (auto simp: receive_data_def Let_def bind_eq_Some_conv same_view_def split: option.splits)
  then show "calm r (s, w) x"
    by (cases x) (auto simp: moves_def same_view_def buf_more_fields [OF add_packet_more])
qed

lemma cancel_delayed_ack_calm: "calm r (s, w) (cancel_delayed_ack s w)"
  using cancel_calm [of s "s\<lparr>delayed_ack_timer_id := -1\<rparr>" r w] by (simp add: cancel_delayed_ack_def same_view_def)

lemma cancel_ack_moves [move_intros]:
  assumes "same_view s s'" and "\<And>t v. whenever (f t v) (moves tr r (t, v))"
  shows "whenever (case cancel_delayed_ack s' w of (t, v) \<Rightarrow> f t v) (moves tr r (s, w))"
proof -
  obtain t v where run: "cancel_delayed_ack s' w = (t, v)"
    by fastforce
  have "calm r (s, w) (t, v)"
    using calm_moves [OF same_view_calm(2) [OF assms(1), of r w] cancel_delayed_ack_calm] by (simp add: run)
  with assms(2) [of t v] show ?thesis
    by (simp add: run) (rule whenever_conseq [OF _ calm_moves])
qed

lemma schedule_ack_calm: "whenever (schedule_ack r g s w) (calm r (s, w))"
  unfolding schedule_ack_def Let_def
  by (auto simp: same_view_def whenever_bind [of "checked_add _ _"]
      intro!: move_intros wheneverI [of "checked_add _ _"])

lemma handle_data_calm: "whenever (handle_data r g packet s w) (calm r (s, w))"
  unfolding handle_data_def by (rule whenever_calm [OF receive_data_calm]) (simp add: schedule_ack_calm)

lemma update_window_view: "same_view s (update_window g s)"
  by (simp add: update_window_def same_view_def)

lemma acknowledge_calm: "whenever (acknowledge g s w) (calm r (s, w))"
proof (cases "seq_lt (send_unacked s) (seg_ack g) \<and> seq_le (seg_ack g) (send_next_seq s)")
  case True
  show ?thesis
  proof (rule wheneverI)
    fix x
    assume run: "acknowledge g s w = Some x"
    then obtain q v where v: "trim_head (unat (seg_ack g - send_unacked s)) (retransmit_queue s) w = Some (q, v)"
      using True by (auto simp: acknowledge_def Let_def bind_eq_Some_conv simp del: TCPSocketState.update_convs)
    have x: "x = (let t = s\<lparr>retransmit_queue := q, retransmit_timer_id := (if is_empty q then -1 else retransmit_timer_id s),
          send_unacked := seg_ack g\<rparr> in (t, if is_empty q then snd (cancel_timer (retransmit_timer_id s) v) else v))"
      using run True v by (cases "is_empty q") (simp_all add: acknowledge_def)
    have "calm r (s, w) (s, v)"
      by (simp add: moves_def buf_more_fields [OF trim_head_more [OF v]])
    moreover have "calm r (s, v) x"
      using cancel_calm [of s "fst x" r v "retransmit_timer_id s"] same_view_calm(2) [of s "fst x" r v]
      by (cases "is_empty q") (simp_all add: x same_view_def Let_def)
    ultimately show "calm r (s, w) x"
      by (rule calm_moves)
  qed
qed (auto simp: acknowledge_def)

lemma handle_ack_calm: "whenever (handle_ack g s w) (calm r (s, w))"
  unfolding handle_ack_def
  by (rule whenever_calm [OF acknowledge_calm]) (simp add: same_view_calm update_window_view)

lemma handle_state_moves: "whenever (handle_state r g s w) (moves (Some Arrival) r (s, w))"
proof (cases "state s")
  case FinWait2
  have "whenever (do {
      w \<leftarrow> tcp_send_packet s NetBuffer_new FLAG_ACK w;
      (s, w) \<leftarrow> set_response_timer r s w;
      w \<leftarrow> set_time_wait_timer r w;
      Some (set_state TimeWait s, w)
    }) (moves (Some Arrival) r (s, w))"
  proof (rule whenever_calm_world [OF send_calm], simp add: same_view_def)
    fix v
    have "whenever (set_response_timer r s v) (\<lambda>x. calm r (s, v) x \<and> state (fst x) = FinWait2)"
      using set_response_timer_calm [of r s v] FinWait2 by (auto simp: moves_def elim!: whenever_conseq)
    then show "whenever (do {
        (s, w) \<leftarrow> set_response_timer r s v;
        w \<leftarrow> set_time_wait_timer r w;
        Some (set_state TimeWait s, w)
      }) (moves (Some Arrival) r (s, v))"
    proof (rule whenever_bindI, clarify)
      fix t u
      assume "calm r (s, v) (t, u)" "state (fst (t, u)) = FinWait2"
      then show "whenever (do { w \<leftarrow> set_time_wait_timer r u; Some (set_state TimeWait t, w) }) (moves (Some Arrival) r (s, v))"
        by (intro whenever_conseq [OF time_wait_last]) (auto intro: arc.intros calm_moves)
    qed
  qed
  then show ?thesis
    using FinWait2 by (simp add: handle_state_def Let_def)
next
  case FinWait1
  have "whenever (do {
      w \<leftarrow> tcp_send_packet (set_state Closing s) NetBuffer_new FLAG_ACK w;
      set_response_timer r (set_state Closing s) w
    }) (moves (Some Arrival) r (s, w))"
    by (rule arc_then [where s' = "set_state Closing s"])
      (use FinWait1 in \<open>auto simp: set_state_def same_view_def intro!: arc.fin_crossed move_intros\<close>)
  moreover have "moves (Some Arrival) r (s, w) (set_state FinWait2 s, w)"
    by (rule arc_last) (simp_all add: set_state_def FinWait1 arc.fin_acked)
  ultimately show ?thesis
    using FinWait1 time_wait_last [of Arrival s r w] arc.fin_and_ack
    by (simp add: handle_state_def Let_def)
next
  case SynSent
  show ?thesis
  proof (cases "has_flag (seg_flags g) FLAG_ACK")
    case True
    have "whenever (handle_state r g s w) (moves (Some Arrival) r (s, w))"
      using SynSent True unfolding handle_state_def Let_def
      by (simp, intro arc_then [where s' = "set_state Established s"])
        (auto simp: set_state_def same_view_def intro!: arc.answer_of_syn move_intros)
    then show ?thesis .
  qed (use SynSent in \<open>simp add: handle_state_def\<close>)
qed (use time_wait_last [of Arrival s r w] arc.fin_of_Closing_acked in
    \<open>auto simp: handle_state_def Let_def set_state_def intro!: arc_last arc.intros\<close>)

lemma tcp_input_socket_moves: "whenever (tcp_input_socket r g m packet s w) (moves (Some Arrival) r (s, w))"
proof -
  define s1 where "s1 = (if m \<noteq> 0 then s\<lparr>send_mss := m\<rparr> else s)"
  obtain t v where tv: "(if response_timer_id s1 \<noteq> -1
      then (s1\<lparr>response_timer_id := -1\<rparr>, snd (cancel_timer (response_timer_id s1) w)) else (s1, w)) = (t, v)"
    by fastforce
  have pre: "calm r (s, w) (t, v)"
    using tv cancel_calm [of s "s1\<lparr>response_timer_id := -1\<rparr>" r w "response_timer_id s1"] same_view_calm(2) [of s s1 r w]
    by (auto simp: s1_def same_view_def split: if_splits)
  have drop: "calm r (s, w) (s, drop_buffer packet w)" for s w
    by (simp add: moves_def buf_more_fields [OF drop_buffer_more])
  have "whenever (if has_flag (seg_flags g) FLAG_RST then Some (set_state Closed t, drop_buffer packet v)
      else do {
        (s, w) \<leftarrow> input_stages r g packet t v;
        Some (s, if \<not> is_empty packet then w else drop_buffer packet w)
      }) (moves (Some Arrival) r (t, v))"
  proof (cases "has_flag (seg_flags g) FLAG_RST")
    case True
    then show ?thesis
      using calm_moves [OF drop arc_last [of Arrival t "set_state Closed t"]] by (simp add: set_state_def arc.reset)
  next
    case False
    have "whenever (input_stages r g packet t v) (moves (Some Arrival) r (t, v))"
      unfolding input_stages_def
    proof (rule whenever_calm)
      show "whenever (if \<not> is_empty packet then handle_data r g packet t v else Some (t, v)) (\<lambda>x. calm r (t, v) x)"
        by (simp add: handle_data_calm)
      show "whenever (case (t, v) of (s, w) \<Rightarrow> do {
          (s, w) \<leftarrow> if has_flag (seg_flags g) FLAG_ACK \<and> is_established s then handle_ack g s w else Some (s, w);
          handle_state r g s w
        }) (moves (Some Arrival) r (t, v))" for t v
        by simp (rule conjI impI whenever_calm [OF handle_ack_calm] | simp add: handle_state_moves)+
    qed
    with False show ?thesis
      by simp (erule whenever_bindI, auto intro: moves_calm [OF _ drop])
  qed
  moreover have "tcp_input_socket r g m packet s w = (if has_flag (seg_flags g) FLAG_RST then Some (set_state Closed t, drop_buffer packet v)
      else do {
        (s, w) \<leftarrow> input_stages r g packet t v;
        Some (s, if \<not> is_empty packet then w else drop_buffer packet w)
      })"
    by (simp only: tcp_input_socket_eq Let_def s1_def [symmetric] tv prod.case)
  ultimately have "whenever (tcp_input_socket r g m packet s w) (moves (Some Arrival) r (t, v))"
    by simp
  then show ?thesis
    by (rule whenever_conseq) (rule calm_moves [OF pre])
qed

section \<open>Turns of the world\<close>

definition views :: "'a tcp_world_scheme \<Rightarrow> (TCPState \<times> u32) list" where
  "views w = map (\<lambda>s. (state s, request_retry_count s)) (tcp_sockets w)"

text \<open>The sockets with a pending timer that ends \<open>TimeWait\<close>.\<close>

definition time_waits :: "'a tcp_world_scheme \<Rightarrow> nat set" where
  "time_waits w = {r. Some (Time_wait_timeout r) \<in> closure ` set (PENDING_TIMERS w)}"

definition turn :: "trigger option \<Rightarrow> TCPState option \<Rightarrow> 'a tcp_world_scheme \<Rightarrow> 'a tcp_world_scheme \<Rightarrow> bool" where
  "turn tr new w w' \<longleftrightarrow>
     time_waits w' \<subseteq> time_waits w \<union> {r. r < length (views w') \<and> fst (views w' ! r) = TimeWait} \<and>
     (views w' = views w \<or>
      (\<exists>t r y. tr = Some t \<and> r < length (views w) \<and> arc t (fst (views w ! r)) y \<and> views w' = (views w)[r := (y, 0)]) \<or>
      (\<exists>y. new = Some y \<and> views w' = views w @ [(y, 0)]))"

lemma turn_refl [simp]: "turn tr new w w"
  by (simp add: turn_def)

lemma turn_same:
  "tcp_sockets w' = tcp_sockets w \<Longrightarrow> PENDING_TIMERS w' = PENDING_TIMERS w \<Longrightarrow> turn tr new w w'"
  by (simp add: turn_def views_def time_waits_def)

lemma put_time_waits:
  assumes "moves tr r (s, w) (s', v)"
  shows "time_waits (put_socket r s' v) \<subseteq> time_waits w \<union> (if state s' = TimeWait then {r} else {})"
  using assms by (fastforce simp: moves_def time_waits_def own_timer_def image_iff)

lemma put_turn:
  assumes get: "get_socket r w = Some s" and mv: "moves tr r (s, w) (s', v)"
  shows "turn tr new w (put_socket r s' v)"
proof -
  have r: "r < length (tcp_sockets w)" "s = tcp_sockets w ! r" and v: "tcp_sockets v = tcp_sockets w"
    using get mv by (simp_all add: get_socket_Some moves_def)
  have views: "views (put_socket r s' v) = (views w)[r := (state s', request_retry_count s')]"
    by (simp add: views_def v map_update)
  have "time_waits (put_socket r s' v) \<subseteq>
      time_waits w \<union> {i. i < length (views (put_socket r s' v)) \<and> fst (views (put_socket r s' v) ! i) = TimeWait}"
    using put_time_waits [OF mv] r(1) unfolding views by (auto simp: views_def nth_list_update split: if_splits)
  moreover have "views (put_socket r s' v) = views w \<or>
      (\<exists>t i y. tr = Some t \<and> i < length (views w) \<and> arc t (fst (views w ! i)) y \<and> views (put_socket r s' v) = (views w)[i := (y, 0)])"
  proof (cases "state s' = state s \<and> request_retry_count s' = request_retry_count s")
    case True
    then show ?thesis
      using r by (simp add: views_def map_update v list_update_same_conv)
  next
    case False
    then obtain t where "tr = Some t" "arc t (state s) (state s')" "request_retry_count s' = 0"
      using mv by (auto simp: moves_def)
    then have "tr = Some t \<and> r < length (views w) \<and> arc t (fst (views w ! r)) (state s') \<and>
        views (put_socket r s' v) = (views w)[r := (state s', 0)]"
      using r by (simp add: views_def map_update v)
    then show ?thesis
      by blast
  qed
  ultimately show ?thesis
    by (auto simp: turn_def)
qed

lemma put_same_view: "get_socket r w = Some s \<Longrightarrow> same_view s s' \<Longrightarrow> views (put_socket r s' w) = views w"
  by (auto simp: views_def get_socket_Some same_view_def map_update list_update_same_conv)

text \<open>Critical sections, as in \<open>section_keeps\<close>.\<close>

lemma section_turn:
  assumes "get_socket r w = Some s" and "whenever m (moves tr r (s, w))"
  shows "whenever (Option.bind m (\<lambda>(s, w). Some (put_socket r s w))) (turn tr new w)"
  using assms(2) by (rule whenever_bindI) (auto intro: put_turn [OF assms(1)])

lemma response_timeout_turn:
  assumes "\<forall>v \<in> set (views w). snd v = 0"
  shows "whenever (response_timeout r w) (turn tr new w)"
  unfolding response_timeout_def
proof (rule with_socket)
  fix s
  assume get: "get_socket r w = Some s"
  then have "request_retry_count s = 0"
    using assms by (auto simp: views_def get_socket_Some)
  then have retry: "\<not> request_retry_count s \<ge> MAX_RETRIES"
    by (simp add: MAX_RETRIES_def)
  have "whenever (case state s of
            Closed \<Rightarrow> Some (s, w)
          | Established \<Rightarrow> Some (s, w)
          | SynSent \<Rightarrow> do { w \<leftarrow> tcp_send_packet s NetBuffer_new FLAG_SYN w; set_response_timer r s w }
          | FinWait1 \<Rightarrow> do { w \<leftarrow> tcp_send_packet s NetBuffer_new FLAG_FIN w; set_response_timer r s w }
          | LastAck \<Rightarrow> do { w \<leftarrow> tcp_send_packet s NetBuffer_new FLAG_FIN w; set_response_timer r s w }
          | Closing \<Rightarrow> do { w \<leftarrow> tcp_send_packet s NetBuffer_new FLAG_ACK w; set_response_timer r s w }
          | CloseWait \<Rightarrow> do { w \<leftarrow> tcp_send_packet s NetBuffer_new FLAG_ACK w; set_response_timer r s w }
          | _ \<Rightarrow> None) (calm r (s, w))" (is "whenever ?m _")
    by (auto simp: same_view_def split: TCPState.split intro!: move_intros)
  then have "whenever (do { (s, w) \<leftarrow> ?m; set_response_timer r s w }) (calm r (s, w))"
    by (rule whenever_calm) (simp add: set_response_timer_calm)
  then have "whenever (do { (s, w) \<leftarrow> ?m; set_response_timer r s w }) (moves tr r (s, w))"
    by (rule whenever_conseq) (rule calm_any)
  from section_turn [OF get this]
  show "whenever (if request_retry_count s \<ge> MAX_RETRIES then Some (put_socket r (set_state Closed s) w)
     else do { (s, w) \<leftarrow> ?m; (s, w) \<leftarrow> set_response_timer r s w; Some (put_socket r s w) }) (turn tr new w)"
    by (simp add: retry case_prod_unfold del: bind_split)
qed

lemma retransmit_turn: "whenever (retransmit r w) (turn tr new w)"
  unfolding retransmit_def
proof (rule with_socket)
  fix s
  assume get: "get_socket r w = Some s"
  define u where "u = w\<lparr>METRICS := (METRICS w)\<lparr>packets_retransmitted := PerfCounter_inc (packets_retransmitted (METRICS w))\<rparr>\<rparr>"
  have u: "turn tr new w w' = turn tr new u w'" for w'
    by (simp add: turn_def u_def views_def time_waits_def)
  have get': "get_socket r u = Some s"
    using get by (simp add: u_def get_socket_def)
  have "calm r (s, u) (s, v)" if "append_from_buffer (retransmit_queue s) (send_mss s) NetBuffer_new u = Some (q, v)" for q v
    by (simp add: moves_def buf_more_fields [OF append_from_buffer_more [OF that]])
  then have "whenever (do {
      (packet, w) \<leftarrow> append_from_buffer (retransmit_queue s) (send_mss s) NetBuffer_new u;
      w \<leftarrow> tcp_send_packet s packet (FLAG_ACK OR FLAG_PSH) w;
      (ident, w) \<leftarrow> set_timer RETRANSMIT_INTERVAL (Retransmit r) w;
      Some (s\<lparr>retransmit_timer_id := ident\<rparr>, w)
    }) (calm r (s, u))" (is "whenever ?m _")
  proof (intro whenever_bindI [OF wheneverI], clarify)
    fix q v
    assume "append_from_buffer (retransmit_queue s) (send_mss s) NetBuffer_new u = Some (q, v)"
      and step: "\<And>q v. append_from_buffer (retransmit_queue s) (send_mss s) NetBuffer_new u = Some (q, v) \<Longrightarrow> calm r (s, u) (s, v)"
    from step [OF this(1)] show "calm r (s, u) (s, snd (q, v))"
      by simp
  next
    fix x :: "NetBuffer \<times> 'a tcp_world_scheme"
    assume x: "calm r (s, u) (s, snd x)"
    have "whenever (do {
      w \<leftarrow> tcp_send_packet s (fst x) (FLAG_ACK OR FLAG_PSH) (snd x);
      (ident, w) \<leftarrow> set_timer RETRANSMIT_INTERVAL (Retransmit r) w;
      Some (s\<lparr>retransmit_timer_id := ident\<rparr>, w)
    }) (calm r (s, snd x))"
      by (auto simp: same_view_def intro!: move_intros)
    then show "whenever (case x of (packet, w) \<Rightarrow> do {
      w \<leftarrow> tcp_send_packet s packet (FLAG_ACK OR FLAG_PSH) w;
      (ident, w) \<leftarrow> set_timer RETRANSMIT_INTERVAL (Retransmit r) w;
      Some (s\<lparr>retransmit_timer_id := ident\<rparr>, w)
    }) (calm r (s, u))"
      by (cases x) (simp, erule whenever_conseq, rule calm_moves [OF x], simp)
  qed
  then have "whenever ?m (moves tr r (s, u))"
    by (rule whenever_conseq) (rule calm_any)
  from section_turn [OF get' this] have "whenever (do { (s, w) \<leftarrow> ?m; Some (put_socket r s w) }) (turn tr new u)" .
  moreover have "turn tr new u u"
    by simp
  ultimately
  show "whenever (if state s = Closed then Some w else do {
       let w = w\<lparr>METRICS := (METRICS w)\<lparr>packets_retransmitted := PerfCounter_inc (packets_retransmitted (METRICS w))\<rparr>\<rparr>;
       if \<not> is_empty (retransmit_queue s) then do {
         (packet, w) \<leftarrow> append_from_buffer (retransmit_queue s) (send_mss s) NetBuffer_new w;
         w \<leftarrow> tcp_send_packet s packet (FLAG_ACK OR FLAG_PSH) w;
         (ident, w) \<leftarrow> set_timer RETRANSMIT_INTERVAL (Retransmit r) w;
         Some (put_socket r (s\<lparr>retransmit_timer_id := ident\<rparr>) w)
       } else Some w
     }) (turn tr new w)"
    unfolding u_def [symmetric] Let_def u by (simp add: case_prod_unfold) (simp add: u [symmetric])
qed

lemma delayed_ack_turn: "whenever (delayed_ack r w) (turn tr new w)"
  unfolding delayed_ack_def
proof (rule with_socket)
  fix s
  assume get: "get_socket r w = Some s"
  have "whenever (do {
      w \<leftarrow> tcp_send_packet s NetBuffer_new FLAG_ACK w;
      Some (s\<lparr>delayed_ack_timer_id := -1, num_delayed_acks := 0\<rparr>, w)
    }) (moves tr r (s, w))"
    by (auto simp: same_view_def intro!: move_intros)
  from section_turn [OF get this]
  show "whenever (if state s = Closed then Some w
     else do {
       w \<leftarrow> tcp_send_packet s NetBuffer_new FLAG_ACK w;
       Some (put_socket r (s\<lparr>delayed_ack_timer_id := -1, num_delayed_acks := 0\<rparr>) w)
     }) (turn tr new w)"
    by simp
qed

lemma unmap_turn [simp]: "turn tr new w (tcp_unmap key v) = turn tr new w v"
  by (simp add: turn_def tcp_unmap_def views_def time_waits_def)

lemma time_wait_socket_turn:
  assumes "\<forall>v \<in> set (views w). snd v = 0" and "fst (views w ! r) \<in> {TimeWait, Closed}"
  shows "whenever (time_wait_socket r w) (\<lambda>(key, w'). turn (Some Time_wait_over) new w w')"
  unfolding time_wait_socket_def
proof (rule with_socket)
  fix s
  assume get: "get_socket r w = Some s"
  then have "state s = TimeWait \<or> state s = Closed" "request_retry_count s = 0"
    using assms by (auto simp: views_def get_socket_Some)
  then have "moves (Some Time_wait_over) r (s, w) (set_state Closed s, w)"
    by (auto simp: moves_def set_state_def arc.time_wait_over)
  from put_turn [OF get this]
  show "whenever (let w = put_socket r (set_state Closed s) w in Some ((remote_ip s, remote_port s, local_port s), w))
     (\<lambda>(key, w'). turn (Some Time_wait_over) new w w')"
    by simp
qed

lemma time_wait_timeout_turn:
  assumes "\<forall>v \<in> set (views w). snd v = 0" and "fst (views w ! r) \<in> {TimeWait, Closed}"
  shows "whenever (time_wait_timeout r w) (turn (Some Time_wait_over) new w)"
  unfolding time_wait_timeout_def
  by (rule whenever_bindI [OF time_wait_socket_turn [OF assms]]) auto

subsection \<open>The calls of the programs\<close>

lemma new_socket_turn:
  "tcp_sockets w' = tcp_sockets w @ [s] \<Longrightarrow> PENDING_TIMERS w' = PENDING_TIMERS w \<Longrightarrow> request_retry_count s = 0 \<Longrightarrow>
   turn tr (Some (state s)) w w'"
  by (simp add: turn_def views_def time_waits_def)

lemma tcp_open_insert_turn:
  "whenever (tcp_open_insert draws iss rip rport w) (\<lambda>(r, w'). turn tr (Some Closed) w w' \<and> r = length (views w) \<and>
     views w' = views w @ [(Closed, 0)])"
proof (rule wheneverI, clarify)
  fix r w'
  assume "tcp_open_insert draws iss rip rport w = Some (r, w')"
  then obtain lport where w': "tcp_sockets w' = tcp_sockets w @ [TCPSocketState_new iss rip rport lport]"
      "PENDING_TIMERS w' = PENDING_TIMERS w" and r: "r = length (tcp_sockets w)"
    by (auto simp: tcp_open_insert_def TCPSocket_new_def bind_eq_Some_conv)
  show "turn tr (Some Closed) w w' \<and> r = length (views w) \<and> views w' = views w @ [(Closed, 0)]"
    using new_socket_turn [OF w'] r w' by (simp add: TCPSocketState_new_def views_def)
qed

lemma tcp_open_connect_turn:
  assumes "fst (views w ! r) = Closed"
  shows "whenever (tcp_open_connect r w) (\<lambda>w'. turn (Some Connect) new w w' \<and> length (views w') = length (views w) \<and>
     (\<forall>i. i \<noteq> r \<longrightarrow> views w' ! i = views w ! i) \<and> time_waits w' \<subseteq> time_waits w)"
  unfolding tcp_open_connect_def Let_def
proof (rule with_socket)
  fix s
  assume get: "get_socket r w = Some s"
  then have closed: "state s = Closed"
    using assms by (simp add: views_def get_socket_Some)
  have "whenever (do {
      w \<leftarrow> tcp_send_packet (set_state SynSent s) NetBuffer_new FLAG_SYN w;
      set_response_timer r (set_state SynSent s) w
    }) (moves (Some Connect) r (s, w))" (is "whenever ?m _")
    by (rule arc_then [where s' = "set_state SynSent s"])
      (use closed in \<open>auto simp: set_state_def same_view_def intro!: arc.connect move_intros\<close>)
  then have "whenever (do { (s, w) \<leftarrow> ?m; Some (put_socket r s w) }) (\<lambda>w'. turn (Some Connect) new w w' \<and>
      length (views w') = length (views w) \<and> (\<forall>i. i \<noteq> r \<longrightarrow> views w' ! i = views w ! i) \<and> time_waits w' \<subseteq> time_waits w)"
  proof (rule whenever_bindI)
    fix x
    assume x: "moves (Some Connect) r (s, w) x"
    then have "tcp_sockets (snd x) = tcp_sockets w"
      by (cases x) (simp add: moves_def)
    moreover have "state (fst x) \<noteq> TimeWait"
      using x closed by (cases x) (auto simp: moves_def arc_Closed)
    then have "time_waits (put_socket r (fst x) (snd x)) \<subseteq> time_waits w"
      using put_time_waits [of "Some Connect" r s w "fst x" "snd x"] x by simp
    ultimately show "whenever (case x of (s, w) \<Rightarrow> Some (put_socket r s w)) (\<lambda>w'. turn (Some Connect) new w w' \<and>
        length (views w') = length (views w) \<and> (\<forall>i. i \<noteq> r \<longrightarrow> views w' ! i = views w ! i) \<and> time_waits w' \<subseteq> time_waits w)"
      using put_turn [OF get, of "Some Connect" "fst x" "snd x"] x
      by (cases x) (simp add: views_def map_update)
  qed
  then show "whenever (do {
      w \<leftarrow> tcp_send_packet (set_state SynSent s) NetBuffer_new FLAG_SYN w;
      (s, w) \<leftarrow> set_response_timer r (set_state SynSent s) w;
      Some (put_socket r s w)
    }) (\<lambda>w'. turn (Some Connect) new w w' \<and> length (views w') = length (views w) \<and> (\<forall>i. i \<noteq> r \<longrightarrow> views w' ! i = views w ! i) \<and>
      time_waits w' \<subseteq> time_waits w)"
    by simp
qed

lemma send_fin_turn:
  assumes get: "get_socket r w = Some s" and "arc Close_call (state s) st"
  shows "whenever (do {
      w \<leftarrow> tcp_send_packet s NetBuffer_new fl w;
      (s, w) \<leftarrow> set_response_timer r s w;
      Some (None, put_socket r (set_state st s) w)
    }) (\<lambda>(key, w'). turn (Some Close_call) new w w')"
proof -
  have "whenever (do { w \<leftarrow> tcp_send_packet s NetBuffer_new fl w; set_response_timer r s w }) (calm r (s, w))"
    by (auto simp: same_view_def intro!: move_intros)
  then have "whenever (do { (s, w) \<leftarrow> do { w \<leftarrow> tcp_send_packet s NetBuffer_new fl w; set_response_timer r s w };
      Some (None, put_socket r (set_state st s) w) }) (\<lambda>(key, w'). turn (Some Close_call) new w w')"
  proof (rule whenever_bindI, clarify)
    fix t v
    assume t: "calm r (s, w) (t, v)"
    then have "moves (Some Close_call) r (t, v) (set_state st t, v)"
      using assms(2) by (intro arc_last) (auto simp: moves_def set_state_def)
    from put_turn [OF get calm_moves [OF t this]]
    show "whenever (Some (None, put_socket r (set_state st t) v)) (\<lambda>(key, w'). turn (Some Close_call) new w w')"
      by simp
  qed
  then show ?thesis
    by simp
qed

lemma tcp_close_socket_turn: "whenever (tcp_close_socket r w) (\<lambda>(key, w'). turn (Some Close_call) new w w')"
  unfolding tcp_close_socket_def
proof (rule with_socket)
  fix s
  assume get: "get_socket r w = Some s"
  have "turn (Some Close_call) new w (put_socket r (set_state Closed s) w)" if "state s = Listen"
    using that by (intro put_turn [OF get] arc_last) (auto simp: set_state_def arc.close_listener)
  then show "whenever (case state s of
        Listen \<Rightarrow> Some (Some (IPAddr_new, 0, local_port s), put_socket r (set_state Closed s) w)
      | Established \<Rightarrow> do {
          w \<leftarrow> tcp_send_packet s NetBuffer_new (FLAG_FIN OR FLAG_ACK) w;
          (s, w) \<leftarrow> set_response_timer r s w;
          Some (None, put_socket r (set_state FinWait1 s) w)
        }
      | CloseWait \<Rightarrow> do {
          w \<leftarrow> tcp_send_packet s NetBuffer_new (FLAG_FIN OR FLAG_ACK) w;
          (s, w) \<leftarrow> set_response_timer r s w;
          Some (None, put_socket r (set_state LastAck s) w)
        }
      | _ \<Rightarrow> Some (None, w)) (\<lambda>(key, w'). turn (Some Close_call) new w w')"
    using send_fin_turn [OF get, of FinWait1] send_fin_turn [OF get, of LastAck] arc.close_established arc.close_after_peer
    by (auto split: TCPState.split)
qed

lemma tcp_listen_turn: "whenever (tcp_listen iss p w) (\<lambda>(res, w'). turn tr (Some Listen) w w')"
proof (rule wheneverI, clarify)
  fix res w'
  assume "tcp_listen iss p w = Some (res, w')"
  then have "tcp_sockets w' = tcp_sockets w @ [set_state Listen (TCPSocketState_new iss IPAddr_new 0 p)]"
      "PENDING_TIMERS w' = PENDING_TIMERS w"
    by (auto simp: tcp_listen_def TCPSocket_new_def get_socket_def put_socket_def Let_def split: if_splits)
  from new_socket_turn [OF this] show "turn tr (Some Listen) w w'"
    by (simp add: set_state_def)
qed

lemma tcp_accept_turn: "whenever (tcp_accept r w) (\<lambda>(res, w'). turn tr new w w')"
  unfolding tcp_accept_def
proof (rule with_socket)
  fix s
  assume "get_socket r w = Some s"
  from put_turn [OF this calm_any [OF same_view_calm(2)]]
  show "whenever (case socket_queue s of [] \<Rightarrow> Some (Blocked, w)
      | q # qs \<Rightarrow> Some (Ready q, put_socket r (s\<lparr>socket_queue := qs\<rparr>) w)) (\<lambda>(res, w'). turn tr new w w')"
    by (auto simp: same_view_def split: list.split)
qed

lemma tcp_read_turn: "whenever (tcp_read r dest w) (\<lambda>(res, w'). turn tr new w w')"
proof (rule wheneverI, clarify)
  fix res w'
  assume run: "tcp_read r dest w = Some (res, w')"
  then obtain s where get: "get_socket r w = Some s"
    by (auto simp: tcp_read_def bind_eq_Some_conv)
  have "turn tr new w (put_socket r (s\<lparr>receive_queue := q\<rparr>) v)" if "trim_head n (receive_queue s) w = Some (q, v)" for n q v
    by (rule put_turn [OF get calm_any]) (simp add: moves_def buf_more_fields [OF trim_head_more [OF that]])
  with run get show "turn tr new w w'"
    by (auto simp: tcp_read_def bind_eq_Some_conv split: if_splits)
qed

lemma write_segment_calm: "whenever (write_segment r bs s w) (calm r (s, w))"
proof (rule wheneverI)
  fix x
  assume run: "write_segment r bs s w = Some x"
  then obtain p w1 w2 q w3 where p: "append_from_slice bs NetBuffer_new w = Some (p, w1)"
    and sent: "tcp_send_packet s p (FLAG_ACK OR FLAG_PSH) w1 = Some w2"
    and q: "append_from_slice bs (retransmit_queue s) w2 = Some (q, w3)"
    by (auto simp: write_segment_def Let_def bind_eq_Some_conv)
  define t where "t = s\<lparr>send_next_seq := send_next_seq s + of_nat (length bs), retransmit_queue := q\<rparr>"
  have rest: "(if retransmit_timer_id t = -1 then do {
       (ident, w) \<leftarrow> set_timer RETRANSMIT_INTERVAL (Retransmit r) w3;
       Some (t\<lparr>retransmit_timer_id := ident\<rparr>, w)
     } else Some (t, w3)) = Some x"
    using run p sent q by (cases "retransmit_timer_id s = -1") (simp_all add: write_segment_def t_def)
  have same: "tcp_sockets w3 = tcp_sockets w" "PENDING_TIMERS w3 = PENDING_TIMERS w"
    by (simp_all add: buf_more_fields [OF append_from_slice_more [OF p]] buf_more_fields [OF append_from_slice_more [OF q]]
        net_more_fields [OF tcp_send_packet_more [OF sent]])
  have "whenever (if retransmit_timer_id t = -1 then do {
       (ident, w) \<leftarrow> set_timer RETRANSMIT_INTERVAL (Retransmit r) w3;
       Some (t\<lparr>retransmit_timer_id := ident\<rparr>, w)
     } else Some (t, w3)) (calm r (t, w3))"
    by (auto simp: same_view_def intro!: move_intros)
  from wheneverD [OF this rest] have "calm r (t, w3) x" .
  then show "calm r (s, w) x"
    by (cases x) (simp add: moves_def same t_def)
qed

lemma tcp_write_loop_calm:
  assumes "tcp_write_loop r bs offset s w = Some (res, s', w')"
  shows "calm r (s, w) (s', w')"
proof -
  have "case x of (res, y) \<Rightarrow> calm r (s, w) y" if "tcp_write_loop r bs offset s w = Some x" for x
  proof (rule tcp_write_loop.raw_induct [OF _ that])
    fix loop :: "nat \<Rightarrow> bytes \<Rightarrow> nat \<Rightarrow> TCPSocketState \<Rightarrow> 'a tcp_world_scheme \<Rightarrow> (write_result \<times> TCPSocketState \<times> 'a tcp_world_scheme) option"
      and r bs offset s w x
    assume IH: "\<And>r bs offset s w x. loop r bs offset s w = Some x \<Longrightarrow> case x of (res, y) \<Rightarrow> calm r (s, w) y"
      and run: "(if offset < length bs then
        if window_closed s (min (length bs - offset) (send_mss s)) then Some (Write_blocked offset, s, w)
        else do {
          packet_slice \<leftarrow> subslice offset (offset + min (length bs - offset) (send_mss s)) bs;
          (s', w) \<leftarrow> write_segment r packet_slice s w;
          loop r bs (offset + min (length bs - offset) (send_mss s)) s' w
        }
      else do {
        assert_that (offset = length bs);
        Some (Write_done (as_i32 (length bs)), s, w)
      }) = Some x"
    show "case x of (res, y) \<Rightarrow> calm r (s, w) y"
    proof (rule case_prodI2)
      fix res y
      assume x: "x = (res, y)"
      show "calm r (s, w) y"
      proof (cases "offset < length bs \<and> \<not> window_closed s (min (length bs - offset) (send_mss s))")
        case True
        then obtain sl t v where seg: "write_segment r sl s w = Some (t, v)"
          and rest: "loop r bs (offset + min (length bs - offset) (send_mss s)) t v = Some x"
          using run by (auto simp: bind_eq_Some_conv simp del: subslice_Some)
        from wheneverD [OF write_segment_calm seg] IH [OF rest] show ?thesis
          by (auto simp: x intro: calm_moves)
      next
        case False
        then have "y = (s, w)"
          using run by (auto simp: x bind_eq_Some_conv split: if_splits)
        then show ?thesis
          by simp
      qed
    qed
  qed
  from this [OF assms] show ?thesis
    by simp
qed

lemma tcp_write_turn:
  "whenever (tcp_write r bs w) (\<lambda>(res, w'). turn tr new w w')"
  "whenever (tcp_write_resume r bs offset w) (\<lambda>(res, w'). turn tr new w w')"
  unfolding tcp_write_def tcp_write_resume_def
  by (rule with_socket, rule wheneverI,
      auto simp: bind_eq_Some_conv split: if_splits intro: put_turn calm_any tcp_write_loop_calm)+

subsection \<open>The receive thread\<close>

lemma handle_new_connection_turn:
  "whenever (handle_new_connection iss l src g m w) (\<lambda>(r, w'). turn tr (Some SynReceived) w w')"
proof (rule wheneverI, clarify)
  fix r w'
  assume run: "handle_new_connection iss l src g m w = Some (r, w')"
  define s0 where "s0 = TCPSocketState_new iss src (seg_source_port g) (seg_dest_port g)"
  define v where "v = w\<lparr>tcp_sockets := tcp_sockets w @ [s0]\<rparr>"
  define r' where "r' = length (tcp_sockets w)"
  have new: "TCPSocket_new iss src (seg_source_port g) (seg_dest_port g) w = (r', v)" "get_socket r' v = Some s0"
    by (simp_all add: TCPSocket_new_def s0_def v_def r'_def get_socket_def)
  define s1 where "s1 = (set_state SynReceived (s0\<lparr>remote_ip := src, remote_port := seg_source_port g\<rparr>))
    \<lparr>send_mss := m, receive_next_seq := seg_seq g + 1, reassembler := set_next_expect (seg_seq g + 1) (reassembler s0)\<rparr>"
  define s2 where "s2 = s1\<lparr>send_unacked := seg_seq g, send_last_win_ack := seg_ack g, send_last_win_seq := seg_seq g,
    send_window := ucast (seg_window g)\<rparr>"
  have "\<exists>v1 s v2 li. tcp_send_packet s1 NetBuffer_new (FLAG_SYN OR FLAG_ACK) v = Some v1 \<and>
      set_response_timer r' s2 v1 = Some (s, v2) \<and> get_socket l (put_socket r' s v2) = Some li \<and>
      w' = put_socket l (li\<lparr>socket_queue := socket_queue li @ [r']\<rparr>) (put_socket r' s v2)"
    using run new by (auto simp: handle_new_connection_def s1_def s2_def s0_def set_state_def Let_def bind_eq_Some_conv)
  then obtain v1 s v2 li where v1: "tcp_send_packet s1 NetBuffer_new (FLAG_SYN OR FLAG_ACK) v = Some v1"
    and s: "set_response_timer r' s2 v1 = Some (s, v2)" and li: "get_socket l (put_socket r' s v2) = Some li"
    and w': "w' = put_socket l (li\<lparr>socket_queue := socket_queue li @ [r']\<rparr>) (put_socket r' s v2)"
    by blast
  have "calm r' (s2, v1) (s, v2)"
    using wheneverD [OF set_response_timer_calm s] .
  then have s_v2: "state s = SynReceived" "request_retry_count s = 0" "tcp_sockets v2 = tcp_sockets w @ [s0]"
    and timers: "\<forall>t \<in> set (PENDING_TIMERS v2). t \<in> set (PENDING_TIMERS w) \<or> own_timer r' t"
    by (auto simp: moves_def s2_def s1_def set_state_def net_more_fields [OF tcp_send_packet_more [OF v1]] v_def)
  have "views (put_socket r' s v2) = views w @ [(SynReceived, 0)]"
    using s_v2 by (simp add: views_def r'_def)
  moreover have "views w' = views (put_socket r' s v2)"
    unfolding w' by (rule put_same_view [OF li]) (simp add: same_view_def)
  moreover have "time_waits w' \<subseteq> time_waits w"
    using timers by (fastforce simp: w' time_waits_def own_timer_def image_iff)
  ultimately show "turn tr (Some SynReceived) w w'"
    by (auto simp: turn_def)
qed

lemma turn_more:
  "buf_world.more w = buf_world.more v \<Longrightarrow> turn tr new v w' \<Longrightarrow> turn tr new w w'"
  "buf_world.more w'' = buf_world.more w' \<Longrightarrow> turn tr new v w' \<Longrightarrow> turn tr new v w''"
  using buf_more_fields [of w v] buf_more_fields [of w'' w'] by (simp_all add: turn_def views_def time_waits_def)

lemma tcp_dispatch_turn: "whenever (tcp_dispatch iss src g m packet w) (turn (Some Arrival) (Some SynReceived) w)"
proof -
  have "whenever (tcp_reset packet src g w) (turn (Some Arrival) (Some SynReceived) w)"
    by (rule wheneverI)
      (auto simp: tcp_reset_def bind_eq_Some_conv intro!: turn_more(2) [OF drop_buffer_more] turn_same
        net_more_fields [OF tcp_output_more])
  moreover have "whenever (do {
      s \<leftarrow> get_socket r w;
      (s, w) \<leftarrow> tcp_input_socket r g m packet s w;
      Some (put_socket r s w)
    }) (turn (Some Arrival) (Some SynReceived) w)" for r
    by (rule with_socket) (rule section_turn [OF _ tcp_input_socket_moves])
  moreover have "whenever (do {
      (new_socket, w) \<leftarrow> handle_new_connection iss l src g m w;
      let w = w\<lparr>TCP_PORT_MAP := (TCP_PORT_MAP w)((src, seg_source_port g, seg_dest_port g) \<mapsto> new_socket)\<rparr>;
      Some (drop_buffer packet w)
    }) (turn (Some Arrival) (Some SynReceived) w)" for l
    using handle_new_connection_turn
  proof (rule whenever_bindI, clarify)
    fix r v
    assume "turn (Some Arrival) (Some SynReceived) w v"
    then have "turn (Some Arrival) (Some SynReceived) w (v\<lparr>TCP_PORT_MAP := mp\<rparr>)" for mp
      by (simp add: turn_def views_def time_waits_def)
    then show "whenever (let w = v\<lparr>TCP_PORT_MAP := (TCP_PORT_MAP v)((src, seg_source_port g, seg_dest_port g) \<mapsto> r)\<rparr>
        in Some (drop_buffer packet w)) (turn (Some Arrival) (Some SynReceived) w)"
      by (simp add: turn_more(2) [OF drop_buffer_more])
  qed
  ultimately show ?thesis
    unfolding tcp_dispatch_def by (auto split: option.split)
qed

lemma udp_more_turn:
  fixes w :: "'a tcp_world_scheme"
  assumes "udp_world.more w' = udp_world.more w"
  shows "turn tr new w w'"
  using assms by (cases w; cases w') (simp add: turn_same)

lemma net_more_turn: "net_world.more w' = net_world.more w \<Longrightarrow> turn tr new w w'"
  by (intro turn_same net_more_fields)

lemma icmp_output_more:
  "icmp_output_v4 packet t dest w = Some w' \<Longrightarrow> net_world.more w' = net_world.more w"
  "icmp_output_v6 packet t dest w = Some w' \<Longrightarrow> net_world.more w' = net_world.more w"
  by (auto simp: icmp_output_v4_def icmp_output_v6_def bind_eq_Some_conv
      dest!: ip_output_more alloc_header_more buf_more_net_more)

lemma icmp_input_v4_more:
  assumes "icmp_input_v4 packet src w = Some w'"
  shows "net_world.more w' = net_world.more w"
proof (rule ccontr)
  assume ne: "net_world.more w' \<noteq> net_world.more w"
  with assms obtain p v u where p: "trim_head ICMP_HEADER_LEN packet w = Some (p, v)" and w': "w' = drop_buffer p u"
    and u: "u = v \<or> (\<exists>q x. append_from_buffer p USIZE_MAX NetBuffer_new v = Some (q, x) \<and>
      icmp_output_v4 q ICMPV4_ECHO_REPLY src x = Some u)"
    by (fastforce simp: icmp_input_v4_def bind_eq_Some_conv buf_more_net_more [OF drop_buffer_more] split: if_split_asm)
  have "net_world.more u = net_world.more v"
    using u icmp_output_more append_from_buffer_more buf_more_net_more by metis
  with ne show False
    by (simp add: w' buf_more_net_more [OF drop_buffer_more] buf_more_net_more [OF trim_head_more [OF p]])
qed

lemma icmp_input_v6_more:
  assumes "icmp_input_v6 packet src w = Some w'"
  shows "net_world.more w' = net_world.more w"
proof (rule ccontr)
  assume ne: "net_world.more w' \<noteq> net_world.more w"
  with assms obtain p v u where p: "trim_head ICMP_HEADER_LEN packet w = Some (p, v)" and w': "w' = drop_buffer p u"
    and u: "u = v \<or> (\<exists>q x. append_from_buffer p USIZE_MAX NetBuffer_new v = Some (q, x) \<and>
      icmp_output_v6 q ICMPV6_ECHO_REPLY src x = Some u)"
    by (fastforce simp: icmp_input_v6_def bind_eq_Some_conv buf_more_net_more [OF drop_buffer_more] split: if_split_asm)
  have "net_world.more u = net_world.more v"
    using u icmp_output_more append_from_buffer_more buf_more_net_more by metis
  with ne show False
    by (simp add: w' buf_more_net_more [OF drop_buffer_more] buf_more_net_more [OF trim_head_more [OF p]])
qed

lemma buf_more_udp_more:
  fixes w :: "'a udp_world_scheme"
  shows "buf_world.more w' = buf_world.more w \<Longrightarrow> udp_world.more w' = udp_world.more w"
  by (cases w; cases w') simp

lemma net_more_udp_more:
  fixes w :: "'a udp_world_scheme"
  shows "net_world.more w' = net_world.more w \<Longrightarrow> udp_world.more w' = udp_world.more w"
  by (cases w; cases w') simp

lemma udp_input_more: "udp_input packet src w = Some w' \<Longrightarrow> udp_world.more w' = udp_world.more w"
  by (auto simp: udp_input_def bind_eq_Some_conv Let_def buf_more_udp_more [OF drop_buffer_more] split: if_splits option.splits
      dest!: trim_head_more buf_more_udp_more)

lemma udp_send_more: "udp_send r dest dp bs w = Some (res, w') \<Longrightarrow> udp_world.more w' = udp_world.more w"
  by (auto simp: udp_send_def udp_output_def bind_eq_Some_conv Let_def
      dest!: ip_output_more alloc_header_more append_from_slice_more buf_more_udp_more net_more_udp_more)

abbreviation arrival :: "'a tcp_world_scheme \<Rightarrow> 'a tcp_world_scheme \<Rightarrow> bool" where
  "arrival \<equiv> turn (Some Arrival) (Some SynReceived)"

lemma drop_turn: "turn tr new w (drop_buffer packet w)"
  by (rule turn_more(2) [OF drop_buffer_more]) simp

lemma trimmed_turn:
  assumes "trim_head n packet w = Some (p, v)" and "turn tr new v w'"
  shows "turn tr new w w'"
  by (rule turn_more(1) [OF trim_head_more [OF assms(1), symmetric] assms(2)])

lemma tcp_input_turn: "whenever (tcp_input iss packet src w) (arrival w)"
proof (rule wheneverI)
  fix w'
  assume run: "tcp_input iss packet src w = Some w'"
  show "arrival w w'"
  proof (rule ccontr)
    assume ne: "\<not> arrival w w'"
    with run drop_turn obtain g m p v where p: "trim_head (seg_header_length g) packet w = Some (p, v)"
      and w': "tcp_dispatch iss src g m p v = Some w'"
      by (fastforce simp: tcp_input_def Let_def bind_eq_Some_conv split: if_split_asm)
    from trimmed_turn [OF p wheneverD [OF tcp_dispatch_turn w']] ne show False
      by simp
  qed
qed

lemma ip_input_common_turn:
  assumes "ip_input_common iss packet protocol src w = Some w'"
  shows "arrival w w'"
  using assms wheneverD [OF tcp_input_turn, of iss packet src w w']
  by (auto simp: ip_input_common_def drop_turn split: if_split_asm
      dest: net_more_turn [OF icmp_input_v4_more] net_more_turn [OF icmp_input_v6_more] udp_more_turn [OF udp_input_more])

lemma ip_input_turn:
  assumes "ip_input iss packet w = Some w'"
  shows "arrival w w'"
proof -
  have "arrival w w'" if "ip_input_v4 iss packet w = Some w'"
    using that
    by (auto simp: ip_input_v4_def bind_eq_Some_conv Let_def drop_turn split: if_split_asm
        intro: trimmed_turn ip_input_common_turn)
  moreover have "arrival w w'" if "ip_input_v6 iss packet w = Some w'"
    using that by (auto simp: ip_input_v6_def bind_eq_Some_conv intro: trimmed_turn ip_input_common_turn)
  ultimately show ?thesis
    using assms by (auto simp: ip_input_def bind_eq_Some_conv Let_def drop_turn split: if_split_asm)
qed

lemma prealloc_loop_more: "prealloc_loop n fs w = Some (fs', w') \<Longrightarrow> buf_world.more w' = buf_world.more w"
proof (induction n fs w rule: prealloc_loop.induct)
  case (1 n fs w)
  from "1.prems" show ?case
    by (subst (asm) prealloc_loop.simps)
      (auto simp: Let_def bind_eq_Some_conv alloc_more split: if_splits dest!: "1.IH" [rotated -1])
qed

lemma trim_tail_more: "trim_tail n b w = Some (b', w') \<Longrightarrow> buf_world.more w' = buf_world.more w"
  by (auto simp: trim_tail_def bind_eq_Some_conv split: if_splits)

lemma recv_packet_more: "recv_packet readv w = Some (packet, w') \<Longrightarrow> net_world.more w' = net_world.more w"
  by (auto simp: recv_packet_def new_prealloc_def bind_eq_Some_conv Let_def case_prod_unfold
      split: if_splits dest!: prealloc_loop_more trim_tail_more buf_more_net_more)

lemma packet_receive_turn:
  assumes "packet_receive readv iss w = Some w'"
  shows "arrival w w'"
proof -
  obtain packet v where v: "recv_packet readv w = Some (packet, v)" and w': "ip_input iss packet v = Some w'"
    using assms by (auto simp: packet_receive_def bind_eq_Some_conv)
  have "views w = views v" "time_waits w = time_waits v"
    by (simp_all add: views_def time_waits_def net_more_fields [OF recv_packet_more [OF v]])
  with ip_input_turn [OF w'] show ?thesis
    by (simp add: turn_def)
qed

section \<open>Refinement\<close>

text \<open>
  The invariant that the refinement needs: no retry was ever counted, the sockets that wait to be
  connected are closed, and the timer that ends \<open>TimeWait\<close> is pending only for sockets that are in
  this state or were reset since.
\<close>

definition diagram_ok :: "'a sys \<Rightarrow> bool" where
  "diagram_ok = (\<lambda>(c, ks, os, w). (\<forall>v \<in> set (views w). snd v = 0) \<and> distinct os \<and>
     (\<forall>r \<in> set os. r < length (views w) \<and> fst (views w ! r) = Closed) \<and>
     (\<forall>r \<in> time_waits w \<union> {r. c = Some (Time_wait_timeout r)}.
       r < length (views w) \<and> r \<notin> set os \<and> fst (views w ! r) \<in> {TimeWait, Closed}))"

lemma turn_retries:
  assumes "turn tr new w w'" and "\<forall>v \<in> set (views w). snd v = 0"
  shows "\<forall>v \<in> set (views w'). snd v = 0"
  using assms set_update_subset_insert [of "views w"] unfolding turn_def by fastforce

lemma turn_ok:
  assumes "diagram_ok (c, ks, os, w)" and turn: "turn tr new w w'" and "tr \<noteq> Some Connect"
  shows "diagram_ok (c, ks', os, w')"
proof -
  have old: "\<forall>r < length (views w). r < length (views w') \<and>
      (fst (views w ! r) = Closed \<longrightarrow> fst (views w' ! r) = Closed) \<and>
      (fst (views w ! r) = TimeWait \<longrightarrow> fst (views w' ! r) \<in> {TimeWait, Closed})"
    using turn assms(3) by (auto simp: turn_def nth_list_update nth_append arc_Closed arc_TimeWait)
  moreover have "\<forall>v \<in> set (views w'). snd v = 0"
    using turn_retries [OF turn] assms(1) by (simp add: diagram_ok_def)
  moreover have "r < length (views w') \<and> r \<notin> set os \<and> fst (views w' ! r) \<in> {TimeWait, Closed}"
    if "r \<in> time_waits w'" for r
  proof (cases "r \<in> time_waits w")
    case True
    then show ?thesis
      using assms(1) old by (auto simp: diagram_ok_def)
  next
    case False
    then have "r < length (views w')" "fst (views w' ! r) = TimeWait"
      using that turn by (auto simp: turn_def)
    then show ?thesis
      using assms(1) old by (force simp: diagram_ok_def)
  qed
  ultimately show ?thesis
    using assms(1) by (auto simp: diagram_ok_def)
qed

lemma turn_diagram:
  assumes "turn tr new w w'" and "trigger_of ev = tr" and "birth ev = new"
  shows "diagram_step ev (states w) (states w')"
proof -
  have st: "states v = map fst (views v)" for v :: "'a tcp_world_scheme"
    by (simp add: states_def views_def)
  from assms(1) consider "views w' = views w"
    | t r y where "tr = Some t" "r < length (views w)" "arc t (fst (views w ! r)) y" "views w' = (views w)[r := (y, 0)]"
    | y where "new = Some y" "views w' = views w @ [(y, 0)]"
    by (auto simp: turn_def)
  then show ?thesis
  proof cases
    case 2
    then show ?thesis
      using diagram_step.move [of r "states w" ev t y] assms(2) by (simp add: st map_update)
  qed (use assms(3) in \<open>simp_all add: st diagram_step.stay diagram_step.new\<close>)
qed

lemma turn_step:
  assumes "turn (trigger_of ev) (birth ev) w w'" and "diagram_ok (c, ks, os, w)" and "trigger_of ev \<noteq> Some Connect"
  shows "diagram_ok (c, ks', os, w') \<and>
    diagram_step ev (states (snd (snd (snd (c, ks, os, w))))) (states (snd (snd (snd (c, ks', os, w')))))"
  using turn_ok [OF assms(2,1,3)] turn_diagram [OF assms(1)] by simp

lemma callback_turn:
  assumes "diagram_ok (Some cb, ks, os, w)" and "run_callback cb w = Some w'"
  shows "turn (trigger_of (Run cb)) (birth (Run cb)) w w'"
proof -
  have "\<forall>v \<in> set (views w). snd v = 0" and "\<forall>r. cb = Time_wait_timeout r \<longrightarrow> fst (views w ! r) \<in> {TimeWait, Closed}"
    using assms(1) by (auto simp: diagram_ok_def)
  then have "whenever (run_callback cb w) (turn (trigger_of (Run cb)) (birth (Run cb)) w)"
    by (cases cb) (simp_all add: retransmit_turn delayed_ack_turn response_timeout_turn time_wait_timeout_turn)
  from wheneverD [OF this assms(2)] show ?thesis .
qed

lemma stack_step_diagram:
  "stack_step ev s s' \<Longrightarrow> diagram_ok s \<Longrightarrow>
     diagram_ok s' \<and> diagram_step ev (states (snd (snd (snd s)))) (states (snd (snd (snd s'))))"
proof (induction rule: stack_step.induct)
  case (receive_step readv frame iss w w' c ks os)
  then show ?case
    by (intro turn_step) (simp_all add: packet_receive_turn)
next
  case (fire_step w us t vs cb ks os)
  define w' where "w' = w\<lparr>PENDING_TIMERS := us @ vs\<rparr>"
  have "views w' = views w" "states w' = states w"
    by (simp_all add: views_def states_def w'_def)
  moreover have "time_waits w' \<union> {r. cb = Time_wait_timeout r} \<subseteq> time_waits w"
    using fire_step.hyps by (auto simp: time_waits_def w'_def image_Un)
  ultimately show ?case
    using fire_step.prems unfolding w'_def [symmetric] by (auto simp: diagram_ok_def diagram_step.stay)
next
  case (run_step cb w w' ks os)
  have "diagram_ok (None, ks, os, w)"
    using run_step.prems by (auto simp: diagram_ok_def)
  moreover have "trigger_of (Run cb) \<noteq> Some Connect"
    by (cases cb) simp_all
  ultimately show ?case
    using turn_step [OF callback_turn [OF run_step.prems run_step.hyps], of None ks os ks] by simp
next
  case (time_wait_step r w k w' us vs os)
  then have "diagram_ok (None, us @ vs, os, w)" and "\<forall>v \<in> set (views w). snd v = 0" and "fst (views w ! r) \<in> {TimeWait, Closed}"
    by (auto simp: diagram_ok_def)
  with wheneverD [OF time_wait_socket_turn [OF this(2,3)] time_wait_step.hyps, of None] show ?case
    using turn_step [of "Run (Time_wait_timeout r)" w w' None "us @ vs" os "us @ k # vs"] by simp
next
  case (clock_step w t c ks os)
  have "turn None None w (w\<lparr>clock_ms := t\<rparr>)"
    by (rule turn_same) simp_all
  from turn_ok [OF clock_step.prems this] turn_diagram [OF this] show ?case
    by simp
next
  case (udp_open_step p w res w' c ks os)
  have "udp_world.more w' = udp_world.more w"
    using udp_open_more [of p w] udp_open_step.hyps by simp
  from udp_more_turn [OF this] udp_open_step.prems show ?case
    by (intro turn_step) simp_all
next
  case (udp_send_step dest bs r dp w res w' c ks os)
  from udp_more_turn [OF udp_send_more [OF this(3)]] udp_send_step.prems show ?case
    by (intro turn_step) simp_all
next
  case (udp_recv_step r dest w res w' c ks os)
  from wheneverD [OF udp_recv_more this(1)] have "udp_world.more w' = udp_world.more w"
    by simp
  from udp_more_turn [OF this] udp_recv_step.prems show ?case
    by (intro turn_step) simp_all
next
  case (open_insert_step rip draws iss rport w r w' c ks os)
  from wheneverD [OF tcp_open_insert_turn this(2)]
  have t: "turn None (Some Closed) w w'" and r: "r = length (views w)" "views w' = views w @ [(Closed, 0)]"
    by auto
  have "diagram_ok (c, ks, os, w')"
    by (rule turn_ok [OF open_insert_step.prems t]) simp
  moreover have "r \<notin> set os" "r \<notin> time_waits w \<union> {r. c = Some (Time_wait_timeout r)}"
    using open_insert_step.prems r by (auto simp: diagram_ok_def)
  moreover have "r \<notin> time_waits w'"
    using t calculation(3) r by (auto simp: turn_def)
  ultimately have "diagram_ok (c, ks, r # os, w')"
    using r by (auto simp: diagram_ok_def)
  with turn_diagram [OF t, of "Open_insert rip rport"] show ?case
    by simp
next
  case (open_connect_step r w w' c ks us vs)
  have closed: "fst (views w ! r) = Closed"
    using open_connect_step.prems by (simp add: diagram_ok_def)
  from wheneverD [OF tcp_open_connect_turn [OF this] open_connect_step.hyps]
  have t: "turn (Some Connect) None w w'" and same: "length (views w') = length (views w)" "\<And>i. i \<noteq> r \<Longrightarrow> views w' ! i = views w ! i"
    and waits: "time_waits w' \<subseteq> time_waits w"
    by auto
  have "\<forall>v \<in> set (views w'). snd v = 0"
    using turn_retries [OF t] open_connect_step.prems by (simp add: diagram_ok_def)
  moreover have "\<forall>i \<in> set (us @ vs). i < length (views w') \<and> fst (views w' ! i) = Closed"
  proof
    fix i
    assume "i \<in> set (us @ vs)"
    then have "i \<noteq> r \<and> i < length (views w) \<and> fst (views w ! i) = Closed"
      using open_connect_step.prems by (auto simp: diagram_ok_def)
    then show "i < length (views w') \<and> fst (views w' ! i) = Closed"
      using same by simp
  qed
  moreover have "\<forall>i \<in> time_waits w \<union> {r. c = Some (Time_wait_timeout r)}. i < length (views w') \<and> i \<notin> set (us @ vs) \<and>
      fst (views w' ! i) \<in> {TimeWait, Closed}"
  proof
    fix i
    assume "i \<in> time_waits w \<union> {r. c = Some (Time_wait_timeout r)}"
    then have "i < length (views w) \<and> i \<notin> set (us @ r # vs) \<and> fst (views w ! i) \<in> {TimeWait, Closed}"
      using open_connect_step.prems by (simp add: diagram_ok_def)
    then show "i < length (views w') \<and> i \<notin> set (us @ vs) \<and> fst (views w' ! i) \<in> {TimeWait, Closed}"
      using same by simp
  qed
  moreover have "distinct (us @ vs)"
    using open_connect_step.prems by (simp add: diagram_ok_def)
  ultimately have "diagram_ok (c, ks, us @ vs, w')"
    using waits unfolding diagram_ok_def by simp (blast dest: subsetD)
  with turn_diagram [OF t, of "Open_connect r"] show ?case
    by simp
next
  case (listen_step iss p w res w' c ks os)
  from wheneverD [OF tcp_listen_turn [of iss p w None] this(1)] listen_step.prems show ?case
    by (intro turn_step) simp_all
next
  case (accept_step r w res w' c ks os)
  from wheneverD [OF tcp_accept_turn [of r w None None] this(1)] accept_step.prems show ?case
    by (intro turn_step) simp_all
next
  case (close_socket_step r w key w' c ks os)
  from wheneverD [OF tcp_close_socket_turn [of r w None] this(1)] close_socket_step.prems show ?case
    by (intro turn_step) simp_all
next
  case (unmap_step k c us vs os w)
  have "turn None None w (tcp_unmap k w)"
    by simp
  from turn_ok [OF unmap_step.prems this] turn_diagram [OF this] show ?case
    by simp
next
  case (read_step r dest w res w' c ks os)
  from wheneverD [OF tcp_read_turn [of r dest w None None] this(1)] read_step.prems show ?case
    by (intro turn_step) simp_all
next
  case (write_step r bs w res w' c ks os)
  from wheneverD [OF tcp_write_turn(1) [of r bs w None None] this(1)] write_step.prems show ?case
    by (intro turn_step) simp_all
next
  case (write_on_step r bs offset w res w' c ks os)
  from wheneverD [OF tcp_write_turn(2) [of r bs offset w None None] this(1)] write_on_step.prems show ?case
    by (intro turn_step) simp_all
qed

lemma reachable_diagram_ok: "reachable s \<Longrightarrow> diagram_ok s"
proof (induction rule: reachable.induct)
  case (boot_step writev now w)
  then show ?case
    by (auto simp: init_netstack_def netif_init_def new_from_def new_v4_def new_v6_def boot_world_def
        diagram_ok_def views_def time_waits_def)
qed (blast dest: stack_step_diagram)

section \<open>Properties\<close>

text \<open>
  C5: The stack implements the state diagram of TCP: every step that a thread takes from a reachable state
  leaves all sockets in their states, or moves exactly one of them along an arc of the diagram that has
  the call, the segment or the timer as its trigger, or makes one new socket in its first state.
\<close>

theorem stack_refines_diagram:
  assumes "reachable (c, ks, os, w)" and "stack_step ev (c, ks, os, w) (c', ks', os', w')"
  shows "diagram_step ev (map state (tcp_sockets w)) (map state (tcp_sockets w'))"
  using stack_step_diagram [OF assms(2) reachable_diagram_ok [OF assms(1)]] by (simp add: states_def)

theorem stack_refines_diagram_witness:
  "\<exists>key w'. tcp_close_socket 0 listening_world = Some (Some key, w') \<and>
     diagram_step (Close 0) [Listen] [Closed] \<and> map state (tcp_sockets w') = [Closed]"
proof -
  define w' where "w' = put_socket 0 (set_state Closed (set_state Listen (TCPSocketState_new 5 IPAddr_new 0 80))) listening_world"
  have run: "tcp_close_socket 0 listening_world = Some (Some (IPAddr_new, 0, 80), w')"
    by (simp add: tcp_close_socket_def get_socket_def listening_world_fields set_state_def TCPSocketState_new_def w'_def)
  moreover have st: "map state (tcp_sockets listening_world) = [Listen]" "map state (tcp_sockets w') = [Closed]"
    by (simp_all add: w'_def listening_world_fields set_state_def)
  ultimately show ?thesis
    using stack_refines_diagram [OF listening_world_reachable stack_step.close_socket_step [OF run]] by simp
qed

end
