(* ===== verification/Tcp_Timers.thy ===== *)
theory Tcp_Timers
  imports Tcp_Diagram
begin

text \<open>
  The timer thread with the closures of TCP: an interpretation of \<open>timer_client\<close>. From a state whose
  pending timers are in order a round runs every due timer and returns; the states of a socket in which
  the response timer panics are shown to do so.
\<close>

section \<open>The timers a closure sets\<close>

lemma cancel_absent:
  assumes "ident \<notin> timer_id ` set (PENDING_TIMERS w)"
  shows "snd (cancel_timer ident w) = w"
proof -
  obtain found w' where run: "cancel_timer ident w = (found, w')"
    by fastforce
  with cancel_timer_mset [OF run] assms show ?thesis
    by simp
qed

lemma cancel_last:
  assumes "PENDING_TIMERS w = ts @ [x]" and "timer_id x \<notin> timer_id ` set ts"
  shows "snd (cancel_timer (timer_id x) w) = w\<lparr>PENDING_TIMERS := ts\<rparr>"
proof -
  obtain found us where run: "cancel_loop (timer_id x) 0 (ts @ [x]) = (found, us)"
    by fastforce
  note run_spec = cancel_loop_spec [where ident = "timer_id x" and i = 0 and ts = "ts @ [x]", unfolded run]
  have found
  proof (rule ccontr)
    assume "\<not> found"
    with run_spec have "\<forall>j < length (ts @ [x]). timer_id ((ts @ [x]) ! j) \<noteq> timer_id x"
      by simp
    from this [rule_format, of "length ts"] show False
      by simp
  qed
  with run_spec obtain j where j: "j < Suc (length ts)" "timer_id ((ts @ [x]) ! j) = timer_id x" "us = swap_remove j (ts @ [x])"
    by auto
  have "\<not> j < length ts"
    using j(2) assms(2) by (metis image_eqI nth_append nth_mem)
  with j have "us = ts"
    by (simp add: swap_remove_def less_Suc_eq)
  then show ?thesis
    by (simp add: cancel_timer_def assms(1) run)
qed

definition fresh_id :: "'a tcp_world_scheme \<Rightarrow> int" where
  "fresh_id w = uint (NEXT_TIMER_ID w AND 0x7fffffff)"

definition timer_in :: "u32 \<Rightarrow> callback \<Rightarrow> 'a tcp_world_scheme \<Rightarrow> callback Timer" where
  "timer_in timeout c w = \<lparr>absolute_timeout_ms = clock_ms w + ucast timeout, closure = Some c, timer_id = fresh_id w\<rparr>"

definition add_timer :: "u32 \<Rightarrow> callback \<Rightarrow> 'a tcp_world_scheme \<Rightarrow> 'a tcp_world_scheme" where
  "add_timer timeout c w = w\<lparr>NEXT_TIMER_ID := NEXT_TIMER_ID w + 1, PENDING_TIMERS := PENDING_TIMERS w @ [timer_in timeout c w]\<rparr>"

lemma set_timer_adds:
  "unat (clock_ms w) + unat timeout < 2 ^ 64 \<Longrightarrow> set_timer timeout c w = Some (fresh_id w, add_timer timeout c w)"
  using set_timer_returns [of w timeout c] by (simp add: fresh_id_def add_timer_def timer_in_def)

lemma timer_in_not_due:
  assumes "unat (clock_ms w) + unat timeout < 2 ^ 64" and "0 < timeout"
  shows "\<not> due (clock_ms w) (timer_in timeout c w)"
proof -
  have "unat (ucast timeout :: u64) = unat timeout"
    using unat_u32_less [of timeout] by (simp add: unsigned_ucast_eq take_bit_nat_eq_self)
  moreover have "0 < unat timeout"
    using assms(2) by (simp add: word_less_nat_alt)
  ultimately show ?thesis
    using assms(1) by (simp add: due_def timer_in_def word_le_nat_alt unat_word_ariths)
qed

lemma set_response_timer_adds:
  assumes "unat (clock_ms w) + 3000 < 2 ^ 64" and "response_timer_id s \<notin> timer_id ` set (PENDING_TIMERS w)"
  shows "set_response_timer r s w = Some (s\<lparr>response_timer_id := fresh_id w\<rparr>, add_timer RESPONSE_TIMEOUT (Response_timeout r) w)"
  using assms set_timer_adds [of w RESPONSE_TIMEOUT]
  by (simp add: set_response_timer_def cancel_absent RESPONSE_TIMEOUT_def)

text \<open>The timer that has just been set is the one that is cancelled when it is set again.\<close>

lemma set_response_timer_again:
  assumes "unat (clock_ms w) + 3000 < 2 ^ 64" and "fresh_id w \<notin> timer_id ` set (PENDING_TIMERS w)"
  shows "set_response_timer r (s\<lparr>response_timer_id := fresh_id w\<rparr>) (add_timer RESPONSE_TIMEOUT (Response_timeout r) w) =
    (let u = w\<lparr>NEXT_TIMER_ID := NEXT_TIMER_ID w + 1\<rparr>
     in Some (s\<lparr>response_timer_id := fresh_id u\<rparr>, add_timer RESPONSE_TIMEOUT (Response_timeout r) u))"
proof -
  define u where "u = w\<lparr>NEXT_TIMER_ID := NEXT_TIMER_ID w + 1\<rparr>"
  have "snd (cancel_timer (fresh_id w) (add_timer RESPONSE_TIMEOUT (Response_timeout r) w)) = u"
    using cancel_last [of "add_timer RESPONSE_TIMEOUT (Response_timeout r) w" "PENDING_TIMERS w"
        "timer_in RESPONSE_TIMEOUT (Response_timeout r) w"] assms(2)
    by (simp add: add_timer_def timer_in_def u_def)
  moreover have "fresh_id w \<noteq> -1"
    using timer_id_range(1) [of "NEXT_TIMER_ID w"] unfolding fresh_id_def by linarith
  moreover have "set_timer RESPONSE_TIMEOUT (Response_timeout r) u = Some (fresh_id u, add_timer RESPONSE_TIMEOUT (Response_timeout r) u)"
    using assms(1) by (intro set_timer_adds) (simp add: u_def RESPONSE_TIMEOUT_def)
  ultimately show ?thesis
    by (simp add: set_response_timer_def u_def [symmetric])
qed


lemma fresh_id_nat:
  assumes "unat (NEXT_TIMER_ID w) < 2 ^ 31"
  shows "fresh_id w = int (unat (NEXT_TIMER_ID w))"
proof -
  have "uint (NEXT_TIMER_ID w) = int (unat (NEXT_TIMER_ID w))"
    by simp
  moreover have "int (unat (NEXT_TIMER_ID w)) < 2 ^ 31"
    using assms by (metis of_nat_less_iff of_nat_numeral of_nat_power)
  ultimately show ?thesis
    unfolding fresh_id_def uint_id by (simp only: mod_pos_pos_trivial of_nat_0_le_iff)
qed

lemma unat_add_small: "unat (n :: u32) + k < 2 ^ 31 \<Longrightarrow> unat (n + of_nat k) = unat n + k"
  by (simp add: unat_word_ariths unsigned_of_nat take_bit_nat_eq_self)

section \<open>What a closure does\<close>

text \<open>The states in which \<open>response_timeout\<close> does not panic.\<close>

definition answerable :: "TCPState \<Rightarrow> bool" where
  "answerable st \<longleftrightarrow> st \<in> {Closed, Established, SynSent, FinWait1, LastAck, Closing, CloseWait}"

text \<open>A socket that can send: the acknowledgement number does not overflow and a segment fits in a frame.\<close>

definition socket_live :: "TCPSocketState \<Rightarrow> bool" where
  "socket_live s \<longleftrightarrow> ack_of s \<noteq> None \<and> min (send_mss s) (length (contents (retransmit_queue s))) \<le> MAX_PAYLOAD"

definition timers_ready :: "'a tcp_world_scheme \<Rightarrow> bool" where
  "timers_ready w \<longleftrightarrow> unat (clock_ms w) + 3000 < 2 ^ 64 \<and> unat (NEXT_TIMER_ID w) + 2 < 2 ^ 31 \<and>
     (\<forall>t \<in> set (PENDING_TIMERS w). timer_id t < int (unat (NEXT_TIMER_ID w)))"

definition no_response :: "nat \<Rightarrow> callback Timer list \<Rightarrow> bool" where
  "no_response r ts \<longleftrightarrow> (\<forall>t \<in> set ts. closure t \<noteq> Some (Response_timeout r))"

text \<open>A closure of the socket \<open>r\<close> changes that socket only, and adds at most one timer, which is not due.\<close>

definition fires :: "nat \<Rightarrow> 'a tcp_world_scheme \<Rightarrow> 'a tcp_world_scheme \<Rightarrow> bool" where
  "fires r w w' \<longleftrightarrow> (\<exists>s s' ts k.
     get_socket r w = Some s \<and> tcp_sockets w' = (tcp_sockets w)[r := s'] \<and> socket_live s' \<and>
     clock_ms w' = clock_ms w \<and> NEXT_TIMER_ID w' = NEXT_TIMER_ID w + of_nat k \<and> k \<le> 2 \<and>
     PENDING_TIMERS w' = PENDING_TIMERS w @ ts \<and> length ts \<le> 1 \<and>
     (\<forall>t \<in> set ts. \<not> due (clock_ms w) t \<and> int (unat (NEXT_TIMER_ID w)) \<le> timer_id t \<and>
        timer_id t < int (unat (NEXT_TIMER_ID w) + k) \<and>
        (\<forall>q. closure t = Some (Response_timeout q) \<longrightarrow> q = r \<and> timer_id t = response_timer_id s' \<and> answerable (state s'))) \<and>
     (no_response r (PENDING_TIMERS w) \<or>
        response_timer_id s' = response_timer_id s \<and> (answerable (state s) \<longrightarrow> answerable (state s'))))"

lemma net_step_same:
  assumes "net_step w n xs v m"
  shows "PENDING_TIMERS v = PENDING_TIMERS w" "NEXT_TIMER_ID v = NEXT_TIMER_ID w" "clock_ms v = clock_ms w"
    "tcp_sockets v = tcp_sockets w"
  using net_step_timers [OF assms] tcp_frame_fields [OF net_step_tcp_frame [OF assms]] by simp_all

lemma fires_quietly:
  assumes "get_socket r w = Some s" and "socket_live s'" and "response_timer_id s' = response_timer_id s"
    and "answerable (state s) \<Longrightarrow> answerable (state s')"
    and "PENDING_TIMERS v = PENDING_TIMERS w" and "NEXT_TIMER_ID v = NEXT_TIMER_ID w" and "clock_ms v = clock_ms w"
    and "tcp_sockets v = tcp_sockets w"
  shows "fires r w (put_socket r s' v)"
  unfolding fires_def
  by (rule exI [of _ s], rule exI [of _ s'], rule exI [of _ "[]"], rule exI [of _ 0])
    (use assms in \<open>simp add: put_socket_def\<close>)

lemma delayed_ack_fires:
  assumes "get_socket r w = Some s" and "tcp_ok w" and "socket_live s"
  shows "returns (delayed_ack r w) (fires r w)"
proof (cases "state s = Closed")
  case True
  moreover have "put_socket r s w = w"
    using assms(1) by (simp add: put_socket_def get_socket_Some)
  ultimately show ?thesis
    using assms fires_quietly [of r w s s w] by (simp add: delayed_ack_def)
next
  case False
  have "net_ok w" "wf_ip (remote_ip s)"
    using assms(1,2) by (auto simp: tcp_ok_def udp_ok_def get_socket_Some socket_ok_def)
  then have "returns (tcp_send_packet s NetBuffer_new FLAG_ACK w) (\<lambda>v. net_step w 0 [socket_frame w s FLAG_ACK []] v 0)"
    using assms(3) by (intro tcp_send_empty) (auto simp: socket_live_def)
  then have "returns (tcp_send_packet s NetBuffer_new FLAG_ACK w)
      (\<lambda>v. fires r w (put_socket r (s\<lparr>delayed_ack_timer_id := -1, num_delayed_acks := 0\<rparr>) v))"
    by (rule returns_conseq)
      (use assms in \<open>auto simp: net_step_same socket_live_def ack_of_def intro!: fires_quietly\<close>)
  with False assms(1) show ?thesis
    by (simp add: delayed_ack_def returns_bind)
qed


lemma time_wait_timeout_fires:
  assumes "get_socket r w = Some s" and "socket_live s"
  shows "returns (time_wait_timeout r w) (fires r w)"
proof -
  have "fires r w (put_socket r (set_state Closed s) (tcp_unmap key w))" for key
    using assms
    by (intro fires_quietly) (auto simp: tcp_unmap_def socket_live_def set_state_def ack_of_cases answerable_def)
  moreover have "tcp_unmap key (put_socket r s' w) = put_socket r s' (tcp_unmap key w)" for key s'
    by (cases w) (simp add: tcp_unmap_def put_socket_def)
  ultimately show ?thesis
    using assms by (simp add: time_wait_timeout_def time_wait_socket_def Let_def)
qed

text \<open>A closure that sets one timer at the end, after \<open>j\<close> ids were taken.\<close>

lemma fires_setting:
  assumes "get_socket r w = Some s" and "socket_live s'" and "timers_ready w"
    and v: "PENDING_TIMERS v = PENDING_TIMERS w" "NEXT_TIMER_ID v = NEXT_TIMER_ID w + of_nat j" "clock_ms v = clock_ms w"
      "tcp_sockets v = tcp_sockets w" "j \<le> 1"
    and t: "0 < timeout" "timeout \<le> 3000"
    and c: "\<And>q. c = Response_timeout q \<Longrightarrow> q = r \<and> response_timer_id s' = fresh_id v \<and> answerable (state s')"
    and kept: "no_response r (PENDING_TIMERS w) \<or> response_timer_id s' = response_timer_id s \<and> state s' = state s"
  shows "fires r w (put_socket r s' (add_timer timeout c v))"
proof -
  define T where "T = timer_in timeout c v"
  have "unat timeout \<le> 3000"
    using t(2) by (simp add: word_le_nat_alt)
  then have T: "\<not> due (clock_ms w) T" "timer_id T = fresh_id v" "closure T = Some c"
    using assms(3) timer_in_not_due [of v timeout c] t(1) by (simp_all add: timers_ready_def v(3) T_def timer_in_def)
  moreover have "fresh_id v = int (unat (NEXT_TIMER_ID w) + j)"
    using assms(3) v(5) by (subst fresh_id_nat; simp add: v(2) unat_add_small timers_ready_def)
  ultimately have id: "int (unat (NEXT_TIMER_ID w)) \<le> timer_id T" "timer_id T < int (unat (NEXT_TIMER_ID w) + Suc j)"
    by (simp_all only: of_nat_le_iff of_nat_less_iff)
  have w': "PENDING_TIMERS (put_socket r s' (add_timer timeout c v)) = PENDING_TIMERS w @ [T]"
      "NEXT_TIMER_ID (put_socket r s' (add_timer timeout c v)) = NEXT_TIMER_ID w + of_nat (Suc j)"
      "clock_ms (put_socket r s' (add_timer timeout c v)) = clock_ms w"
      "tcp_sockets (put_socket r s' (add_timer timeout c v)) = (tcp_sockets w)[r := s']"
    by (simp_all add: put_socket_def add_timer_def v T_def)
  show ?thesis
    unfolding fires_def w'
    by (rule exI [of _ s], rule exI [of _ s'], rule exI [of _ "[T]"], rule exI [of _ "Suc j"])
      (use assms(1,2) v(5) c T id in simp, use kept in auto)
qed

lemma retransmit_fires:
  assumes get: "get_socket r w = Some s" and ok: "tcp_ok w" and live: "socket_live s" and ready: "timers_ready w"
  shows "returns (retransmit r w) (fires r w)"
proof (cases "state s = Closed \<or> is_empty (retransmit_queue s)")
  case True
  define u where "u = (if state s = Closed then w
    else w\<lparr>METRICS := (METRICS w)\<lparr>packets_retransmitted := PerfCounter_inc (packets_retransmitted (METRICS w))\<rparr>\<rparr>)"
  have "fires r w (put_socket r s u)"
    using get live by (intro fires_quietly) (simp_all add: u_def)
  moreover have "put_socket r s u = u"
    using get by (simp add: put_socket_def get_socket_Some u_def)
  ultimately show ?thesis
    using True get by (simp add: retransmit_def u_def Let_def split: if_splits)
next
  case False
  define u where "u = w\<lparr>METRICS := (METRICS w)\<lparr>packets_retransmitted := PerfCounter_inc (packets_retransmitted (METRICS w))\<rparr>\<rparr>"
  have ok': "net_ok u" "wf_ip (remote_ip s)" "wf_buf (retransmit_queue s)"
    using ok get by (auto simp: u_def tcp_ok_def udp_ok_def get_socket_Some socket_ok_def net_ok_def pool_ok_def link_up_def)
  have "returns (append_from_buffer (retransmit_queue s) (send_mss s) NetBuffer_new u) (\<lambda>(q, v). wf_buf q \<and>
      contents q = take (send_mss s) (contents (retransmit_queue s)) \<and> packed (fragments q) \<and> pool_step u 0 v (nfrags q))"
    using append_from_buffer_returns [of NetBuffer_new "retransmit_queue s" u "send_mss s"] ok' wf_buf_bound [OF ok'(3)]
    by (auto simp: net_ok_pool length_contents elim!: returns_conseq)
  then obtain q v where q: "append_from_buffer (retransmit_queue s) (send_mss s) NetBuffer_new u = Some (q, v)" "wf_buf q"
      "contents q = take (send_mss s) (contents (retransmit_queue s))" "packed (fragments q)" and uv: "net_step u 0 [] v (nfrags q)"
    by (auto elim!: returnsE dest: pool_net_step)
  have "returns (tcp_send_packet s q (FLAG_ACK OR FLAG_PSH) v)
      (\<lambda>x. net_step v (nfrags q) [socket_frame v s (FLAG_ACK OR FLAG_PSH) (contents q)] x 0)"
    using q live net_step_net_ok [OF uv ok'(1)] ok'(2)
    by (intro tcp_send_packet_returns) (auto simp: socket_live_def)
  then obtain x where x: "tcp_send_packet s q (FLAG_ACK OR FLAG_PSH) v = Some x"
      "net_step v (nfrags q) [socket_frame v s (FLAG_ACK OR FLAG_PSH) (contents q)] x 0"
    by (rule returnsE)
  have same: "PENDING_TIMERS x = PENDING_TIMERS w" "NEXT_TIMER_ID x = NEXT_TIMER_ID w" "clock_ms x = clock_ms w"
    "tcp_sockets x = tcp_sockets w"
    using net_step_same [OF uv] net_step_same [OF x(2)] by (simp_all add: u_def)
  have "set_timer RETRANSMIT_INTERVAL (Retransmit r) x = Some (fresh_id x, add_timer RETRANSMIT_INTERVAL (Retransmit r) x)"
    using ready by (intro set_timer_adds) (simp add: same timers_ready_def RETRANSMIT_INTERVAL_def)
  moreover have "fires r w (put_socket r (s\<lparr>retransmit_timer_id := fresh_id x\<rparr>) (add_timer RETRANSMIT_INTERVAL (Retransmit r) x))"
    using get live ready same
    by (intro fires_setting [where j = 0]) (auto simp: socket_live_def ack_of_def RETRANSMIT_INTERVAL_def)
  ultimately show ?thesis
    using False get q(1) x(1) by (simp add: retransmit_def u_def [symmetric] Let_def)
qed


lemma response_timeout_fires:
  fixes w :: "'a tcp_world_scheme"
  assumes get: "get_socket r w = Some s" and ok: "tcp_ok w" and live: "socket_live s" and ready: "timers_ready w"
    and answer: "answerable (state s)" and gone: "response_timer_id s \<notin> timer_id ` set (PENDING_TIMERS w)"
    and none: "no_response r (PENDING_TIMERS w)"
  shows "returns (response_timeout r w) (fires r w)"
proof -
  have send: "returns (tcp_send_packet s NetBuffer_new fl w) (\<lambda>v. PENDING_TIMERS v = PENDING_TIMERS w \<and>
      NEXT_TIMER_ID v = NEXT_TIMER_ID w \<and> clock_ms v = clock_ms w \<and> tcp_sockets v = tcp_sockets w)" for fl
  proof -
    have "net_ok w" "wf_ip (remote_ip s)"
      using get ok by (auto simp: tcp_ok_def udp_ok_def get_socket_Some socket_ok_def)
    then have "returns (tcp_send_packet s NetBuffer_new fl w) (\<lambda>v. net_step w 0 [socket_frame w s fl []] v 0)"
      using live by (intro tcp_send_empty) (auto simp: socket_live_def)
    then show ?thesis
      by (rule returns_conseq) (simp add: net_step_same)
  qed
  have clock: "unat (clock_ms w) + 3000 < 2 ^ 64" and fresh: "fresh_id w \<notin> timer_id ` set (PENDING_TIMERS w)"
    using ready by (auto simp: timers_ready_def fresh_id_nat)
  have live': "socket_live (s\<lparr>response_timer_id := i\<rparr>)" for i
    using live by (simp add: socket_live_def ack_of_def)
  have once: "returns (do { (s, w) \<leftarrow> set_response_timer r s w; Some (put_socket r s w) }) (fires r w)"
    using get ready live' none answer
    by (simp add: set_response_timer_adds [OF clock gone])
      (intro fires_setting [where j = 0], auto simp: RESPONSE_TIMEOUT_def)
  have twice: "returns (do {
      w \<leftarrow> tcp_send_packet s NetBuffer_new fl w;
      (s, w) \<leftarrow> set_response_timer r s w;
      (s, w) \<leftarrow> set_response_timer r s w;
      Some (put_socket r s w)
    }) (fires r w)" for fl
  proof (rule returns_bindI [OF send], elim conjE)
    fix v :: "'a tcp_world_scheme"
    assume v: "PENDING_TIMERS v = PENDING_TIMERS w" "NEXT_TIMER_ID v = NEXT_TIMER_ID w" "clock_ms v = clock_ms w"
      "tcp_sockets v = tcp_sockets w"
    have id: "fresh_id v = fresh_id w"
      by (simp add: fresh_id_def v)
    define u where "u = v\<lparr>NEXT_TIMER_ID := NEXT_TIMER_ID v + 1\<rparr>"
    have "fires r w (put_socket r (s\<lparr>response_timer_id := fresh_id u\<rparr>) (add_timer RESPONSE_TIMEOUT (Response_timeout r) u))"
      using get ready live' none answer
      by (intro fires_setting [where j = 1]) (auto simp: RESPONSE_TIMEOUT_def u_def v)
    then show "returns (do {
        (s, w) \<leftarrow> set_response_timer r s v;
        (s, w) \<leftarrow> set_response_timer r s w;
        Some (put_socket r s w)
      }) (fires r w)"
      using set_response_timer_adds [of v s r] set_response_timer_again [of v r s] clock gone fresh
      by (simp add: v id u_def Let_def)
  qed
  show ?thesis
  proof (cases "request_retry_count s \<ge> MAX_RETRIES")
    case True
    have "fires r w (put_socket r (set_state Closed s) w)"
      unfolding fires_def
      by (rule exI [of _ s], rule exI [of _ "set_state Closed s"], rule exI [of _ "[]"], rule exI [of _ 0])
        (use get live none in \<open>simp add: put_socket_def socket_live_def set_state_def ack_of_cases\<close>)
    with True get show ?thesis
      by (simp add: response_timeout_def)
  next
    case False
    with get answer once twice show ?thesis
      by (auto simp: response_timeout_def answerable_def)
  qed
qed

section \<open>A round\<close>

definition timers_ok :: "'a tcp_world_scheme \<Rightarrow> bool" where
  "timers_ok w \<longleftrightarrow> tcp_ok w \<and> (\<forall>s \<in> set (tcp_sockets w). socket_live s) \<and>
     distinct (map timer_id (PENDING_TIMERS w)) \<and>
     (\<forall>t \<in> set (PENDING_TIMERS w). timer_id t < int (unat (NEXT_TIMER_ID w))) \<and>
     unat (NEXT_TIMER_ID w) + 2 * length (filter (due (clock_ms w)) (PENDING_TIMERS w)) < 2 ^ 31 \<and>
     unat (clock_ms w) + 3000 < 2 ^ 64 \<and>
     (\<forall>t \<in> set (PENDING_TIMERS w). \<forall>r s. closure t = Some (Response_timeout r) \<longrightarrow> get_socket r w = Some s \<longrightarrow>
        timer_id t = response_timer_id s \<and> answerable (state s))"

lemma callback_fires:
  assumes ok: "timers_ok w" and pending: "PENDING_TIMERS w = us @ t # vs" and t: "due (clock_ms w) t" "closure t = Some c"
    and get: "get_socket (callback_socket c) w = Some s" and ok': "tcp_ok (w\<lparr>PENDING_TIMERS := us @ vs\<rparr>)"
  shows "returns (run_callback c (w\<lparr>PENDING_TIMERS := us @ vs\<rparr>)) (fires (callback_socket c) (w\<lparr>PENDING_TIMERS := us @ vs\<rparr>))"
proof -
  let ?u = "w\<lparr>PENDING_TIMERS := us @ vs\<rparr>"
  have get': "get_socket (callback_socket c) ?u = Some s"
    using get by (simp add: get_socket_def)
  have live: "socket_live s"
    using ok get by (simp add: timers_ok_def get_socket_Some)
  have ready: "timers_ready ?u"
    using ok pending t(1) by (simp add: timers_ok_def timers_ready_def)
  show ?thesis
  proof (cases c)
    case (Response_timeout r)
    have t': "timer_id t = response_timer_id s" "answerable (state s)"
      using ok pending t(2) get Response_timeout by (auto simp: timers_ok_def)
    have others: "closure x = Some (Response_timeout r) \<Longrightarrow> timer_id x = timer_id t" if "x \<in> set (us @ vs)" for x
      using ok pending that get t' Response_timeout by (auto simp: timers_ok_def)
    have fresh: "timer_id t \<notin> timer_id ` set (us @ vs)"
      using ok pending by (auto simp: timers_ok_def)
    then have "no_response r (us @ vs)"
      unfolding no_response_def using others by (metis image_eqI)
    with fresh t' Response_timeout show ?thesis
      using response_timeout_fires [OF get' ok' live ready] by simp
  qed (use get' live ready retransmit_fires [OF _ ok'] delayed_ack_fires [OF _ ok'] time_wait_timeout_fires in auto)
qed


lemma fires_keeps_timers:
  assumes ok: "timers_ok w" and pending: "PENDING_TIMERS w = us @ t # vs" and t: "due (clock_ms w) t"
    and get: "get_socket r w = Some s" and fires: "fires r (w\<lparr>PENDING_TIMERS := us @ vs\<rparr>) w'" and ok': "tcp_ok w'"
  shows "timers_ok w' \<and> clock_ms w' = clock_ms w \<and>
    (\<exists>ts. PENDING_TIMERS w' = us @ vs @ ts \<and> (\<forall>t \<in> set ts. \<not> due (clock_ms w) t))"
proof -
  obtain s' ts k where w': "tcp_sockets w' = (tcp_sockets w)[r := s']" "socket_live s'" "clock_ms w' = clock_ms w"
      "NEXT_TIMER_ID w' = NEXT_TIMER_ID w + of_nat k" "k \<le> 2" "PENDING_TIMERS w' = (us @ vs) @ ts" "length ts \<le> 1"
    and ts: "\<And>x. x \<in> set ts \<Longrightarrow> \<not> due (clock_ms w) x \<and> int (unat (NEXT_TIMER_ID w)) \<le> timer_id x \<and>
        timer_id x < int (unat (NEXT_TIMER_ID w) + k)"
      "\<And>x q. x \<in> set ts \<Longrightarrow> closure x = Some (Response_timeout q) \<Longrightarrow> q = r \<and> timer_id x = response_timer_id s' \<and> answerable (state s')"
    and kept: "no_response r (us @ vs) \<or>
        response_timer_id s' = response_timer_id s \<and> (answerable (state s) \<longrightarrow> answerable (state s'))"
    using fires get unfolding fires_def by (auto simp: get_socket_def)
  have old: "distinct (map timer_id (us @ vs))" "\<And>x. x \<in> set (us @ vs) \<Longrightarrow> timer_id x < int (unat (NEXT_TIMER_ID w))"
      "\<And>x q z. x \<in> set (us @ vs) \<Longrightarrow> closure x = Some (Response_timeout q) \<Longrightarrow> get_socket q w = Some z \<Longrightarrow>
        timer_id x = response_timer_id z \<and> answerable (state z)"
    using ok pending by (auto simp: timers_ok_def)
  have bound: "unat (NEXT_TIMER_ID w) + 2 * Suc (length (filter (due (clock_ms w)) (us @ vs))) < 2 ^ 31"
    using ok pending t by (simp add: timers_ok_def)
  then have nxt: "unat (NEXT_TIMER_ID w') = unat (NEXT_TIMER_ID w) + k"
    using w'(5) unfolding w'(4) by (intro unat_add_small) simp
  have none_due: "filter (due (clock_ms w)) ts = []"
    using ts(1) by (simp add: filter_empty_conv)
  have live: "\<forall>x \<in> set (tcp_sockets w'). socket_live x"
    using ok w'(1,2) set_update_subset_insert [of "tcp_sockets w" r s'] by (auto simp: timers_ok_def)
  have ids: "\<forall>x \<in> set (PENDING_TIMERS w'). timer_id x < int (unat (NEXT_TIMER_ID w'))"
    using old(2) ts(1) unfolding nxt w'(6) by fastforce
  have distinct: "distinct (map timer_id (PENDING_TIMERS w'))"
    using old(1,2) ts(1) w'(7) unfolding w'(6) by (cases ts) force+
  have response: "timer_id x = response_timer_id z \<and> answerable (state z)"
    if "x \<in> set (PENDING_TIMERS w')" "closure x = Some (Response_timeout q)" "get_socket q w' = Some z" for x q z
  proof (cases "x \<in> set ts")
    case True
    with ts(2) [OF True that(2)] that(3) w'(1) show ?thesis
      by (simp add: get_socket_Some)
  next
    case False
    then have x: "x \<in> set (us @ vs)"
      using that(1) w'(6) by simp
    show ?thesis
    proof (cases "q = r")
      case True
      then have "\<not> no_response r (us @ vs)" "z = s'"
        using x that w'(1) by (auto simp: no_response_def get_socket_Some)
      with old(3) [OF x, of r s] kept that(2) get True show ?thesis
        by simp
    qed (use old(3) [OF x that(2)] that(3) w'(1) in \<open>simp add: get_socket_Some\<close>)
  qed
  have "timers_ok w'"
    unfolding timers_ok_def
    using ok' live ids distinct response bound w'(3,5) none_due ok unfolding nxt by (simp add: w'(6) timers_ok_def)
  with w' ts(1) show ?thesis
    by simp
qed

interpretation stack_timers: timer_client run_callback timers_ok
proof
  fix w :: "'a tcp_world_scheme" and us t vs
  assume ok: "timers_ok w" and pending: "PENDING_TIMERS w = us @ t # vs" and t: "due (clock_ms w) t"
  have "tcp_ok w"
    using ok by (simp add: timers_ok_def)
  then have ok': "tcp_ok (w\<lparr>PENDING_TIMERS := us @ vs\<rparr>)"
    using pending by (simp add: tcp_ok_def udp_ok_def net_ok_def pool_ok_def link_up_def)
  obtain c s where c: "closure t = Some c" and get: "get_socket (callback_socket c) w = Some s"
    using \<open>tcp_ok w\<close> pending by (auto simp: tcp_ok_def timer_of_def get_socket_Some)
  have "returns (run_callback c (w\<lparr>PENDING_TIMERS := us @ vs\<rparr>))
      (\<lambda>w'. fires (callback_socket c) (w\<lparr>PENDING_TIMERS := us @ vs\<rparr>) w' \<and> tcp_ok w')"
    using callback_fires [OF ok pending t c get ok'] wheneverD [OF run_callback_keeps] tcp_keeps_ok [OF _ ok']
    by (fastforce simp: returns_def)
  then have "returns (run_callback c (w\<lparr>PENDING_TIMERS := us @ vs\<rparr>)) (\<lambda>w'. timers_ok w' \<and> clock_ms w' = clock_ms w \<and>
      (\<exists>ts. PENDING_TIMERS w' = us @ vs @ ts \<and> (\<forall>t \<in> set ts. \<not> due (clock_ms w) t)))"
    by (rule returns_conseq) (use fires_keeps_timers [OF ok pending t get] in blast)
  with c show "\<exists>c. closure t = Some c \<and> returns (run_callback c (w\<lparr>PENDING_TIMERS := us @ vs\<rparr>))
      (\<lambda>w'. timers_ok w' \<and> clock_ms w' = clock_ms w \<and>
        (\<exists>ts. PENDING_TIMERS w' = us @ vs @ ts \<and> (\<forall>t \<in> set ts. \<not> due (clock_ms w) t)))"
    by blast
qed


lemma response_timeout_panics:
  "get_socket r w = Some s \<Longrightarrow> request_retry_count s < MAX_RETRIES \<Longrightarrow> \<not> answerable (state s) \<Longrightarrow> response_timeout r w = None"
  by (cases "state s") (auto simp: response_timeout_def answerable_def)

lemma set_response_timer_returns:
  assumes "unat (clock_ms w) + 3000 < 2 ^ 64"
  shows "returns (set_response_timer r s w) (\<lambda>(s', w'). (\<exists>i. s' = s\<lparr>response_timer_id := i\<rparr>) \<and> clock_ms w' = clock_ms w \<and>
    (\<exists>t \<in> set (PENDING_TIMERS w'). absolute_timeout_ms t = clock_ms w + 3000 \<and> closure t = Some (Response_timeout r)))"
proof -
  define v where "v = (if response_timer_id s \<noteq> -1 then snd (cancel_timer (response_timer_id s) w) else w)"
  have clock: "clock_ms v = clock_ms w"
    by (simp add: v_def cancel_timer_def split: prod.split)
  with assms have "set_timer RESPONSE_TIMEOUT (Response_timeout r) v = Some (fresh_id v, add_timer RESPONSE_TIMEOUT (Response_timeout r) v)"
    by (intro set_timer_adds) (simp add: RESPONSE_TIMEOUT_def)
  then show ?thesis
    unfolding set_response_timer_def v_def [symmetric]
    by (auto simp: add_timer_def timer_in_def clock RESPONSE_TIMEOUT_def)
qed

section \<open>Properties\<close>

text \<open>A state for the witnesses: a connection request that was not answered for three seconds.\<close>

definition waiting_world :: tcp_world where
  "waiting_world = listening_world\<lparr>
     tcp_sockets := [(TCPSocketState_new 5 (V4 [10, 0, 0, 1]) 80 50000)\<lparr>state := SynSent, response_timer_id := 1\<rparr>],
     TCP_PORT_MAP := [(V4 [10, 0, 0, 1], 80, 50000) \<mapsto> 0],
     PENDING_TIMERS := [\<lparr>absolute_timeout_ms = 3900, closure = Some (Response_timeout 0), timer_id = 1\<rparr>],
     NEXT_TIMER_ID := 2, clock_ms := 4000\<rparr>"

lemma waiting_world_ok: "timers_ok waiting_world"
proof -
  have "tcp_ok listening_world"
    using reachable_ok [OF listening_world_reachable] by (simp add: sys_ok_def)
  then have "tcp_ok waiting_world"
    by (simp add: tcp_ok_def udp_ok_def net_ok_def pool_ok_def link_up_def waiting_world_def socket_ok_def socket_key_def
        TCPSocketState_new_def TCPReassembler_new_def timer_of_def DEFAULT_TCP_MSS_def)
  then show ?thesis
    by (simp add: timers_ok_def waiting_world_def socket_live_def ack_of_cases TCPSocketState_new_def answerable_def
        get_socket_Some)
qed

text \<open>
  C33: A round of the timer thread ends, and it runs the timers that are due: from a state whose timers are in
  order, with no response timer pending for a socket in which it would panic, the round is the execution of
  the closures of all timers that are due, each taken off the list and run once, in the order of the list.
  The other timers stay in their order, only timers that are not due yet are added, and the next round
  ends as well.
\<close>

theorem timer_round_returns:
  assumes "timers_ok w"
  shows "returns (timer_round w) (\<lambda>w'. timers_ok w' \<and> clock_ms w' = clock_ms w \<and>
    run_timers run_callback (filter (\<lambda>t. absolute_timeout_ms t \<le> clock_ms w) (PENDING_TIMERS w)) w = Some w' \<and>
    (\<exists>ts. PENDING_TIMERS w' = filter (\<lambda>t. clock_ms w < absolute_timeout_ms t) (PENDING_TIMERS w) @ ts \<and>
      (\<forall>t \<in> set ts. clock_ms w < absolute_timeout_ms t)))"
proof -
  have "due (clock_ms w) = (\<lambda>t :: callback Timer. absolute_timeout_ms t \<le> clock_ms w)"
    by (simp add: due_def fun_eq_iff)
  with stack_timers.tick_returns [OF assms] show ?thesis
    unfolding timer_round_def by (auto simp: comp_def not_le elim!: returns_conseq)
qed

theorem timer_round_returns_witness:
  "\<exists>w'. timer_round waiting_world = Some w' \<and> timers_ok w' \<and>
     run_callback (Response_timeout 0) (waiting_world\<lparr>PENDING_TIMERS := []\<rparr>) = Some w' \<and>
     \<lparr>absolute_timeout_ms = 3900, closure = Some (Response_timeout 0), timer_id = 1\<rparr> \<notin> set (PENDING_TIMERS w')"
  using timer_round_returns [OF waiting_world_ok]
  by (force simp: waiting_world_def elim!: returnsE)

text \<open>
  C35: A connection that was closed from this side panics the timer thread when the peer closes it three
  seconds before its \<open>TimeWait\<close> is over: on the FIN in \<open>FinWait2\<close> the code sets a response timer as well as
  the timer of \<open>TimeWait\<close>, the response timer is due first, and its closure has no arm for \<open>TimeWait\<close>.
\<close>

theorem fin_wait2_timer_panics:
  assumes "net_ok w" and "wf_ip (remote_ip s)" and "ack_of s \<noteq> None" and "unat (clock_ms w) + 5000 < 2 ^ 64"
    and "state s = FinWait2" and "has_flag (seg_flags g) FLAG_FIN"
  shows "returns (handle_state r g s w) (\<lambda>(s', w'). state s' = TimeWait \<and>
    (\<exists>t \<in> set (PENDING_TIMERS w'). absolute_timeout_ms t = clock_ms w + 3000 \<and> closure t = Some (Response_timeout r)) \<and>
    (\<exists>t \<in> set (PENDING_TIMERS w'). absolute_timeout_ms t = clock_ms w + 5000 \<and> closure t = Some (Time_wait_timeout r)) \<and>
    (\<forall>v :: 'a tcp_world_scheme. get_socket r v = Some s' \<longrightarrow> run_callback (Response_timeout r) v = None))"
proof -
  have "returns (tcp_send_packet s NetBuffer_new FLAG_ACK w) (\<lambda>v. net_step w 0 [socket_frame w s FLAG_ACK []] v 0)"
    by (rule tcp_send_empty [OF assms(1-3)])
  then obtain v where v: "tcp_send_packet s NetBuffer_new FLAG_ACK w = Some v" "clock_ms v = clock_ms w"
    by (auto simp: net_step_same elim!: returnsE)
  have "returns (set_response_timer r s v) (\<lambda>(s', w'). (\<exists>i. s' = s\<lparr>response_timer_id := i\<rparr>) \<and> clock_ms w' = clock_ms v \<and>
    (\<exists>t \<in> set (PENDING_TIMERS w'). absolute_timeout_ms t = clock_ms v + 3000 \<and> closure t = Some (Response_timeout r)))"
    using assms(4) v(2) by (intro set_response_timer_returns) simp
  then obtain i u where u: "set_response_timer r s v = Some (s\<lparr>response_timer_id := i\<rparr>, u)" "clock_ms u = clock_ms w"
      "\<exists>t \<in> set (PENDING_TIMERS u). absolute_timeout_ms t = clock_ms w + 3000 \<and> closure t = Some (Response_timeout r)"
    using v(2) by (auto elim!: returnsE)
  have wait: "set_time_wait_timer r u = Some (add_timer TIME_WAIT_TIMEOUT (Time_wait_timeout r) u)"
    using assms(4) set_timer_adds [of u TIME_WAIT_TIMEOUT "Time_wait_timeout r"]
    by (simp add: set_time_wait_timer_def u(2) TIME_WAIT_TIMEOUT_def)
  have panic: "get_socket r x = Some (set_state TimeWait s') \<Longrightarrow> response_timeout r x = None" for x :: "'a tcp_world_scheme" and s'
    by (rule response_timeout_panics [of r x "set_state TimeWait s'"])
      (simp_all add: set_state_def answerable_def MAX_RETRIES_def)
  show ?thesis
    using assms(5,6) v(1) u wait panic [of _ "s\<lparr>response_timer_id := i\<rparr>"]
    by (simp add: handle_state_def Let_def) (auto simp: set_state_def add_timer_def timer_in_def TIME_WAIT_TIMEOUT_def)
qed

theorem fin_wait2_timer_panics_witness:
  "\<exists>s' w'. handle_state 0 \<lparr>seg_source_port = 80, seg_dest_port = 50000, seg_seq = 9, seg_ack = 7, seg_header_length = 20,
        seg_flags = 0x11, seg_window = 500\<rparr>
      ((TCPSocketState_new 5 (V4 [10, 0, 0, 1]) 80 50000)\<lparr>state := FinWait2\<rparr>) waiting_world = Some (s', w') \<and>
    response_timeout 0 (put_socket 0 s' w') = None"
proof -
  define s where "s = (TCPSocketState_new 5 (V4 [10, 0, 0, 1]) 80 50000)\<lparr>state := FinWait2\<rparr>"
  define g where "g = \<lparr>seg_source_port = 80, seg_dest_port = 50000, seg_seq = 9, seg_ack = 7, seg_header_length = 20,
        seg_flags = 0x11, seg_window = 500\<rparr>"
  have "net_ok waiting_world" "wf_ip (remote_ip s)" "ack_of s \<noteq> None" "unat (clock_ms waiting_world) + 5000 < 2 ^ 64"
    "state s = FinWait2" "has_flag (seg_flags g) FLAG_FIN"
    using waiting_world_ok
    by (simp_all add: timers_ok_def tcp_ok_def udp_ok_def s_def g_def ack_of_cases TCPSocketState_new_def waiting_world_def
        has_flag_def FLAG_FIN_def TCPReassembler_new_def)
  note run = fin_wait2_timer_panics [OF this, of 0]
  then obtain s' w' where *: "handle_state 0 g s waiting_world = Some (s', w')"
      "\<And>v. get_socket 0 v = Some s' \<Longrightarrow> run_callback (Response_timeout 0) (v :: tcp_world) = None"
    by (auto elim!: returnsE)
  moreover have "tcp_sockets w' = tcp_sockets waiting_world"
    using wheneverD [OF handle_state_moves *(1)] by (simp add: moves_def)
  then have "get_socket 0 (put_socket 0 s' w') = Some s'"
    by (simp add: get_socket_Some put_socket_def waiting_world_def)
  ultimately show ?thesis
    unfolding s_def g_def by (auto dest: *(2))
qed

end
