(* ===== verification/Tcp_Segment.thy ===== *)
theory Tcp_Segment
  imports Receive Tcp_Timers
begin

text \<open>
  A TCP segment on its way: what \<open>tcp_output\<close> of one stack has put together, \<open>tcp_input\<close> of another one
  takes apart. The checksum of the segment is right at the receiver, the fields of its header and its
  options are read back, and the packet that is left is the data.
\<close>

section \<open>The header\<close>

definition segment_fields :: "TCPSendParams \<Rightarrow> segment" where
  "segment_fields p = \<lparr>seg_source_port = source_port p, seg_dest_port = dest_port p, seg_seq = seq_num p, seg_ack = ack_num p,
     seg_header_length = TCP_HEADER_LEN + length (options p), seg_flags = flags p, seg_window = window p\<rparr>"

definition valid_params :: "TCPSendParams \<Rightarrow> bool" where
  "valid_params p \<longleftrightarrow> wf_ip (dest_ip p) \<and> length (options p) mod 4 = 0 \<and> length (options p) \<le> 40"

lemma data_offset_read:
  assumes "length opts mod 4 = 0" and "length opts \<le> 40"
  shows "unat (drop_bit 4 (data_offset opts) * 4) = TCP_HEADER_LEN + length opts"
proof -
  obtain k where k: "length opts = 4 * k"
    using assms(1) by (metis mod_0_imp_dvd dvd_def)
  with assms(2) have "k \<le> 10"
    by linarith
  then have "k = 0 \<or> k = 1 \<or> k = 2 \<or> k = 3 \<or> k = 4 \<or> k = 5 \<or> k = 6 \<or> k = 7 \<or> k = 8 \<or> k = 9 \<or> k = 10"
    by arith
  then show ?thesis
    by (auto simp: data_offset_def TCP_HEADER_LEN_def k push_bit_eq_mult)
qed

lemma decode_tcp_header:
  assumes "length (options p) mod 4 = 0" and "length (options p) \<le> 40"
  shows "decode_header (tcp_header p @ rest) = Some (segment_fields p)"
proof -
  obtain a0 a1 where a: "be16 (source_port p) = [a0, a1]" by (simp add: be16_def)
  obtain b0 b1 where b: "be16 (dest_port p) = [b0, b1]" by (simp add: be16_def)
  obtain c0 c1 c2 c3 where c: "be32 (seq_num p) = [c0, c1, c2, c3]" by (simp add: be32_def)
  obtain d0 d1 d2 d3 where d: "be32 (ack_num p) = [d0, d1, d2, d3]" by (simp add: be32_def)
  obtain e0 e1 where e: "be16 (window p) = [e0, e1]" by (simp add: be16_def)
  have h: "tcp_header p = [a0, a1, b0, b1, c0, c1, c2, c3, d0, d1, d2, d3, data_offset (options p), flags p, e0, e1]"
    by (simp add: tcp_header_def a b c d e)
  show ?thesis
    using get_be16_be16 [of "source_port p", unfolded a] get_be16_be16 [of "dest_port p", unfolded b]
      get_be32_be32 [of "seq_num p", unfolded c] get_be32_be32 [of "ack_num p", unfolded d]
      get_be16_be16 [of "window p", unfolded e]
    by (simp add: decode_header_def h subslice_def index_def segment_fields_def data_offset_read [OF assms])
qed

lemma tcp_segment_layout:
  "\<exists>c. tcp_segment src p body = tcp_header p @ c @ options p @ body \<and> length c = 4"
  by (simp add: tcp_segment_def)

lemma length_tcp_segment: "length (tcp_segment src p body) = TCP_HEADER_LEN + length (options p) + length body"
  by (simp add: tcp_segment_def length_tcp_header TCP_HEADER_LEN_def)

section \<open>The checksum\<close>

text \<open>The receiver sums over the pseudo header with the two addresses it knows.\<close>

lemma validate_checksum_segment:
  assumes "wf_buf b" and "aligned (fragments b)" and "contents b = tcp_segment src p body"
    and "same_family src (dest_ip p)" and "local_for w src = dest_ip p"
  shows "validate_checksum b src w = Some True"
proof -
  define n where "n = TCP_HEADER_LEN + length (options p) + length body"
  have len: "buf_length b = n"
    using length_contents [OF assms(1)] length_tcp_segment [of src p body] by (simp add: assms(3) n_def)
  have "(case src of V4 _ \<Rightarrow> fst (get_ipaddr w) | V6 _ \<Rightarrow> snd (get_ipaddr w)) = dest_ip p"
    using assms(5) by (cases src) (simp_all add: local_for_def get_ipaddr_def)
  moreover obtain c where c: "compute_pseudo_header_checksum src (dest_ip p) n PROTO_TCP = Some c"
      "unat c = fold16 (pseudo_sum src (dest_ip p) n PROTO_TCP)"
    using compute_pseudo_header_checksum_returns [OF assms(4)] by (blast elim: returnsE)
  moreover obtain s where s: "compute_buffer_ones_comp c b = Some s" "unat s = fold16 (unat c + words_sum (contents b))"
    using compute_buffer_ones_comp_returns [OF assms(1,2), of c] by (blast elim: returnsE)
  moreover have "unat s = 65535"
    using tcp_segment_sum [of src p body] by (simp add: s(2) c(2) assms(3) fold16_add n_def)
  then have "s XOR 0xffff = 0"
    by (simp only: xor_ffff_eq_0_iff)
  ultimately show ?thesis
    by (simp add: validate_checksum_def len)
qed


section \<open>From the interface to the socket\<close>

lemma received_trim: "received w n u \<Longrightarrow> pool_step u n u' n' \<Longrightarrow> received w n' u'"
  using pool_step_more [of u n u' n'] net_step_ok [OF pool_net_step, of u n u' n']
  by (auto simp: received_def pool_step_def)

lemma tcp_input_segment:
  assumes "wf_buf b" and "aligned (fragments b)" and "fragments b \<noteq> []" and "contents b = tcp_segment src p body"
    and "same_family src (dest_ip p)" and "local_for w src = dest_ip p" and "valid_params p"
    and "TCP_HEADER_LEN + length (options p) \<le> length (head_bytes b)" and "parse_options (options p) = Some mss"
  shows "returns (trim_head (TCP_HEADER_LEN + length (options p)) b w) (\<lambda>(q, u).
    tcp_input iss b src w = tcp_dispatch iss src (segment_fields p) mss q u \<and>
    wf_buf q \<and> contents q = body \<and> pool_step w (nfrags b) u (nfrags q))"
proof -
  define h where "h = TCP_HEADER_LEN + length (options p)"
  obtain c where c: "tcp_segment src p body = tcp_header p @ c @ options p @ body" "length c = 4"
    using tcp_segment_layout by blast
  then have "contents b = (tcp_header p @ c @ options p) @ body" and h: "length (tcp_header p @ c @ options p) = h"
    by (simp_all add: assms(4) h_def length_tcp_header TCP_HEADER_LEN_def)
  with head_bytes_prefix [OF assms(3)] assms(8) obtain tail where tail: "head_bytes b = (tcp_header p @ c @ options p) @ tail"
    unfolding h_def [symmetric] by metis
  have dec: "decode_header (head_bytes b) = Some (segment_fields p)"
    using assms(7) decode_tcp_header [of p "c @ options p @ tail"] by (simp add: tail valid_params_def)
  have opts: "subslice 20 h (head_bytes b) = Some (options p)"
    using h c(2) by (simp add: tail length_tcp_header h_def TCP_HEADER_LEN_def)
  have len: "buf_length b = h + length body"
    using length_contents [OF assms(1)] length_tcp_segment [of src p body] by (simp add: assms(4) h_def)
  have "h \<le> length (contents b)" "drop h (contents b) = body"
    using h c by (simp_all add: assms(4))
  then have trim: "returns (trim_head h b w) (\<lambda>(q, u). wf_buf q \<and> contents q = body \<and> pool_step w (nfrags b) u (nfrags q))"
    using trim_head_returns [OF assms(1), of h w] by simp
  then obtain q u where q: "trim_head h b w = Some (q, u)"
    by (auto elim: returnsE)
  have "seg_header_length (segment_fields p) = h"
    by (simp add: segment_fields_def h_def)
  then have "tcp_input iss b src w = tcp_dispatch iss src (segment_fields p) mss q u"
    using validate_checksum_segment [OF assms(1,2,4-6)] header_Some [OF assms(1,3)] dec opts assms(9) q
    by (simp add: tcp_input_def Let_def len)
  with trim q show ?thesis
    by (simp add: h_def)
qed

text \<open>
  A segment that one stack sends to an address of another one gets to the lookup of the socket there.
\<close>

lemma segment_delivered:
  assumes "net_ok v" and "valid_params p" and "dest_ip p = dest" and "tcp_ok w" and "local_for w dest = dest"
    and "delivers readv (ip_datagram v PROTO_TCP dest (tcp_segment (local_for v dest) p body))"
    and "ip_header_len dest + 20 + length (options p) + length body \<le> MRU" and "parse_options (options p) = Some mss"
  obtains b u where "packet_receive readv iss w = tcp_dispatch iss (local_for v dest) (segment_fields p) mss b u"
    and "wf_buf b" and "contents b = body" and "received w (nfrags b) u"
proof -
  define seg where "seg = tcp_segment (local_for v dest) p body"
  have len: "length seg = 20 + length (options p) + length body"
    by (simp add: seg_def length_tcp_segment TCP_HEADER_LEN_def)
  have ne: "seg \<noteq> []" and fits: "ip_header_len dest + length seg \<le> MRU"
    using assms(7) len by auto
  have ok: "udp_ok w" "net_ok w"
    using assms(4) by (simp_all add: tcp_ok_def udp_ok_def)
  have wf: "wf_ip dest" and small: "length (options p) \<le> 40"
    using assms(2,3) by (simp_all add: valid_params_def)
  obtain c x where run: "packet_receive readv iss w = ip_input_common iss c PROTO_TCP (local_for v dest) x"
    and c: "wf_buf c" "contents c = take (MRU - ip_header_len dest) seg" "aligned (fragments c)" "fragments c \<noteq> []"
      "length (head_bytes c) = min (FRAGMENT_SIZE - ip_header_len dest) (length seg)"
    and x: "received w (nfrags c) x"
    by (rule packet_receive_delivers [OF assms(1) wf ok(2) assms(6) [folded seg_def] ne])
  have whole: "contents c = seg"
    using fits by (simp add: c(2))
  have family: "same_family (local_for v dest) dest"
    using local_for_family [OF assms(1) wf] .
  then have "is_v4 (local_for v dest) = is_v4 dest"
    by (simp add: same_family_def)
  then have "local_for x (local_for v dest) = dest"
    using assms(5) received_fields [OF x] by (simp add: local_for_def [of x] local_for_def [of w] split: if_split_asm)
  moreover have "TCP_HEADER_LEN + length (options p) \<le> length (head_bytes c)"
    using small by (simp add: c(5) len ip_header_len_def FRAGMENT_SIZE_def IPV4_BASE_HEADER_LEN_def IPV6_HEADER_LEN_def TCP_HEADER_LEN_def)
  ultimately obtain b u where b: "tcp_input iss c (local_for v dest) x = tcp_dispatch iss (local_for v dest) (segment_fields p) mss b u"
      "wf_buf b" "contents b = body" "pool_step x (nfrags c) u (nfrags b)"
    using tcp_input_segment [OF c(1,3,4) whole [unfolded seg_def] _ _ assms(2) _ assms(8), of x iss] family
    by (auto simp: assms(3) elim!: returnsE)
  have "packet_receive readv iss w = tcp_dispatch iss (local_for v dest) (segment_fields p) mss b u"
    unfolding run b(1) [symmetric]
    by (simp add: ip_input_common_def PROTO_UDP_def PROTO_TCP_def PROTO_ICMPV4_def PROTO_ICMPV6_def)
  with that b received_trim [OF x b(4)] show ?thesis
    by blast
qed


section \<open>Properties\<close>

text \<open>
  C8: TCP segments are read as they were written. If one stack sends a segment to an address of another
  one and the link delivers its frame, the receiver finds the checksum right, reads back the ports, the
  numbers, the flags, the window and the maximum segment size, and looks up the socket for them with a
  packet that holds the data of the segment and nothing else; nothing but the pool and the counter of
  received packets has changed until then.
\<close>

theorem tcp_segment_round_trip:
  assumes "wf_buf c" and "packed (fragments c)" and "length (contents c) \<le> 1900" and "net_ok v" and "wf_ip (dest_ip p)"
    and "\<forall>opt \<in> set os. valid_option opt" and "options p = encode_options os" and "length (options p) mod 4 = 0"
    and "length (options p) \<le> 40" and "tcp_ok w" and "local_for w (dest_ip p) = dest_ip p"
  shows "returns (tcp_output c p v) (\<lambda>v'. \<exists>frame. tun_out v' = tun_out v @ [frame] \<and>
    (\<forall>readv. delivers readv frame \<longrightarrow> (\<exists>b u. packet_receive readv iss w =
      tcp_dispatch iss (if is_v4 (dest_ip p) then LOCAL_IPV4 v else LOCAL_IPV6 v)
        \<lparr>seg_source_port = source_port p, seg_dest_port = dest_port p, seg_seq = seq_num p, seg_ack = ack_num p,
         seg_header_length = 20 + length (options p), seg_flags = flags p, seg_window = window p\<rparr>
        (announced_mss os 0) b u \<and>
      wf_buf b \<and> contents b = contents c \<and>
      u = w\<lparr>free_list := free_list u, METRICS := METRICS u\<rparr> \<and> (\<forall>k. balanced w k \<longrightarrow> balanced u (k + nfrags b)))))"
proof -
  define frame where "frame = ip_datagram v PROTO_TCP (dest_ip p) (tcp_segment (local_for v (dest_ip p)) p (contents c))"
  have sent: "returns (tcp_output c p v) (\<lambda>v'. net_step v (nfrags c) [frame] v' 0)"
    unfolding frame_def using assms(3) by (intro tcp_output_returns assms) (simp add: MAX_PAYLOAD_eq)
  have valid: "valid_params p"
    using assms(5,8,9) by (simp add: valid_params_def)
  have fits: "ip_header_len (dest_ip p) + 20 + length (options p) + length (contents c) \<le> MRU"
    using assms(3,9) by (simp add: ip_header_len_def IPV4_BASE_HEADER_LEN_def IPV6_HEADER_LEN_def MRU_def)
  have mss: "parse_options (options p) = Some (announced_mss os 0)"
    using options_spec_encode [OF assms(6), of "[]" 0] by (simp add: assms(7) parse_options_spec)
  have delivered: "\<exists>b u. packet_receive readv iss w =
        tcp_dispatch iss (local_for v (dest_ip p)) (segment_fields p) (announced_mss os 0) b u \<and>
      wf_buf b \<and> contents b = contents c \<and>
      u = w\<lparr>free_list := free_list u, METRICS := METRICS u\<rparr> \<and> (\<forall>k. balanced w k \<longrightarrow> balanced u (k + nfrags b))"
    if del: "delivers readv frame" for readv
  proof -
    obtain b u where b: "packet_receive readv iss w = tcp_dispatch iss (local_for v (dest_ip p)) (segment_fields p) (announced_mss os 0) b u"
        "wf_buf b" "contents b = contents c" and u: "received w (nfrags b) u"
      by (rule segment_delivered [OF assms(4) valid refl assms(10,11) del [unfolded frame_def] fits mss])
    have "u = w\<lparr>free_list := free_list u, METRICS := METRICS u\<rparr>" "\<forall>k. balanced w k \<longrightarrow> balanced u (k + nfrags b)"
      using u by (auto simp: received_def intro!: buf_world.equality)
    with b show ?thesis
      by (intro exI conjI)
  qed
  show ?thesis
    by (rule returns_conseq [OF sent], rule exI [of _ frame], rule conjI, erule net_step_tun_out, intro allI impI,
        drule delivered) (simp only: local_for_def segment_fields_def TCP_HEADER_LEN_def)
qed


theorem tcp_segment_round_trip_witness:
  "\<exists>v' frame b u. tcp_output NetBuffer_new \<lparr>source_port = 5000, dest_ip = V4 [10, 0, 0, 2], dest_port = 80, seq_num = 7, ack_num = 8,
      flags = FLAG_SYN, window = 9, options = [2, 4, 5, 0xb4]\<rparr> listening_world = Some v' \<and> tun_out v' = [frame] \<and>
    packet_receive (scatter frame) 0 listening_world = tcp_dispatch 0 (V4 [10, 0, 0, 2])
      \<lparr>seg_source_port = 5000, seg_dest_port = 80, seg_seq = 7, seg_ack = 8, seg_header_length = 24, seg_flags = FLAG_SYN,
       seg_window = 9\<rparr> 1460 b u \<and> contents b = []"
proof -
  define p where "p = \<lparr>source_port = 5000, dest_ip = V4 [10, 0, 0, 2], dest_port = 80, seq_num = 7, ack_num = 8,
      flags = FLAG_SYN, window = 9, options = [2, 4, 5, 0xb4]\<rparr>"
  have ok: "tcp_ok listening_world" "net_ok listening_world"
    using reachable_ok [OF listening_world_reachable] by (simp_all add: sys_ok_def tcp_ok_def udp_ok_def)
  have "returns (tcp_output NetBuffer_new p listening_world) (\<lambda>v'. \<exists>frame. tun_out v' = tun_out listening_world @ [frame] \<and>
    (\<forall>readv. delivers readv frame \<longrightarrow> (\<exists>b u. packet_receive readv 0 listening_world =
      tcp_dispatch 0 (if is_v4 (dest_ip p) then LOCAL_IPV4 listening_world else LOCAL_IPV6 listening_world)
        \<lparr>seg_source_port = source_port p, seg_dest_port = dest_port p, seg_seq = seq_num p, seg_ack = ack_num p,
         seg_header_length = 20 + length (options p), seg_flags = flags p, seg_window = window p\<rparr>
        (announced_mss [Max_segment_size 1460] 0) b u \<and>
      wf_buf b \<and> contents b = contents NetBuffer_new \<and>
      u = listening_world\<lparr>free_list := free_list u, METRICS := METRICS u\<rparr> \<and>
      (\<forall>k. balanced listening_world k \<longrightarrow> balanced u (k + nfrags b)))))"
    by (rule tcp_segment_round_trip)
      (simp_all add: p_def ok encode_options_def be16_1460 local_for_def listening_world_fields)
  then obtain v' frame where v': "tcp_output NetBuffer_new p listening_world = Some v'" "tun_out v' = [frame]"
    and rest: "\<And>readv. delivers readv frame \<Longrightarrow> \<exists>b u. packet_receive readv 0 listening_world =
      tcp_dispatch 0 (V4 [10, 0, 0, 2]) \<lparr>seg_source_port = 5000, seg_dest_port = 80, seg_seq = 7, seg_ack = 8,
        seg_header_length = 24, seg_flags = FLAG_SYN, seg_window = 9\<rparr> 1460 b u \<and> contents b = []"
    by (force simp: p_def listening_world_fields elim!: returnsE)
  from rest [OF delivers_scatter] v' show ?thesis
    unfolding p_def by blast
qed

end
