(* ===== verification/Tcp_Handshake.thy ===== *)
theory Tcp_Handshake
  imports Tcp_Segment
begin

text \<open>
  Opening a connection: the active side (\<open>tcp_open\<close>), the passive side (\<open>tcp_listen\<close>, \<open>tcp_accept\<close>) and
  the three segments they exchange.
\<close>

section \<open>What the interface sends and the sockets become\<close>

definition becomes :: "'a tcp_world_scheme \<Rightarrow> bytes list \<Rightarrow> (SocketKey \<Rightarrow> nat option) \<Rightarrow> TCPSocketState list \<Rightarrow>
    'a tcp_world_scheme \<Rightarrow> bool" where
  "becomes w frames ports sockets w' \<longleftrightarrow> net_ok w' \<and> tun_out w' = tun_out w @ frames \<and> TCP_PORT_MAP w' = ports \<and>
     tcp_sockets w' = sockets \<and> clock_ms w' = clock_ms w \<and> LOCAL_IPV4 w' = LOCAL_IPV4 w \<and> LOCAL_IPV6 w' = LOCAL_IPV6 w"

abbreviation stays :: "'a tcp_world_scheme \<Rightarrow> bytes list \<Rightarrow> 'a tcp_world_scheme \<Rightarrow> bool" where
  "stays w frames w' \<equiv> becomes w frames (TCP_PORT_MAP w) (tcp_sockets w) w'"

lemma net_ok_update [simp]:
  "net_ok (w\<lparr>tcp_sockets := ss\<rparr>) = net_ok w" "net_ok (w\<lparr>TCP_PORT_MAP := m\<rparr>) = net_ok w"
  "net_ok (w\<lparr>PENDING_TIMERS := ts\<rparr>) = net_ok w" "net_ok (w\<lparr>NEXT_TIMER_ID := k\<rparr>) = net_ok w"
  by (simp_all add: net_ok_def pool_ok_def link_up_def)

lemma becomes_trans [trans]:
  "becomes u xs ports sockets v \<Longrightarrow> becomes v ys ports' sockets' w \<Longrightarrow> becomes u (xs @ ys) ports' sockets' w"
  by (simp add: becomes_def)

lemma becomes_stays: "becomes u xs ports sockets v \<Longrightarrow> stays v ys w \<Longrightarrow> becomes u (xs @ ys) ports sockets w"
  by (simp add: becomes_def)

lemma becomes_put: "becomes u xs ports sockets v \<Longrightarrow> becomes u xs ports (sockets[r := s]) (put_socket r s v)"
  by (simp add: becomes_def put_socket_def)

lemma becomes_map:
  "becomes u xs ports sockets v \<Longrightarrow> becomes u xs (ports(key \<mapsto> r)) sockets (v\<lparr>TCP_PORT_MAP := (TCP_PORT_MAP v)(key \<mapsto> r)\<rparr>)"
  by (simp add: becomes_def)

lemma becomes_append:
  "becomes u xs ports sockets v \<Longrightarrow> becomes u xs ports (sockets @ [s]) (v\<lparr>tcp_sockets := tcp_sockets v @ [s]\<rparr>)"
  by (simp add: becomes_def)

lemma stays_refl: "net_ok w \<Longrightarrow> stays w [] w"
  by (simp add: becomes_def)

lemma stays_cancel: "net_ok w \<Longrightarrow> stays w [] (snd (cancel_timer ident w))"
  by (simp add: becomes_def cancel_timer_def split: prod.split)

lemma stays_add_timer: "net_ok w \<Longrightarrow> stays w [] (add_timer timeout c w)"
  by (simp add: becomes_def add_timer_def)

lemma stays_net:
  assumes "net_step w n xs w' m" and "net_ok w"
  shows "stays w xs w'"
  using net_step_net_ok [OF assms] net_step_tun_out [OF assms(1)] tcp_frame_fields [OF net_step_tcp_frame [OF assms(1)]]
  by (simp add: becomes_def)

lemma send_stays:
  assumes "net_ok w" and "wf_ip (remote_ip s)" and "ack_of s \<noteq> None"
  shows "returns (tcp_send_packet s NetBuffer_new fl w) (stays w [socket_frame w s fl []])"
  by (rule returns_conseq [OF tcp_send_empty [OF assms]]) (rule stays_net [OF _ assms(1)])

lemma set_response_timer_stays:
  assumes "net_ok w" and "unat (clock_ms w) + 3000 < 2 ^ 64"
  shows "returns (set_response_timer r s w) (\<lambda>(s', w'). (\<exists>i. s' = s\<lparr>response_timer_id := i\<rparr>) \<and> stays w [] w')"
proof -
  define v where "v = (if response_timer_id s \<noteq> -1 then snd (cancel_timer (response_timer_id s) w) else w)"
  have v: "stays w [] v"
    using assms(1) by (simp add: v_def stays_cancel stays_refl)
  then have "set_timer RESPONSE_TIMEOUT (Response_timeout r) v = Some (fresh_id v, add_timer RESPONSE_TIMEOUT (Response_timeout r) v)"
    using assms(2) by (intro set_timer_adds) (simp add: becomes_def RESPONSE_TIMEOUT_def)
  moreover have "stays w [] (add_timer RESPONSE_TIMEOUT (Response_timeout r) v)"
    using becomes_stays [OF v stays_add_timer] v by (simp add: becomes_def)
  ultimately show ?thesis
    by (auto simp: set_response_timer_def v_def [symmetric])
qed

section \<open>The active side\<close>

lemma find_ephemeral_port_returns:
  "\<exists>d \<in> set draws. TCP_PORT_MAP w (rip, rport, 49152 + d mod 16383) = None \<Longrightarrow>
   returns (find_ephemeral_port draws rip rport w) (\<lambda>p. 49152 \<le> p \<and> p < 65535 \<and> TCP_PORT_MAP w (rip, rport, p) = None)"
proof (induction draws rip rport w rule: find_ephemeral_port.induct)
  case (2 d draws rip rport w)
  have small: "unat (d mod 16383) < 16383"
    by (simp add: unat_mod)
  then have add: "checked_add EPHEMERAL_PORT_BASE (d mod (0xffff - EPHEMERAL_PORT_BASE)) = Some (49152 + d mod 16383)"
    and sum: "unat (49152 + d mod 16383) = 49152 + unat (d mod 16383)"
    by (simp_all add: checked_add_def EPHEMERAL_PORT_BASE_def unat_word_ariths)
  have "49152 \<le> 49152 + d mod 16383" "49152 + d mod 16383 < 65535"
    using small by (simp_all add: word_le_nat_alt word_less_nat_alt sum)
  with 2 add show ?case
    by (cases "TCP_PORT_MAP w (rip, rport, 49152 + d mod 16383)") (auto simp: Let_def)
qed simp

text \<open>The socket of \<open>tcp_open\<close> and the segment it sends.\<close>

definition opening_socket :: "u32 \<Rightarrow> IPAddr \<Rightarrow> u16 \<Rightarrow> u16 \<Rightarrow> TCPSocketState" where
  "opening_socket iss rip rport lport = set_state SynSent (TCPSocketState_new iss rip rport lport)"

lemma tcp_open_returns:
  assumes "net_ok w" and "wf_ip rip" and "unat (clock_ms w) + 3000 < 2 ^ 64"
    and "find_ephemeral_port draws rip rport w = Some p"
  shows "returns (tcp_open draws iss rip rport w) (\<lambda>(r, w'). r = length (tcp_sockets w) \<and>
    (\<exists>i. becomes w [socket_frame w (opening_socket iss rip rport p) FLAG_SYN []]
      ((TCP_PORT_MAP w)((rip, rport, p) \<mapsto> r)) (tcp_sockets w @ [(opening_socket iss rip rport p)\<lparr>response_timer_id := i\<rparr>]) w'))"
proof -
  define r where "r = length (tcp_sockets w)"
  define s where "s = TCPSocketState_new iss rip rport p"
  define s' where "s' = opening_socket iss rip rport p"
  define ports where "ports = (TCP_PORT_MAP w)((rip, rport, p) \<mapsto> r)"
  define v where "v = w\<lparr>tcp_sockets := tcp_sockets w @ [s], TCP_PORT_MAP := ports\<rparr>"
  have insert: "tcp_open_insert draws iss rip rport w = Some (r, v)"
    using assms(4) by (simp add: tcp_open_insert_def TCPSocket_new_def r_def v_def ports_def s_def)
  have v: "becomes w [] ports (tcp_sockets w @ [s]) v"
    using assms(1) by (simp add: becomes_def v_def)
  have get: "get_socket r v = Some s"
    by (simp add: get_socket_Some v_def r_def)
  have frame: "socket_frame v s' FLAG_SYN [] = socket_frame w s' FLAG_SYN []"
    by (simp add: v_def socket_frame_def ip_datagram_def local_for_def split: IPAddr.split)
  have "returns (tcp_send_packet s' NetBuffer_new FLAG_SYN v) (stays v [socket_frame v s' FLAG_SYN []])"
    using v assms(2) by (intro send_stays)
      (auto simp: becomes_def s'_def opening_socket_def set_state_def TCPSocketState_new_def ack_of_cases)
  then obtain x where x: "tcp_send_packet s' NetBuffer_new FLAG_SYN v = Some x" "stays v [socket_frame w s' FLAG_SYN []] x"
    by (auto simp: frame elim: returnsE)
  then have "returns (set_response_timer r s' x) (\<lambda>(s'', w'). (\<exists>i. s'' = s'\<lparr>response_timer_id := i\<rparr>) \<and> stays x [] w')"
    using v assms(3) by (intro set_response_timer_stays) (simp_all add: becomes_def)
  then obtain i y where y: "set_response_timer r s' x = Some (s'\<lparr>response_timer_id := i\<rparr>, y)" "stays x [] y"
    by (auto elim!: returnsE)
  have "becomes w [socket_frame w s' FLAG_SYN []] ports (tcp_sockets w @ [s]) y"
    using becomes_stays [OF becomes_stays [OF v x(2)] y(2)] by simp
  from becomes_put [OF this, of r "s'\<lparr>response_timer_id := i\<rparr>"]
  have "becomes w [socket_frame w s' FLAG_SYN []] ports (tcp_sockets w @ [s'\<lparr>response_timer_id := i\<rparr>])
      (put_socket r (s'\<lparr>response_timer_id := i\<rparr>) y)"
    by (simp add: r_def)
  with insert get x(1) y(1) show ?thesis
    by (auto simp: tcp_open_def tcp_open_connect_def ports_def r_def s'_def opening_socket_def s_def Let_def)
qed


section \<open>The passive side\<close>

text \<open>The socket of a new connection when it sends its SYN, and when it is put into the queue of the listener.\<close>

definition answering_socket :: "u32 \<Rightarrow> IPAddr \<Rightarrow> segment \<Rightarrow> nat \<Rightarrow> TCPSocketState" where
  "answering_socket iss src g mss =
     (set_state SynReceived (TCPSocketState_new iss src (seg_source_port g) (seg_dest_port g)))
       \<lparr>send_mss := mss, receive_next_seq := seg_seq g + 1, reassembler := set_next_expect (seg_seq g + 1) TCPReassembler_new\<rparr>"

definition queued_socket :: "u32 \<Rightarrow> IPAddr \<Rightarrow> segment \<Rightarrow> nat \<Rightarrow> TCPSocketState" where
  "queued_socket iss src g mss = (answering_socket iss src g mss)
     \<lparr>send_unacked := seg_seq g, send_last_win_ack := seg_ack g, send_last_win_seq := seg_seq g, send_window := ucast (seg_window g)\<rparr>"

lemma socket_frame_cong:
  "LOCAL_IPV4 v = LOCAL_IPV4 w \<Longrightarrow> LOCAL_IPV6 v = LOCAL_IPV6 w \<Longrightarrow> NEXT_PACKET_ID v = NEXT_PACKET_ID w \<Longrightarrow>
   socket_frame v s fl body = socket_frame w s fl body"
  by (simp add: socket_frame_def ip_datagram_def local_for_def split: IPAddr.split)

text \<open>The new socket is made and its SYN answered before the listener is looked at.\<close>

lemma handle_new_connection_steps:
  fixes w :: "'a tcp_world_scheme" and g :: segment and mss :: nat and iss :: u32
  assumes "net_ok w" and "wf_ip src" and "unat (clock_ms w) + 3000 < 2 ^ 64"
  defines "s1 \<equiv> answering_socket iss src g mss" and "s2 \<equiv> queued_socket iss src g mss"
  shows "\<exists>i z. becomes w [socket_frame w s1 (FLAG_SYN OR FLAG_ACK) []] (TCP_PORT_MAP w) (tcp_sockets w @ [s2\<lparr>response_timer_id := i\<rparr>]) z \<and>
    handle_new_connection iss l src g mss w = do {
      ls \<leftarrow> get_socket l z;
      assert_that (state ls = Listen);
      Some (length (tcp_sockets w), put_socket l (ls\<lparr>socket_queue := socket_queue ls @ [length (tcp_sockets w)]\<rparr>) z) }"
proof -
  define r where "r = length (tcp_sockets w)"
  define s where "s = TCPSocketState_new iss src (seg_source_port g) (seg_dest_port g)"
  define v where "v = w\<lparr>tcp_sockets := tcp_sockets w @ [s]\<rparr>"
  have v: "becomes w [] (TCP_PORT_MAP w) (tcp_sockets w @ [s]) v"
    using assms(1) by (simp add: becomes_def v_def)
  have "returns (tcp_send_packet s1 NetBuffer_new (FLAG_SYN OR FLAG_ACK) v) (stays v [socket_frame v s1 (FLAG_SYN OR FLAG_ACK) []])"
    using v assms(2) by (intro send_stays)
      (auto simp: becomes_def s1_def answering_socket_def set_state_def TCPSocketState_new_def ack_of_cases)
  moreover have "socket_frame v s1 (FLAG_SYN OR FLAG_ACK) [] = socket_frame w s1 (FLAG_SYN OR FLAG_ACK) []"
    by (rule socket_frame_cong) (simp_all add: v_def)
  ultimately obtain x where x: "tcp_send_packet s1 NetBuffer_new (FLAG_SYN OR FLAG_ACK) v = Some x"
      "stays v [socket_frame w s1 (FLAG_SYN OR FLAG_ACK) []] x"
    by (auto elim: returnsE)
  then have "returns (set_response_timer r s2 x) (\<lambda>(s', w'). (\<exists>i. s' = s2\<lparr>response_timer_id := i\<rparr>) \<and> stays x [] w')"
    using v assms(3) by (intro set_response_timer_stays) (simp_all add: becomes_def)
  then obtain i y where y: "set_response_timer r s2 x = Some (s2\<lparr>response_timer_id := i\<rparr>, y)" "stays x [] y"
    by (auto elim!: returnsE)
  have "becomes w [socket_frame w s1 (FLAG_SYN OR FLAG_ACK) []] (TCP_PORT_MAP w) (tcp_sockets w @ [s]) y"
    using becomes_stays [OF becomes_stays [OF v x(2)] y(2)] by simp
  from becomes_put [OF this, of r "s2\<lparr>response_timer_id := i\<rparr>"]
  have "becomes w [socket_frame w s1 (FLAG_SYN OR FLAG_ACK) []] (TCP_PORT_MAP w) (tcp_sockets w @ [s2\<lparr>response_timer_id := i\<rparr>])
      (put_socket r (s2\<lparr>response_timer_id := i\<rparr>) y)"
    by (simp add: r_def)
  moreover have new: "TCPSocket_new iss src (seg_source_port g) (seg_dest_port g) w = (r, v)" "get_socket r v = Some s"
    by (simp_all add: TCPSocket_new_def r_def v_def s_def get_socket_Some)
  moreover have "(set_state SynReceived (s\<lparr>remote_ip := src, remote_port := seg_source_port g\<rparr>))\<lparr>send_mss := mss, receive_next_seq := seg_seq g + 1,
      reassembler := set_next_expect (seg_seq g + 1) (reassembler (set_state SynReceived (s\<lparr>remote_ip := src, remote_port := seg_source_port g\<rparr>)))\<rparr> = s1"
    by (simp add: s1_def answering_socket_def s_def set_state_def TCPSocketState_new_def)
  moreover have "s2 = s1\<lparr>send_unacked := seg_seq g, send_last_win_ack := seg_ack g, send_last_win_seq := seg_seq g, send_window := ucast (seg_window g)\<rparr>"
    by (simp add: s2_def s1_def queued_socket_def)
  ultimately show ?thesis
    using x(1) y(1) unfolding handle_new_connection_def r_def [symmetric]
    by (intro exI [of _ i] exI [of _ "put_socket r (s2\<lparr>response_timer_id := i\<rparr>) y"]) (simp add: Let_def)
qed

lemma handle_new_connection_returns:
  assumes "net_ok w" and "wf_ip src" and "unat (clock_ms w) + 3000 < 2 ^ 64"
    and "get_socket l w = Some ls" and "state ls = Listen"
  shows "returns (handle_new_connection iss l src g mss w) (\<lambda>(r, w'). r = length (tcp_sockets w) \<and>
    (\<exists>i. becomes w [socket_frame w (answering_socket iss src g mss) (FLAG_SYN OR FLAG_ACK) []] (TCP_PORT_MAP w)
      ((tcp_sockets w)[l := ls\<lparr>socket_queue := socket_queue ls @ [r]\<rparr>] @ [(queued_socket iss src g mss)\<lparr>response_timer_id := i\<rparr>]) w'))"
proof -
  define r where "r = length (tcp_sockets w)"
  define ls' where "ls' = ls\<lparr>socket_queue := socket_queue ls @ [r]\<rparr>"
  obtain i z where z: "becomes w [socket_frame w (answering_socket iss src g mss) (FLAG_SYN OR FLAG_ACK) []] (TCP_PORT_MAP w)
      (tcp_sockets w @ [(queued_socket iss src g mss)\<lparr>response_timer_id := i\<rparr>]) z"
    and run: "handle_new_connection iss l src g mss w = do {
      ls \<leftarrow> get_socket l z;
      assert_that (state ls = Listen);
      Some (r, put_socket l (ls\<lparr>socket_queue := socket_queue ls @ [r]\<rparr>) z) }"
    using handle_new_connection_steps [OF assms(1-3)] unfolding r_def by blast
  have "get_socket l z = Some ls"
    using z assms(4) by (simp add: becomes_def get_socket_Some nth_append)
  then have "handle_new_connection iss l src g mss w = Some (r, put_socket l ls' z)"
    using run assms(5) by (simp add: ls'_def)
  moreover have "(tcp_sockets w @ [q])[l := ls'] = (tcp_sockets w)[l := ls'] @ [q]" for q
    using assms(4) by (simp add: get_socket_Some list_update_append)
  ultimately show ?thesis
    using becomes_put [OF z, of l ls'] by (auto simp: r_def ls'_def)
qed

text \<open>A listener that has been closed but is still in the port map is a trap.\<close>

lemma closed_listener_panics:
  assumes "net_ok w" and "wf_ip src" and "unat (clock_ms w) + 3000 < 2 ^ 64"
    and "get_socket l w = Some ls" and "state ls \<noteq> Listen"
  shows "handle_new_connection iss l src g mss w = None"
proof -
  obtain i z where z: "becomes w [socket_frame w (answering_socket iss src g mss) (FLAG_SYN OR FLAG_ACK) []] (TCP_PORT_MAP w)
      (tcp_sockets w @ [(queued_socket iss src g mss)\<lparr>response_timer_id := i\<rparr>]) z"
    and run: "handle_new_connection iss l src g mss w = do {
      ls \<leftarrow> get_socket l z;
      assert_that (state ls = Listen);
      Some (length (tcp_sockets w), put_socket l (ls\<lparr>socket_queue := socket_queue ls @ [length (tcp_sockets w)]\<rparr>) z) }"
    using handle_new_connection_steps [OF assms(1-3)] by blast
  have "get_socket l z = Some ls"
    using z assms(4) by (simp add: becomes_def get_socket_Some nth_append)
  then show ?thesis
    using run assms(5) by simp
qed

section \<open>The segments of the handshake\<close>

lemma drop_stays: "net_ok w \<Longrightarrow> wf_buf b \<Longrightarrow> stays w [] (drop_buffer b w)"
  by (rule stays_net [OF pool_net_step [OF drop_buffer_step]])

lemma syn_dispatched:
  assumes "net_ok w" and "wf_ip src" and "unat (clock_ms w) + 3000 < 2 ^ 64" and "wf_buf b"
    and "TCP_PORT_MAP w (src, seg_source_port g, seg_dest_port g) = None"
    and "TCP_PORT_MAP w (IPAddr_new, 0, seg_dest_port g) = Some l"
    and "get_socket l w = Some ls" and "state ls = Listen" and "has_flag (seg_flags g) FLAG_SYN"
  shows "returns (tcp_dispatch iss src g mss b w) (\<lambda>w'. \<exists>i.
    becomes w [socket_frame w (answering_socket iss src g mss) (FLAG_SYN OR FLAG_ACK) []]
      ((TCP_PORT_MAP w)((src, seg_source_port g, seg_dest_port g) \<mapsto> length (tcp_sockets w)))
      ((tcp_sockets w)[l := ls\<lparr>socket_queue := socket_queue ls @ [length (tcp_sockets w)]\<rparr>] @
        [(queued_socket iss src g mss)\<lparr>response_timer_id := i\<rparr>]) w')"
proof -
  obtain i v where v: "handle_new_connection iss l src g mss w = Some (length (tcp_sockets w), v)"
    and step: "becomes w [socket_frame w (answering_socket iss src g mss) (FLAG_SYN OR FLAG_ACK) []] (TCP_PORT_MAP w)
      ((tcp_sockets w)[l := ls\<lparr>socket_queue := socket_queue ls @ [length (tcp_sockets w)]\<rparr>] @
        [(queued_socket iss src g mss)\<lparr>response_timer_id := i\<rparr>]) v"
    using handle_new_connection_returns [OF assms(1-3,7,8), of iss g mss] by (auto elim!: returnsE)
  note mapped = becomes_map [OF step, of "(src, seg_source_port g, seg_dest_port g)" "length (tcp_sockets w)"]
  then have "net_ok (v\<lparr>TCP_PORT_MAP := (TCP_PORT_MAP v)((src, seg_source_port g, seg_dest_port g) \<mapsto> length (tcp_sockets w))\<rparr>)"
    by (simp add: becomes_def)
  from becomes_stays [OF mapped drop_stays [OF this assms(4)]] show ?thesis
    using assms(5,6,9) v by (auto simp: tcp_dispatch_def)
qed

text \<open>The sockets of an established connection, on the active and on the passive side.\<close>

definition established_active :: "u32 \<Rightarrow> IPAddr \<Rightarrow> u16 \<Rightarrow> u16 \<Rightarrow> segment \<Rightarrow> nat \<Rightarrow> TCPSocketState" where
  "established_active iss rip rport lport g mss = (TCPSocketState_new iss rip rport lport)
     \<lparr>state := Established, receive_next_seq := seg_seq g + 1, reassembler := set_next_expect (seg_seq g + 1) TCPReassembler_new,
      send_unacked := seg_ack g, send_next_seq := iss + 1, send_window := ucast (seg_window g),
      send_last_win_seq := seg_seq g, send_last_win_ack := seg_ack g, send_mss := mss\<rparr>"

lemma syn_ack_dispatched:
  assumes "net_ok w" and "wf_ip src" and "unat (clock_ms w) + 3000 < 2 ^ 64" and "wf_buf b" and "contents b = []"
    and "TCP_PORT_MAP w (src, seg_source_port g, seg_dest_port g) = Some r"
    and "get_socket r w = Some ((opening_socket iss src (seg_source_port g) (seg_dest_port g))\<lparr>response_timer_id := i\<rparr>)"
    and "has_flag (seg_flags g) FLAG_ACK" and "\<not> has_flag (seg_flags g) FLAG_RST" and "mss \<noteq> 0"
  shows "returns (tcp_dispatch iss' src g mss b w) (\<lambda>w'. \<exists>i.
    becomes w [socket_frame w (established_active iss src (seg_source_port g) (seg_dest_port g) g mss) FLAG_ACK []] (TCP_PORT_MAP w)
      ((tcp_sockets w)[r := (established_active iss src (seg_source_port g) (seg_dest_port g) g mss)\<lparr>response_timer_id := i\<rparr>]) w')"
proof -
  define s where "s = (opening_socket iss src (seg_source_port g) (seg_dest_port g))\<lparr>response_timer_id := i, send_mss := mss\<rparr>"
  define e where "e = established_active iss src (seg_source_port g) (seg_dest_port g) g mss"
  define v where "v = (if i \<noteq> -1 then snd (cancel_timer i w) else w)"
  have v: "stays w [] v"
    using assms(1) by (simp add: v_def stays_cancel stays_refl)
  have same: "NEXT_PACKET_ID v = NEXT_PACKET_ID w"
    by (simp add: v_def cancel_timer_def split: prod.split)
  have "returns (tcp_send_packet e NetBuffer_new FLAG_ACK v) (stays v [socket_frame v e FLAG_ACK []])"
    using v assms(2) by (intro send_stays)
      (auto simp: becomes_def e_def established_active_def TCPSocketState_new_def ack_of_cases)
  moreover have "socket_frame v e FLAG_ACK [] = socket_frame w e FLAG_ACK []"
    using v by (intro socket_frame_cong) (simp_all add: becomes_def same)
  ultimately obtain x where x: "tcp_send_packet e NetBuffer_new FLAG_ACK v = Some x" "stays v [socket_frame w e FLAG_ACK []] x"
    by (auto elim: returnsE)
  then have "returns (set_response_timer r e x) (\<lambda>(s', w'). (\<exists>i. s' = e\<lparr>response_timer_id := i\<rparr>) \<and> stays x [] w')"
    using v assms(3) by (intro set_response_timer_stays) (simp_all add: becomes_def)
  then obtain j y where y: "set_response_timer r e x = Some (e\<lparr>response_timer_id := j\<rparr>, y)" "stays x [] y"
    by (auto elim!: returnsE)
  have "stays w [socket_frame w e FLAG_ACK []] y"
    using becomes_stays [OF becomes_stays [OF v x(2)] y(2)] by simp
  moreover from this have "stays y [] (drop_buffer b y)"
    by (intro drop_stays assms(4)) (simp add: becomes_def)
  ultimately have z: "stays w [socket_frame w e FLAG_ACK []] (drop_buffer b y)"
    using becomes_stays by fastforce
  have "handle_state r g (s\<lparr>response_timer_id := -1\<rparr>) v = Some (e\<lparr>response_timer_id := j\<rparr>, y)"
    using assms(8) x(1) y(1)
    by (simp add: handle_state_def s_def opening_socket_def set_state_def TCPSocketState_new_def e_def established_active_def)
  moreover have "\<not> is_established s" "state s = SynSent"
    by (simp_all add: s_def opening_socket_def set_state_def is_established_def)
  moreover have "is_empty b"
    using assms(4,5) by (simp add: is_empty_iff)
  ultimately have "tcp_input_socket r g mss b ((opening_socket iss src (seg_source_port g) (seg_dest_port g))\<lparr>response_timer_id := i\<rparr>) w =
      Some (e\<lparr>response_timer_id := j\<rparr>, drop_buffer b y)"
    using assms(9,10) by (cases "i = -1") (simp_all add: tcp_input_socket_def s_def v_def is_established_def opening_socket_def set_state_def TCPSocketState_new_def)
  with assms(6,7) becomes_put [OF z, of r "e\<lparr>response_timer_id := j\<rparr>"] show ?thesis
    unfolding e_def by (auto simp: tcp_dispatch_def)
qed


definition established_passive :: "u32 \<Rightarrow> IPAddr \<Rightarrow> segment \<Rightarrow> nat \<Rightarrow> u32 \<Rightarrow> TCPSocketState" where
  "established_passive iss src g mss ack = (queued_socket iss src g mss)
     \<lparr>state := Established, send_next_seq := iss + 1, send_unacked := ack, response_timer_id := -1\<rparr>"

lemma ack_dispatched:
  assumes "net_ok w" and "wf_buf b" and "contents b = []"
    and "TCP_PORT_MAP w (src, seg_source_port g, seg_dest_port g) = Some r"
    and "get_socket r w = Some ((queued_socket iss src f mss)\<lparr>response_timer_id := i\<rparr>)"
    and "has_flag (seg_flags g) FLAG_ACK" and "\<not> has_flag (seg_flags g) FLAG_RST" and "seg_ack g = iss + 1"
  shows "returns (tcp_dispatch iss' src g 0 b w) (\<lambda>w'.
    becomes w [] (TCP_PORT_MAP w) ((tcp_sockets w)[r := established_passive iss src f mss (seg_ack g)]) w')"
proof -
  define s where "s = (queued_socket iss src f mss)\<lparr>response_timer_id := -1\<rparr>"
  define e where "e = established_passive iss src f mss (seg_ack g)"
  define v where "v = (if i \<noteq> -1 then snd (cancel_timer i w) else w)"
  have v: "stays w [] v"
    using assms(1) by (simp add: v_def stays_cancel stays_refl)
  have "send_next_seq s = iss" "state s = SynReceived"
    by (simp_all add: s_def queued_socket_def answering_socket_def set_state_def TCPSocketState_new_def)
  then have "handle_ack g s v = Some (s, v)" "is_established s"
    using assms(8) by (simp_all add: handle_ack_def acknowledge_def update_window_def seq_le_def seq_gt_def is_established_def)
  moreover have "handle_state r g s v = Some (e, v)"
    using assms(6) by (simp add: handle_state_def s_def e_def established_passive_def queued_socket_def answering_socket_def
        set_state_def TCPSocketState_new_def)
  moreover have "is_empty b"
    using assms(2,3) by (simp add: is_empty_iff)
  ultimately have run: "tcp_input_socket r g 0 b ((queued_socket iss src f mss)\<lparr>response_timer_id := i\<rparr>) w = Some (e, drop_buffer b v)"
    using assms(6,7) by (cases "i = -1") (simp_all add: tcp_input_socket_def s_def v_def)
  have "stays v [] (drop_buffer b v)"
    using v by (intro drop_stays assms(2)) (simp add: becomes_def)
  from becomes_put [OF becomes_stays [OF v this], of r e] run assms(4,5) show ?thesis
    unfolding e_def by (simp add: tcp_dispatch_def)
qed


section \<open>Two stacks\<close>

definition socket_segment :: "TCPSocketState \<Rightarrow> u8 \<Rightarrow> segment" where
  "socket_segment s fl = segment_fields (socket_params s fl (the (ack_of s)))"

definition sent_mss :: "u8 \<Rightarrow> nat" where
  "sent_mss fl = (if has_flag fl FLAG_SYN then 1500 else 0)"

lemma parse_sent_options: "parse_options (send_options fl) = Some (sent_mss fl)"
  by (simp add: parse_options_spec send_options_def sent_mss_def from_be_bytes_def)

lemma socket_frame_delivered:
  assumes "net_ok v" and "wf_ip (remote_ip s)" and "tcp_ok w" and "local_for w (remote_ip s) = remote_ip s"
    and "delivers readv (socket_frame v s fl body)" and "length body \<le> 1900"
  shows "\<exists>b u. packet_receive readv iss w =
      tcp_dispatch iss (local_for v (remote_ip s)) (socket_segment s fl) (sent_mss fl) b u \<and>
    wf_buf b \<and> contents b = body \<and> received w (nfrags b) u"
proof -
  define p where "p = socket_params s fl (the (ack_of s))"
  have p: "valid_params p" "dest_ip p = remote_ip s" "parse_options (options p) = Some (sent_mss fl)" "length (options p) \<le> 40"
    using assms(2) send_options_length [of fl] parse_sent_options [of fl]
    by (simp_all add: p_def valid_params_def socket_params_def)
  moreover have "ip_header_len (remote_ip s) + 20 + length (options p) + length body \<le> MRU"
    using p(4) assms(6) by (simp add: ip_header_len_def IPV4_BASE_HEADER_LEN_def IPV6_HEADER_LEN_def MRU_def)
  ultimately show ?thesis
    using assms(5) unfolding socket_frame_def socket_segment_def p_def [symmetric]
    by (elim segment_delivered [OF assms(1) p(1,2) assms(3,4) _ _ p(3), of readv body iss]) blast+
qed

lemma dispatched_ok:
  assumes "tcp_dispatch iss src g m b u = Some w'" and "received w n u" and "tcp_ok w" and "wf_buf b" and "wf_ip src" and "m \<le> 0xffff"
  shows "tcp_ok w'"
  using wheneverD [OF tcp_dispatch_keeps [OF assms(4-6) received_ok(3) [OF assms(2,3)]] assms(1)] received_ok(3) [OF assms(2,3)]
  by (rule tcp_keeps_ok)

lemma sent_mss_bound: "sent_mss fl \<le> 0xffff"
  by (simp add: sent_mss_def)

text \<open>The state of the socket at one end of a new connection.\<close>

definition synchronized :: "TCPSocketState \<Rightarrow> IPAddr \<Rightarrow> u16 \<Rightarrow> u16 \<Rightarrow> u32 \<Rightarrow> u32 \<Rightarrow> bool" where
  "synchronized s rip rport lport sent expected \<longleftrightarrow> state s = Established \<and>
     remote_ip s = rip \<and> remote_port s = rport \<and> local_port s = lport \<and>
     send_next_seq s = sent \<and> send_unacked s = sent \<and> send_window s = 0xffff \<and> send_mss s = 1500 \<and>
     receive_next_seq s = expected \<and> reassembler s = \<lparr>next_sequence = expected, out_of_order = []\<rparr> \<and>
     contents (receive_queue s) = [] \<and> contents (retransmit_queue s) = []"

lemma local_for_v4: "net_ok w \<Longrightarrow> wf_ip d \<Longrightarrow> is_v4 (local_for w d) = is_v4 d" "net_ok w \<Longrightarrow> wf_ip d \<Longrightarrow> wf_ip (local_for w d)"
  using local_for_family [of w d] by (simp_all add: same_family_def)

lemma local_for_cong:
  "LOCAL_IPV4 v = LOCAL_IPV4 w \<Longrightarrow> LOCAL_IPV6 v = LOCAL_IPV6 w \<Longrightarrow> is_v4 d = is_v4 e \<Longrightarrow> local_for v d = local_for w e"
  by (simp add: local_for_def)

text \<open>First segment: the listener answers.\<close>

lemma syn_received:
  fixes b :: "'b tcp_world_scheme"
  assumes "net_ok a" and "tcp_ok b" and "wf_ip dest" and "local_for b dest = dest" and "unat (clock_ms b) + 3000 < 2 ^ 64"
    and "TCP_PORT_MAP b (local_for a dest, p, dport) = None" and "TCP_PORT_MAP b (IPAddr_new, 0, dport) = Some l"
    and "get_socket l b = Some ls" and "state ls = Listen"
    and "delivers readv (socket_frame a (opening_socket iss dest dport p) FLAG_SYN [])"
  shows "returns (packet_receive readv iss' b) (\<lambda>b'. tcp_ok b' \<and> (\<exists>i (x :: 'b tcp_world_scheme). net_ok x \<and> LOCAL_IPV4 x = LOCAL_IPV4 b \<and> LOCAL_IPV6 x = LOCAL_IPV6 b \<and>
    becomes b [socket_frame x (answering_socket iss' (local_for a dest) (socket_segment (opening_socket iss dest dport p) FLAG_SYN) 1500)
        (FLAG_SYN OR FLAG_ACK) []]
      ((TCP_PORT_MAP b)((local_for a dest, p, dport) \<mapsto> length (tcp_sockets b)))
      ((tcp_sockets b)[l := ls\<lparr>socket_queue := socket_queue ls @ [length (tcp_sockets b)]\<rparr>] @
        [(queued_socket iss' (local_for a dest) (socket_segment (opening_socket iss dest dport p) FLAG_SYN) 1500)\<lparr>response_timer_id := i\<rparr>]) b'))"
proof -
  define s where "s = opening_socket iss dest dport p"
  define g where "g = socket_segment s FLAG_SYN"
  have s: "remote_ip s = dest"
    by (simp add: s_def opening_socket_def set_state_def TCPSocketState_new_def)
  have g: "seg_source_port g = p" "seg_dest_port g = dport" "has_flag (seg_flags g) FLAG_SYN" "sent_mss FLAG_SYN = 1500"
    by (simp_all add: g_def socket_segment_def segment_fields_def socket_params_def s_def opening_socket_def set_state_def
        TCPSocketState_new_def has_flag_def FLAG_SYN_def sent_mss_def)
  obtain q u where run: "packet_receive readv iss' b = tcp_dispatch iss' (local_for a dest) g 1500 q u"
    and q: "wf_buf q" and u: "received b (nfrags q) u"
    using socket_frame_delivered [OF assms(1) _ assms(2) _ assms(10) [folded s_def], of iss'] assms(3,4)
    by (auto simp: s g(4) g_def)
  have net: "net_ok b"
    using assms(2) by (simp add: tcp_ok_def udp_ok_def)
  note fields = received_fields [OF u]
  have src: "wf_ip (local_for a dest)"
    by (rule local_for_v4 [OF assms(1,3)])
  have get: "get_socket l u = Some ls"
    using assms(8) by (simp add: get_socket_def fields)
  have "returns (tcp_dispatch iss' (local_for a dest) g 1500 q u) (\<lambda>w'. \<exists>i.
    becomes u [socket_frame u (answering_socket iss' (local_for a dest) g 1500) (FLAG_SYN OR FLAG_ACK) []]
      ((TCP_PORT_MAP u)((local_for a dest, seg_source_port g, seg_dest_port g) \<mapsto> length (tcp_sockets u)))
      ((tcp_sockets u)[l := ls\<lparr>socket_queue := socket_queue ls @ [length (tcp_sockets u)]\<rparr>] @
        [(queued_socket iss' (local_for a dest) g 1500)\<lparr>response_timer_id := i\<rparr>]) w')"
    by (rule syn_dispatched [OF received_ok(1) [OF u net] src _ q _ _ get assms(9) g(3)])
      (use assms(5-7) in \<open>simp_all add: fields g\<close>)
  then obtain b' i where b': "packet_receive readv iss' b = Some b'"
    and step: "becomes u [socket_frame u (answering_socket iss' (local_for a dest) g 1500) (FLAG_SYN OR FLAG_ACK) []]
      ((TCP_PORT_MAP u)((local_for a dest, p, dport) \<mapsto> length (tcp_sockets u)))
      ((tcp_sockets u)[l := ls\<lparr>socket_queue := socket_queue ls @ [length (tcp_sockets u)]\<rparr>] @
        [(queued_socket iss' (local_for a dest) g 1500)\<lparr>response_timer_id := i\<rparr>]) b'"
    unfolding run by (auto simp: g elim!: returnsE)
  have "tcp_ok b'"
    using b' run dispatched_ok [OF _ u assms(2) q src] by simp
  moreover have "net_ok u" "LOCAL_IPV4 u = LOCAL_IPV4 b" "LOCAL_IPV6 u = LOCAL_IPV6 b"
    using received_ok(1) [OF u net] by (simp_all add: fields)
  moreover have "becomes b [socket_frame u (answering_socket iss' (local_for a dest) g 1500) (FLAG_SYN OR FLAG_ACK) []]
      ((TCP_PORT_MAP b)((local_for a dest, p, dport) \<mapsto> length (tcp_sockets b)))
      ((tcp_sockets b)[l := ls\<lparr>socket_queue := socket_queue ls @ [length (tcp_sockets b)]\<rparr>] @
        [(queued_socket iss' (local_for a dest) g 1500)\<lparr>response_timer_id := i\<rparr>]) b'"
    using step by (simp add: becomes_def fields)
  ultimately show ?thesis
    unfolding b' s_def [symmetric] g_def [symmetric] returns_Some by blast
qed


lemma socket_segment_fields:
  "seg_source_port (socket_segment s fl) = local_port s" "seg_dest_port (socket_segment s fl) = remote_port s"
  "seg_seq (socket_segment s fl) = send_next_seq s" "seg_ack (socket_segment s fl) = the (ack_of s)"
  "seg_flags (socket_segment s fl) = fl"
  "seg_window (socket_segment s fl) = MAX_RECEIVE_WINDOW - of_nat (buf_length (receive_queue s))"
  by (simp_all add: socket_segment_def segment_fields_def socket_params_def)

text \<open>Second segment: the active side is connected and acknowledges.\<close>

lemma syn_ack_received:
  fixes a :: "'a tcp_world_scheme"
  assumes "net_ok x" and "tcp_ok a" and "wf_ip (remote_ip s)" and "local_for a (remote_ip s) = remote_ip s"
    and "unat (clock_ms a) + 3000 < 2 ^ 64" and "local_for x (remote_ip s) = dest"
    and "TCP_PORT_MAP a (dest, local_port s, remote_port s) = Some r"
    and "get_socket r a = Some ((opening_socket iss dest (local_port s) (remote_port s))\<lparr>response_timer_id := i\<rparr>)"
    and "delivers readv (socket_frame x s (FLAG_SYN OR FLAG_ACK) [])"
  defines "e \<equiv> established_active iss dest (local_port s) (remote_port s) (socket_segment s (FLAG_SYN OR FLAG_ACK)) 1500"
  shows "returns (packet_receive readv iss' a) (\<lambda>a'. tcp_ok a' \<and> (\<exists>i (y :: 'a tcp_world_scheme). net_ok y \<and>
    LOCAL_IPV4 y = LOCAL_IPV4 a \<and> LOCAL_IPV6 y = LOCAL_IPV6 a \<and>
    becomes a [socket_frame y e FLAG_ACK []] (TCP_PORT_MAP a) ((tcp_sockets a)[r := e\<lparr>response_timer_id := i\<rparr>]) a'))"
proof -
  define g where "g = socket_segment s (FLAG_SYN OR FLAG_ACK)"
  have g: "seg_source_port g = local_port s" "seg_dest_port g = remote_port s" "has_flag (seg_flags g) FLAG_ACK"
      "\<not> has_flag (seg_flags g) FLAG_RST" "sent_mss (FLAG_SYN OR FLAG_ACK) = 1500"
    by (simp_all add: g_def socket_segment_fields has_flag_def FLAG_SYN_def FLAG_ACK_def FLAG_RST_def sent_mss_def)
  obtain q u where run: "packet_receive readv iss' a = tcp_dispatch iss' dest g 1500 q u"
    and q: "wf_buf q" "contents q = []" and u: "received a (nfrags q) u"
    using socket_frame_delivered [OF assms(1,3,2,4,9), of iss'] by (auto simp: g(5) g_def assms(6))
  have net: "net_ok a"
    using assms(2) by (simp add: tcp_ok_def udp_ok_def)
  note fields = received_fields [OF u]
  have dest: "wf_ip dest"
    using local_for_v4(2) [OF assms(1,3)] assms(6) by simp
  have get: "get_socket r u = Some ((opening_socket iss dest (seg_source_port g) (seg_dest_port g))\<lparr>response_timer_id := i\<rparr>)"
    using assms(8) by (simp add: get_socket_def fields g)
  have "returns (tcp_dispatch iss' dest g 1500 q u) (\<lambda>w'. \<exists>i.
    becomes u [socket_frame u (established_active iss dest (seg_source_port g) (seg_dest_port g) g 1500) FLAG_ACK []] (TCP_PORT_MAP u)
      ((tcp_sockets u)[r := (established_active iss dest (seg_source_port g) (seg_dest_port g) g 1500)\<lparr>response_timer_id := i\<rparr>]) w')"
    by (rule syn_ack_dispatched [OF received_ok(1) [OF u net] dest _ q _ get g(3,4)])
      (use assms(5,7) in \<open>simp_all add: fields g\<close>)
  then obtain a' j where a': "packet_receive readv iss' a = Some a'"
    and step: "becomes u [socket_frame u e FLAG_ACK []] (TCP_PORT_MAP u) ((tcp_sockets u)[r := e\<lparr>response_timer_id := j\<rparr>]) a'"
    unfolding run by (auto simp: g(1,2) e_def g_def [symmetric] elim!: returnsE)
  have "tcp_ok a'"
    using a' run dispatched_ok [OF _ u assms(2) q(1) dest] by simp
  moreover have "net_ok u" "LOCAL_IPV4 u = LOCAL_IPV4 a" "LOCAL_IPV6 u = LOCAL_IPV6 a"
    using received_ok(1) [OF u net] by (simp_all add: fields)
  moreover have "becomes a [socket_frame u e FLAG_ACK []] (TCP_PORT_MAP a) ((tcp_sockets a)[r := e\<lparr>response_timer_id := j\<rparr>]) a'"
    using step by (simp add: becomes_def fields)
  ultimately show ?thesis
    unfolding a' returns_Some by blast
qed

text \<open>Third segment: the passive side is connected.\<close>

lemma ack_received:
  assumes "net_ok x" and "tcp_ok b" and "wf_ip (remote_ip s)" and "local_for b (remote_ip s) = remote_ip s"
    and "local_for x (remote_ip s) = src" and "TCP_PORT_MAP b (src, local_port s, remote_port s) = Some r"
    and "get_socket r b = Some ((queued_socket iss src f mss)\<lparr>response_timer_id := i\<rparr>)"
    and "ack_of s = Some (iss + 1)" and "delivers readv (socket_frame x s FLAG_ACK [])"
  shows "returns (packet_receive readv iss' b) (\<lambda>b'. tcp_ok b' \<and>
    becomes b [] (TCP_PORT_MAP b) ((tcp_sockets b)[r := established_passive iss src f mss (iss + 1)]) b')"
proof -
  define g where "g = socket_segment s FLAG_ACK"
  have g: "seg_source_port g = local_port s" "seg_dest_port g = remote_port s" "has_flag (seg_flags g) FLAG_ACK"
      "\<not> has_flag (seg_flags g) FLAG_RST" "sent_mss FLAG_ACK = 0" "seg_ack g = iss + 1"
    using assms(8) by (simp_all add: g_def socket_segment_fields has_flag_def FLAG_SYN_def FLAG_ACK_def FLAG_RST_def sent_mss_def)
  obtain q u where run: "packet_receive readv iss' b = tcp_dispatch iss' src g 0 q u"
    and q: "wf_buf q" "contents q = []" and u: "received b (nfrags q) u"
    using socket_frame_delivered [OF assms(1,3,2,4,9), of iss'] by (auto simp: g(5) g_def assms(5))
  have net: "net_ok b"
    using assms(2) by (simp add: tcp_ok_def udp_ok_def)
  note fields = received_fields [OF u]
  have src: "wf_ip src"
    using local_for_v4(2) [OF assms(1,3)] assms(5) by simp
  have get: "get_socket r u = Some ((queued_socket iss src f mss)\<lparr>response_timer_id := i\<rparr>)"
    using assms(7) by (simp add: get_socket_def fields)
  have "returns (tcp_dispatch iss' src g 0 q u) (\<lambda>w'.
    becomes u [] (TCP_PORT_MAP u) ((tcp_sockets u)[r := established_passive iss src f mss (seg_ack g)]) w')"
    by (rule ack_dispatched [OF received_ok(1) [OF u net] q _ get g(3,4)]) (use assms(6) in \<open>simp_all add: fields g\<close>)
  then obtain b' where b': "packet_receive readv iss' b = Some b'"
    and step: "becomes u [] (TCP_PORT_MAP u) ((tcp_sockets u)[r := established_passive iss src f mss (iss + 1)]) b'"
    unfolding run by (auto simp: g(6) elim!: returnsE)
  have "tcp_ok b'"
    using b' run dispatched_ok [OF _ u assms(2) q(1) src] by simp
  moreover have "becomes b [] (TCP_PORT_MAP b) ((tcp_sockets b)[r := established_passive iss src f mss (iss + 1)]) b'"
    using step by (simp add: becomes_def fields)
  ultimately show ?thesis
    unfolding b' returns_Some by blast
qed


lemma tcp_open_keeps: "wf_ip rip \<Longrightarrow> whenever (tcp_open draws iss rip rport w) (\<lambda>(r, w'). tcp_keeps 0 w 0 w')"
  unfolding tcp_open_def
  by (rule whenever_bindI [OF tcp_open_insert_keeps])
    (auto simp: whenever_bind case_prod_unfold intro: whenever_conseq [OF tcp_open_connect_keeps] tcp_keeps_trans)

lemma tcp_open_ok:
  "tcp_open draws iss rip rport w = Some (r, w') \<Longrightarrow> tcp_ok w \<Longrightarrow> wf_ip rip \<Longrightarrow> tcp_ok w'"
  using wheneverD [OF tcp_open_keeps] tcp_keeps_ok by fastforce

text \<open>The sockets of a handshake: what the listener answers with, and both ends when it is over.\<close>

definition server_answer :: "u32 \<Rightarrow> u32 \<Rightarrow> IPAddr \<Rightarrow> IPAddr \<Rightarrow> u16 \<Rightarrow> u16 \<Rightarrow> TCPSocketState" where
  "server_answer iss iss' src dest dport p = answering_socket iss' src (socket_segment (opening_socket iss dest dport p) FLAG_SYN) 1500"

definition server_queued :: "u32 \<Rightarrow> u32 \<Rightarrow> IPAddr \<Rightarrow> IPAddr \<Rightarrow> u16 \<Rightarrow> u16 \<Rightarrow> TCPSocketState" where
  "server_queued iss iss' src dest dport p = queued_socket iss' src (socket_segment (opening_socket iss dest dport p) FLAG_SYN) 1500"

definition client_done :: "u32 \<Rightarrow> u32 \<Rightarrow> IPAddr \<Rightarrow> IPAddr \<Rightarrow> u16 \<Rightarrow> u16 \<Rightarrow> TCPSocketState" where
  "client_done iss iss' src dest dport p = established_active iss dest dport p
     (socket_segment (server_answer iss iss' src dest dport p) (FLAG_SYN OR FLAG_ACK)) 1500"

definition server_done :: "u32 \<Rightarrow> u32 \<Rightarrow> IPAddr \<Rightarrow> IPAddr \<Rightarrow> u16 \<Rightarrow> u16 \<Rightarrow> TCPSocketState" where
  "server_done iss iss' src dest dport p =
     established_passive iss' src (socket_segment (opening_socket iss dest dport p) FLAG_SYN) 1500 (iss' + 1)"

lemmas socket_defs = set_state_def TCPSocketState_new_def ack_of_cases TCPReassembler_new_def get_next_expect_def
  set_next_expect_def MAX_RECEIVE_WINDOW_def

lemma opening_fields:
  "local_port (opening_socket iss dest dport p) = p" "remote_port (opening_socket iss dest dport p) = dport"
  "send_next_seq (opening_socket iss dest dport p) = iss" "remote_ip (opening_socket iss dest dport p) = dest" "state (opening_socket iss dest dport p) = SynSent"
  "seg_source_port (socket_segment (opening_socket iss dest dport p) fl) = p"
  "seg_dest_port (socket_segment (opening_socket iss dest dport p) fl) = dport"
  "seg_seq (socket_segment (opening_socket iss dest dport p) fl) = iss"
  "seg_window (socket_segment (opening_socket iss dest dport p) fl) = 0xffff"
  by (simp_all add: opening_socket_def socket_defs socket_segment_fields)

lemma answer_fields:
  "remote_ip (server_answer iss iss' src dest dport p) = src" "remote_port (server_answer iss iss' src dest dport p) = p"
  "local_port (server_answer iss iss' src dest dport p) = dport"
  "seg_seq (socket_segment (server_answer iss iss' src dest dport p) fl) = iss'"
  "seg_ack (socket_segment (server_answer iss iss' src dest dport p) fl) = iss + 1"
  "seg_window (socket_segment (server_answer iss iss' src dest dport p) fl) = 0xffff"
  by (simp_all add: socket_segment_fields opening_fields server_answer_def answering_socket_def socket_defs)

lemma client_done_fields:
  "remote_ip (client_done iss iss' src dest dport p) = dest" "remote_port (client_done iss iss' src dest dport p) = dport"
  "local_port (client_done iss iss' src dest dport p) = p" "ack_of (client_done iss iss' src dest dport p) = Some (iss' + 1)"
  "state (client_done iss iss' src dest dport p) = Established"
  by (simp_all add: client_done_def established_active_def answer_fields socket_defs)

lemma done_synchronized:
  "synchronized ((client_done iss iss' src dest dport p)\<lparr>response_timer_id := i\<rparr>) dest dport p (iss + 1) (iss' + 1)"
  "synchronized (server_done iss iss' src dest dport p) src p dport (iss' + 1) (iss + 1)"
  by (simp_all add: client_done_def established_active_def server_done_def established_passive_def queued_socket_def
      answering_socket_def synchronized_def answer_fields opening_fields socket_defs)

text \<open>The new socket \<open>q\<close> of a listener is the last one in its queue, from which \<open>tcp_accept\<close> takes the first.\<close>

definition accepted :: "nat \<Rightarrow> 'a tcp_world_scheme \<Rightarrow> 'a tcp_world_scheme \<Rightarrow> nat \<Rightarrow> bool" where
  "accepted l b b' q \<longleftrightarrow> socket_queue (tcp_sockets b' ! l) = socket_queue (tcp_sockets b ! l) @ [q] \<and>
     (\<exists>b''. tcp_accept l b' = Some (Ready (hd (socket_queue (tcp_sockets b ! l) @ [q])), b''))"

lemma second_segment:
  fixes a :: "'a tcp_world_scheme"
  assumes "becomes a [syn] ((TCP_PORT_MAP a)((dest, dport, p) \<mapsto> r)) (tcp_sockets a @ [(opening_socket iss dest dport p)\<lparr>response_timer_id := i\<rparr>]) a1"
    and "r = length (tcp_sockets a)" and "net_ok a" and "tcp_ok a1" and "wf_ip dest" and "unat (clock_ms a) + 3000 < 2 ^ 64"
    and "net_ok x" and "local_for x dest = dest"
    and "delivers readv (socket_frame x (server_answer iss iss' (local_for a dest) dest dport p) (FLAG_SYN OR FLAG_ACK) [])"
  shows "returns (packet_receive readv z a1) (\<lambda>a2. \<exists>y :: 'a tcp_world_scheme. tcp_ok a2 \<and> net_ok y \<and> local_for y dest = local_for a dest \<and>
    tun_out a2 = tun_out a1 @ [socket_frame y (client_done iss iss' (local_for a dest) dest dport p) FLAG_ACK []] \<and>
    tcp_open_wait r a2 = Some (Ready (Inr r)) \<and> synchronized (tcp_sockets a2 ! r) dest dport p (iss + 1) (iss' + 1))"
proof -
  define src where "src = local_for a dest"
  note src = local_for_v4 [OF assms(3,5), folded src_def]
  have addr: "local_for a1 src = src" "local_for x src = dest"
    using local_for_cong [of a1 a src dest] local_for_cong [of x x src dest] assms(1,8) src(1)
    by (simp_all add: becomes_def src_def)
  have r: "TCP_PORT_MAP a1 (dest, dport, p) = Some r" "r < length (tcp_sockets a1)"
      "get_socket r a1 = Some ((opening_socket iss dest dport p)\<lparr>response_timer_id := i\<rparr>)" "unat (clock_ms a1) + 3000 < 2 ^ 64"
    using assms(1,2,6) by (simp_all add: becomes_def get_socket_Some nth_append)
  have "returns (packet_receive readv z a1) (\<lambda>a2. tcp_ok a2 \<and> (\<exists>i (y :: 'a tcp_world_scheme). net_ok y \<and>
      LOCAL_IPV4 y = LOCAL_IPV4 a1 \<and> LOCAL_IPV6 y = LOCAL_IPV6 a1 \<and>
      becomes a1 [socket_frame y (client_done iss iss' src dest dport p) FLAG_ACK []] (TCP_PORT_MAP a1)
        ((tcp_sockets a1)[r := (client_done iss iss' src dest dport p)\<lparr>response_timer_id := i\<rparr>]) a2))"
    using syn_ack_received [OF assms(7,4) _ _ r(4) _ _ _ assms(9), of dest r i iss z] src(2) addr r
    by (simp add: answer_fields client_done_def src_def [symmetric])
  then show ?thesis
    unfolding src_def [symmetric]
  proof (rule returns_conseq, elim conjE exE)
    fix a2 k and y :: "'a tcp_world_scheme"
    assume ok: "tcp_ok a2" "net_ok y" and y: "LOCAL_IPV4 y = LOCAL_IPV4 a1" "LOCAL_IPV6 y = LOCAL_IPV6 a1"
      and step: "becomes a1 [socket_frame y (client_done iss iss' src dest dport p) FLAG_ACK []] (TCP_PORT_MAP a1)
        ((tcp_sockets a1)[r := (client_done iss iss' src dest dport p)\<lparr>response_timer_id := k\<rparr>]) a2"
    have "local_for y dest = src"
      using local_for_cong [of y a dest dest] y assms(1) by (simp add: becomes_def src_def)
    then show "\<exists>y :: 'a tcp_world_scheme. tcp_ok a2 \<and> net_ok y \<and> local_for y dest = src \<and>
        tun_out a2 = tun_out a1 @ [socket_frame y (client_done iss iss' src dest dport p) FLAG_ACK []] \<and>
        tcp_open_wait r a2 = Some (Ready (Inr r)) \<and> synchronized (tcp_sockets a2 ! r) dest dport p (iss + 1) (iss' + 1)"
      using ok step r(2) by (intro exI [of _ y])
        (simp add: becomes_def tcp_open_wait_def get_socket_def client_done_fields done_synchronized)
  qed
qed

lemma third_segment:
  fixes b :: "'b tcp_world_scheme" and y :: "'a tcp_world_scheme"
  assumes "becomes b [syn_ack] ((TCP_PORT_MAP b)((src, p, dport) \<mapsto> q))
      ((tcp_sockets b)[l := ls\<lparr>socket_queue := socket_queue ls @ [q]\<rparr>] @
        [(server_queued iss iss' src dest dport p)\<lparr>response_timer_id := j\<rparr>]) b1"
    and "q = length (tcp_sockets b)" and "get_socket l b = Some ls" and "tcp_ok b1" and "wf_ip dest" and "local_for b dest = dest"
    and "net_ok y" and "local_for y dest = src"
    and "delivers readv (socket_frame y (client_done iss iss' src dest dport p) FLAG_ACK [])"
  shows "returns (packet_receive readv z b1) (\<lambda>b2. tcp_ok b2 \<and> tun_out b2 = tun_out b1 \<and> accepted l b b2 q \<and>
    synchronized (tcp_sockets b2 ! q) src p dport (iss' + 1) (iss + 1))"
proof -
  have b1: "local_for b1 dest = dest" "TCP_PORT_MAP b1 (src, p, dport) = Some q"
      "get_socket q b1 = Some ((server_queued iss iss' src dest dport p)\<lparr>response_timer_id := j\<rparr>)"
    using local_for_cong [of b1 b dest dest] assms(1,2,6) by (simp_all add: becomes_def get_socket_Some nth_append)
  have l: "l < q" "ls = tcp_sockets b ! l"
    using assms(2,3) by (simp_all add: get_socket_Some)
  have "returns (packet_receive readv z b1) (\<lambda>b2. tcp_ok b2 \<and>
      becomes b1 [] (TCP_PORT_MAP b1) ((tcp_sockets b1)[q := server_done iss iss' src dest dport p]) b2)"
    using ack_received [OF assms(7,4), where s = "client_done iss iss' src dest dport p" and src = src and r = q and iss = iss' and
        f = "socket_segment (opening_socket iss dest dport p) FLAG_SYN" and mss = 1500 and i = j and readv = readv and iss' = z]
      assms(5,8,9) b1
    by (simp add: client_done_fields server_queued_def server_done_def)
  then show ?thesis
  proof (rule returns_conseq, elim conjE)
    fix b2
    assume ok: "tcp_ok b2" and step: "becomes b1 [] (TCP_PORT_MAP b1) ((tcp_sockets b1)[q := server_done iss iss' src dest dport p]) b2"
    have "tcp_sockets b2 ! l = ls\<lparr>socket_queue := socket_queue ls @ [q]\<rparr>" "l < length (tcp_sockets b2)"
        "tcp_sockets b2 ! q = server_done iss iss' src dest dport p"
      using step assms(1,2) l(1) by (simp_all add: becomes_def nth_append)
    then show "tcp_ok b2 \<and> tun_out b2 = tun_out b1 \<and> accepted l b b2 q \<and>
        synchronized (tcp_sockets b2 ! q) src p dport (iss' + 1) (iss + 1)"
      using ok step l(2)
      by (simp add: becomes_def accepted_def tcp_accept_def get_socket_def done_synchronized neq_Nil_conv split: list.split)
  qed
qed

section \<open>Properties\<close>

text \<open>
  C2: The three-way handshake. A stack opens a connection to an address and a port of another stack that
  listens there. Whenever the three segments are delivered, one after the other, no step panics and every
  step sends exactly one segment until the third one has arrived; then \<open>tcp_open\<close> returns on the one
  side, \<open>tcp_accept\<close> on the other, and the two sockets are connected to each other: each of them expects
  the sequence number that the other one will send next.
\<close>

theorem three_way_handshake:
  fixes b :: "'b tcp_world_scheme"
  assumes "tcp_ok a" and "tcp_ok b" and "wf_ip dest" and "local_for b dest = dest"
    and "unat (clock_ms a) + 3000 < 2 ^ 64" and "unat (clock_ms b) + 3000 < 2 ^ 64"
    and "find_ephemeral_port draws dest dport a = Some p"
    and "TCP_PORT_MAP b (IPAddr_new, 0, dport) = Some l" and "state (tcp_sockets b ! l) = Listen"
    and "TCP_PORT_MAP b (local_for a dest, p, dport) = None"
  shows "returns (tcp_open draws iss dest dport a) (\<lambda>(r, a1). \<exists>syn. tun_out a1 = tun_out a @ [syn] \<and>
    tcp_open_wait r a1 = Some Blocked \<and>
    (\<forall>readv. delivers readv syn \<longrightarrow> returns (packet_receive readv iss' b) (\<lambda>b1. \<exists>syn_ack. tun_out b1 = tun_out b @ [syn_ack] \<and>
      (\<forall>readv z. delivers readv syn_ack \<longrightarrow> returns (packet_receive readv z a1) (\<lambda>a2. \<exists>ack. tun_out a2 = tun_out a1 @ [ack] \<and>
        tcp_open_wait r a2 = Some (Ready (Inr r)) \<and> tcp_ok a2 \<and>
        synchronized (tcp_sockets a2 ! r) dest dport p (iss + 1) (iss' + 1) \<and>
        (\<forall>readv z. delivers readv ack \<longrightarrow> returns (packet_receive readv z b1) (\<lambda>b2. tcp_ok b2 \<and> tun_out b2 = tun_out b1 \<and>
          (\<exists>q. accepted l b b2 q \<and>
            synchronized (tcp_sockets b2 ! q) (local_for a dest) p dport (iss' + 1) (iss + 1)))))))))"
proof -
  have net: "net_ok a" "net_ok b" and l: "get_socket l b = Some (tcp_sockets b ! l)"
    using assms(1,2,8) by (auto simp: tcp_ok_def udp_ok_def get_socket_Some)
  obtain r a1 i where a1: "tcp_open draws iss dest dport a = Some (r, a1)" "r = length (tcp_sockets a)"
    and step1: "becomes a [socket_frame a (opening_socket iss dest dport p) FLAG_SYN []] ((TCP_PORT_MAP a)((dest, dport, p) \<mapsto> r))
      (tcp_sockets a @ [(opening_socket iss dest dport p)\<lparr>response_timer_id := i\<rparr>]) a1"
    using tcp_open_returns [OF net(1) assms(3,5,7), of iss] by (auto elim!: returnsE)
  have ok1: "tcp_ok a1"
    by (rule tcp_open_ok [OF a1(1) assms(1,3)])
  have wait: "tcp_open_wait r a1 = Some Blocked" "tun_out a1 = tun_out a @ [socket_frame a (opening_socket iss dest dport p) FLAG_SYN []]"
    using step1 a1(2) by (simp_all add: tcp_open_wait_def get_socket_def becomes_def nth_append opening_fields)
  show ?thesis
    unfolding a1(1) returns_Some prod.case
  proof (intro exI conjI allI impI, rule wait(2), rule wait(1))
    fix readv
    assume del1: "delivers readv (socket_frame a (opening_socket iss dest dport p) FLAG_SYN [])"
    obtain b1 j x where b1: "packet_receive readv iss' b = Some b1" "tcp_ok b1"
      and x: "net_ok (x :: 'b tcp_world_scheme)" "local_for x dest = dest"
      and step2: "becomes b [socket_frame x (server_answer iss iss' (local_for a dest) dest dport p) (FLAG_SYN OR FLAG_ACK) []]
        ((TCP_PORT_MAP b)((local_for a dest, p, dport) \<mapsto> length (tcp_sockets b)))
        ((tcp_sockets b)[l := (tcp_sockets b ! l)\<lparr>socket_queue := socket_queue (tcp_sockets b ! l) @ [length (tcp_sockets b)]\<rparr>] @
          [(server_queued iss iss' (local_for a dest) dest dport p)\<lparr>response_timer_id := j\<rparr>]) b1"
      using syn_received [OF net(1) assms(2-4,6,10,8) l assms(9) del1, of iss', folded server_answer_def server_queued_def]
        local_for_cong [of _ b dest dest] assms(4)
      by (elim returnsE conjE exE) (rule that, assumption+, simp, assumption)
    have sent: "tun_out b1 = tun_out b @ [socket_frame x (server_answer iss iss' (local_for a dest) dest dport p) (FLAG_SYN OR FLAG_ACK) []]"
      using step2 by (simp add: becomes_def)
    note second = second_segment [OF step1 a1(2) net(1) ok1 assms(3,5) x]
    note third = third_segment [OF step2 refl l b1(2) assms(3,4)]
    show "returns (packet_receive readv iss' b) (\<lambda>b1. \<exists>syn_ack. tun_out b1 = tun_out b @ [syn_ack] \<and>
      (\<forall>readv z. delivers readv syn_ack \<longrightarrow> returns (packet_receive readv z a1) (\<lambda>a2. \<exists>ack. tun_out a2 = tun_out a1 @ [ack] \<and>
        tcp_open_wait r a2 = Some (Ready (Inr r)) \<and> tcp_ok a2 \<and>
        synchronized (tcp_sockets a2 ! r) dest dport p (iss + 1) (iss' + 1) \<and>
        (\<forall>readv z. delivers readv ack \<longrightarrow> returns (packet_receive readv z b1) (\<lambda>b2. tcp_ok b2 \<and> tun_out b2 = tun_out b1 \<and>
          (\<exists>q. accepted l b b2 q \<and>
            synchronized (tcp_sockets b2 ! q) (local_for a dest) p dport (iss' + 1) (iss + 1)))))))"
      unfolding b1(1) returns_Some
      by (intro exI conjI allI impI, rule sent, rule returns_conseq [OF second], assumption, elim exE conjE, intro exI conjI)
        (assumption+, blast intro: returns_conseq [OF third])
  qed
qed


text \<open>A stack with another address for the witnesses.\<close>

definition client_world :: tcp_world where
  "client_world = listening_world\<lparr>LOCAL_IPV4 := V4 [10, 0, 0, 9]\<rparr>"

lemma handshake_worlds: "tcp_ok listening_world" "tcp_ok client_world"
  using reachable_ok [OF listening_world_reachable]
  by (simp_all add: sys_ok_def client_world_def tcp_ok_def udp_ok_def net_ok_def pool_ok_def link_up_def)

theorem three_way_handshake_witness:
  "\<exists>r a1 syn b1 syn_ack a2 ack b2 q.
    tcp_open [7] 100 (V4 [10, 0, 0, 2]) 80 client_world = Some (r, a1) \<and> tun_out a1 = [syn] \<and>
    packet_receive (scatter syn) 200 listening_world = Some b1 \<and> tun_out b1 = [syn_ack] \<and>
    packet_receive (scatter syn_ack) 0 a1 = Some a2 \<and> tun_out a2 = [syn, ack] \<and>
    packet_receive (scatter ack) 0 b1 = Some b2 \<and> accepted 0 listening_world b2 q \<and>
    synchronized (tcp_sockets a2 ! r) (V4 [10, 0, 0, 2]) 80 49159 101 201 \<and>
    synchronized (tcp_sockets b2 ! q) (V4 [10, 0, 0, 9]) 49159 80 201 101"
proof -
  have port: "find_ephemeral_port [7] (V4 [10, 0, 0, 2]) 80 client_world = Some 49159"
    by (simp add: client_world_def listening_world_fields EPHEMERAL_PORT_BASE_def checked_add_def IPAddr_new_def)
  have ports: "TCP_PORT_MAP listening_world (IPAddr_new, 0, 80) = Some 0" "state (tcp_sockets listening_world ! 0) = Listen"
      "TCP_PORT_MAP listening_world (local_for client_world (V4 [10, 0, 0, 2]), 49159, 80) = None"
      "local_for client_world (V4 [10, 0, 0, 2]) = V4 [10, 0, 0, 9]" "tun_out client_world = []"
    by (simp_all add: listening_world_fields set_state_def local_for_def client_world_def IPAddr_new_def)
  have "wf_ip (V4 [10, 0, 0, 2])" "local_for listening_world (V4 [10, 0, 0, 2]) = V4 [10, 0, 0, 2]"
      "unat (clock_ms client_world) + 3000 < 2 ^ 64" "unat (clock_ms listening_world) + 3000 < 2 ^ 64"
    by (simp_all add: local_for_def listening_world_fields client_world_def)
  note run = three_way_handshake [OF handshake_worlds(2,1) this port ports(1-3), of 100 200, unfolded ports(4,5)]
  from run obtain r a1 syn where a1: "tcp_open [7] 100 (V4 [10, 0, 0, 2]) 80 client_world = Some (r, a1)" "tun_out a1 = [syn]"
    and rest1: "\<And>readv. delivers readv syn \<Longrightarrow> returns (packet_receive readv 200 listening_world) (\<lambda>b1.
        \<exists>syn_ack. tun_out b1 = tun_out listening_world @ [syn_ack] \<and>
      (\<forall>readv z. delivers readv syn_ack \<longrightarrow> returns (packet_receive readv z a1) (\<lambda>a2. \<exists>ack. tun_out a2 = tun_out a1 @ [ack] \<and>
        tcp_open_wait r a2 = Some (Ready (Inr r)) \<and> tcp_ok a2 \<and>
        synchronized (tcp_sockets a2 ! r) (V4 [10, 0, 0, 2]) 80 49159 (100 + 1) (200 + 1) \<and>
        (\<forall>readv z. delivers readv ack \<longrightarrow> returns (packet_receive readv z b1) (\<lambda>b2. tcp_ok b2 \<and> tun_out b2 = tun_out b1 \<and>
          (\<exists>q. accepted 0 listening_world b2 q \<and>
            synchronized (tcp_sockets b2 ! q) (V4 [10, 0, 0, 9]) 49159 80 (200 + 1) (100 + 1)))))))"
    by (auto elim!: returnsE)
  from rest1 [OF delivers_scatter] obtain b1 syn_ack where b1: "packet_receive (scatter syn) 200 listening_world = Some b1"
      "tun_out b1 = [syn_ack]"
    and rest2: "\<And>readv z. delivers readv syn_ack \<Longrightarrow> returns (packet_receive readv z a1) (\<lambda>a2. \<exists>ack. tun_out a2 = tun_out a1 @ [ack] \<and>
        tcp_open_wait r a2 = Some (Ready (Inr r)) \<and> tcp_ok a2 \<and>
        synchronized (tcp_sockets a2 ! r) (V4 [10, 0, 0, 2]) 80 49159 (100 + 1) (200 + 1) \<and>
        (\<forall>readv z. delivers readv ack \<longrightarrow> returns (packet_receive readv z b1) (\<lambda>b2. tcp_ok b2 \<and> tun_out b2 = tun_out b1 \<and>
          (\<exists>q. accepted 0 listening_world b2 q \<and>
            synchronized (tcp_sockets b2 ! q) (V4 [10, 0, 0, 9]) 49159 80 (200 + 1) (100 + 1)))))"
    by (auto simp: listening_world_fields elim!: returnsE)
  from rest2 [OF delivers_scatter, of 0] obtain a2 ack where a2: "packet_receive (scatter syn_ack) 0 a1 = Some a2" "tun_out a2 = [syn, ack]"
      "synchronized (tcp_sockets a2 ! r) (V4 [10, 0, 0, 2]) 80 49159 (100 + 1) (200 + 1)"
    and rest3: "\<And>readv z. delivers readv ack \<Longrightarrow> returns (packet_receive readv z b1) (\<lambda>b2. tcp_ok b2 \<and> tun_out b2 = tun_out b1 \<and>
          (\<exists>q. accepted 0 listening_world b2 q \<and>
            synchronized (tcp_sockets b2 ! q) (V4 [10, 0, 0, 9]) 49159 80 (200 + 1) (100 + 1)))"
    by (auto simp: a1(2) elim!: returnsE)
  from rest3 [OF delivers_scatter, of 0] obtain b2 q where "packet_receive (scatter ack) 0 b1 = Some b2" "accepted 0 listening_world b2 q"
      "synchronized (tcp_sockets b2 ! q) (V4 [10, 0, 0, 9]) 49159 80 (200 + 1) (100 + 1)"
    by (auto elim!: returnsE)
  with a1 b1 a2 show ?thesis
    by (intro exI conjI) (assumption | simp)+
qed

text \<open>
  C12: \<open>tcp_open\<close> picks an ephemeral port that is not used for the same remote address and port, enters a
  new socket for it into the port map, sends one SYN with the initial sequence number and the maximum
  segment size, and goes to \<open>SynSent\<close>. It disturbs no other socket and loses no fragment.
\<close>

theorem tcp_open_correct:
  assumes "tcp_ok w" and "wf_ip rip" and "unat (clock_ms w) + 3000 < 2 ^ 64"
    and "\<exists>d \<in> set draws. TCP_PORT_MAP w (rip, rport, 49152 + d mod 16383) = None"
  shows "returns (tcp_open draws iss rip rport w) (\<lambda>(r, w'). \<exists>p s. 49152 \<le> p \<and> p < 65535 \<and>
    TCP_PORT_MAP w (rip, rport, p) = None \<and> TCP_PORT_MAP w' = (TCP_PORT_MAP w)((rip, rport, p) \<mapsto> r) \<and>
    r = length (tcp_sockets w) \<and> tcp_sockets w' = tcp_sockets w @ [s] \<and>
    state s = SynSent \<and> remote_ip s = rip \<and> remote_port s = rport \<and> local_port s = p \<and> send_next_seq s = iss \<and>
    tun_out w' = tun_out w @ [ip_datagram w PROTO_TCP rip (tcp_segment (local_for w rip)
      \<lparr>source_port = p, dest_ip = rip, dest_port = rport, seq_num = iss, ack_num = 0, flags = FLAG_SYN, window = 0xffff,
       options = [2, 4, 5, 0xdc]\<rparr> [])] \<and>
    tcp_ok w' \<and> (\<forall>k. tcp_balanced w k \<longrightarrow> tcp_balanced w' k))"
proof -
  obtain p where p: "find_ephemeral_port draws rip rport w = Some p" "49152 \<le> p" "p < 65535" "TCP_PORT_MAP w (rip, rport, p) = None"
    using find_ephemeral_port_returns [OF assms(4)] by (auto elim!: returnsE)
  have "net_ok w"
    using assms(1) by (simp add: tcp_ok_def udp_ok_def)
  from tcp_open_returns [OF this assms(2,3) p(1), of iss] obtain r w' i where
    opened: "tcp_open draws iss rip rport w = Some (r, w')" "r = length (tcp_sockets w)"
    and step: "becomes w [socket_frame w (opening_socket iss rip rport p) FLAG_SYN []]
      ((TCP_PORT_MAP w)((rip, rport, p) \<mapsto> r)) (tcp_sockets w @ [(opening_socket iss rip rport p)\<lparr>response_timer_id := i\<rparr>]) w'"
    by (auto elim!: returnsE)
  have frame: "socket_frame w (opening_socket iss rip rport p) FLAG_SYN [] = ip_datagram w PROTO_TCP rip (tcp_segment (local_for w rip)
      \<lparr>source_port = p, dest_ip = rip, dest_port = rport, seq_num = iss, ack_num = 0, flags = FLAG_SYN, window = 0xffff,
       options = [2, 4, 5, 0xdc]\<rparr> [])"
    by (simp add: socket_frame_def socket_params_def opening_socket_def socket_defs send_options_def has_flag_def FLAG_SYN_def
        NetBuffer_new_def)
  have keeps: "tcp_keeps 0 w 0 w'"
    using wheneverD [OF tcp_open_keeps opened(1)] assms(2) by simp
  show ?thesis
    unfolding opened(1) returns_Some prod.case
    by (intro exI [of _ p] exI [of _ "(opening_socket iss rip rport p)\<lparr>response_timer_id := i\<rparr>"])
      (use p opened(2) step keeps assms(1) in \<open>simp add: becomes_def frame tcp_keeps_def opening_fields\<close>)
qed

theorem tcp_open_correct_witness:
  "\<exists>w' p. tcp_open [7, 9] 100 (V4 [10, 0, 0, 1]) 80 listening_world = Some (1, w') \<and> 49152 \<le> p \<and>
     TCP_PORT_MAP w' (V4 [10, 0, 0, 1], 80, p) = Some 1 \<and> map state (tcp_sockets w') = [Listen, SynSent]"
proof -
  have "\<exists>d \<in> set [7, 9]. TCP_PORT_MAP listening_world (V4 [10, 0, 0, 1], 80, 49152 + d mod 16383) = None"
    by (auto simp: listening_world_fields IPAddr_new_def)
  from tcp_open_correct [OF handshake_worlds(1) _ _ this, of 100] show ?thesis
    by (auto simp: listening_world_fields set_state_def elim!: returnsE)
qed

end
