(* ===== verification/Tcp_Transfer.thy ===== *)
theory Tcp_Transfer
  imports Tcp_Handshake
begin

text \<open>
  Reading and writing on a connection: \<open>tcp_write\<close> cuts the data into segments, sends them as far as the
  window of the peer allows and keeps a copy, \<open>tcp_input\<close> of the peer puts what arrives in order into
  the receive queue, and \<open>tcp_read\<close> takes it out.
\<close>

section \<open>Writing\<close>

text \<open>Where the window of the peer ends, in terms of what has been sent and not been acknowledged.\<close>

lemma window_open:
  assumes "unat (next - unacked) + len \<le> unat win" and "unat win < 2 ^ 31"
  shows "\<not> seq_gt (next + of_nat len) (unacked + (win :: u32))"
proof -
  define k where "k = unat (next - unacked) + len"
  have "next + of_nat len = pos_seq unacked k" "unacked + win = pos_seq unacked (unat win)"
    by (simp_all add: k_def pos_seq_def algebra_simps)
  moreover have "k \<le> unat win"
    using assms(1) by (simp add: k_def)
  ultimately show ?thesis
    using assms(2) seq_gt_pos [of "unat win" k unacked] by simp
qed

lemma unat_add_le: "unat (x + of_nat n :: u32) \<le> unat x + n"
proof -
  have "unat (x + of_nat n) \<le> unat x + unat (of_nat n :: u32)"
    by (simp add: unat_word_ariths)
  also have "unat (of_nat n :: u32) \<le> n"
    by (simp add: unsigned_of_nat take_bit_eq_mod)
  finally show ?thesis
    by simp
qed

text \<open>A socket as it is after writing: nothing but the retransmission queue and the next sequence number has changed.\<close>

definition wrote :: "TCPSocketState \<Rightarrow> bytes \<Rightarrow> TCPSocketState \<Rightarrow> bool" where
  "wrote s bs s' \<longleftrightarrow> (\<exists>q i. s' = s\<lparr>send_next_seq := send_next_seq s + of_nat (length bs), retransmit_queue := q, retransmit_timer_id := i\<rparr> \<and>
     wf_buf q \<and> contents q = contents (retransmit_queue s) @ bs)"

lemma wrote_socket_ok: "wrote s bs s' \<Longrightarrow> socket_ok s \<Longrightarrow> socket_ok s'"
  by (auto simp: wrote_def socket_ok_def)

lemma wrote_fields:
  assumes "wrote s bs s'"
  shows "ack_of s' = ack_of s" "send_mss s' = send_mss s" "send_unacked s' = send_unacked s" "send_window s' = send_window s"
    "send_next_seq s' = send_next_seq s + of_nat (length bs)" "contents (retransmit_queue s') = contents (retransmit_queue s) @ bs"
    "same_socket s s'" "state s' = state s"
  using assms by (auto simp: wrote_def ack_of_def same_socket_def)

lemma wrote_trans: "wrote s xs t \<Longrightarrow> wrote t ys u \<Longrightarrow> wrote s (xs @ ys) u"
  unfolding wrote_def by (elim exE conjE) (intro exI conjI, simp_all add: algebra_simps)

lemma pool_step_packet_id: "pool_step w n w' n' \<Longrightarrow> NEXT_PACKET_ID w' = NEXT_PACKET_ID (w :: 'a net_world_scheme)"
  by (cases w; cases w') (simp add: pool_step_def only_pool_def)

lemma write_segment_returns:
  assumes "net_ok w" and "socket_ok s" and "ack_of s \<noteq> None" and "length bs \<le> MAX_PAYLOAD" and "unat (clock_ms w) + 1000 < 2 ^ 64"
    and "length (contents (retransmit_queue s)) + length bs \<le> USIZE_MAX"
  shows "returns (write_segment r bs s w) (\<lambda>(s', w'). wrote s bs s' \<and> stays w [socket_frame w s (FLAG_ACK OR FLAG_PSH) bs] w')"
proof -
  have wf: "wf_ip (remote_ip s)" "wf_buf (retransmit_queue s)"
    using assms(2) by (simp_all add: socket_ok_def)
  obtain p u where p: "append_from_slice bs NetBuffer_new w = Some (p, u)" "wf_buf p" "contents p = bs" "packed (fragments p)"
      "pool_step w 0 u (nfrags p)"
    using append_from_slice_returns [of NetBuffer_new w bs] assms(1,6) by (auto simp: net_ok_pool elim!: returnsE)
  have u: "stays w [] u" and same: "NEXT_PACKET_ID u = NEXT_PACKET_ID w"
    using stays_net [OF pool_net_step [OF p(5)] assms(1)] pool_step_packet_id [OF p(5)] by simp_all
  obtain v where v: "tcp_send_packet s p (FLAG_ACK OR FLAG_PSH) u = Some v"
      "net_step u (nfrags p) [socket_frame u s (FLAG_ACK OR FLAG_PSH) bs] v 0"
    using tcp_send_packet_returns [of p u s "FLAG_ACK OR FLAG_PSH"] p(2-4) assms(3,4) u wf(1) by (auto simp: becomes_def elim!: returnsE)
  have frame: "socket_frame u s (FLAG_ACK OR FLAG_PSH) bs = socket_frame w s (FLAG_ACK OR FLAG_PSH) bs"
    using u by (intro socket_frame_cong) (simp_all add: becomes_def same)
  have v': "stays w [socket_frame w s (FLAG_ACK OR FLAG_PSH) bs] v"
    using becomes_stays [OF u stays_net [OF v(2)]] u by (simp add: becomes_def frame)
  obtain q x where q: "append_from_slice bs (retransmit_queue s) v = Some (q, x)" "wf_buf q" "contents q = contents (retransmit_queue s) @ bs"
      "pool_step v (nfrags (retransmit_queue s)) x (nfrags q)"
    using append_from_slice_returns [OF wf(2), of v bs] assms(6) v' by (auto simp: becomes_def net_ok_pool elim!: returnsE)
  have x: "stays w [socket_frame w s (FLAG_ACK OR FLAG_PSH) bs] x"
    using becomes_stays [OF v' stays_net [OF pool_net_step [OF q(4)]]] v' by (simp add: becomes_def)
  have timer: "set_timer RETRANSMIT_INTERVAL (Retransmit r) x = Some (fresh_id x, add_timer RETRANSMIT_INTERVAL (Retransmit r) x)"
    using assms(5) x by (intro set_timer_adds) (simp add: becomes_def RETRANSMIT_INTERVAL_def)
  have "stays w [socket_frame w s (FLAG_ACK OR FLAG_PSH) bs] (add_timer RETRANSMIT_INTERVAL (Retransmit r) x)"
    using becomes_stays [OF x stays_add_timer] x by (simp add: becomes_def)
  moreover have "wrote s bs (s\<lparr>send_next_seq := send_next_seq s + of_nat (length bs), retransmit_queue := q, retransmit_timer_id := i\<rparr>)" for i
    unfolding wrote_def by (intro exI conjI, rule refl) (simp_all add: q)
  moreover from this [of "retransmit_timer_id s"]
  have "wrote s bs (s\<lparr>send_next_seq := send_next_seq s + of_nat (length bs), retransmit_queue := q\<rparr>)"
    by (cases s) simp
  ultimately show ?thesis
    using p(1) v(1) q(1) x timer by (cases "retransmit_timer_id s = -1") (simp_all add: write_segment_def Let_def)
qed


text \<open>The segments of a stream, as they appear on the link.\<close>

fun stream_frames :: "'a net_world_scheme \<Rightarrow> TCPSocketState \<Rightarrow> bytes list \<Rightarrow> bytes list \<Rightarrow> bool" where
  "stream_frames w s [] frames \<longleftrightarrow> frames = []"
| "stream_frames w s (c # cs) frames \<longleftrightarrow> (\<exists>x frames'. net_ok (x :: 'a net_world_scheme) \<and> LOCAL_IPV4 x = LOCAL_IPV4 w \<and> LOCAL_IPV6 x = LOCAL_IPV6 w \<and>
     frames = socket_frame x s (FLAG_ACK OR FLAG_PSH) c # frames' \<and> 0 < length c \<and> length c \<le> send_mss s \<and>
     stream_frames w (s\<lparr>send_next_seq := send_next_seq s + of_nat (length c)\<rparr>) cs frames')"

lemma socket_frame_wrote: "wrote s bs t \<Longrightarrow> socket_frame w t fl c = socket_frame w (s\<lparr>send_next_seq := send_next_seq s + of_nat (length bs)\<rparr>) fl c"
  by (auto simp: wrote_def socket_frame_def socket_params_def ack_of_def)

lemma stream_frames_cong:
  fixes v w :: "'a net_world_scheme"
  shows "LOCAL_IPV4 v = LOCAL_IPV4 w \<Longrightarrow> LOCAL_IPV6 v = LOCAL_IPV6 w \<Longrightarrow> t = s\<lparr>retransmit_queue := q, retransmit_timer_id := i\<rparr> \<Longrightarrow>
   stream_frames v t cs frames = stream_frames w s cs frames"
proof (induction cs arbitrary: s t frames)
  case (Cons c cs)
  have "socket_frame x t fl c = socket_frame x s fl c" for x :: "'a net_world_scheme" and fl
    by (simp add: Cons.prems(3) socket_frame_def socket_params_def ack_of_def)
  with Cons.IH [of "t\<lparr>send_next_seq := send_next_seq t + of_nat (length c)\<rparr>" "s\<lparr>send_next_seq := send_next_seq s + of_nat (length c)\<rparr>"]
    Cons.prems show ?case
    by simp
qed simp

lemma stream_frames_wrote:
  fixes v w :: "'a net_world_scheme"
  assumes "LOCAL_IPV4 v = LOCAL_IPV4 w" and "LOCAL_IPV6 v = LOCAL_IPV6 w" and "wrote s bs t"
  shows "stream_frames v t cs frames \<longleftrightarrow> stream_frames w (s\<lparr>send_next_seq := send_next_seq s + of_nat (length bs)\<rparr>) cs frames"
  using assms(3) stream_frames_cong [OF assms(1,2)] by (auto simp: wrote_def)

text \<open>A writer whose data fits into the window of the peer sends all of it.\<close>

lemma write_loop_returns:
  assumes "net_ok w" and "socket_ok s" and "ack_of s \<noteq> None" and "0 < send_mss s" and "send_mss s \<le> MAX_PAYLOAD"
    and "unat (clock_ms w) + 1000 < 2 ^ 64" and "offset \<le> length bs"
    and "length (contents (retransmit_queue s)) + (length bs - offset) \<le> USIZE_MAX"
    and "unat (send_next_seq s - send_unacked s) + (length bs - offset) \<le> unat (send_window s)" and "unat (send_window s) < 2 ^ 31"
  shows "returns (tcp_write_loop r bs offset s w) (\<lambda>(res, s', w'). res = Write_done (as_i32 (length bs)) \<and>
    wrote s (drop offset bs) s' \<and> (\<exists>cs frames. concat cs = drop offset bs \<and> stays w frames w' \<and> stream_frames w s cs frames))"
  using assms
proof (induction "length bs - offset" arbitrary: offset s w rule: less_induct)
  case (less offset s w)
  show ?case
  proof (cases "offset < length bs")
    case False
    then have "tcp_write_loop r bs offset s w = Some (Write_done (as_i32 (length bs)), s, w)"
      using less.prems(7) by (subst tcp_write_loop.simps) simp
    moreover have "wrote s [] s"
      unfolding wrote_def using less.prems(2) by (intro exI [of _ "retransmit_queue s"] exI [of _ "retransmit_timer_id s"]) (simp add: socket_ok_def)
    moreover have "stays w [] w"
      using less.prems(1) by (rule stays_refl)
    moreover have "stream_frames w s [] []" "concat [] = drop offset bs"
      using False by simp_all
    ultimately show ?thesis
      using False by (auto intro!: exI [of _ "[]"])
  next
    case True
    define n where "n = min (length bs - offset) (send_mss s)"
    define c where "c = take n (drop offset bs)"
    have n: "0 < n" "n \<le> send_mss s" "offset + n \<le> length bs" "length c = n"
      using True less.prems(4) by (auto simp: n_def c_def)
    have "\<not> window_closed s n"
      using window_open [of "send_next_seq s" "send_unacked s" n "send_window s"] less.prems(9,10) n(3)
      by (simp add: window_closed_def Let_def)
    moreover have "subslice offset (offset + n) bs = Some c"
      using n(3) by (simp add: c_def)
    ultimately have run: "tcp_write_loop r bs offset s w = do {
        (s', w) \<leftarrow> write_segment r c s w; tcp_write_loop r bs (offset + n) s' w }"
      using True by (subst tcp_write_loop.simps) (simp add: n_def)
    have bound: "length c \<le> MAX_PAYLOAD" "length (contents (retransmit_queue s)) + length c \<le> USIZE_MAX"
      using less.prems(5,8) n(2-4) by linarith+
    obtain t v where t: "write_segment r c s w = Some (t, v)" "wrote s c t" "stays w [socket_frame w s (FLAG_ACK OR FLAG_PSH) c] v"
      using write_segment_returns [OF less.prems(1-3) bound(1) less.prems(6) bound(2), of r] by (auto elim!: returnsE)
    note f = wrote_fields [OF t(2)]
    have used: "unat (send_next_seq s + of_nat n - send_unacked s) \<le> unat (send_next_seq s - send_unacked s) + n"
      using unat_add_le [of "send_next_seq s - send_unacked s" n] by (simp add: algebra_simps)
    have "returns (tcp_write_loop r bs (offset + n) t v) (\<lambda>(res, s', w'). res = Write_done (as_i32 (length bs)) \<and>
        wrote t (drop (offset + n) bs) s' \<and>
        (\<exists>cs frames. concat cs = drop (offset + n) bs \<and> stays v frames w' \<and> stream_frames v t cs frames))"
      using less.prems t(3) n wrote_socket_ok [OF t(2)] used
      by (intro less.hyps) (auto simp: f becomes_def)
    then obtain s' w' cs frames where w': "tcp_write_loop r bs (offset + n) t v = Some (Write_done (as_i32 (length bs)), s', w')"
        "wrote t (drop (offset + n) bs) s'" "concat cs = drop (offset + n) bs" "stays v frames w'" "stream_frames v t cs frames"
      by (auto elim!: returnsE)
    have "drop offset bs = c @ drop (offset + n) bs"
      by (simp add: c_def add.commute flip: drop_drop)
    with wrote_trans [OF t(2) w'(2)] w'(3) have all: "wrote s (drop offset bs) s'" "concat (c # cs) = drop offset bs"
      by simp_all
    have "stream_frames w s (c # cs) (socket_frame w s (FLAG_ACK OR FLAG_PSH) c # frames)"
      using w'(5) stream_frames_wrote [OF _ _ t(2), of v w] t(3) less.prems(1) n by (auto simp: becomes_def)
    moreover have "stays w (socket_frame w s (FLAG_ACK OR FLAG_PSH) c # frames) w'"
      using becomes_stays [OF t(3) w'(4)] by simp
    ultimately show ?thesis
      using all by (simp only: run t(1) w'(1) bind.bind_lunit prod.case returns_Some) blast
  qed
qed


section \<open>Receiving\<close>

text \<open>A socket that has received all octets up to \<open>expected\<close>, of which \<open>unread\<close> are still in its queue.\<close>

definition receiving :: "TCPSocketState \<Rightarrow> u32 \<Rightarrow> bytes \<Rightarrow> bool" where
  "receiving t expected unread \<longleftrightarrow> state t = Established \<and> reassembler t = \<lparr>next_sequence = expected, out_of_order = []\<rparr> \<and>
     contents (receive_queue t) = unread \<and> num_delayed_acks t < MAX_DELAYED_ACKS"

lemma add_packet_next:
  "add_packet b n \<lparr>next_sequence = n, out_of_order = []\<rparr> w =
     Some (Some b, \<lparr>next_sequence = n + of_nat (buf_length b), out_of_order = []\<rparr>, w)"
  using loop_done [of n "[]" b "n + of_nat (buf_length b)" w] by (simp add: add_packet_def)

lemma cancel_delayed_ack_stays:
  assumes "net_ok w" and "cancel_delayed_ack s w = (s', w')"
  shows "stays w [] w'" and "\<exists>i. s' = s\<lparr>delayed_ack_timer_id := i\<rparr>"
  using assms stays_cancel [OF assms(1)] stays_refl [OF assms(1)]
  by (auto simp: cancel_delayed_ack_def split: if_splits intro: exI [of _ "delayed_ack_timer_id s"])

lemma schedule_ack_returns:
  assumes "net_ok w" and "wf_ip (remote_ip s)" and "state s = Established" and "num_delayed_acks s < MAX_DELAYED_ACKS"
    and "unat (clock_ms w) + 500 < 2 ^ 64" and "\<not> has_flag (seg_flags g) FLAG_FIN"
  shows "returns (schedule_ack r g s w) (\<lambda>(s', w'). \<exists>k i frames. k < MAX_DELAYED_ACKS \<and>
    s' = s\<lparr>num_delayed_acks := k, delayed_ack_timer_id := i\<rparr> \<and> stays w frames w')"
proof -
  define n where "n = num_delayed_acks s + 1"
  have small: "unat (num_delayed_acks s) < 5"
    using assms(4) by (simp add: MAX_DELAYED_ACKS_def word_less_nat_alt)
  then have add: "checked_add (num_delayed_acks s) 1 = Some n"
    by (simp add: checked_add_def n_def)
  show ?thesis
  proof (cases "n \<ge> MAX_DELAYED_ACKS")
    case True
    obtain s1 v where v: "cancel_delayed_ack (s\<lparr>num_delayed_acks := 0\<rparr>) w = (s1, v)"
      by fastforce
    note c = cancel_delayed_ack_stays [OF assms(1) v]
    obtain i where s1: "s1 = s\<lparr>num_delayed_acks := 0, delayed_ack_timer_id := i\<rparr>"
      using c(2) by auto
    have "returns (tcp_send_packet s1 NetBuffer_new FLAG_ACK v) (stays v [socket_frame v s1 FLAG_ACK []])"
      using c(1) assms(2,3) by (intro send_stays) (simp_all add: becomes_def s1 ack_of_cases)
    then obtain x where "tcp_send_packet s1 NetBuffer_new FLAG_ACK v = Some x" "stays w [socket_frame v s1 FLAG_ACK []] x"
      using becomes_stays [OF c(1)] by (auto elim!: returnsE)
    moreover have "(0 :: u32) < MAX_DELAYED_ACKS"
      by (simp add: MAX_DELAYED_ACKS_def)
    ultimately show ?thesis
      using assms(3) add True v by (auto simp: schedule_ack_def s1)
  next
    case False
    then have k: "n < MAX_DELAYED_ACKS"
      by (simp add: not_le)
    have timer: "set_timer MAX_ACK_DELAY (Delayed_ack r) w = Some (fresh_id w, add_timer MAX_ACK_DELAY (Delayed_ack r) w)"
      using assms(5) by (intro set_timer_adds) (simp add: MAX_ACK_DELAY_def)
    have same: "s\<lparr>num_delayed_acks := n\<rparr> = s\<lparr>num_delayed_acks := n, delayed_ack_timer_id := delayed_ack_timer_id s\<rparr>"
      by (cases s) simp
    show ?thesis
    proof (cases "delayed_ack_timer_id s = -1")
      case True
      then show ?thesis
        using assms(3,6) add False k timer stays_add_timer [OF assms(1)] by (auto simp: schedule_ack_def Let_def)
    next
      case False
      with assms(3,6) add k have run: "schedule_ack r g s w = Some (s\<lparr>num_delayed_acks := n\<rparr>, w)"
        by (auto simp: schedule_ack_def Let_def not_le)
      show ?thesis
        unfolding run returns_Some prod.case by (intro exI conjI, rule k, rule same, rule stays_refl [OF assms(1)])
    qed
  qed
qed

text \<open>Every segment stops the response timer.\<close>

definition disarmed :: "TCPSocketState \<Rightarrow> TCPSocketState" where
  "disarmed s = s\<lparr>response_timer_id := -1\<rparr>"

definition stopped :: "TCPSocketState \<Rightarrow> 'a tcp_world_scheme \<Rightarrow> 'a tcp_world_scheme" where
  "stopped s w = (if response_timer_id s \<noteq> -1 then snd (cancel_timer (response_timer_id s) w) else w)"

lemma disarmed_fields [simp]:
  "state (disarmed s) = state s" "send_unacked (disarmed s) = send_unacked s" "send_next_seq (disarmed s) = send_next_seq s"
  "is_established (disarmed s) = is_established s" "remote_ip (disarmed s) = remote_ip s" "same_socket s (disarmed s)"
  "receive_queue (disarmed s) = receive_queue s" "reassembler (disarmed s) = reassembler s"
  "num_delayed_acks (disarmed s) = num_delayed_acks s" "receive_next_seq (disarmed s) = receive_next_seq s"
  by (simp_all add: disarmed_def is_established_def same_socket_def)

lemma stopped_stays: "net_ok w \<Longrightarrow> stays w [] (stopped s w)"
  by (simp add: stopped_def stays_cancel stays_refl)

lemma input_socket_eq:
  assumes "\<not> has_flag (seg_flags g) FLAG_RST"
  shows "tcp_input_socket r g 0 b s w = do {
    (s', w') \<leftarrow> (if \<not> is_empty b then handle_data r g b (disarmed s) (stopped s w) else Some (disarmed s, stopped s w));
    (s', w') \<leftarrow> (if has_flag (seg_flags g) FLAG_ACK \<and> is_established s' then handle_ack g s' w' else Some (s', w'));
    (s', w') \<leftarrow> handle_state r g s' w';
    Some (s', if \<not> is_empty b then w' else drop_buffer b w') }"
proof (cases "response_timer_id s = -1")
  case True
  then have "disarmed s = s" "stopped s w = w"
    by (simp_all add: disarmed_def stopped_def)
  then show ?thesis
    using assms True by (simp add: tcp_input_socket_def)
next
  case False
  then show ?thesis
    using assms by (simp add: tcp_input_socket_def disarmed_def stopped_def)
qed

text \<open>What happens around the reassembler when a segment with data arrives that acknowledges nothing new.\<close>

lemma segment_dispatched:
  assumes "net_ok w" and "socket_ok t" and "unat (clock_ms w) + 500 < 2 ^ 64" and "wf_buf b" and "contents b \<noteq> []"
    and "TCP_PORT_MAP w (src, seg_source_port g, seg_dest_port g) = Some q" and "get_socket q w = Some t"
    and "state t = Established" and "num_delayed_acks t < MAX_DELAYED_ACKS" and "seg_ack g = send_unacked t"
    and "\<not> has_flag (seg_flags g) FLAG_RST" and "\<not> has_flag (seg_flags g) FLAG_FIN"
    and data: "receive_data g b (disarmed t) (stopped t w) = Some (t1, stopped t w)"
    and t1: "state t1 = Established" "num_delayed_acks t1 = num_delayed_acks t" "same_socket t t1" "send_unacked t1 = send_unacked t"
  shows "returns (tcp_dispatch iss src g 0 b w) (\<lambda>w'. \<exists>t' frames. becomes w frames (TCP_PORT_MAP w) ((tcp_sockets w)[q := t']) w' \<and>
    state t' = Established \<and> reassembler t' = reassembler t1 \<and> receive_queue t' = receive_queue t1 \<and>
    num_delayed_acks t' < MAX_DELAYED_ACKS \<and> same_socket t t' \<and> send_unacked t' = send_unacked t)"
proof -
  note v = stopped_stays [OF assms(1), of t]
  have "returns (schedule_ack q g t1 (stopped t w)) (\<lambda>(s', w'). \<exists>k i frames. k < MAX_DELAYED_ACKS \<and>
    s' = t1\<lparr>num_delayed_acks := k, delayed_ack_timer_id := i\<rparr> \<and> stays (stopped t w) frames w')"
    using t1 v assms(2,3,9,12) by (intro schedule_ack_returns) (auto simp: becomes_def same_socket_def socket_ok_def)
  then obtain t2 x k i frames where x: "schedule_ack q g t1 (stopped t w) = Some (t2, x)" "stays (stopped t w) frames x"
    and t2: "t2 = t1\<lparr>num_delayed_acks := k, delayed_ack_timer_id := i\<rparr>" "k < MAX_DELAYED_ACKS"
    by (auto elim!: returnsE)
  define t3 where "t3 = (if has_flag (seg_flags g) FLAG_ACK then update_window g t2 else t2)"
  have "acknowledge g t2 x = Some (t2, x)"
    using assms(10) by (simp add: acknowledge_def t2 t1(4) seq_lt_def seq_gt_def)
  then have ack: "handle_ack g t2 x = Some (update_window g t2, x)"
    by (simp add: handle_ack_def)
  have t3: "state t3 = Established" "reassembler t3 = reassembler t1" "receive_queue t3 = receive_queue t1" "num_delayed_acks t3 = k"
      "same_socket t t3" "send_unacked t3 = send_unacked t"
    using t1 by (simp_all add: t3_def update_window_def t2 same_socket_def)
  have est: "is_established t2" "\<not> is_empty b"
    using t1(1) assms(4,5) by (simp_all add: is_established_def t2 is_empty_iff)
  have "handle_state q g t3 x = Some (t3, x)"
    using t3(1) assms(12) by (simp add: handle_state_def)
  then have "tcp_input_socket q g 0 b t w = Some (t3, x)"
    using assms(11) data x(1) ack est
    by (cases "has_flag (seg_flags g) FLAG_ACK") (simp_all add: input_socket_eq handle_data_def t3_def)
  moreover have "becomes w frames (TCP_PORT_MAP w) ((tcp_sockets w)[q := t3]) (put_socket q t3 x)"
    using becomes_put [OF becomes_stays [OF v x(2)], of q t3] by simp
  ultimately show ?thesis
    using assms(6,7) t2(2) t3 by (auto simp: tcp_dispatch_def)
qed

lemma data_dispatched:
  assumes "net_ok w" and "socket_ok t" and "unat (clock_ms w) + 500 < 2 ^ 64"
    and "wf_buf b" and "contents b \<noteq> []" and "length unread + length (contents b) \<le> USIZE_MAX"
    and "TCP_PORT_MAP w (src, seg_source_port g, seg_dest_port g) = Some q" and "get_socket q w = Some t"
    and "receiving t (seg_seq g) unread" and "seg_ack g = send_unacked t"
    and "\<not> has_flag (seg_flags g) FLAG_RST" and "\<not> has_flag (seg_flags g) FLAG_FIN"
  shows "returns (tcp_dispatch iss src g 0 b w) (\<lambda>w'. \<exists>t' frames. becomes w frames (TCP_PORT_MAP w) ((tcp_sockets w)[q := t']) w' \<and>
    receiving t' (seg_seq g + of_nat (length (contents b))) (unread @ contents b) \<and> same_socket t t' \<and> send_unacked t' = send_unacked t)"
proof -
  note rec = assms(9) [unfolded receiving_def]
  obtain rq where rq: "append_buffer b (receive_queue t) = Some rq" "contents rq = unread @ contents b"
    using append_buffer_Some [of "receive_queue t" b] assms(2,4,6) rec by (auto simp: socket_ok_def elim!: returnsE)
  define t1 where "t1 = (disarmed t)\<lparr>receive_next_seq := wrapping_max (receive_next_seq t) (seg_seq g + of_nat (buf_length b)),
    reassembler := \<lparr>next_sequence = seg_seq g + of_nat (buf_length b), out_of_order = []\<rparr>, receive_queue := rq\<rparr>"
  have "receive_data g b (disarmed t) (stopped t w) = Some (t1, stopped t w)"
    using rec rq(1) by (simp add: receive_data_def add_packet_next t1_def)
  moreover have "state t1 = Established" "num_delayed_acks t1 = num_delayed_acks t" "same_socket t t1" "send_unacked t1 = send_unacked t"
    using rec by (simp_all add: t1_def same_socket_def disarmed_def)
  ultimately have "returns (tcp_dispatch iss src g 0 b w) (\<lambda>w'. \<exists>t' frames. becomes w frames (TCP_PORT_MAP w) ((tcp_sockets w)[q := t']) w' \<and>
    state t' = Established \<and> reassembler t' = reassembler t1 \<and> receive_queue t' = receive_queue t1 \<and>
    num_delayed_acks t' < MAX_DELAYED_ACKS \<and> same_socket t t' \<and> send_unacked t' = send_unacked t)"
    using rec assms(7,8,10-12) by (intro segment_dispatched [OF assms(1-5)]) simp_all
  then show ?thesis
    using rq(2) length_contents [OF assms(4)] by (auto simp: receiving_def t1_def elim!: returns_conseq)
qed


section \<open>Reading\<close>

lemma tcp_read_returns:
  fixes dest :: bytes
  assumes "net_ok w" and "get_socket r w = Some s" and "socket_ok s" and "contents (receive_queue s) \<noteq> []"
  defines "n \<equiv> min (length dest) (length (contents (receive_queue s)))"
  shows "returns (tcp_read r dest w) (\<lambda>(res, w'). res = Ready (as_i32 n, take n (contents (receive_queue s)) @ drop n dest) \<and>
    (\<exists>q. wf_buf q \<and> contents q = drop n (contents (receive_queue s)) \<and>
      becomes w [] (TCP_PORT_MAP w) ((tcp_sockets w)[r := s\<lparr>receive_queue := q\<rparr>]) w'))"
proof -
  have wf: "wf_buf (receive_queue s)"
    using assms(3) by (simp add: socket_ok_def)
  then have ne: "\<not> is_empty (receive_queue s)"
    using assms(4) by (simp add: is_empty_iff)
  have copy: "copy_to_slice dest (receive_queue s) = Some (n, take n (contents (receive_queue s)) @ drop n dest)"
    using copy_to_slice_Some [OF wf, of dest] by (simp add: n_def Let_def)
  obtain q v where q: "trim_head n (receive_queue s) w = Some (q, v)" "wf_buf q" "contents q = drop n (contents (receive_queue s))"
      "pool_step w (nfrags (receive_queue s)) v (nfrags q)"
    using trim_head_returns [OF wf, of n w] by (auto simp: n_def elim!: returnsE)
  have "becomes w [] (TCP_PORT_MAP w) ((tcp_sockets w)[r := s\<lparr>receive_queue := q\<rparr>]) (put_socket r (s\<lparr>receive_queue := q\<rparr>) v)"
    by (rule becomes_put [OF stays_net [OF pool_net_step [OF q(4)] assms(1)]])
  with assms(2) ne copy q(1-3) show ?thesis
    by (auto simp: tcp_read_def)
qed

section \<open>The stream\<close>

text \<open>The receive thread takes one frame after the other.\<close>

fun receive_all :: "u32 \<Rightarrow> (bytes list \<Rightarrow> int \<times> bytes list) list \<Rightarrow> 'a tcp_world_scheme \<Rightarrow> 'a tcp_world_scheme option" where
  "receive_all iss [] w = Some w"
| "receive_all iss (readv # rs) w = do { w \<leftarrow> packet_receive readv iss w; receive_all iss rs w }"

lemma data_received:
  assumes "net_ok x" and "tcp_ok b" and "wf_ip (remote_ip s)" and "local_for b (remote_ip s) = remote_ip s"
    and "local_for x (remote_ip s) = src" and "TCP_PORT_MAP b (src, local_port s, remote_port s) = Some q"
    and "get_socket q b = Some t" and "receiving t (send_next_seq s) unread" and "ack_of s = Some (send_unacked t)"
    and "c \<noteq> []" and "length c \<le> 1900" and "length unread + length c \<le> USIZE_MAX" and "unat (clock_ms b) + 500 < 2 ^ 64"
    and "delivers readv (socket_frame x s (FLAG_ACK OR FLAG_PSH) c)"
  shows "returns (packet_receive readv iss b) (\<lambda>b'. tcp_ok b' \<and> (\<exists>t' frames.
    becomes b frames (TCP_PORT_MAP b) ((tcp_sockets b)[q := t']) b' \<and>
    receiving t' (send_next_seq s + of_nat (length c)) (unread @ c) \<and> same_socket t t' \<and> send_unacked t' = send_unacked t))"
proof -
  define g where "g = socket_segment s (FLAG_ACK OR FLAG_PSH)"
  have g: "seg_source_port g = local_port s" "seg_dest_port g = remote_port s" "seg_seq g = send_next_seq s" "seg_ack g = send_unacked t"
      "\<not> has_flag (seg_flags g) FLAG_RST" "\<not> has_flag (seg_flags g) FLAG_FIN" "sent_mss (FLAG_ACK OR FLAG_PSH) = 0"
    using assms(9) by (simp_all add: g_def socket_segment_fields has_flag_def FLAG_SYN_def FLAG_ACK_def FLAG_RST_def FLAG_FIN_def
        FLAG_PSH_def sent_mss_def)
  obtain p u where run: "packet_receive readv iss b = tcp_dispatch iss src g 0 p u"
    and p: "wf_buf p" "contents p = c" and u: "received b (nfrags p) u"
    using socket_frame_delivered [OF assms(1,3,2,4,14,11), of iss] by (auto simp: g(7) g_def assms(5))
  have ok: "net_ok b" "socket_ok t"
    using assms(2,7) by (auto simp: tcp_ok_def udp_ok_def get_socket_Some)
  note fields = received_fields [OF u]
  have src: "wf_ip src"
    using local_for_v4(2) [OF assms(1,3)] assms(5) by simp
  have get: "get_socket q u = Some t"
    using assms(7) by (simp add: get_socket_def fields)
  have "returns (tcp_dispatch iss src g 0 p u) (\<lambda>w'. \<exists>t' frames. becomes u frames (TCP_PORT_MAP u) ((tcp_sockets u)[q := t']) w' \<and>
    receiving t' (seg_seq g + of_nat (length (contents p))) (unread @ contents p) \<and> same_socket t t' \<and> send_unacked t' = send_unacked t)"
    by (rule data_dispatched [OF received_ok(1) [OF u ok(1)] ok(2) _ p(1) _ _ _ get _ g(4-6)])
      (use assms(6,8,10,12,13) in \<open>simp_all add: fields g p\<close>)
  then obtain b' t' frames where b': "packet_receive readv iss b = Some b'" "becomes u frames (TCP_PORT_MAP u) ((tcp_sockets u)[q := t']) b'"
      "receiving t' (send_next_seq s + of_nat (length c)) (unread @ c)" "same_socket t t'" "send_unacked t' = send_unacked t"
    unfolding run by (auto simp: g(3) p(2) elim!: returnsE)
  have "tcp_ok b'"
    using b'(1) run dispatched_ok [OF _ u assms(2) p(1) src] by simp
  moreover have "becomes b frames (TCP_PORT_MAP b) ((tcp_sockets b)[q := t']) b'"
    using b'(2) by (simp add: becomes_def fields)
  ultimately show ?thesis
    unfolding b'(1) returns_Some using b'(3-5) by blast
qed

lemma stream_received:
  fixes a :: "'a net_world_scheme"
  assumes "stream_frames a s cs frames" and "list_all2 delivers rs frames" and "tcp_ok b" and "wf_ip (remote_ip s)"
    and "local_for b (remote_ip s) = remote_ip s" and "TCP_PORT_MAP b (local_for a (remote_ip s), local_port s, remote_port s) = Some q"
    and "get_socket q b = Some t" and "receiving t (send_next_seq s) unread" and "ack_of s = Some (send_unacked t)"
    and "send_mss s \<le> 1900" and "length unread + length (concat cs) \<le> USIZE_MAX" and "unat (clock_ms b) + 500 < 2 ^ 64"
  shows "returns (receive_all iss rs b) (\<lambda>b'. tcp_ok b' \<and> (\<exists>t' xs.
    becomes b xs (TCP_PORT_MAP b) ((tcp_sockets b)[q := t']) b' \<and>
    receiving t' (send_next_seq s + of_nat (length (concat cs))) (unread @ concat cs) \<and> same_socket t t' \<and> send_unacked t' = send_unacked t))"
  using assms
proof (induction cs arbitrary: s frames rs b t unread)
  case Nil
  then have "stays b [] b" "(tcp_sockets b)[q := t] = tcp_sockets b"
    by (simp_all add: stays_refl tcp_ok_def udp_ok_def get_socket_Some)
  then have "becomes b [] (TCP_PORT_MAP b) ((tcp_sockets b)[q := t]) b"
    by simp
  with Nil show ?case
    by (auto intro: same_socket_refl)
next
  case (Cons c cs)
  obtain x frames' where x: "net_ok (x :: 'a net_world_scheme)" "LOCAL_IPV4 x = LOCAL_IPV4 a" "LOCAL_IPV6 x = LOCAL_IPV6 a"
      "frames = socket_frame x s (FLAG_ACK OR FLAG_PSH) c # frames'" "0 < length c" "length c \<le> send_mss s"
      "stream_frames a (s\<lparr>send_next_seq := send_next_seq s + of_nat (length c)\<rparr>) cs frames'"
    using Cons.prems(1) by auto
  obtain readv rs' where rs: "rs = readv # rs'" "delivers readv (socket_frame x s (FLAG_ACK OR FLAG_PSH) c)" "list_all2 delivers rs' frames'"
    using Cons.prems(2) x(4) by (auto simp: list_all2_Cons2)
  have src: "local_for x (remote_ip s) = local_for a (remote_ip s)"
    using x(2,3) by (rule local_for_cong) simp
  have bounds: "c \<noteq> []" "length c \<le> 1900" "length unread + length c \<le> USIZE_MAX"
    using x(5,6) Cons.prems(10,11) by auto
  obtain b1 t1 ys where b1: "packet_receive readv iss b = Some b1" "tcp_ok b1" "becomes b ys (TCP_PORT_MAP b) ((tcp_sockets b)[q := t1]) b1"
      "receiving t1 (send_next_seq s + of_nat (length c)) (unread @ c)" "same_socket t t1" "send_unacked t1 = send_unacked t"
    using data_received [OF x(1) Cons.prems(3-5) src Cons.prems(6-9) bounds Cons.prems(12) rs(2), of iss]
    by (elim returnsE) blast
  define s1 where "s1 = s\<lparr>send_next_seq := send_next_seq s + of_nat (length c)\<rparr>"
  have q: "q < length (tcp_sockets b)"
    using Cons.prems(7) by (simp add: get_socket_Some)
  have "returns (receive_all iss rs' b1) (\<lambda>b'. tcp_ok b' \<and> (\<exists>t' xs.
      becomes b1 xs (TCP_PORT_MAP b1) ((tcp_sockets b1)[q := t']) b' \<and>
      receiving t' (send_next_seq s1 + of_nat (length (concat cs))) ((unread @ c) @ concat cs) \<and> same_socket t1 t' \<and>
      send_unacked t' = send_unacked t1))"
  proof (rule Cons.IH)
    show "local_for b1 (remote_ip s1) = remote_ip s1"
      using b1(3) Cons.prems(5) local_for_cong [of b1 b "remote_ip s" "remote_ip s"] by (simp add: becomes_def s1_def)
    show "ack_of s1 = Some (send_unacked t1)"
      using Cons.prems(9) by (simp add: b1(6) s1_def ack_of_def)
  qed (use x(7) rs(3) b1 Cons.prems q in \<open>simp_all add: s1_def becomes_def get_socket_Some\<close>)
  then obtain b2 t2 zs where b2: "receive_all iss rs' b1 = Some b2" "tcp_ok b2" "becomes b1 zs (TCP_PORT_MAP b1) ((tcp_sockets b1)[q := t2]) b2"
      "receiving t2 (send_next_seq s1 + of_nat (length (concat cs))) ((unread @ c) @ concat cs)" "same_socket t1 t2" "send_unacked t2 = send_unacked t1"
    by (elim returnsE) blast
  have "becomes b (ys @ zs) (TCP_PORT_MAP b) ((tcp_sockets b)[q := t2]) b2"
    using b1(3) b2(3) by (simp add: becomes_def)
  moreover have "receiving t2 (send_next_seq s + of_nat (length (concat (c # cs)))) (unread @ concat (c # cs))" "same_socket t t2"
      "send_unacked t2 = send_unacked t"
    using b2(4-6) b1(5,6) by (simp_all add: s1_def algebra_simps same_socket_def)
  moreover have "receive_all iss rs b = Some b2"
    using b1(1) b2(1) by (simp add: rs(1))
  ultimately show ?case
    using b2(2) by (auto simp del: concat.simps)
qed


text \<open>With a maximum segment size of 0 the loop sends empty segments and stays where it is.\<close>

lemma write_nothing:
  "whenever (write_segment r [] s w) (\<lambda>(s', w'). send_mss s' = send_mss s \<and> send_next_seq s' = send_next_seq s \<and>
     send_unacked s' = send_unacked s \<and> send_window s' = send_window s)"
  unfolding write_segment_def Let_def case_prod_unfold
  by (rule whenever_bindI [where Q = "\<lambda>_. True"], simp add: whenever_def)+
    (simp add: whenever_bind, intro conjI impI wheneverI, simp_all)

lemma write_loop_stuck:
  assumes "tcp_write_loop r bs offset s w = Some y"
  shows "send_mss s \<noteq> 0 \<or> length bs \<le> offset \<or> window_closed s 0"
proof (rule tcp_write_loop.raw_induct [OF _ assms])
  fix loop :: "nat \<Rightarrow> bytes \<Rightarrow> nat \<Rightarrow> TCPSocketState \<Rightarrow> 'a tcp_world_scheme \<Rightarrow> (write_result \<times> TCPSocketState \<times> 'a tcp_world_scheme) option"
    and r bs offset s and w :: "'a tcp_world_scheme" and y
  assume IH: "\<And>r bs offset s w y. loop r bs offset s w = Some y \<Longrightarrow> send_mss s \<noteq> 0 \<or> length bs \<le> offset \<or> window_closed s 0"
    and run: "(if offset < length bs then
        if window_closed s (min (length bs - offset) (send_mss s)) then Some (Write_blocked offset, s, w)
        else do {
          packet_slice \<leftarrow> subslice offset (offset + min (length bs - offset) (send_mss s)) bs;
          (s', w) \<leftarrow> write_segment r packet_slice s w;
          loop r bs (offset + min (length bs - offset) (send_mss s)) s' w
        }
      else do { assert_that (offset = length bs); Some (Write_done (as_i32 (length bs)), s, w) }) = Some y"
  show "send_mss s \<noteq> 0 \<or> length bs \<le> offset \<or> window_closed s 0"
  proof (rule ccontr)
    assume stuck: "\<not> (send_mss s \<noteq> 0 \<or> length bs \<le> offset \<or> window_closed s 0)"
    with run obtain s' w' where "write_segment r [] s w = Some (s', w')" and again: "loop r bs offset s' w' = Some y"
      by (auto simp: bind_eq_Some_conv)
    from wheneverD [OF write_nothing this(1)] IH [OF again] stuck show False
      by (simp add: window_closed_def)
  qed
qed

text \<open>Writing on an established connection, and what the peer has when the frames have arrived.\<close>

lemma established_write:
  assumes "tcp_ok a" and "tcp_ok b" and "get_socket r a = Some s" and "get_socket q b = Some t"
    and "local_for b (remote_ip s) = remote_ip s"
    and "TCP_PORT_MAP b (local_for a (remote_ip s), local_port s, remote_port s) = Some q"
    and "state s = Established" and "state t = Established"
    and "reassembler t = \<lparr>next_sequence = send_next_seq s, out_of_order = []\<rparr>" and "send_unacked t = next_sequence (reassembler s)"
    and "num_delayed_acks t < MAX_DELAYED_ACKS" and "0 < send_mss s" and "send_mss s \<le> 1900"
    and "unat (send_next_seq s - send_unacked s) + length bs \<le> unat (send_window s)" and "send_window s \<le> 0xffff"
    and "length (contents (retransmit_queue s)) \<le> 2 ^ 32" and "length (contents (receive_queue t)) \<le> 2 ^ 32"
    and "unat (clock_ms a) + 1000 < 2 ^ 64" and "unat (clock_ms b) + 500 < 2 ^ 64"
  shows "\<exists>s' a' frames. tcp_write r bs a = Some (Write_done (as_i32 (length bs)), a') \<and> wrote s bs s' \<and>
    becomes a frames (TCP_PORT_MAP a) ((tcp_sockets a)[r := s']) a' \<and>
    (\<forall>rs. list_all2 delivers rs frames \<longrightarrow> returns (receive_all iss rs b) (\<lambda>b'. tcp_ok b' \<and> (\<exists>t'. get_socket q b' = Some t' \<and>
       contents (receive_queue t') = contents (receive_queue t) @ bs)))"
proof -
  have net: "net_ok a" "socket_ok s" "q < length (tcp_sockets b)"
    using assms(1-4) by (auto simp: tcp_ok_def udp_ok_def get_socket_Some)
  have win: "unat (send_window s) \<le> 0xffff"
    using assms(15) by (simp add: word_le_nat_alt)
  then have small: "length bs \<le> 0xffff" "unat (send_window s) < 2 ^ 31"
    using assms(14) by simp_all
  have ack: "ack_of s = Some (send_unacked t)"
    using assms(7,10) by (simp add: ack_of_cases get_next_expect_def)
  have room: "length (contents (retransmit_queue s)) + (length bs - 0) \<le> USIZE_MAX"
    using assms(16) small(1) by (simp add: USIZE_MAX_def)
  have "returns (tcp_write_loop r bs 0 s a) (\<lambda>(res, s', w'). res = Write_done (as_i32 (length bs)) \<and>
      wrote s (drop 0 bs) s' \<and> (\<exists>cs frames. concat cs = drop 0 bs \<and> stays a frames w' \<and> stream_frames a s cs frames))"
    using ack assms(12-14) small(2)
    by (intro write_loop_returns [OF net(1,2) _ _ _ assms(18) _ room]) (simp_all add: MAX_PAYLOAD_eq)
  then obtain s' w' cs frames where w': "tcp_write_loop r bs 0 s a = Some (Write_done (as_i32 (length bs)), s', w')" "wrote s bs s'"
      "concat cs = bs" "stays a frames w'" "stream_frames a s cs frames"
    by (auto elim!: returnsE)
  have written: "tcp_write r bs a = Some (Write_done (as_i32 (length bs)), put_socket r s' w')"
    using assms(3,7) w'(1) by (simp add: tcp_write_def)
  have "receiving t (send_next_seq s) (contents (receive_queue t))"
    using assms(8,9,11) by (simp add: receiving_def)
  note rec = stream_received [OF w'(5) _ assms(2) _ assms(5,6,4) this ack assms(13) _ assms(19)]
  have "returns (receive_all iss rs b) (\<lambda>b'. tcp_ok b' \<and> (\<exists>t'. get_socket q b' = Some t' \<and>
      contents (receive_queue t') = contents (receive_queue t) @ bs))"
    if "list_all2 delivers rs frames" for rs
  proof (rule returns_conseq [OF rec [OF that]], goal_cases)
    case (3 b')
    then show ?case
      using net(3) by (auto simp: becomes_def get_socket_Some receiving_def w'(3))
  qed (use net(2) assms(17) small(1) in \<open>simp_all add: socket_ok_def w'(3) USIZE_MAX_def\<close>)
  then show ?thesis
    using written w'(2) becomes_put [OF w'(4), of r s'] by blast
qed

section \<open>Properties\<close>

text \<open>
  C1: Data written on one end of a connection is read on the other. A writer whose data fits into the
  window of its peer cuts it into segments of at most the maximum segment size, sends them all, keeps a
  copy of the data in its retransmission queue and returns the length. If the frames are delivered in
  their order, the octets end up in the receive queue of the connected socket, in order and none lost or
  repeated, and \<open>tcp_read\<close> there returns the first of them.
\<close>

theorem tcp_stream_transfer:
  fixes dest :: bytes
  assumes "tcp_ok a" and "tcp_ok b" and "get_socket r a = Some s" and "get_socket q b = Some t"
    and "local_for b (remote_ip s) = remote_ip s"
    and "TCP_PORT_MAP b (local_for a (remote_ip s), local_port s, remote_port s) = Some q"
    and "state s = Established" and "state t = Established"
    and "reassembler t = \<lparr>next_sequence = send_next_seq s, out_of_order = []\<rparr>" and "send_unacked t = next_sequence (reassembler s)"
    and "num_delayed_acks t < MAX_DELAYED_ACKS" and "0 < send_mss s" and "send_mss s \<le> 1900"
    and "unat (send_next_seq s - send_unacked s) + length bs \<le> unat (send_window s)" and "send_window s \<le> 0xffff"
    and "length (contents (retransmit_queue s)) \<le> 2 ^ 32" and "length (contents (receive_queue t)) \<le> 2 ^ 32"
    and "unat (clock_ms a) + 1000 < 2 ^ 64" and "unat (clock_ms b) + 500 < 2 ^ 64"
  shows "let stream = contents (receive_queue t) @ bs in
    returns (tcp_write r bs a) (\<lambda>(res, a'). res = Write_done (as_i32 (length bs)) \<and>
    contents (retransmit_queue (tcp_sockets a' ! r)) = contents (retransmit_queue s) @ bs \<and>
    (\<exists>frames. tun_out a' = tun_out a @ frames \<and>
      (\<forall>rs. list_all2 delivers rs frames \<longrightarrow> returns (receive_all iss rs b) (\<lambda>b'. tcp_ok b' \<and>
        contents (receive_queue (tcp_sockets b' ! q)) = stream \<and>
        (stream \<noteq> [] \<longrightarrow> (\<exists>b''. tcp_read q dest b' = Some (Ready (as_i32 (min (length dest) (length stream)),
            take (length dest) stream @ drop (length stream) dest), b'') \<and>
          contents (receive_queue (tcp_sockets b'' ! q)) = drop (length dest) stream))))))"
proof -
  define stream where "stream = contents (receive_queue t) @ bs"
  have live: "r < length (tcp_sockets a)"
    using assms(3) by (simp add: get_socket_Some)
  obtain s' a' frames where a': "tcp_write r bs a = Some (Write_done (as_i32 (length bs)), a')" "wrote s bs s'"
      "becomes a frames (TCP_PORT_MAP a) ((tcp_sockets a)[r := s']) a'"
      "\<forall>rs. list_all2 delivers rs frames \<longrightarrow> returns (receive_all iss rs b) (\<lambda>b'. tcp_ok b' \<and> (\<exists>t'. get_socket q b' = Some t' \<and>
        contents (receive_queue t') = stream))"
    using established_write [OF assms, of iss] by (auto simp: stream_def)
  have read: "\<exists>b''. tcp_read q dest b' = Some (Ready (as_i32 (min (length dest) (length stream)),
            take (length dest) stream @ drop (length stream) dest), b'') \<and>
          contents (receive_queue (tcp_sockets b'' ! q)) = drop (length dest) stream"
    if "tcp_ok b'" "get_socket q b' = Some t'" "contents (receive_queue t') = stream" "stream \<noteq> []" for b' :: "'b tcp_world_scheme" and t'
  proof -
    have "net_ok b'" "socket_ok t'" "q < length (tcp_sockets b')"
      using that(1,2) by (auto simp: tcp_ok_def udp_ok_def get_socket_Some)
    from tcp_read_returns [OF this(1) that(2) this(2), of dest] that(3,4) this(3) show ?thesis
      by (auto simp: becomes_def min_def elim!: returnsE)
  qed
  have "returns (receive_all iss rs b) (\<lambda>b'. tcp_ok b' \<and> contents (receive_queue (tcp_sockets b' ! q)) = stream \<and>
        (stream \<noteq> [] \<longrightarrow> (\<exists>b''. tcp_read q dest b' = Some (Ready (as_i32 (min (length dest) (length stream)),
            take (length dest) stream @ drop (length stream) dest), b'') \<and>
          contents (receive_queue (tcp_sockets b'' ! q)) = drop (length dest) stream)))"
    if "list_all2 delivers rs frames" for rs
    by (rule returns_conseq [OF a'(4) [rule_format, OF that]]) (use read in \<open>auto simp: get_socket_Some\<close>)
  then show ?thesis
    unfolding Let_def stream_def [symmetric] a'(1) returns_Some prod.case
    using live a'(3) wrote_fields(6) [OF a'(2)] by (auto simp: becomes_def)
qed


text \<open>The two ends of a connection for the witnesses: what the handshake leaves, with a small segment size.\<close>

definition active_end :: tcp_world where
  "active_end = client_world\<lparr>
     tcp_sockets := [(client_done 100 200 (V4 [10, 0, 0, 9]) (V4 [10, 0, 0, 2]) 80 49159)\<lparr>send_mss := 2\<rparr>],
     TCP_PORT_MAP := [(V4 [10, 0, 0, 2], 80, 49159) \<mapsto> 0], PENDING_TIMERS := []\<rparr>"

definition passive_end :: tcp_world where
  "passive_end = listening_world\<lparr>
     tcp_sockets := [server_done 100 200 (V4 [10, 0, 0, 9]) (V4 [10, 0, 0, 2]) 80 49159],
     TCP_PORT_MAP := [(V4 [10, 0, 0, 9], 49159, 80) \<mapsto> 0], PENDING_TIMERS := []\<rparr>"

lemma client_done_eq:
  "client_done iss iss' src dest dport p = (TCPSocketState_new iss dest dport p)\<lparr>state := Established,
     receive_next_seq := iss' + 1, reassembler := \<lparr>next_sequence = iss' + 1, out_of_order = []\<rparr>,
     send_unacked := iss + 1, send_next_seq := iss + 1, send_window := 0xffff,
     send_last_win_seq := iss', send_last_win_ack := iss + 1, send_mss := 1500\<rparr>"
  by (simp add: client_done_def established_active_def answer_fields TCPReassembler_new_def set_next_expect_def)

lemma server_done_eq:
  "\<exists>ack. server_done iss iss' src dest dport p = (TCPSocketState_new iss' src p dport)\<lparr>state := Established,
     receive_next_seq := iss + 1, reassembler := \<lparr>next_sequence = iss + 1, out_of_order = []\<rparr>,
     send_unacked := iss' + 1, send_next_seq := iss' + 1, send_window := 0xffff,
     send_last_win_seq := iss, send_last_win_ack := ack, send_mss := 1500\<rparr>"
  by (simp add: server_done_def established_passive_def queued_socket_def answering_socket_def opening_fields socket_defs)

lemma ends_ok: "tcp_ok active_end" "tcp_ok passive_end"
proof -
  show "tcp_ok active_end"
    using handshake_worlds(2)
    by (simp add: tcp_ok_def udp_ok_def net_ok_def pool_ok_def link_up_def active_end_def client_done_eq socket_ok_def socket_key_def
        TCPSocketState_new_def)
  obtain ack where "server_done 100 200 (V4 [10, 0, 0, 9]) (V4 [10, 0, 0, 2]) 80 49159 =
    (TCPSocketState_new 200 (V4 [10, 0, 0, 9]) 49159 80)\<lparr>state := Established,
     receive_next_seq := 100 + 1, reassembler := \<lparr>next_sequence = 100 + 1, out_of_order = []\<rparr>,
     send_unacked := 200 + 1, send_next_seq := 200 + 1, send_window := 0xffff,
     send_last_win_seq := 100, send_last_win_ack := ack, send_mss := 1500\<rparr>"
    using server_done_eq [of 100 200 "V4 [10, 0, 0, 9]" "V4 [10, 0, 0, 2]" 80 49159] by blast
  then show "tcp_ok passive_end"
    using handshake_worlds(1)
    by (simp add: tcp_ok_def udp_ok_def net_ok_def pool_ok_def link_up_def passive_end_def socket_ok_def socket_key_def
        TCPSocketState_new_def)
qed

theorem tcp_stream_transfer_witness:
  "\<exists>a' frames. tcp_write 0 [5, 6, 7, 8, 9] active_end = Some (Write_done 5, a') \<and> tun_out a' = frames \<and>
    (\<exists>b' b''. receive_all 0 (map scatter frames) passive_end = Some b' \<and>
      tcp_read 0 [1, 2, 3] b' = Some (Ready (3, [5, 6, 7]), b'') \<and>
      contents (receive_queue (tcp_sockets b'' ! 0)) = [8, 9])"
proof -
  define s where "s = (client_done 100 200 (V4 [10, 0, 0, 9]) (V4 [10, 0, 0, 2]) 80 49159)\<lparr>send_mss := 2\<rparr>"
  define t where "t = server_done 100 200 (V4 [10, 0, 0, 9]) (V4 [10, 0, 0, 2]) 80 49159"
  have s: "remote_ip s = V4 [10, 0, 0, 2]" "local_port s = 49159" "remote_port s = 80" "state s = Established" "send_next_seq s = 101"
      "send_unacked s = 101" "send_window s = 0xffff" "send_mss s = 2" "contents (retransmit_queue s) = []"
      "next_sequence (reassembler s) = 201"
    by (simp_all add: s_def client_done_eq TCPSocketState_new_def)
  have t: "state t = Established" "reassembler t = \<lparr>next_sequence = 101, out_of_order = []\<rparr>" "send_unacked t = 201"
      "contents (receive_queue t) = []" "num_delayed_acks t < MAX_DELAYED_ACKS"
    using server_done_eq [of 100 200 "V4 [10, 0, 0, 9]" "V4 [10, 0, 0, 2]" 80 49159]
    by (auto simp: t_def TCPSocketState_new_def MAX_DELAYED_ACKS_def)
  have w: "get_socket 0 active_end = Some s" "get_socket 0 passive_end = Some t" "clock_ms active_end = 1000" "clock_ms passive_end = 1000"
      "TCP_PORT_MAP passive_end (V4 [10, 0, 0, 9], 49159, 80) = Some 0" "local_for active_end (V4 [10, 0, 0, 2]) = V4 [10, 0, 0, 9]"
      "local_for passive_end (V4 [10, 0, 0, 2]) = V4 [10, 0, 0, 2]" "tun_out active_end = []"
    by (simp_all add: active_end_def passive_end_def s_def t_def get_socket_def client_world_def listening_world_fields local_for_def)
  have "let stream = contents (receive_queue t) @ [5, 6, 7, 8, 9] in
    returns (tcp_write 0 [5, 6, 7, 8, 9] active_end) (\<lambda>(res, a'). res = Write_done (as_i32 (length [5, 6, 7, 8, 9 :: u8])) \<and>
      contents (retransmit_queue (tcp_sockets a' ! 0)) = contents (retransmit_queue s) @ [5, 6, 7, 8, 9] \<and>
      (\<exists>frames. tun_out a' = tun_out active_end @ frames \<and>
        (\<forall>rs. list_all2 delivers rs frames \<longrightarrow> returns (receive_all 0 rs passive_end) (\<lambda>b'. tcp_ok b' \<and>
          contents (receive_queue (tcp_sockets b' ! 0)) = stream \<and>
          (stream \<noteq> [] \<longrightarrow> (\<exists>b''. tcp_read 0 [1, 2, 3] b' = Some (Ready (as_i32 (min (length [1, 2, 3 :: u8]) (length stream)),
              take (length [1, 2, 3 :: u8]) stream @ drop (length stream) [1, 2, 3]), b'') \<and>
            contents (receive_queue (tcp_sockets b'' ! 0)) = drop (length [1, 2, 3 :: u8]) stream))))))"
    by (intro tcp_stream_transfer [OF ends_ok w(1,2)]) (simp_all add: s t w)
  moreover have "as_i32 (Suc (Suc (Suc (Suc (Suc 0))))) = 5" "as_i32 (Suc (Suc (Suc 0))) = 3"
    by (simp_all add: as_i32_def)
  ultimately have "returns (tcp_write 0 [5, 6, 7, 8, 9] active_end) (\<lambda>(res, a'). res = Write_done 5 \<and>
      (\<exists>frames. tun_out a' = frames \<and>
        (\<forall>rs. list_all2 delivers rs frames \<longrightarrow> returns (receive_all 0 rs passive_end) (\<lambda>b'.
          (\<exists>b''. tcp_read 0 [1, 2, 3] b' = Some (Ready (3, [5, 6, 7]), b'') \<and>
            contents (receive_queue (tcp_sockets b'' ! 0)) = [8, 9])))))"
    by (simp add: t w(8) case_prod_unfold Let_def) (erule returns_conseq, auto elim!: returns_conseq)
  then obtain a' frames where a': "tcp_write 0 [5, 6, 7, 8, 9] active_end = Some (Write_done 5, a')" "tun_out a' = frames"
    and rest: "\<And>rs. list_all2 delivers rs frames \<Longrightarrow> returns (receive_all 0 rs passive_end) (\<lambda>b'.
          (\<exists>b''. tcp_read 0 [1, 2, 3] b' = Some (Ready (3, [5, 6, 7]), b'') \<and>
            contents (receive_queue (tcp_sockets b'' ! 0)) = [8, 9]))"
    by (auto elim!: returnsE)
  have "list_all2 delivers (map scatter frames) frames"
    by (simp add: list_all2_map1 delivers_scatter list.rel_refl)
  from rest [OF this] a' show ?thesis
    by (auto elim!: returnsE)
qed

text \<open>
  C13: \<open>tcp_read\<close> returns at most as many octets as fit, from the front of the receive queue, and takes
  exactly these out of it. It waits only while the connection is established and the queue is empty, and
  returns -1 in every other state with an empty queue, where it changes nothing.
\<close>

theorem tcp_read_correct:
  assumes "tcp_ok w" and "get_socket r w = Some s"
  shows "returns (tcp_read r dest w) (\<lambda>(res, w'). if contents (receive_queue s) = []
    then w' = w \<and> res = (if state s = Established then Blocked else Ready (-1, dest))
    else let n = min (length dest) (length (contents (receive_queue s))) in
      res = Ready (as_i32 n, take n (contents (receive_queue s)) @ drop n dest) \<and>
      (\<exists>q. contents q = drop n (contents (receive_queue s)) \<and> tcp_sockets w' = (tcp_sockets w)[r := s\<lparr>receive_queue := q\<rparr>]) \<and>
      TCP_PORT_MAP w' = TCP_PORT_MAP w \<and> tun_out w' = tun_out w \<and> tcp_ok w')"
proof (cases "contents (receive_queue s) = []")
  case True
  have "wf_buf (receive_queue s)"
    using assms by (auto simp: tcp_ok_def socket_ok_def get_socket_Some)
  with True have "is_empty (receive_queue s)"
    by (simp add: is_empty_iff)
  with True show ?thesis
    using assms(2) by (simp add: tcp_read_def)
next
  case False
  have "net_ok w" "socket_ok s"
    using assms by (auto simp: tcp_ok_def udp_ok_def get_socket_Some)
  moreover have "whenever (tcp_read r dest w) (\<lambda>(res, w'). tcp_ok w')"
    using tcp_read_keeps [of r dest w] tcp_keeps_ok [OF _ assms(1)] by (auto elim!: whenever_conseq)
  ultimately show ?thesis
    using tcp_read_returns [OF _ assms(2) _ False, of dest] False
    by (auto simp: becomes_def Let_def elim!: returnsE dest: wheneverD)
qed

theorem tcp_read_correct_witness:
  "tcp_read 0 [9] passive_end = Some (Blocked, passive_end)"
proof -
  obtain t where t: "get_socket 0 passive_end = Some t" "contents (receive_queue t) = []" "state t = Established"
    using done_synchronized(2) [of 100 200 "V4 [10, 0, 0, 9]" "V4 [10, 0, 0, 2]" 80 49159]
    by (auto simp: passive_end_def get_socket_def synchronized_def)
  from tcp_read_correct [OF ends_ok(2) t(1), of "[9]"] t(2,3) show ?thesis
    by (auto elim!: returnsE)
qed


lemma write_zero_mss:
  assumes "get_socket r w = Some s" and "state s \<noteq> Closed" and "send_mss s = 0" and "bs \<noteq> []"
    and "\<not> seq_gt (send_next_seq s) (send_unacked s + send_window s)"
  shows "tcp_write r bs w = None"
proof (cases "tcp_write_loop r bs 0 s w")
  case None
  with assms(1,2) show ?thesis
    by (simp add: tcp_write_def)
next
  case (Some y)
  from write_loop_stuck [OF this] assms(3-5) show ?thesis
    by (simp add: window_closed_def)
qed

lemma window_not_overrun: "\<not> seq_gt x (x + ucast (win :: u16))"
proof -
  define c :: u32 where "c = ucast win"
  have small: "unat c < 2 ^ 16"
    using unat_u16_less [of win] by (simp add: c_def unsigned_ucast_eq take_bit_nat_eq_self)
  have diff: "x - (x + c) = 0 - c"
    by simp
  have "2 ^ 32 - unat c = unat (0 - c)" if "c \<noteq> 0"
    using that by (simp add: unat_sub_if' unat_gt_0 del: diff_0)
  with small have "0x80000000 \<le> unat (0 - c)" if "c \<noteq> 0"
    using that by simp
  then show ?thesis
    unfolding seq_gt_def c_def [symmetric] diff Let_def by (auto simp: word_less_nat_alt not_less simp del: diff_0)
qed

text \<open>A peer that announces no maximum segment size opens a connection.\<close>

definition plain_segment :: "TCPSendParams \<Rightarrow> IPAddr \<Rightarrow> bool" where
  "plain_segment p d \<longleftrightarrow> valid_params p \<and> dest_ip p = d \<and> options p = []"

lemma plain_segment_delivered:
  assumes "plain_segment p d" and "net_ok v" and "tcp_ok w" and "local_for w d = d"
    and "delivers readv (ip_datagram v PROTO_TCP d (tcp_segment (local_for v d) p []))"
  shows "\<exists>b u. packet_receive readv iss w = tcp_dispatch iss (local_for v d) (segment_fields p) 0 b u \<and>
    wf_buf b \<and> contents b = [] \<and> received w (nfrags b) u"
proof -
  have p: "valid_params p" "dest_ip p = d" "parse_options (options p) = Some 0"
    using assms(1) parse_sent_options [of FLAG_ACK]
    by (auto simp: plain_segment_def send_options_def sent_mss_def has_flag_def FLAG_ACK_def FLAG_SYN_def)
  have "ip_header_len d + 20 + length (options p) + length ([] :: bytes) \<le> MRU"
    using assms(1) by (simp add: plain_segment_def ip_header_len_def IPV4_BASE_HEADER_LEN_def IPV6_HEADER_LEN_def MRU_def)
  then show ?thesis
    by (elim segment_delivered [OF assms(2) p(1,2) assms(3-5) _ p(3), of iss]) blast+
qed

lemma zero_mss_connection:
  assumes "net_ok v" and "net_ok v'" and "tcp_ok w" and "local_for w d = d" and "local_for v' d = local_for v d" and "wf_ip d"
    and "plain_segment p d" and "has_flag (flags p) FLAG_SYN"
    and "plain_segment p' d" and "source_port p' = source_port p" and "dest_port p' = dest_port p"
    and "has_flag (flags p') FLAG_ACK" and "\<not> has_flag (flags p') FLAG_RST" and "ack_num p' = iss + 1"
    and "TCP_PORT_MAP w (local_for v d, source_port p, dest_port p) = None"
    and "TCP_PORT_MAP w (IPAddr_new, 0, dest_port p) = Some l" and "get_socket l w = Some ls" and "state ls = Listen"
    and "unat (clock_ms w) + 3000 < 2 ^ 64"
    and "delivers readv (ip_datagram v PROTO_TCP d (tcp_segment (local_for v d) p []))"
    and "delivers readv' (ip_datagram v' PROTO_TCP d (tcp_segment (local_for v d) p' []))"
  shows "returns (packet_receive readv iss w) (\<lambda>w1. returns (packet_receive readv' iss' w1) (\<lambda>w2.
    get_socket (length (tcp_sockets w)) w2 = Some (established_passive iss (local_for v d) (segment_fields p) 0 (iss + 1))))"
proof -
  define src where "src = local_for v d"
  define r where "r = length (tcp_sockets w)"
  define g where "g = segment_fields p"
  define g' where "g' = segment_fields p'"
  have g: "seg_source_port g = source_port p" "seg_dest_port g = dest_port p" "seg_flags g = flags p"
      "seg_source_port g' = source_port p" "seg_dest_port g' = dest_port p" "seg_flags g' = flags p'" "seg_ack g' = iss + 1"
    using assms(10,11,14) by (simp_all add: g_def g'_def segment_fields_def)
  have net: "net_ok w" and src: "wf_ip src"
    using assms(3) local_for_v4(2) [OF assms(1,6)] by (simp_all add: tcp_ok_def udp_ok_def src_def)
  obtain b u where run: "packet_receive readv iss w = tcp_dispatch iss src g 0 b u" and b: "wf_buf b" "received w (nfrags b) u"
    using plain_segment_delivered [OF assms(7,1,3,4,20), of iss] by (auto simp: src_def g_def)
  note f = received_fields [OF b(2)]
  have "get_socket l u = Some ls"
    using assms(17) by (simp add: get_socket_def f)
  then obtain i w1 where w1: "tcp_dispatch iss src g 0 b u = Some w1"
    and step: "becomes u [socket_frame u (answering_socket iss src g 0) (FLAG_SYN OR FLAG_ACK) []]
      ((TCP_PORT_MAP u)((src, source_port p, dest_port p) \<mapsto> r))
      ((tcp_sockets u)[l := ls\<lparr>socket_queue := socket_queue ls @ [r]\<rparr>] @ [(queued_socket iss src g 0)\<lparr>response_timer_id := i\<rparr>]) w1"
    using syn_dispatched [OF received_ok(1) [OF b(2) net] src _ b(1), of g l ls iss 0] assms(8,15,16,18,19)
    by (auto simp: f g src_def [symmetric] r_def elim!: returnsE)
  have ok1: "tcp_ok w1"
    by (rule dispatched_ok [OF w1 b(2) assms(3) b(1) src]) simp
  have "local_for w1 d = d"
    using local_for_cong [of w1 w d d] step assms(4) by (simp add: becomes_def f)
  then obtain c x where run': "packet_receive readv' iss' w1 = tcp_dispatch iss' src g' 0 c x"
    and c: "wf_buf c" "contents c = []" "received w1 (nfrags c) x"
    using plain_segment_delivered [OF assms(9,2) ok1 _ assms(21) [folded assms(5)], of iss'] assms(5) by (auto simp: src_def g'_def)
  note f' = received_fields [OF c(3)]
  have get: "get_socket r x = Some ((queued_socket iss src g 0)\<lparr>response_timer_id := i\<rparr>)" "TCP_PORT_MAP x (src, source_port p, dest_port p) = Some r"
    using step by (simp_all add: becomes_def get_socket_Some f f' nth_append r_def)
  have "net_ok w1"
    using ok1 by (simp add: tcp_ok_def udp_ok_def)
  then obtain w2 where "tcp_dispatch iss' src g' 0 c x = Some w2"
      "becomes x [] (TCP_PORT_MAP x) ((tcp_sockets x)[r := established_passive iss src g 0 (iss + 1)]) w2"
    using ack_dispatched [OF received_ok(1) [OF c(3)] c(1,2), of src g' r i iss g 0 iss'] get assms(12,13)
    by (auto simp: g elim!: returnsE)
  then show ?thesis
    using get(1) unfolding run w1 run' returns_Some
    by (simp add: becomes_def get_socket_Some run' r_def src_def g_def)
qed

text \<open>
  C38: A peer that announces no maximum segment size takes the connection down. When a listener gets a SYN
  without the option and then the acknowledgement of its answer, the new connection is established with a
  maximum segment size of 0, and \<open>tcp_write\<close> of any data to it does not return: the loop sends empty segments
  and never advances.
\<close>

theorem tcp_write_zero_mss:
  fixes v v' :: "'b net_world_scheme" and w :: "'a tcp_world_scheme"
  assumes "net_ok v" and "net_ok v'" and "tcp_ok w" and "local_for w d = d" and "local_for v' d = local_for v d" and "wf_ip d"
    and "plain_segment p d" and "has_flag (flags p) FLAG_SYN"
    and "plain_segment p' d" and "source_port p' = source_port p" and "dest_port p' = dest_port p"
    and "has_flag (flags p') FLAG_ACK" and "\<not> has_flag (flags p') FLAG_RST" and "ack_num p' = iss + 1"
    and "TCP_PORT_MAP w (local_for v d, source_port p, dest_port p) = None"
    and "TCP_PORT_MAP w (IPAddr_new, 0, dest_port p) = Some l" and "get_socket l w = Some ls" and "state ls = Listen"
    and "unat (clock_ms w) + 3000 < 2 ^ 64"
    and "delivers readv (ip_datagram v PROTO_TCP d (tcp_segment (local_for v d) p []))"
    and "delivers readv' (ip_datagram v' PROTO_TCP d (tcp_segment (local_for v d) p' []))" and "bs \<noteq> []"
  shows "returns (packet_receive readv iss w) (\<lambda>w1. returns (packet_receive readv' iss' w1) (\<lambda>w2.
    state (tcp_sockets w2 ! length (tcp_sockets w)) = Established \<and> send_mss (tcp_sockets w2 ! length (tcp_sockets w)) = 0 \<and>
    tcp_write (length (tcp_sockets w)) bs w2 = None))"
proof -
  define s where "s = established_passive iss (local_for v d) (segment_fields p) 0 (iss + 1)"
  have s: "state s = Established" "send_mss s = 0" "send_next_seq s = iss + 1" "send_unacked s = iss + 1" "send_window s = ucast (window p)"
    by (simp_all add: s_def established_passive_def queued_socket_def answering_socket_def set_state_def TCPSocketState_new_def segment_fields_def)
  have "\<not> seq_gt (iss + 1) (iss + 1 + ucast (window p))"
    by (rule window_not_overrun)
  then have "tcp_write r bs w2 = None" if "get_socket r w2 = Some s" for r and w2 :: "'a tcp_world_scheme"
    using write_zero_mss [OF that _ s(2) assms(22)] s by simp
  then show ?thesis
    using zero_mss_connection [OF assms(1-21), of iss'] s(1,2)
    unfolding s_def [symmetric] by (auto simp: get_socket_Some elim!: returns_conseq)
qed

definition plain_params :: "u8 \<Rightarrow> u32 \<Rightarrow> u32 \<Rightarrow> TCPSendParams" where
  "plain_params fl seq ack = \<lparr>source_port = 49159, dest_ip = V4 [10, 0, 0, 2], dest_port = 80, seq_num = seq,
     ack_num = ack, flags = fl, window = 500, options = []\<rparr>"

theorem tcp_write_zero_mss_witness:
  "\<exists>w1 w2. packet_receive (scatter (ip_datagram client_world PROTO_TCP (V4 [10, 0, 0, 2])
       (tcp_segment (V4 [10, 0, 0, 9]) (plain_params FLAG_SYN 100 0) []))) 200 listening_world = Some w1 \<and>
     packet_receive (scatter (ip_datagram client_world PROTO_TCP (V4 [10, 0, 0, 2])
       (tcp_segment (V4 [10, 0, 0, 9]) (plain_params FLAG_ACK 101 201) []))) 0 w1 = Some w2 \<and>
     tcp_write 1 [1] w2 = None"
proof -
  have net: "net_ok client_world" and loc: "local_for client_world (V4 [10, 0, 0, 2]) = V4 [10, 0, 0, 9]"
    using handshake_worlds(2) by (simp_all add: tcp_ok_def udp_ok_def local_for_def client_world_def)
  obtain ls where ls: "get_socket 0 listening_world = Some ls" "state ls = Listen"
    by (simp add: get_socket_def listening_world_fields set_state_def)
  have plain: "plain_segment (plain_params fl seq ack) (V4 [10, 0, 0, 2])" "options (plain_params fl seq ack) = []"
      "flags (plain_params fl seq ack) = fl" "ack_num (plain_params fl seq ack) = ack"
      "source_port (plain_params fl seq ack) = 49159" "dest_port (plain_params fl seq ack) = 80" for fl seq ack
    by (simp_all add: plain_params_def plain_segment_def valid_params_def)
  have "length (tcp_sockets listening_world) = 1" "LOCAL_IPV4 client_world = V4 [10, 0, 0, 9]"
    by (simp_all add: listening_world_fields client_world_def)
  with tcp_write_zero_mss [OF net net handshake_worlds(1) _ _ _ plain(1) _ plain(1) _ _ _ _ _ _ _ ls _ delivers_scatter delivers_scatter,
      of FLAG_SYN 100 0 FLAG_ACK 101 201 200 "[1]" 0]
  show ?thesis
    by (auto simp: plain loc local_for_def listening_world_fields has_flag_def FLAG_SYN_def FLAG_ACK_def FLAG_RST_def IPAddr_new_def elim!: returnsE)
qed

end
