(* ===== verification/Printing.thy ===== *)
theory Printing
  imports Tcp_State
begin

text \<open>
  What the stack prints: addresses and sockets (\<open>Display\<close> of \<open>IPAddr\<close> and of \<open>TCPSocketState\<close>), packets
  (\<open>print_binary\<close>), counters
  (\<open>print_metrics\<close>) and the flags of a segment (\<open>flags_to_str\<close>). A function that prints is the text it
  prints, \<^term>\<open>None\<close> if it panics. \<open>read_ip\<close> reads addresses back and is no part of the sources.
\<close>

section \<open>Numbers\<close>

text \<open>The formats \<open>{}\<close> and \<open>{:02x}\<close> of the standard library.\<close>

fun decimal :: "nat \<Rightarrow> string" where
  "decimal n = (if n < 10 then [char_of (48 + n)] else decimal (n div 10) @ [char_of (48 + n mod 10)])"

declare decimal.simps [simp del]

definition hex_digit :: "nat \<Rightarrow> char" where
  "hex_digit n = char_of (if n < 10 then 48 + n else 87 + n)"

definition hex02 :: "u8 \<Rightarrow> string" where
  "hex02 b = [hex_digit (unat b div 16), hex_digit (unat b mod 16)]"

definition newline :: string where
  "newline = [CHR 0x0A]"

section \<open>Addresses\<close>

fun fmt_groups :: "nat \<Rightarrow> nat \<Rightarrow> bytes \<Rightarrow> string option" where
  "fmt_groups i 0 addr = Some ''''"
| "fmt_groups i (Suc n) addr = do {
     let sep = (if i \<noteq> 0 then '':'' else '''');
     g \<leftarrow> subslice (i * 2) (i * 2 + 2) addr;
     t \<leftarrow> (if g \<noteq> [0, 0] then do {
             a \<leftarrow> index addr (i * 2);
             b \<leftarrow> index addr (i * 2 + 1);
             Some (hex02 a @ hex02 b)
           } else Some '''');
     rest \<leftarrow> fmt_groups (i + 1) n addr;
     Some (sep @ t @ rest)
   }"

definition IPAddr_fmt :: "IPAddr \<Rightarrow> string option" where
  "IPAddr_fmt ip =
     (case ip of
        V4 addr \<Rightarrow> do {
          a0 \<leftarrow> index addr 0;
          a1 \<leftarrow> index addr 1;
          a2 \<leftarrow> index addr 2;
          a3 \<leftarrow> index addr 3;
          Some (decimal (unat a0) @ ''.'' @ decimal (unat a1) @ ''.'' @ decimal (unat a2) @ ''.'' @ decimal (unat a3))
        }
      | V6 addr \<Rightarrow> fmt_groups 0 8 addr)"

definition IPAddr_default :: IPAddr where
  "IPAddr_default = IPAddr_new"

definition TCPSocketState_fmt :: "TCPSocketState \<Rightarrow> string option" where
  "TCPSocketState_fmt s = do {
     ip \<leftarrow> IPAddr_fmt (remote_ip s);
     Some (''localhost:'' @ decimal (unat (local_port s)) @ '' '' @ ip @ '':'' @ decimal (unat (remote_port s)))
   }"

section \<open>Packets, flags and counters\<close>

text \<open>The \<open>Default\<close> instances of a buffer and of a counter.\<close>

definition NetBuffer_default :: NetBuffer where
  "NetBuffer_default = NetBuffer_new"

definition PerfCounter_default :: u32 where
  "PerfCounter_default = PerfCounter_new"

fun print_bytes :: "nat \<Rightarrow> bytes \<Rightarrow> string" where
  "print_bytes i [] = ''''"
| "print_bytes i (b # bs) = hex02 b @ '' '' @ (if i mod 16 = 15 then newline else '''') @ print_bytes (i + 1) bs"

definition print_binary :: "bytes \<Rightarrow> string" where
  "print_binary buffer = print_bytes 0 buffer @ newline"

definition flags_to_str :: "u8 \<Rightarrow> string" where
  "flags_to_str fl =
     (let result = '''';
          result = (if has_flag fl FLAG_FIN then result @ ''F'' else result);
          result = (if has_flag fl FLAG_SYN then result @ ''S'' else result);
          result = (if has_flag fl FLAG_RST then result @ ''R'' else result);
          result = (if has_flag fl FLAG_PSH then result @ ''P'' else result);
          result = (if has_flag fl FLAG_ACK then result @ ''A'' else result)
      in result)"

definition PerfCounter_get :: "u32 \<Rightarrow> u32" where
  "PerfCounter_get c = c"

definition checked_sub :: "u32 \<Rightarrow> u32 \<Rightarrow> u32 option" where
  "checked_sub a b = (if b \<le> a then Some (a - b) else None)"

definition shown :: "string \<Rightarrow> u32 \<Rightarrow> string \<Rightarrow> string" where
  "shown label n unit = label @ decimal (unat n) @ unit @ newline"

definition print_metrics :: "Metrics \<Rightarrow> string option" where
  "print_metrics m = do {
     let counters =
       shown ''Packets received: '' (PerfCounter_get (packets_received m)) '''' @
       shown ''Packets sent: '' (PerfCounter_get (packets_sent m)) '''' @
       shown ''Packets retransmitted: '' (PerfCounter_get (packets_retransmitted m)) '''' @
       shown ''Buffers allocated: '' (PerfCounter_get (buffers_allocated m)) '''' @
       shown ''Buffers freed: '' (PerfCounter_get (buffers_freed m)) '''' @
       shown ''Buffers created: '' (PerfCounter_get (buffers_created m)) '''';
     current_buf_inuse \<leftarrow> checked_sub (PerfCounter_get (buffers_allocated m)) (PerfCounter_get (buffers_freed m));
     current_memory \<leftarrow> buffer_count_to_memory current_buf_inuse;
     total_buffer_memory \<leftarrow> buffer_count_to_memory (PerfCounter_get (buffers_created m));
     Some (counters @ shown ''Current buffer memory in use: '' (current_memory div 1024) ''k'' @
       shown ''Total buffer memory allocated: '' (total_buffer_memory div 1024) ''k'')
   }"

section \<open>Reading addresses back\<close>

fun split_at :: "char \<Rightarrow> string \<Rightarrow> string list" where
  "split_at c [] = [[]]"
| "split_at c (x # xs) =
     (if x = c then [] # split_at c xs
      else (case split_at c xs of [] \<Rightarrow> [[x]] | f # fs \<Rightarrow> (x # f) # fs))"

definition read_decimal :: "string \<Rightarrow> 'w::len word" where
  "read_decimal s = of_nat (fold (\<lambda>c n. 10 * n + (of_char c - 48)) s 0)"

definition read_digit :: "char \<Rightarrow> nat" where
  "read_digit c = (if of_char c < (58 :: nat) then of_char c - 48 else of_char c - 87)"

fun read_group :: "string \<Rightarrow> bytes" where
  "read_group [a, b, c, d] = [of_nat (16 * read_digit a + read_digit b), of_nat (16 * read_digit c + read_digit d)]"
| "read_group _ = [0, 0]"

definition read_ip :: "string \<Rightarrow> IPAddr" where
  "read_ip s = (if CHR ''.'' \<in> set s then V4 (map read_decimal (split_at CHR ''.'' s))
     else V6 (concat (map read_group (split_at CHR '':'' s))))"

definition read_socket :: "string \<Rightarrow> IPAddr \<times> u16 \<times> u16" where
  "read_socket s =
     (let t = drop 10 s;
          lport = takeWhile (\<lambda>c. c \<noteq> CHR '' '') t;
          peer = rev (tl (dropWhile (\<lambda>c. c \<noteq> CHR '' '') t));
          rport = rev (takeWhile (\<lambda>c. c \<noteq> CHR '':'') peer);
          ip = rev (tl (dropWhile (\<lambda>c. c \<noteq> CHR '':'') peer))
      in (read_ip ip, read_decimal rport, read_decimal lport))"

lemma split_at_field: "c \<notin> set s \<Longrightarrow> split_at c s = [s]"
  by (induction s) auto

lemma split_at_join: "c \<notin> set s \<Longrightarrow> split_at c (s @ c # t) = s # split_at c t"
  by (induction s) auto

lemma decimal_chars: "c \<in> set (decimal n) \<Longrightarrow> 48 \<le> (of_char c :: nat) \<and> (of_char c :: nat) \<le> 57"
proof (induction n rule: decimal.induct)
  case (1 n)
  have "n mod 10 < 10" by simp
  with 1 show ?case by (subst (asm) decimal.simps) (auto split: if_splits)
qed

lemma dot_decimal: "CHR ''.'' \<notin> set (decimal n)" "CHR '' '' \<notin> set (decimal n)" "CHR '':'' \<notin> set (decimal n)"
  using decimal_chars by fastforce+

lemma decimal_value: "fold (\<lambda>c k. 10 * k + (of_char c - 48)) (decimal n) 0 = n"
proof (induction n rule: decimal.induct)
  case (1 n)
  have "n mod 10 < 10" by simp
  with 1 show ?case by (subst decimal.simps) auto
qed

lemma read_decimal_decimal: "read_decimal (decimal n) = of_nat n"
  by (simp add: read_decimal_def decimal_value)

lemma hex_digit_of_char: "n < 16 \<Longrightarrow> (of_char (hex_digit n) :: nat) = (if n < 10 then 48 + n else 87 + n)"
  by (simp add: hex_digit_def)

lemma read_hex_digit: "n < 16 \<Longrightarrow> read_digit (hex_digit n) = n"
  by (simp add: read_digit_def hex_digit_of_char)

lemma hex_digit_neq: "n < 16 \<Longrightarrow> hex_digit n \<noteq> CHR ''.''" "n < 16 \<Longrightarrow> hex_digit n \<noteq> CHR '':''"
  using hex_digit_of_char [of n] by (auto split: if_splits)

text \<open>A group of two octets, as \<open>fmt\<close> writes it.\<close>

definition group_text :: "u8 \<Rightarrow> u8 \<Rightarrow> string" where
  "group_text a b = (if [a, b] \<noteq> [0, 0] then hex02 a @ hex02 b else [])"

lemma group_text:
  "read_group (group_text a b) = [a, b]" "CHR ''.'' \<notin> set (group_text a b)" "CHR '':'' \<notin> set (group_text a b)"
proof -
  have d: "unat x div 16 < 16" "unat x mod 16 < 16" for x :: u8
    using unat_u8_less [of x] by auto
  show "read_group (group_text a b) = [a, b]"
    by (simp add: group_text_def hex02_def read_hex_digit d)
  show "CHR ''.'' \<notin> set (group_text a b)" "CHR '':'' \<notin> set (group_text a b)"
    by (simp_all add: group_text_def hex02_def d hex_digit_neq hex_digit_neq [symmetric])
qed

lemma fmt_groups_step:
  assumes "2 * i + 1 < length addr"
  shows "fmt_groups i (Suc n) addr = do { rest \<leftarrow> fmt_groups (i + 1) n addr;
    Some ((if i \<noteq> 0 then '':'' else []) @ group_text (addr ! (2 * i)) (addr ! (2 * i + 1)) @ rest) }"
proof -
  have "take 2 (drop (i * 2) addr) = [addr ! (2 * i), addr ! (2 * i + 1)]"
    using assms by (simp add: take_Suc_conv_app_nth numeral_2_eq_2 hd_drop_conv_nth mult.commute)
  with assms show ?thesis
    by (simp add: group_text_def mult.commute)
qed

lemma IPAddr_fmt_v6:
  "IPAddr_fmt (V6 [a0, a1, a2, a3, a4, a5, a6, a7, a8, a9, a10, a11, a12, a13, a14, a15]) =
   Some (group_text a0 a1 @ '':'' @ group_text a2 a3 @ '':'' @ group_text a4 a5 @ '':'' @ group_text a6 a7 @ '':'' @
     group_text a8 a9 @ '':'' @ group_text a10 a11 @ '':'' @ group_text a12 a13 @ '':'' @ group_text a14 a15)"
  using fmt_groups_step by (simp add: IPAddr_fmt_def eval_nat_numeral del: fmt_groups.simps(2))

lemma IPAddr_fmt_returns: "wf_ip ip \<Longrightarrow> \<exists>s. IPAddr_fmt ip = Some s"
  by (cases ip) (auto simp: length_Suc_conv numeral_eq_Suc IPAddr_fmt_v6, simp add: IPAddr_fmt_def)

lemma read_IPAddr_fmt:
  assumes "wf_ip ip"
  shows "returns (IPAddr_fmt ip) (\<lambda>s. read_ip s = ip)"
proof (cases ip)
  case (V4 a)
  then obtain a0 a1 a2 a3 where "a = [a0, a1, a2, a3]"
    using assms by (auto simp: length_Suc_conv numeral_eq_Suc)
  then show ?thesis
    using V4 by (simp add: IPAddr_fmt_def read_ip_def split_at_join split_at_field dot_decimal read_decimal_decimal)
next
  case (V6 a)
  then obtain a0 a1 a2 a3 a4 a5 a6 a7 a8 a9 a10 a11 a12 a13 a14 a15
    where "a = [a0, a1, a2, a3, a4, a5, a6, a7, a8, a9, a10, a11, a12, a13, a14, a15]"
    using assms by (auto simp: length_Suc_conv numeral_eq_Suc)
  then show ?thesis
    using V6 by (simp add: IPAddr_fmt_v6 read_ip_def split_at_join split_at_field group_text)
qed

lemma field_upto:
  "c \<notin> set s \<Longrightarrow> takeWhile (\<lambda>x. x \<noteq> c) (s @ c # t) = s"
  "c \<notin> set s \<Longrightarrow> dropWhile (\<lambda>x. x \<noteq> c) (s @ c # t) = c # t"
  by (induction s) auto

lemma read_socket_fmt:
  assumes "IPAddr_fmt (remote_ip s) = Some t"
  shows "returns (TCPSocketState_fmt s) (\<lambda>u. read_socket u = (read_ip t, remote_port s, local_port s))"
  by (simp add: TCPSocketState_fmt_def assms read_socket_def Let_def field_upto dot_decimal read_decimal_decimal)

text \<open>
  C31: \<open>Display\<close> of an address and of a socket loses nothing: every address is read back from its text, and
  so are the address and the two ports of a socket. Two addresses, or two connections, with the same text are
  equal. (The text of an IPv6 address with zero groups is not one that RFC 4291 allows: every zero group is
  left out, not one run of them.)
\<close>

theorem display_round_trip:
  assumes "wf_ip ip" and "remote_ip s = ip"
  shows "returns (IPAddr_fmt ip) (\<lambda>t. read_ip t = ip) \<and>
    returns (TCPSocketState_fmt s) (\<lambda>t. read_socket t = (ip, remote_port s, local_port s))"
  using read_IPAddr_fmt [OF assms(1)] read_socket_fmt [of s] assms(2) by (auto elim!: returnsE)

theorem display_round_trip_witness:
  "returns (TCPSocketState_fmt (TCPSocketState_new 0 (V4 [10, 0, 0, 1]) 80 49152)) (\<lambda>t. read_socket t = (V4 [10, 0, 0, 1], 80, 49152))"
  using display_round_trip [of "V4 [10, 0, 0, 1]" "TCPSocketState_new 0 (V4 [10, 0, 0, 1]) 80 49152"]
  by (simp add: TCPSocketState_new_def)

text \<open>
  The counters are printed with plain subtraction. Once the counter of allocations has wrapped around
  and that of freed buffers has not, \<open>print_metrics\<close> panics, although only a few buffers are in use.
\<close>

lemma print_metrics_panics: "buffers_allocated m < buffers_freed m \<Longrightarrow> print_metrics m = None"
  by (simp add: print_metrics_def checked_sub_def PerfCounter_get_def not_le [symmetric])

lemma print_metrics_returns:
  assumes "buffers_freed m \<le> buffers_allocated m" and "buffers_allocated m - buffers_freed m = of_nat n"
    and "n * FRAGMENT_SIZE < 2 ^ 32" and "unat (buffers_created m) * FRAGMENT_SIZE < 2 ^ 32"
  shows "returns (print_metrics m) (\<lambda>s. \<exists>before after.
    s = before @ ''Current buffer memory in use: '' @ decimal (n * FRAGMENT_SIZE div 1024) @ ''k'' @ after)"
proof -
  have n: "unat (of_nat n :: u32) = n"
    using assms(3) by (simp add: unat_of_nat FRAGMENT_SIZE_def)
  have kb: "unat ((of_nat n * of_nat FRAGMENT_SIZE) div 1024 :: u32) = n * FRAGMENT_SIZE div 1024"
    using assms(3) n by (simp add: unat_div unat_word_ariths FRAGMENT_SIZE_def)
  define total_kb where "total_kb = (buffers_created m * of_nat FRAGMENT_SIZE) div 1024"
  have "\<exists>before. print_metrics m = Some (before @ shown ''Current buffer memory in use: '' ((of_nat n * of_nat FRAGMENT_SIZE) div 1024) ''k'' @
      shown ''Total buffer memory allocated: '' total_kb ''k'')"
    unfolding print_metrics_def checked_sub_def PerfCounter_get_def buffer_count_to_memory_def Let_def
    using assms n by (simp add: total_kb_def)
  then show ?thesis
    unfolding shown_def [of "''Current buffer memory in use: ''"] kb by (auto simp: returns_def)
qed

lemma flags_to_str_all: "flags_to_str (FLAG_FIN OR FLAG_SYN OR FLAG_RST OR FLAG_PSH OR FLAG_ACK) = ''FSRPA''"
  by code_simp

end
