(* ===== verification/Programs.thy ===== *)
theory Programs
  imports Tcp_Transfer Printing
begin

text \<open>
  The example programs of \<open>src/src/test_apps\<close>. A program is a state machine over the world of the stack
  that makes one call of the API per step and prints; where a call waits on a condition variable the
  program stays in its state. Between two steps the threads of the stack run. The pauses of a program
  have no effect of their own; arguments of a program and random numbers are arguments of its step.
\<close>

section \<open>Language and library\<close>

definition println :: "string \<Rightarrow> string" where
  "println s = s @ newline"

text \<open>\<open>i32 as usize\<close>, and the format \<open>{}\<close> of an \<open>i32\<close>.\<close>

definition as_usize :: "int \<Rightarrow> nat" where
  "as_usize n = nat (n mod 2 ^ 64)"

definition show_i32 :: "int \<Rightarrow> string" where
  "show_i32 n = (if n < 0 then ''-'' @ decimal (nat (- n)) else decimal (nat n))"

text \<open>\<open>std::str::from_utf8\<close> accepts the well-formed sequences of RFC 3629.\<close>

definition continuation :: "u8 \<Rightarrow> bool" where
  "continuation b \<longleftrightarrow> 0x80 \<le> b \<and> b \<le> 0xbf"

definition second_of_three :: "u8 \<Rightarrow> u8 \<Rightarrow> bool" where
  "second_of_three a b \<longleftrightarrow> continuation b \<and> (a = 0xe0 \<longrightarrow> 0xa0 \<le> b) \<and> (a = 0xed \<longrightarrow> b \<le> 0x9f)"

definition second_of_four :: "u8 \<Rightarrow> u8 \<Rightarrow> bool" where
  "second_of_four a b \<longleftrightarrow> continuation b \<and> (a = 0xf0 \<longrightarrow> 0x90 \<le> b) \<and> (a = 0xf4 \<longrightarrow> b \<le> 0x8f)"

fun valid_utf8 :: "bytes \<Rightarrow> bool" where
  "valid_utf8 [] = True"
| "valid_utf8 (a # bs) =
     (if a < 0x80 then valid_utf8 bs
      else if 0xc2 \<le> a \<and> a \<le> 0xdf then
        (case bs of b # rest \<Rightarrow> continuation b \<and> valid_utf8 rest | _ \<Rightarrow> False)
      else if 0xe0 \<le> a \<and> a \<le> 0xef then
        (case bs of b # c # rest \<Rightarrow> second_of_three a b \<and> continuation c \<and> valid_utf8 rest | _ \<Rightarrow> False)
      else if 0xf0 \<le> a \<and> a \<le> 0xf4 then
        (case bs of b # c # d # rest \<Rightarrow> second_of_four a b \<and> continuation c \<and> continuation d \<and> valid_utf8 rest
         | _ \<Rightarrow> False)
      else False)"

text \<open>Text is kept as the octets of its encoding; \<open>ascii\<close> is the encoding of a string literal.\<close>

definition ascii :: "string \<Rightarrow> bytes" where
  "ascii s = map of_char s"

definition shown_text :: "bytes \<Rightarrow> string" where
  "shown_text bs = map (\<lambda>b. char_of (unat b)) bs"

text \<open>\<open>[0; 1500]\<close>\<close>

definition new_data :: bytes where
  "new_data = replicate 1500 0"

definition crlf :: string where
  "crlf = [CHR 0x0D, CHR 0x0A]"

section \<open>The UDP echo server\<close>

datatype echo = Echo_open | Echo_receive nat | Echo_send nat IPAddr u16 bytes | Echo_report nat | Echo_stopped

fun echo_step :: "echo \<Rightarrow> 'a tcp_world_scheme \<Rightarrow> (echo \<times> string \<times> 'a tcp_world_scheme) option" where
  "echo_step Echo_open w =
     (case udp_open 8000 w of
        (Inl e, w) \<Rightarrow> Some (Echo_stopped, println (''Failed to open socket: '' @ e), w)
      | (Inr socket, w) \<Rightarrow> Some (Echo_receive socket, [], w))"
| "echo_step (Echo_receive socket) w = do {
     (res, w) \<leftarrow> udp_recv socket (new_data) w;
     (case res of
        Blocked \<Rightarrow> Some (Echo_receive socket, [], w)
      | Ready (got, dat, from_addr, from_port) \<Rightarrow> do {
          addr \<leftarrow> IPAddr_fmt from_addr;
          let msg = println (''Received UDP packet from '' @ addr @ '':'' @ decimal (unat from_port) @
            '' ('' @ show_i32 got @ '' bytes)'');
          s \<leftarrow> subslice 0 (as_usize got) dat;
          Some (Echo_send socket from_addr from_port s, msg @ print_binary s, w)
        })
   }"
| "echo_step (Echo_send socket dest p s) w = do {
     (res, w) \<leftarrow> udp_send socket dest p s w;
     (case res of
        Inl e \<Rightarrow> Some (Echo_stopped, println (''Failed to send packet: '' @ e), w)
      | Inr _ \<Rightarrow> Some (Echo_report socket, [], w))
   }"
| "echo_step (Echo_report socket) w = do {
     t \<leftarrow> print_metrics (METRICS w);
     Some (Echo_receive socket, t, w)
   }"
| "echo_step Echo_stopped w = Some (Echo_stopped, [], w)"

section \<open>The web server\<close>

definition WEB_PORT :: u16 where
  "WEB_PORT = 8080"

definition RESPONSE :: bytes where
  "RESPONSE = ascii (''HTTP/1.0 200 OK'' @ crlf @ ''Content-Type: text/html'' @ crlf @ crlf @
     ''<html><body><h1>Hello, world!</h1></body></html>'')"

text \<open>The first argument is the listening socket, the second the connection; \<open>Web_unmap\<close> is the second half of \<open>tcp_close\<close>.\<close>

datatype web = Web_listen | Web_accept nat | Web_read nat nat | Web_write nat nat | Web_write_on nat nat nat
  | Web_close nat nat | Web_unmap nat SocketKey | Web_stopped

fun web_step :: "u32 \<Rightarrow> web \<Rightarrow> 'a tcp_world_scheme \<Rightarrow> (web \<times> string \<times> 'a tcp_world_scheme) option" where
  "web_step iss Web_listen w = do {
     (res, w) \<leftarrow> tcp_listen iss WEB_PORT w;
     (case res of
        Inl e \<Rightarrow> Some (Web_stopped, println (''Failed to open socket: '' @ e), w)
      | Inr listen_sock \<Rightarrow> Some (Web_accept listen_sock, println (''Listening on port '' @ decimal (unat WEB_PORT)), w))
   }"
| "web_step iss (Web_accept listen_sock) w = do {
     (res, w) \<leftarrow> tcp_accept listen_sock w;
     (case res of
        Blocked \<Rightarrow> Some (Web_accept listen_sock, [], w)
      | Ready socket \<Rightarrow> Some (Web_read listen_sock socket, println ''Accepted connection'', w))
   }"
| "web_step iss (Web_read listen_sock socket) w = do {
     (res, w) \<leftarrow> tcp_read socket (new_data) w;
     (case res of
        Blocked \<Rightarrow> Some (Web_read listen_sock socket, [], w)
      | Ready (got, dat) \<Rightarrow>
          if got < 0 then Some (Web_accept listen_sock, println ''Connection closed'', w)
          else do {
            request \<leftarrow> subslice 0 (as_usize got) dat;
            if \<not> valid_utf8 request then Some (Web_accept listen_sock, println ''Failed to parse request'', w)
            else Some (Web_write listen_sock socket, println (''Received request: '' @ shown_text request), w)
          })
   }"
| "web_step iss (Web_write listen_sock socket) w = do {
     (res, w) \<leftarrow> tcp_write socket RESPONSE w;
     (case res of
        Write_blocked offset \<Rightarrow> Some (Web_write_on listen_sock socket offset, [], w)
      | Write_done _ \<Rightarrow> Some (Web_close listen_sock socket, [], w))
   }"
| "web_step iss (Web_write_on listen_sock socket offset) w = do {
     (res, w) \<leftarrow> tcp_write_resume socket RESPONSE offset w;
     (case res of
        Write_blocked offset \<Rightarrow> Some (Web_write_on listen_sock socket offset, [], w)
      | Write_done _ \<Rightarrow> Some (Web_close listen_sock socket, [], w))
   }"
| "web_step iss (Web_close listen_sock socket) w = do {
     (key, w) \<leftarrow> tcp_close_socket socket w;
     (case key of
        None \<Rightarrow> Some (Web_accept listen_sock, [], w)
      | Some key \<Rightarrow> Some (Web_unmap listen_sock key, [], w))
   }"
| "web_step iss (Web_unmap listen_sock key) w = Some (Web_accept listen_sock, [], tcp_unmap key w)"
| "web_step iss Web_stopped w = Some (Web_stopped, [], w)"

section \<open>The bulk transfer clients\<close>

definition peer_addr :: "string \<Rightarrow> string list \<Rightarrow> IPAddr option" where
  "peer_addr v6_flag args =
     (if length args > 1 \<and> args ! 1 = v6_flag
      then new_from [0xfe, 0x80, 0, 0, 0, 0, 0, 0, 0, 0, 0, 0, 0, 0, 0, 1]
      else new_from [10, 0, 0, 1])"

definition REQUEST_BYTES :: bytes where
  "REQUEST_BYTES = ascii (''GET / HTTP/1.0'' @ crlf @ crlf)"

datatype download = Down_insert | Down_connect nat | Down_wait nat | Down_write nat | Down_write_on nat nat
  | Down_read nat nat | Down_close nat | Down_unmap SocketKey | Down_report | Down_stopped

fun download_step :: "string list \<Rightarrow> u16 list \<Rightarrow> u32 \<Rightarrow> download \<Rightarrow> 'a tcp_world_scheme \<Rightarrow>
    (download \<times> string \<times> 'a tcp_world_scheme) option" where
  "download_step args draws iss Down_insert w = do {
     addr \<leftarrow> peer_addr ''v6'' args;
     (socket, w) \<leftarrow> tcp_open_insert draws iss addr 3000 w;
     Some (Down_connect socket, println ''Press key to connect'', w)
   }"
| "download_step args draws iss (Down_connect socket) w = do {
     w \<leftarrow> tcp_open_connect socket w;
     Some (Down_wait socket, [], w)
   }"
| "download_step args draws iss (Down_wait socket) w = do {
     res \<leftarrow> tcp_open_wait socket w;
     (case res of
        Blocked \<Rightarrow> Some (Down_wait socket, [], w)
      | Ready (Inl e) \<Rightarrow> Some (Down_stopped, println (''Failed to open socket: '' @ e), w)
      | Ready (Inr socket) \<Rightarrow> Some (Down_write socket, println ''Socket is open'', w))
   }"
| "download_step args draws iss (Down_write socket) w = do {
     (res, w) \<leftarrow> tcp_write socket REQUEST_BYTES w;
     (case res of
        Write_blocked offset \<Rightarrow> Some (Down_write_on socket offset, [], w)
      | Write_done _ \<Rightarrow> Some (Down_read socket 25, [], w))
   }"
| "download_step args draws iss (Down_write_on socket offset) w = do {
     (res, w) \<leftarrow> tcp_write_resume socket REQUEST_BYTES offset w;
     (case res of
        Write_blocked offset \<Rightarrow> Some (Down_write_on socket offset, [], w)
      | Write_done _ \<Rightarrow> Some (Down_read socket 25, [], w))
   }"
| "download_step args draws iss (Down_read socket 0) w = Some (Down_close socket, println ''Closing socket'', w)"
| "download_step args draws iss (Down_read socket (Suc n)) w = do {
     (res, w) \<leftarrow> tcp_read socket (new_data) w;
     (case res of
        Blocked \<Rightarrow> Some (Down_read socket (Suc n), [], w)
      | Ready (got, dat) \<Rightarrow>
          if got < 0 then Some (Down_close socket, println ''Connection closed'' @ println ''Closing socket'', w)
          else if got > 0 then do {
            s \<leftarrow> subslice 0 (as_usize got) dat;
            assert_that (valid_utf8 s);
            Some (Down_read socket n, shown_text s, w)
          } else Some (Down_read socket n, [], w))
   }"
| "download_step args draws iss (Down_close socket) w = do {
     (key, w) \<leftarrow> tcp_close_socket socket w;
     (case key of
        None \<Rightarrow> Some (Down_report, [], w)
      | Some key \<Rightarrow> Some (Down_unmap key, [], w))
   }"
| "download_step args draws iss (Down_unmap key) w = Some (Down_report, [], tcp_unmap key w)"
| "download_step args draws iss Down_report w = do {
     t \<leftarrow> print_metrics (METRICS w);
     Some (Down_stopped, t, w)
   }"
| "download_step args draws iss Down_stopped w = Some (Down_stopped, [], w)"

text \<open>The pattern that the upload sends.\<close>

definition chargen :: "nat \<Rightarrow> u8" where
  "chargen i =
     (let line_length = 74;
          pattern_length = 95;
          line_num = i div line_length;
          line_offset = i mod line_length;
          start_char = line_num mod pattern_length
      in if line_offset = line_length - 2 then 0x0d
         else if line_offset = line_length - 1 then 0x0a
         else of_nat ((start_char + line_offset) mod pattern_length + 32))"

definition UPLOAD_DATA :: bytes where
  "UPLOAD_DATA = map chargen [0..<0x100000]"

datatype upload = Up_insert | Up_connect nat | Up_wait nat | Up_write nat | Up_write_on nat nat
  | Up_close nat | Up_unmap SocketKey | Up_report | Up_stopped

fun upload_step :: "string list \<Rightarrow> u16 list \<Rightarrow> u32 \<Rightarrow> upload \<Rightarrow> 'a tcp_world_scheme \<Rightarrow>
    (upload \<times> string \<times> 'a tcp_world_scheme) option" where
  "upload_step args draws iss Up_insert w = do {
     addr \<leftarrow> peer_addr ''6v'' args;
     (socket, w) \<leftarrow> tcp_open_insert draws iss addr 3000 w;
     Some (Up_connect socket, println ''Press key to connect'', w)
   }"
| "upload_step args draws iss (Up_connect socket) w = do {
     w \<leftarrow> tcp_open_connect socket w;
     Some (Up_wait socket, [], w)
   }"
| "upload_step args draws iss (Up_wait socket) w = do {
     res \<leftarrow> tcp_open_wait socket w;
     (case res of
        Blocked \<Rightarrow> Some (Up_wait socket, [], w)
      | Ready (Inl e) \<Rightarrow> Some (Up_stopped, println (''Failed to open socket: '' @ e), w)
      | Ready (Inr socket) \<Rightarrow> Some (Up_write socket, println ''Socket is open'', w))
   }"
| "upload_step args draws iss (Up_write socket) w = do {
     (res, w) \<leftarrow> tcp_write socket UPLOAD_DATA w;
     (case res of
        Write_blocked offset \<Rightarrow> Some (Up_write_on socket offset, [], w)
      | Write_done _ \<Rightarrow> Some (Up_close socket, println ''Closing socket'', w))
   }"
| "upload_step args draws iss (Up_write_on socket offset) w = do {
     (res, w) \<leftarrow> tcp_write_resume socket UPLOAD_DATA offset w;
     (case res of
        Write_blocked offset \<Rightarrow> Some (Up_write_on socket offset, [], w)
      | Write_done _ \<Rightarrow> Some (Up_close socket, println ''Closing socket'', w))
   }"
| "upload_step args draws iss (Up_close socket) w = do {
     (key, w) \<leftarrow> tcp_close_socket socket w;
     (case key of
        None \<Rightarrow> Some (Up_report, [], w)
      | Some key \<Rightarrow> Some (Up_unmap key, [], w))
   }"
| "upload_step args draws iss (Up_unmap key) w = Some (Up_report, [], tcp_unmap key w)"
| "upload_step args draws iss Up_report w = do {
     t \<leftarrow> print_metrics (METRICS w);
     Some (Up_stopped, t, w)
   }"
| "upload_step args draws iss Up_stopped w = Some (Up_stopped, [], w)"

section \<open>The programs and the stack\<close>

datatype program = Echo echo | Web web | Download download | Upload upload

fun program_step :: "string list \<Rightarrow> u16 list \<Rightarrow> u32 \<Rightarrow> program \<Rightarrow> 'a tcp_world_scheme \<Rightarrow>
    (program \<times> string \<times> 'a tcp_world_scheme) option" where
  "program_step args draws iss (Echo p) w = do { (p, out, w) \<leftarrow> echo_step p w; Some (Echo p, out, w) }"
| "program_step args draws iss (Web p) w = do { (p, out, w) \<leftarrow> web_step iss p w; Some (Web p, out, w) }"
| "program_step args draws iss (Download p) w = do { (p, out, w) \<leftarrow> download_step args draws iss p w; Some (Download p, out, w) }"
| "program_step args draws iss (Upload p) w = do { (p, out, w) \<leftarrow> upload_step args draws iss p w; Some (Upload p, out, w) }"

text \<open>
  A program on the stack: \<open>init_netstack\<close>, then the steps of the program, the steps of the two threads of the
  stack and the ticks of the clock in any order. \<open>c\<close> is the closure that the timer thread is about to run,
  \<open>ks\<close> are the keys that it has yet to take out of the port map.
\<close>

fun background :: "event \<Rightarrow> bool" where
  "background (Receive _) \<longleftrightarrow> True"
| "background (Fire _) \<longleftrightarrow> True"
| "background (Run _) \<longleftrightarrow> True"
| "background (Clock _) \<longleftrightarrow> True"
| "background (Unmap _) \<longleftrightarrow> True"
| "background _ \<longleftrightarrow> False"

inductive runs :: "program \<Rightarrow> callback option \<Rightarrow> SocketKey list \<Rightarrow> program \<Rightarrow> unit tcp_world_scheme \<Rightarrow> bool" where
  runs_boot: "start \<in> {Echo Echo_open, Web Web_listen, Download Down_insert, Upload Up_insert} \<Longrightarrow>
    link_up (boot_world writev now) \<Longrightarrow> init_netstack (boot_world writev now) = Some w \<Longrightarrow> runs start None [] start w"
| runs_program: "runs start c ks p w \<Longrightarrow> program_step args draws iss p w = Some (p', out, w') \<Longrightarrow> runs start c ks p' w'"
| runs_thread: "runs start c ks p w \<Longrightarrow> background ev \<Longrightarrow> stack_step ev (c, ks, [], w) (c', ks', [], w') \<Longrightarrow> runs start c' ks' p w'"

text \<open>What a program owes to the stack: the keys it has yet to take out of the port map and the sockets it has yet to connect.\<close>

fun to_unmap :: "program \<Rightarrow> SocketKey list" where
  "to_unmap (Web (Web_unmap _ k)) = [k]"
| "to_unmap (Download (Down_unmap k)) = [k]"
| "to_unmap (Upload (Up_unmap k)) = [k]"
| "to_unmap _ = []"

fun to_connect :: "program \<Rightarrow> nat list" where
  "to_connect (Download (Down_connect r)) = [r]"
| "to_connect (Upload (Up_connect r)) = [r]"
| "to_connect _ = []"

fun fits :: "program \<Rightarrow> bool" where
  "fits (Echo (Echo_send _ _ _ s)) \<longleftrightarrow> length s \<le> 1500"
| "fits _ \<longleftrightarrow> True"

definition owes :: "callback option \<Rightarrow> SocketKey list \<Rightarrow> program \<Rightarrow> 'a tcp_world_scheme \<Rightarrow> 'a sys" where
  "owes c ks p w = (c, to_unmap p @ ks, to_connect p, w)"

definition calls :: "'a sys \<Rightarrow> 'a sys \<Rightarrow> bool" where
  "calls s s' \<longleftrightarrow> s' = s \<or> (\<exists>ev. stack_step ev s s')"

lemma calls_api:
  "calls s s"
  "udp_open port_num w = (res, w') \<Longrightarrow> calls (c, ks, os, w) (c, ks, os, w')"
  "udp_recv r dest w = Some (res_recv, w') \<Longrightarrow> calls (c, ks, os, w) (c, ks, os, w')"
  "wf_ip ip \<Longrightarrow> tcp_open_insert draws iss ip rport w = Some (r, w') \<Longrightarrow> calls (c, ks, os, w) (c, ks, r # os, w')"
  "tcp_open_connect r w = Some w' \<Longrightarrow> calls (c, ks, r # os, w) (c, ks, os, w')"
  "tcp_listen iss p w = Some (res_listen, w') \<Longrightarrow> calls (c, ks, os, w) (c, ks, os, w')"
  "tcp_accept r w = Some (res_accept, w') \<Longrightarrow> calls (c, ks, os, w) (c, ks, os, w')"
  "tcp_close_socket r w = Some (None, w') \<Longrightarrow> calls (c, ks, os, w) (c, ks, os, w')"
  "tcp_close_socket r w = Some (Some k, w') \<Longrightarrow> calls (c, ks, os, w) (c, k # ks, os, w')"
  "calls (c, k # ks, os, w) (c, ks, os, tcp_unmap k w)"
  "tcp_read r dest w = Some (res_read, w') \<Longrightarrow> calls (c, ks, os, w) (c, ks, os, w')"
  "tcp_write r bs w = Some (res_write, w') \<Longrightarrow> calls (c, ks, os, w) (c, ks, os, w')"
  "tcp_write_resume r bs offset w = Some (res_write, w') \<Longrightarrow> calls (c, ks, os, w) (c, ks, os, w')"
  unfolding calls_def
  using stack_step.open_connect_step [of r w w' c ks "[]" os] stack_step.unmap_step [of k c "[]" ks os w]
    stack_step.close_socket_step [of r w _ w' c ks os]
  by (auto intro: stack_step.intros)

text \<open>The address of a datagram that goes out has the length that its type says.\<close>

lemma slice_mut_inner: "slice_mut i j f h = Some h' \<Longrightarrow> \<exists>m m'. length m = j - i \<and> f m = Some m'"
  unfolding slice_mut_def subslice_def
  by (rule exI [of _ "take (j - i) (drop i h)"]) (auto simp: bind_eq_Some_conv split: if_splits)

lemma copy_to_length: "copy_to a m = Some m' \<Longrightarrow> length m = length (octets a)"
  by (cases a) (simp_all add: copy_to_def copy_from_slice_def split: if_splits)

lemma put_ipv4_header_wf: "put_ipv4_header n i proto s d h = Some h' \<Longrightarrow> length (octets d) = 4"
  unfolding put_ipv4_header_def by (auto simp: bind_eq_Some_conv dest!: slice_mut_inner [of 16] copy_to_length)

lemma put_ipv6_header_wf: "put_ipv6_header n proto s d h = Some h' \<Longrightarrow> length (octets d) = 16"
  unfolding put_ipv6_header_def by (auto simp: bind_eq_Some_conv dest!: slice_mut_inner [of 24] copy_to_length)

lemma header_mut_inner: "header_mut f b = Some b' \<Longrightarrow> \<exists>m m'. f m = Some m'"
  unfolding header_mut_def Let_def by (auto simp: bind_eq_Some_conv dest!: slice_mut_inner split: list.splits if_splits)

lemma ip_output_wf: "ip_output b proto dest w = Some w' \<Longrightarrow> wf_ip dest"
  by (cases dest)
    (auto simp: ip_output_def ip_output_v4_def ip_output_v6_def bind_eq_Some_conv Let_def
      dest!: header_mut_inner dest: put_ipv4_header_wf put_ipv6_header_wf)

lemma udp_send_wf: "udp_send r dest dp bs w = Some (res, w') \<Longrightarrow> wf_ip dest"
  by (auto simp: udp_send_def udp_output_def bind_eq_Some_conv Let_def dest: ip_output_wf)

lemma udp_send_call:
  "length bs \<le> 1500 \<Longrightarrow> udp_send r dest dp bs w = Some (res, w') \<Longrightarrow> calls (c, ks, os, w) (c, ks, os, w')"
  unfolding calls_def by (rule disjI2, rule exI [of _ "Udp_send r dest dp bs"], rule stack_step.udp_send_step) (auto dest: udp_send_wf)

lemma peer_addr_wf: "peer_addr v6_flag args = Some a \<Longrightarrow> wf_ip a"
  unfolding peer_addr_def by (auto split: if_splits dest: new_from_wf)

lemma udp_recv_short:
  assumes "udp_recv r dest w = Some (Ready (n, dat, a, p), w')"
  shows "\<exists>k \<le> length dest. n = as_i32 k"
proof -
  obtain s where s: "index (udp_sockets w) r = Some s"
    using assms by (auto simp: udp_recv_def bind_eq_Some_conv)
  show ?thesis
  proof (cases "UDPSocketState.receive_queue s")
    case Nil
    then show ?thesis
      using assms s by (simp add: udp_recv_def)
  next
    case (Cons e q)
    then have "n = as_i32 (min (buf_length (snd (snd e))) (length dest))"
      using assms s by (cases e) (auto simp: udp_recv_def bind_eq_Some_conv Let_def)
    then show ?thesis
      by (blast intro: min.cobounded2)
  qed
qed

lemma as_usize_as_i32: "k < 2 ^ 31 \<Longrightarrow> as_usize (as_i32 k) = k"
  by (simp add: as_usize_def as_i32_def signed_of_nat signed_take_bit_int_eq_self)

lemma length_new_data: "length new_data = 1500"
  unfolding new_data_def by (rule length_replicate)

lemma echo_calls:
  assumes "echo_step p w = Some (p', out, w')" and "fits (Echo p)"
  shows "fits (Echo p') \<and> calls (c, ks, [], w) (c, ks, [], w')"
proof (cases p)
  case (Echo_receive r)
  then obtain res v where v: "udp_recv r new_data w = Some (res, v)"
    using assms(1) by (auto simp: bind_eq_Some_conv)
  show ?thesis
  proof (cases res)
    case Blocked
    then show ?thesis
      using Echo_receive assms(1) v by (auto simp: calls_api)
  next
    case (Ready m)
    obtain n dat a q where m: "m = (n, dat, a, q)"
      by (cases m)
    then obtain k where k: "k \<le> 1500" "n = as_i32 k"
      using udp_recv_short [of r new_data w n dat a q v] v Ready by (auto simp: length_new_data)
    then have "as_usize n = k"
      by (simp add: as_usize_as_i32)
    with k show ?thesis
      using Echo_receive assms(1) v Ready m by (auto simp: bind_eq_Some_conv Let_def calls_api subslice_def split: if_split_asm)
  qed
next
  case (Echo_send r dest q s)
  then show ?thesis
    using assms by (clarsimp simp: bind_eq_Some_conv) (auto dest: udp_send_call split: sum.split_asm)
qed (use assms in \<open>auto simp: bind_eq_Some_conv calls_api split: prod.split_asm sum.split_asm\<close>)

lemma web_calls:
  assumes "web_step iss p w = Some (p', out, w')"
  shows "calls (owes c ks (Web p) w) (owes c ks (Web p') w')"
  using assms
  by (cases p; clarsimp simp: owes_def bind_eq_Some_conv calls_api)
    (auto simp: bind_eq_Some_conv calls_api split: sum.split_asm blocking.split_asm write_result.split_asm option.split_asm if_split_asm)

lemma download_calls:
  assumes "download_step args draws iss p w = Some (p', out, w')"
  shows "calls (owes c ks (Download p) w) (owes c ks (Download p') w')"
proof (cases "\<exists>r n. p = Down_read r (Suc n)")
  case True
  then show ?thesis
    using assms by (auto simp: owes_def bind_eq_Some_conv) (auto simp: bind_eq_Some_conv calls_api split: blocking.split_asm if_split_asm)
next
  case False
  show ?thesis
  proof (cases p)
    case (Down_read r n)
    then show ?thesis
      using False assms by (cases n) (auto simp: owes_def calls_api)
  qed (use assms in \<open>clarsimp simp: owes_def bind_eq_Some_conv calls_api;
      auto simp: calls_api intro: calls_api(4) dest: peer_addr_wf split: sum.split_asm blocking.split_asm write_result.split_asm option.split_asm if_split_asm\<close>)+
qed

lemma upload_calls:
  assumes "upload_step args draws iss p w = Some (p', out, w')"
  shows "calls (owes c ks (Upload p) w) (owes c ks (Upload p') w')"
  using assms
  by (cases p; clarsimp simp: owes_def bind_eq_Some_conv calls_api)
    (auto simp: calls_api intro: calls_api(4) dest: peer_addr_wf split: sum.split_asm blocking.split_asm write_result.split_asm option.split_asm if_split_asm)

lemma program_calls:
  assumes "program_step args draws iss p w = Some (p', out, w')" and "fits p"
  shows "fits p' \<and> calls (owes c ks p w) (owes c ks p' w')"
proof (cases p)
  case (Echo q)
  then obtain q' where "echo_step q w = Some (q', out, w')" "p' = Echo q'"
    using assms(1) by (auto simp: bind_eq_Some_conv)
  then show ?thesis
    using echo_calls assms(2) Echo by (simp add: owes_def)
qed (use assms in \<open>auto simp: bind_eq_Some_conv intro: web_calls download_calls upload_calls\<close>)

lemma background_frame:
  assumes "stack_step ev (c, ks, [], w) (c', ks', [], w')" and "background ev"
  shows "stack_step ev (c, js @ ks, os, w) (c', js @ ks', os, w')"
  using assms
proof (cases rule: stack_step.cases)
  case (time_wait_step r k us vs)
  then show ?thesis
    using stack_step.time_wait_step [of r w k w' "js @ us" vs os] by simp
next
  case (unmap_step k us vs)
  then show ?thesis
    using stack_step.unmap_step [of k c "js @ us" vs os w] by simp
qed (use assms(2) in \<open>auto intro: stack_step.intros\<close>)

lemma calls_reachable: "calls s s' \<Longrightarrow> reachable s \<Longrightarrow> reachable s'"
  by (auto simp: calls_def intro: reachable.step_step)

text \<open>The program is one of the clients that the invariants of the stack allow.\<close>

lemma runs_reachable: "runs start c ks p w \<Longrightarrow> fits p \<and> reachable (owes c ks p w)"
proof (induction rule: runs.induct)
  case (runs_boot start writev now w)
  then show ?case
    by (auto simp: owes_def intro: reachable.boot_step)
next
  case (runs_program start c ks p w args draws iss p' out w')
  then show ?case
    using program_calls calls_reachable by blast
next
  case (runs_thread start c ks p w ev c' ks' w')
  then show ?case
    unfolding owes_def by (blast intro: reachable.step_step background_frame)
qed

section \<open>Runs\<close>

primrec run_program :: "nat \<Rightarrow> ('p \<Rightarrow> 'w \<Rightarrow> ('p \<times> string \<times> 'w) option) \<Rightarrow> 'p \<Rightarrow> 'w \<Rightarrow> ('p \<times> string \<times> 'w) option" where
  "run_program 0 step p w = Some (p, [], w)"
| "run_program (Suc n) step p w = do {
     (p, out, w) \<leftarrow> step p w;
     (p, out', w) \<leftarrow> run_program n step p w;
     Some (p, out @ out', w)
   }"

lemma subslice_prefix: "n \<le> length bs \<Longrightarrow> subslice 0 n (take n bs @ zs) = Some (take n bs)"
  by (simp add: subslice_def)

text \<open>What the echo server does with one datagram.\<close>

lemma drop_buffer_net:
  fixes w :: "'a udp_world_scheme"
  shows "NEXT_PACKET_ID (drop_buffer b w) = NEXT_PACKET_ID w" "LOCAL_IPV4 (drop_buffer b w) = LOCAL_IPV4 w"
    "LOCAL_IPV6 (drop_buffer b w) = LOCAL_IPV6 w" "udp_sockets (drop_buffer b w) = udp_sockets w"
proof -
  have "NEXT_PACKET_ID (free_chain fs w) = NEXT_PACKET_ID w \<and> LOCAL_IPV4 (free_chain fs w) = LOCAL_IPV4 w \<and>
      LOCAL_IPV6 (free_chain fs w) = LOCAL_IPV6 w \<and> udp_sockets (free_chain fs w) = udp_sockets w" for fs and w :: "'a udp_world_scheme"
    by (induction fs w rule: free_chain.induct) (simp_all add: free_def)
  then show "NEXT_PACKET_ID (drop_buffer b w) = NEXT_PACKET_ID w" "LOCAL_IPV4 (drop_buffer b w) = LOCAL_IPV4 w"
    "LOCAL_IPV6 (drop_buffer b w) = LOCAL_IPV6 w" "udp_sockets (drop_buffer b w) = udp_sockets w"
    by (simp_all add: drop_buffer_def)
qed

lemma udp_recv_net:
  assumes "udp_recv r dest w = Some (res, w')"
  shows "NEXT_PACKET_ID w' = NEXT_PACKET_ID w \<and> LOCAL_IPV4 w' = LOCAL_IPV4 w \<and> LOCAL_IPV6 w' = LOCAL_IPV6 w \<and>
    port (udp_sockets w' ! r) = port (udp_sockets w ! r)"
proof -
  obtain s where s: "index (udp_sockets w) r = Some s"
    using assms by (auto simp: udp_recv_def bind_eq_Some_conv)
  then have "r < length (udp_sockets w)" "s = udp_sockets w ! r"
    by (auto simp: index_def split: if_split_asm)
  then show ?thesis
    using assms s by (cases "UDPSocketState.receive_queue s") (auto simp: udp_recv_def bind_eq_Some_conv Let_def drop_buffer_net)
qed

lemma echo_receives:
  fixes w :: "'a tcp_world_scheme" and p :: u16
  assumes "udp_ok w" and "r < length (udp_sockets w)" and "inbox r w = (a, p, body) # ms" and "wf_ip a"
  shows "returns (echo_step (Echo_receive r) w) (\<lambda>(q, out, v). q = Echo_send r a p (take 1500 body) \<and>
    inbox r v = ms \<and> udp_ok v \<and> tun_out v = tun_out w \<and> (\<forall>k. udp_balanced w k \<longrightarrow> udp_balanced v k) \<and>
    NEXT_PACKET_ID v = NEXT_PACKET_ID w \<and> udp_follows w v)"
proof -
  define n where "n = min (length body) 1500"
  obtain v dat where v: "udp_recv r new_data w = Some (Ready (as_i32 n, dat, a, p), v)" "dat = take n body @ drop n new_data"
      "udp_ok v" "inbox r v = ms" "tun_out v = tun_out w" "\<forall>k. udp_balanced w k \<longrightarrow> udp_balanced v k"
    using udp_recv_returns [OF assms(1-3), of new_data] unfolding length_new_data n_def [symmetric] by (auto elim!: returnsE)
  have "udp_follows w v"
    using wheneverD [OF udp_recv_follows [OF assms(1)] v(1)] by simp
  moreover obtain addr where addr: "IPAddr_fmt a = Some addr"
    using IPAddr_fmt_returns [OF assms(4)] by blast
  have "as_usize (as_i32 n) = n" "take n body = take 1500 body" "n \<le> length body"
    by (simp_all add: as_usize_as_i32 n_def min_def)
  then have "subslice 0 (as_usize (as_i32 n)) dat = Some (take 1500 body)"
    using subslice_prefix [of n body "drop n new_data"] by (simp add: v(2))
  ultimately show ?thesis
    using v(1,3-6) addr udp_recv_net [OF v(1)] by simp
qed

lemma echo_sends:
  fixes w :: "'a tcp_world_scheme" and p :: u16
  assumes "udp_ok w" and "r < length (udp_sockets w)" and "wf_ip a" and "length bs \<le> 1500"
  shows "returns (echo_step (Echo_send r a p bs) w) (\<lambda>(q, out, v). q = Echo_report r \<and> out = [] \<and>
    net_step w 0 [ip_datagram w PROTO_UDP a (udp_segment (local_for w a) a (port (udp_sockets w ! r)) p bs)] v 0)"
proof -
  have "length bs < 2 ^ 63" "length bs \<le> MAX_PAYLOAD"
    using assms(4) by (simp_all add: MAX_PAYLOAD_eq)
  then show ?thesis
    using udp_send_cases [OF assms(1-3), of bs p] by (auto simp: returns_bind elim!: returns_conseq)
qed

text \<open>
  C11: The echo server answers. When a datagram of at most 1500 octets is queued for its socket, the next two
  steps of the server take it and send one datagram back to the address and port that it came from, with
  the same octets; of a longer one it sends back the first 1500. Nothing else leaves the machine.
\<close>

theorem echo_answers:
  fixes w :: "'a tcp_world_scheme" and p :: u16
  assumes "udp_ok w" and "r < length (udp_sockets w)" and "inbox r w = (a, p, body) # ms" and "wf_ip a"
  shows "returns (run_program 2 echo_step (Echo_receive r) w) (\<lambda>(q, out, w'). q = Echo_report r \<and>
    inbox r w' = ms \<and> udp_ok w' \<and> (\<forall>k. udp_balanced w k \<longrightarrow> udp_balanced w' k) \<and>
    tun_out w' = tun_out w @ [ip_datagram w PROTO_UDP a (udp_segment (local_for w a) a (port (udp_sockets w ! r)) p (take 1500 body))])"
proof -
  obtain msg v where v: "echo_step (Echo_receive r) w = Some (Echo_send r a p (take 1500 body), msg, v)" "inbox r v = ms" "udp_ok v"
      "tun_out v = tun_out w" "\<forall>k. udp_balanced w k \<longrightarrow> udp_balanced v k" "NEXT_PACKET_ID v = NEXT_PACKET_ID w" "udp_follows w v"
    using echo_receives [OF assms] by (auto elim!: returnsE)
  have same: "ip_datagram v PROTO_UDP a xs = ip_datagram w PROTO_UDP a xs" "local_for v a = local_for w a" for xs
    using v(6,7) by (simp_all add: udp_follows_def ip_datagram_def local_for_def split: IPAddr.split)
  note ports = udp_follows_ports [OF v(7)]
  obtain w' where w': "echo_step (Echo_send r a p (take 1500 body)) v = Some (Echo_report r, [], w')"
      "net_step v 0 [ip_datagram w PROTO_UDP a (udp_segment (local_for w a) a (port (udp_sockets w ! r)) p (take 1500 body))] w' 0"
    using echo_sends [OF v(3) _ assms(4), of r "take 1500 body" p] assms(2) by (auto simp: same ports elim!: returnsE)
  have "run_program 2 echo_step (Echo_receive r) w = Some (Echo_report r, msg, w')"
    by (simp add: numeral_2_eq_2 v(1) w'(1) del: echo_step.simps)
  then show ?thesis
    using net_step_tun_out [OF w'(2)] net_step_udp_ok [OF w'(2) v(3)] net_step_inbox [OF w'(2)] net_step_udp_balanced [OF w'(2)] v(2,4,5)
    by simp
qed

text \<open>A stack on which one datagram has arrived for the echo server.\<close>

definition echo_world :: tcp_world where
  "echo_world = listening_world\<lparr>UDP_PORT_MAP := [8000 \<mapsto> 0], udp_sockets :=
     [\<lparr>UDPSocketState.receive_queue = [(V4 [10, 0, 0, 1], 5000, small_buffer [0x68, 0x69])], port = 8000\<rparr>]\<rparr>"

lemma echo_world_fields: "udp_ok echo_world" "length (udp_sockets echo_world) = 1"
    "inbox 0 echo_world = [(V4 [10, 0, 0, 1], 5000, [0x68, 0x69])]" "tun_out echo_world = []"
proof -
  have "net_ok listening_world"
    using reachable_ok [OF listening_world_reachable] by (simp add: sys_ok_def tcp_ok_def udp_ok_def)
  then show "udp_ok echo_world"
    using small_buffer_wf [of "[0x68, 0x69]"]
    by (simp add: udp_ok_def echo_world_def net_ok_def pool_ok_def link_up_def FRAGMENT_SIZE_def)
qed (use small_buffer_wf [of "[0x68, 0x69]"] in
    \<open>simp_all add: echo_world_def inbox_def entry_message_def listening_world_fields FRAGMENT_SIZE_def\<close>)

theorem echo_answers_witness:
  "\<exists>out w'. run_program 2 echo_step (Echo_receive 0) echo_world = Some (Echo_report 0, out, w') \<and>
     inbox 0 w' = [] \<and> length (tun_out w') = 1"
  using echo_answers [of echo_world 0 "V4 [10, 0, 0, 1]" 5000 "[0x68, 0x69]" "[]"]
  by (auto simp: echo_world_fields elim!: returnsE)

section \<open>The web server on a connection\<close>

lemma becomes_live: "becomes w xs ports sockets w' \<Longrightarrow> get_socket r w' = (if r < length sockets then Some (sockets ! r) else None)"
  by (simp add: get_socket_def index_def becomes_def)

text \<open>
  C9: The web server serves a page. With a request in the receive queue of a connection, the next three
  steps of the server print the request, send the response in segments and close its side with a FIN. A
  client that is connected to it and receives the frames has the response, whole and in order, behind what
  it had before.
\<close>

theorem web_server_answers:
  fixes a :: "'a tcp_world_scheme"
  assumes "tcp_ok a" and "tcp_ok b" and "get_socket r a = Some s" and "get_socket q b = Some t"
    and "local_for b (remote_ip s) = remote_ip s"
    and "TCP_PORT_MAP b (local_for a (remote_ip s), local_port s, remote_port s) = Some q"
    and "state s = Established" and "state t = Established"
    and "reassembler t = \<lparr>next_sequence = send_next_seq s, out_of_order = []\<rparr>" and "send_unacked t = next_sequence (reassembler s)"
    and "num_delayed_acks t < MAX_DELAYED_ACKS" and "0 < send_mss s" and "send_mss s \<le> 1900"
    and "unat (send_next_seq s - send_unacked s) + 92 \<le> unat (send_window s)" and "send_window s \<le> 0xffff"
    and "length (contents (retransmit_queue s)) \<le> 2 ^ 32" and "length (contents (receive_queue t)) \<le> 2 ^ 32"
    and "unat (clock_ms a) + 3000 < 2 ^ 64" and "unat (clock_ms b) + 500 < 2 ^ 64"
    and "contents (receive_queue s) = req" and "req \<noteq> []" and "length req \<le> 1500" and "valid_utf8 req"
  shows "returns (run_program 3 (web_step iss) (Web_read l r) a) (\<lambda>(p, out, a'). p = Web_accept l \<and>
    out = println (''Received request: '' @ shown_text req) \<and> state (tcp_sockets a' ! r) = FinWait1 \<and>
    contents (retransmit_queue (tcp_sockets a' ! r)) = contents (retransmit_queue s) @ RESPONSE \<and>
    (\<exists>frames x s'. tun_out a' = tun_out a @ frames @ [socket_frame (x :: 'a tcp_world_scheme) s' (FLAG_FIN OR FLAG_ACK) []] \<and>
      same_socket s s' \<and> send_next_seq s' = send_next_seq s + 92 \<and>
      (\<forall>rs. list_all2 delivers rs frames \<longrightarrow> returns (receive_all iss' rs b) (\<lambda>b'. tcp_ok b' \<and>
        contents (receive_queue (tcp_sockets b' ! q)) = contents (receive_queue t) @ RESPONSE))))"
proof -
  have net: "net_ok a" "socket_ok s" "r < length (tcp_sockets a)"
    using assms(1,3) by (auto simp: tcp_ok_def udp_ok_def get_socket_Some)
  define n where "n = length req"
  have "min (length new_data) n = n"
    using assms(22) by (simp add: length_new_data n_def)
  then obtain a1 rq where a1: "tcp_read r new_data a = Some (Ready (as_i32 n, req @ drop n new_data), a1)" "wf_buf rq" "contents rq = []"
      "becomes a [] (TCP_PORT_MAP a) ((tcp_sockets a)[r := s\<lparr>receive_queue := rq\<rparr>]) a1"
    using tcp_read_returns [OF net(1) assms(3) net(2), of new_data] assms(20,21) by (auto simp: n_def elim!: returnsE)
  have ok1: "tcp_ok a1"
    using wheneverD [OF tcp_read_keeps a1(1)] assms(1) by (simp add: tcp_keeps_def)
  have "as_i32 n = int n"
    using assms(22) by (simp add: as_i32_def signed_of_nat signed_take_bit_int_eq_self n_def)
  moreover have "subslice 0 n (req @ drop n new_data) = Some req"
    using subslice_prefix [of n req] by (simp add: n_def)
  ultimately have read: "web_step iss (Web_read l r) a = Some (Web_write l r, println (''Received request: '' @ shown_text req), a1)"
    using a1(1) assms(22,23) as_usize_as_i32 [of n] by (simp add: n_def)
  define s1 where "s1 = s\<lparr>receive_queue := rq\<rparr>"
  have len: "length RESPONSE = 92"
    by (simp add: RESPONSE_def ascii_def crlf_def)
  have get1: "get_socket r a1 = Some s1"
    using becomes_live [OF a1(4), of r] net(3) by (simp add: s1_def)
  have "local_for a1 (remote_ip s) = local_for a (remote_ip s)"
    using a1(4) by (intro local_for_cong) (simp_all add: becomes_def)
  then obtain s2 a2 frames where a2: "tcp_write r RESPONSE a1 = Some (Write_done (as_i32 92), a2)" "wrote s1 RESPONSE s2"
      "becomes a1 frames (TCP_PORT_MAP a1) ((tcp_sockets a1)[r := s2]) a2"
      "\<forall>rs. list_all2 delivers rs frames \<longrightarrow> returns (receive_all iss' rs b) (\<lambda>b'. tcp_ok b' \<and> (\<exists>t'. get_socket q b' = Some t' \<and>
       contents (receive_queue t') = contents (receive_queue t) @ RESPONSE))"
    using established_write [OF ok1 assms(2) get1 assms(4), of RESPONSE iss'] assms(5-19) a1(4) len
    by (auto simp: s1_def becomes_def)
  have ok2: "tcp_ok a2"
    using wheneverD [OF tcp_write_keeps(1) a2(1)] ok1 by (simp add: tcp_keeps_def)
  have get2: "get_socket r a2 = Some s2"
    using becomes_live [OF a2(3), of r] get1 by (simp add: get_socket_Some)
  then have net2: "net_ok a2" "socket_ok s2"
    using ok2 by (auto simp: tcp_ok_def udp_ok_def get_socket_Some)
  note s2 = wrote_fields [OF a2(2)]
  have "ack_of s2 \<noteq> None"
    using assms(7) by (simp add: s2 s1_def ack_of_cases)
  then obtain a3 where a3: "tcp_send_packet s2 NetBuffer_new (FLAG_FIN OR FLAG_ACK) a2 = Some a3"
      "stays a2 [socket_frame a2 s2 (FLAG_FIN OR FLAG_ACK) []] a3"
    using send_stays [OF net2(1), of s2 "FLAG_FIN OR FLAG_ACK"] net2(2) by (auto simp: socket_ok_def elim!: returnsE)
  have "net_ok a3" "clock_ms a3 = clock_ms a"
    using a1(4) a2(3) a3(2) by (simp_all add: becomes_def)
  then obtain i a4 where a4: "set_response_timer r s2 a3 = Some (s2\<lparr>response_timer_id := i\<rparr>, a4)" "stays a3 [] a4"
    using set_response_timer_stays [of a3 r s2] assms(18) by (auto elim!: returnsE)
  define s5 where "s5 = set_state FinWait1 (s2\<lparr>response_timer_id := i\<rparr>)"
  have close: "tcp_close_socket r a2 = Some (None, put_socket r s5 a4)"
    using get2 assms(7) a3(1) a4(1) by (simp add: tcp_close_socket_def s2 s1_def s5_def)
  have run: "run_program 3 (web_step iss) (Web_read l r) a =
      Some (Web_accept l, println (''Received request: '' @ shown_text req), put_socket r s5 a4)"
    using a2(1) close by (simp add: eval_nat_numeral read del: web_step.simps(3))
  have after: "tun_out (put_socket r s5 a4) = tun_out a @ frames @ [socket_frame a2 s2 (FLAG_FIN OR FLAG_ACK) []]"
      "tcp_sockets (put_socket r s5 a4) ! r = s5"
    using a1(4) a2(3) a3(2) a4(2) net(3) by (simp_all add: becomes_def put_socket_def)
  have "state s5 = FinWait1" "contents (retransmit_queue s5) = contents (retransmit_queue s) @ RESPONSE"
      "same_socket s s2" "send_next_seq s2 = send_next_seq s + 92"
    using s2 len by (simp_all add: s5_def set_state_def s1_def same_socket_def)
  moreover have "returns (receive_all iss' rs b) (\<lambda>b'. tcp_ok b' \<and> contents (receive_queue (tcp_sockets b' ! q)) = contents (receive_queue t) @ RESPONSE)"
    if "list_all2 delivers rs frames" for rs
    by (rule returns_conseq [OF a2(4) [rule_format, OF that]]) (auto simp: get_socket_Some)
  ultimately show ?thesis
    unfolding run returns_Some prod.case after
    by (intro conjI exI [of _ frames] exI [of _ a2] exI [of _ s2] allI impI refl) simp_all
qed

definition serving_end :: tcp_world where
  "serving_end = passive_end\<lparr>tcp_sockets := map (\<lambda>s. s\<lparr>receive_queue := small_buffer [0x47, 0x45, 0x54]\<rparr>) (tcp_sockets passive_end)\<rparr>"

lemma serving_end_ok: "tcp_ok serving_end"
  using ends_ok(2) small_buffer_wf [of "[0x47, 0x45, 0x54]"]
  by (auto simp: tcp_ok_def udp_ok_def net_ok_def pool_ok_def link_up_def serving_end_def socket_ok_def socket_key_def FRAGMENT_SIZE_def)

theorem web_server_answers_witness:
  "\<exists>out a' fin. run_program 3 (web_step 0) (Web_read 1 0) serving_end = Some (Web_accept 1, out, a') \<and>
     state (tcp_sockets a' ! 0) = FinWait1 \<and> contents (retransmit_queue (tcp_sockets a' ! 0)) = RESPONSE"
proof -
  define s where "s = (server_done 100 200 (V4 [10, 0, 0, 9]) (V4 [10, 0, 0, 2]) 80 49159)\<lparr>receive_queue := small_buffer [0x47, 0x45, 0x54]\<rparr>"
  define t where "t = (client_done 100 200 (V4 [10, 0, 0, 9]) (V4 [10, 0, 0, 2]) 80 49159)\<lparr>send_mss := 2\<rparr>"
  have t: "state t = Established" "reassembler t = \<lparr>next_sequence = 201, out_of_order = []\<rparr>" "send_unacked t = 101"
      "contents (receive_queue t) = []" "num_delayed_acks t < MAX_DELAYED_ACKS"
    by (simp_all add: t_def client_done_eq TCPSocketState_new_def MAX_DELAYED_ACKS_def)
  have s: "remote_ip s = V4 [10, 0, 0, 9]" "local_port s = 80" "remote_port s = 49159" "state s = Established" "send_next_seq s = 201"
      "send_unacked s = 201" "send_window s = 0xffff" "send_mss s = 1500" "contents (retransmit_queue s) = []"
      "next_sequence (reassembler s) = 101" "contents (receive_queue s) = [0x47, 0x45, 0x54]"
    using server_done_eq [of 100 200 "V4 [10, 0, 0, 9]" "V4 [10, 0, 0, 2]" 80 49159]
      small_buffer_wf [of "[0x47, 0x45, 0x54]"]
    by (auto simp: s_def TCPSocketState_new_def FRAGMENT_SIZE_def)
  have w: "get_socket 0 serving_end = Some s" "get_socket 0 active_end = Some t" "clock_ms active_end = 1000" "clock_ms serving_end = 1000"
      "TCP_PORT_MAP active_end (V4 [10, 0, 0, 2], 80, 49159) = Some 0" "local_for serving_end (V4 [10, 0, 0, 9]) = V4 [10, 0, 0, 2]"
      "local_for active_end (V4 [10, 0, 0, 9]) = V4 [10, 0, 0, 9]"
    by (simp_all add: active_end_def serving_end_def passive_end_def s_def t_def get_socket_def client_world_def listening_world_fields local_for_def)
  show ?thesis
    using web_server_answers [OF serving_end_ok ends_ok(1) w(1,2), of "[0x47, 0x45, 0x54]" 0 1 0]
    by (auto simp: s t w elim!: returnsE)
qed

text \<open>
  The download client does not survive every text. When the octets that \<open>tcp_read\<close> returns are not
  UTF-8 by themselves, the client panics, also where the stream is UTF-8 as a whole and the segments
  that have arrived so far end inside a character.
\<close>

theorem download_panics:
  assumes "tcp_ok a" and "get_socket r a = Some s" and "contents (receive_queue s) \<noteq> []"
    and "\<not> valid_utf8 (take 1500 (contents (receive_queue s)))"
  shows "download_step args draws iss (Down_read r (Suc k)) a = None"
proof -
  define n where "n = min 1500 (length (contents (receive_queue s)))"
  have "net_ok a" "socket_ok s"
    using assms(1,2) by (auto simp: tcp_ok_def udp_ok_def get_socket_Some)
  from tcp_read_returns [OF this(1) assms(2) this(2) assms(3), of new_data]
  obtain v where v: "tcp_read r new_data a = Some (Ready (as_i32 n, take n (contents (receive_queue s)) @ drop n new_data), v)"
    unfolding length_new_data n_def [symmetric] by (auto elim!: returnsE)
  have "0 < n" "n \<le> 1500" "take n (contents (receive_queue s)) = take 1500 (contents (receive_queue s))"
    using assms(3) by (simp_all add: n_def min_def)
  moreover from this have "as_i32 n = int n"
    by (simp add: as_i32_def signed_of_nat signed_take_bit_int_eq_self)
  moreover have "subslice 0 n (take n (contents (receive_queue s)) @ drop n new_data) = Some (take n (contents (receive_queue s)))"
    by (rule subslice_prefix) (simp add: n_def)
  ultimately show ?thesis
    using v assms(4) as_usize_as_i32 [of n] by simp
qed

text \<open>The first octet of a character has arrived, the second is still on its way.\<close>

theorem download_panics_witness:
  "valid_utf8 [0xc3, 0xa9] \<and>
   download_step [] [] 0 (Down_read 0 25) (passive_end\<lparr>tcp_sockets := map (\<lambda>s. s\<lparr>receive_queue := small_buffer [0xc3]\<rparr>) (tcp_sockets passive_end)\<rparr>) = None"
proof -
  define w where "w = passive_end\<lparr>tcp_sockets := map (\<lambda>s. s\<lparr>receive_queue := small_buffer [0xc3]\<rparr>) (tcp_sockets passive_end)\<rparr>"
  have "tcp_ok w"
    using ends_ok(2) small_buffer_wf [of "[0xc3]"]
    by (auto simp: w_def tcp_ok_def udp_ok_def net_ok_def pool_ok_def link_up_def socket_ok_def socket_key_def FRAGMENT_SIZE_def)
  moreover obtain s where "get_socket 0 w = Some (s\<lparr>receive_queue := small_buffer [0xc3]\<rparr>)"
    by (simp add: w_def passive_end_def get_socket_def index_def)
  ultimately show ?thesis
    using download_panics [of w 0 _ "[]" "[]" 0 24] small_buffer_wf [of "[0xc3]"]
    by (simp add: FRAGMENT_SIZE_def continuation_def flip: w_def)
qed

section \<open>The whole run of the echo server\<close>

text \<open>
  A run of the echo server with a record of what it has done: the messages that it has taken from the queue
  of its socket and the frames that its own calls have sent. The threads of the stack run in between.
\<close>

fun taken :: "echo \<Rightarrow> 'a tcp_world_scheme \<Rightarrow> 'a tcp_world_scheme \<Rightarrow> message list" where
  "taken (Echo_receive r) w w' = take (length (inbox r w) - length (inbox r w')) (inbox r w)"
| "taken _ w w' = []"

definition written :: "'a tcp_world_scheme \<Rightarrow> 'a tcp_world_scheme \<Rightarrow> bytes list" where
  "written w w' = drop (length (tun_out w)) (tun_out w')"

inductive serves :: "callback option \<Rightarrow> SocketKey list \<Rightarrow> echo \<Rightarrow> unit tcp_world_scheme \<Rightarrow> message list \<Rightarrow> bytes list \<Rightarrow> bool" where
  serves_boot: "link_up (boot_world writev now) \<Longrightarrow> init_netstack (boot_world writev now) = Some w \<Longrightarrow>
    serves None [] Echo_open w [] []"
| serves_program: "serves c ks p w ins outs \<Longrightarrow> echo_step p w = Some (p', out, w') \<Longrightarrow>
    serves c ks p' w' (ins @ taken p w w') (outs @ written w w')"
| serves_thread: "serves c ks p w ins outs \<Longrightarrow> background ev \<Longrightarrow> stack_step ev (c, ks, [], w) (c', ks', [], w') \<Longrightarrow>
    serves c' ks' p w' ins outs"

lemma serves_runs: "serves c ks p w ins outs \<Longrightarrow> runs (Echo Echo_open) c ks (Echo p) w"
proof (induction rule: serves.induct)
  case (serves_program c ks p w ins outs p' out w')
  have "program_step [] [] 0 (Echo p) w = Some (Echo p', out, w')"
    by (simp add: serves_program.hyps(2))
  with serves_program.IH show ?case
    by (rule runs_program)
qed (auto intro: runs.intros)

text \<open>The addresses of \<open>netif_init\<close>.\<close>

definition own_addresses :: "'a net_world_scheme \<Rightarrow> bool" where
  "own_addresses w \<longleftrightarrow> LOCAL_IPV4 w = V4 [10, 0, 0, 2] \<and>
     LOCAL_IPV6 w = V6 [0xfe, 0x80, 0, 0, 0, 0, 0, 0, 0, 0, 0, 0, 0, 0, 0, 2]"

definition at_home :: "'a udp_world_scheme \<Rightarrow> bool" where
  "at_home w \<longleftrightarrow> own_addresses w \<and> senders_ok w"

text \<open>A frame that answers a message: from port 8000, with the octets that came, up to 1500 of them.\<close>

fun echo_reply :: "message \<Rightarrow> bytes \<Rightarrow> bool" where
  "echo_reply (a, p, body) frame \<longleftrightarrow> (\<exists>v :: unit tcp_world_scheme. own_addresses v \<and>
     frame = ip_datagram v PROTO_UDP a (udp_segment (local_for v a) a 8000 p (take 1500 body)))"

definition socket_8000 :: "nat \<Rightarrow> 'a udp_world_scheme \<Rightarrow> bool" where
  "socket_8000 r w \<longleftrightarrow> r < length (udp_sockets w) \<and> port (udp_sockets w ! r) = 8000"

fun serving :: "echo \<Rightarrow> 'a udp_world_scheme \<Rightarrow> message list \<Rightarrow> bytes list \<Rightarrow> bool" where
  "serving Echo_open w ins outs \<longleftrightarrow> UDP_PORT_MAP w = Map.empty \<and> ins = [] \<and> outs = []"
| "serving (Echo_receive r) w ins outs \<longleftrightarrow> socket_8000 r w \<and> list_all2 echo_reply ins outs"
| "serving (Echo_send r a p bs) w ins outs \<longleftrightarrow> socket_8000 r w \<and> wf_ip a \<and>
     (\<exists>done body. ins = done @ [(a, p, body)] \<and> bs = take 1500 body \<and> list_all2 echo_reply done outs)"
| "serving (Echo_report r) w ins outs \<longleftrightarrow> socket_8000 r w \<and> list_all2 echo_reply ins outs"
| "serving Echo_stopped w ins outs \<longleftrightarrow> False"

lemma at_home_follows: "at_home w \<Longrightarrow> udp_follows w w' \<Longrightarrow> at_home w'"
  by (simp add: at_home_def own_addresses_def udp_follows_def)

lemma socket_8000_follows: "socket_8000 r w \<Longrightarrow> udp_follows w w' \<Longrightarrow> socket_8000 r w'"
  by (simp add: socket_8000_def udp_follows_ports)

lemma serving_follows: "serving p w ins outs \<Longrightarrow> udp_follows w w' \<Longrightarrow> serving p w' ins outs"
  by (cases p) (auto simp: udp_follows_def intro: socket_8000_follows [unfolded udp_follows_def])

lemma keeps_follows: "tcp_keeps n w n' w' \<Longrightarrow> tcp_ok w \<Longrightarrow> udp_follows w w'"
  by (simp add: tcp_keeps_def)

lemma background_follows:
  assumes "stack_step ev (c, ks, [], w) (c', ks', [], w')" and "background ev" and "tcp_ok w"
  shows "udp_follows w w'"
  using assms(1)
proof (cases rule: stack_step.cases)
  case (receive_step readv frame iss)
  then show ?thesis
    using wheneverD [OF packet_receive_keeps] assms(3) by (blast intro: keeps_follows)
next
  case (run_step cb)
  then show ?thesis
    using wheneverD [OF run_callback_keeps] assms(3) by (blast intro: keeps_follows)
next
  case (time_wait_step r k us vs)
  then show ?thesis
    using wheneverD [OF time_wait_socket_keeps, of r w "(k, w')"] assms(3) by (auto intro: keeps_follows)
qed (use assms(2) in \<open>auto simp: tcp_unmap_def intro: udp_follows_same\<close>)


text \<open>One step of the server: it fails only where the counters cannot be printed, and it keeps the record in order.\<close>

definition echo_moves :: "echo \<Rightarrow> 'a tcp_world_scheme \<Rightarrow> message list \<Rightarrow> bytes list \<Rightarrow> bool" where
  "echo_moves p w ins outs \<longleftrightarrow> returns (echo_step p w) (\<lambda>(p', out, w'). at_home w' \<and>
     serving p' w' (ins @ taken p w w') (outs @ written w w'))"

lemma echo_open_moves:
  assumes "serving Echo_open w ins outs" and "at_home w"
  shows "echo_moves Echo_open w ins outs"
  using assms
  by (auto simp: echo_moves_def udp_open_def Let_def at_home_def own_addresses_def senders_ok_def socket_8000_def nth_append
      UDPSocketState_new_def written_def)

lemma echo_receive_moves:
  assumes "serving (Echo_receive r) w ins outs" and "at_home w" and "udp_ok w"
  shows "echo_moves (Echo_receive r) w ins outs"
proof -
  have r: "r < length (udp_sockets w)"
    using assms(1) by (simp add: socket_8000_def)
  show ?thesis
  proof (cases "inbox r w")
    case Nil
    then show ?thesis
      using assms udp_recv_empty [OF r Nil] by (simp add: echo_moves_def written_def)
  next
    case (Cons m ms)
    obtain a p body where m: "m = (a, p, body)"
      by (cases m)
    have "wf_ip a"
      using sender_ok [OF _ r] assms(2) Cons m by (simp add: at_home_def)
    from echo_receives [OF assms(3) r Cons [unfolded m] this] this assms(1,2) show ?thesis
      by (auto simp: echo_moves_def Cons m written_def elim!: returns_conseq
          intro: at_home_follows socket_8000_follows simp del: echo_step.simps)
  qed
qed

lemma echo_receive_takes:
  assumes "serving (Echo_receive r) w ins outs" and "at_home w" and "udp_ok w"
  shows "returns (echo_step (Echo_receive r) w) (\<lambda>(q, out, w'). taken (Echo_receive r) w w' = take 1 (inbox r w))"
proof -
  have r: "r < length (udp_sockets w)"
    using assms(1) by (simp add: socket_8000_def)
  show ?thesis
  proof (cases "inbox r w")
    case Nil
    then show ?thesis
      using udp_recv_empty [OF r Nil] by simp
  next
    case (Cons m ms)
    obtain a p body where m: "m = (a, p, body)"
      by (cases m)
    have "wf_ip a"
      using sender_ok [OF _ r] assms(2) Cons m by (simp add: at_home_def)
    from echo_receives [OF assms(3) r Cons [unfolded m] this] show ?thesis
      by (auto simp: Cons m elim!: returns_conseq simp del: echo_step.simps)
  qed
qed

lemma echo_send_moves:
  fixes w :: "unit tcp_world_scheme"
  assumes "serving (Echo_send r a p bs) w ins outs" and "at_home w" and "udp_ok w"
  shows "echo_moves (Echo_send r a p bs) w ins outs"
proof -
  obtain old body where run: "ins = old @ [(a, p, body)]" "bs = take 1500 body" "list_all2 echo_reply old outs"
      "wf_ip a" "r < length (udp_sockets w)" "port (udp_sockets w ! r) = 8000" "socket_8000 r w"
    using assms(1) by (auto simp: socket_8000_def)
  define frame where "frame = ip_datagram w PROTO_UDP a (udp_segment (local_for w a) a 8000 p bs)"
  have "echo_reply (a, p, body) frame"
    using assms(2) run(2) by (auto simp: frame_def at_home_def)
  with run(1,3) have "list_all2 echo_reply ins (outs @ [frame])"
    by (simp add: list_all2_appendI)
  moreover have "at_home v \<and> socket_8000 r v \<and> written w v = [frame]" if "net_step w 0 [frame] v 0" for v
    using at_home_follows [OF assms(2) net_step_follows [OF that]] socket_8000_follows [OF run(7) net_step_follows [OF that]]
      net_step_tun_out [OF that] by (simp add: written_def)
  ultimately show ?thesis
    using echo_sends [OF assms(3) run(5,4), of bs p] run(2,6)
    by (auto simp: echo_moves_def frame_def simp del: echo_step.simps elim!: returns_conseq)
qed

lemma echo_step_moves:
  fixes w :: "unit tcp_world_scheme"
  assumes "serving p w ins outs" and "at_home w" and "udp_ok w"
  shows "echo_moves p w ins outs \<or> (\<exists>r. p = Echo_report r) \<and> print_metrics (METRICS w) = None"
proof (cases p)
  case (Echo_report r)
  then show ?thesis
    using assms by (cases "print_metrics (METRICS w)") (auto simp: echo_moves_def written_def)
qed (use assms echo_open_moves echo_receive_moves echo_send_moves in \<open>simp_all only: serving.simps echo.simps, (blast | fastforce)+\<close>)

lemma serves_serving: "serves c ks p w ins outs \<Longrightarrow> at_home w \<and> serving p w ins outs \<and> udp_ok w"
proof -
  have ok: "udp_ok w \<and> tcp_ok w" if "serves c ks p w ins outs" for c ks p w ins outs
    using reachable_ok runs_reachable [OF serves_runs [OF that]] by (fastforce simp: owes_def sys_ok_def tcp_ok_def)
  show "serves c ks p w ins outs \<Longrightarrow> at_home w \<and> serving p w ins outs \<and> udp_ok w"
  proof (induction rule: serves.induct)
    case (serves_boot writev now w)
    then show ?case
      using ok [OF serves.serves_boot [OF serves_boot]]
      by (auto simp: boot_world_def init_netstack_def netif_init_def new_from_def new_v4_def new_v6_def at_home_def own_addresses_def senders_ok_def)
  next
    case (serves_program c ks p w ins outs p' out w')
    then show ?case
      using ok [OF serves.serves_program [OF serves_program.hyps]] echo_step_moves [of p w ins outs]
      by (cases p) (auto simp: echo_moves_def)
  next
    case (serves_thread c ks p w ins outs ev c' ks' w')
    then have "udp_follows w w'"
      using ok by (blast intro: background_follows)
    then show ?case
      using ok [OF serves.serves_thread [OF serves_thread.hyps]] serves_thread.IH at_home_follows serving_follows by blast
  qed
qed

text \<open>
  C10: The echo server answers every datagram, once and in order. In every state of its run on the stack,
  from the start on and interleaved in any way with the steps of the receive thread, of the timer thread and
  of the clock, the frames that its calls have sent answer the messages that it has taken from its socket one
  by one: each goes from the machine's own address and port 8000 to the address and port that the message came
  from, with the first 1500 octets of the message. At most the message that was just taken is not answered
  yet, and then its answer is what the server sends next. Where the server waits for a datagram, its next step
  takes the oldest one that is queued. The server never stops, and none of its steps panics but the one that
  prints the counters, and that one exactly where \<open>print_metrics\<close> cannot compute the memory in use.
\<close>

theorem echo_server_answers_all:
  assumes "serves c ks p w ins outs"
  shows "p \<noteq> Echo_stopped \<and>
    (case p of
       Echo_send r a q bs \<Rightarrow> \<exists>old body. ins = old @ [(a, q, body)] \<and> bs = take 1500 body \<and> list_all2 echo_reply old outs
     | Echo_receive r \<Rightarrow> list_all2 echo_reply ins outs \<and>
         returns (echo_step p w) (\<lambda>(q, out, w'). taken p w w' = take 1 (inbox r w))
     | _ \<Rightarrow> list_all2 echo_reply ins outs) \<and>
    (echo_step p w = None \<longleftrightarrow> (\<exists>r. p = Echo_report r) \<and> print_metrics (METRICS w) = None)"
proof -
  note now = serves_serving [OF assms]
  have "echo_step p w = None \<longleftrightarrow> (\<exists>r. p = Echo_report r) \<and> print_metrics (METRICS w) = None"
    using echo_step_moves [of p w ins outs] now by (auto simp: echo_moves_def elim!: returnsE)
  moreover have "returns (echo_step p w) (\<lambda>(q, out, w'). taken p w w' = take 1 (inbox r w))" if "p = Echo_receive r" for r
    using echo_receive_takes [of r w ins outs] now that by blast
  ultimately show ?thesis
    using now by (cases p) (simp_all only: serving.simps echo.simps echo.distinct, auto)
qed

text \<open>One datagram comes in and is answered.\<close>

theorem echo_server_answers_all_witness:
  "\<exists>w frame. serves None [] (Echo_report 0) w [(V4 [10, 0, 0, 9], 5000, [0x68, 0x69])] [frame] \<and>
     echo_reply (V4 [10, 0, 0, 9], 5000, [0x68, 0x69]) frame"
proof -
  define m where "m = (V4 [10, 0, 0, 9], 5000 :: u16, [0x68, 0x69] :: bytes)"
  define b where "b = boot_world (\<lambda>sent vecs. int (length (concat vecs))) 1000"
  have up: "link_up b"
    by (simp add: b_def boot_world_def link_up_def)
  obtain w0 where w0: "init_netstack b = Some w0" "UDP_PORT_MAP w0 = Map.empty" "udp_sockets w0 = []"
    by (simp add: b_def boot_world_def init_netstack_def netif_init_def new_from_def new_v4_def new_v6_def)
  define w1 where "w1 = snd (udp_open 8000 w0)"
  have w1: "udp_open 8000 w0 = (Inr 0, w1)" "tun_out w1 = tun_out w0" "UDP_PORT_MAP w1 8000 = Some 0" "inbox 0 w1 = []"
    using w0(2,3) by (simp_all add: w1_def udp_open_def Let_def inbox_def UDPSocketState_new_def)
  have "serves None [] Echo_open w0 [] []"
    using up w0(1) unfolding b_def by (rule serves_boot)
  from serves_program [OF this, of "Echo_receive 0" "[]" w1] have s1: "serves None [] (Echo_receive 0) w1 [] []"
    by (simp add: w1 written_def)
  define seg where "seg = udp_segment (local_for active_end (V4 [10, 0, 0, 2])) (V4 [10, 0, 0, 2]) 5000 8000 [0x68, 0x69]"
  define f where "f = ip_datagram active_end PROTO_UDP (V4 [10, 0, 0, 2]) seg"
  have "net_ok active_end" "local_for active_end (V4 [10, 0, 0, 2]) = V4 [10, 0, 0, 9]"
    using ends_ok(1) by (simp_all add: tcp_ok_def udp_ok_def active_end_def client_world_def local_for_def)
  moreover have "tcp_ok w1"
    using reachable_ok runs_reachable [OF serves_runs [OF s1]] by (fastforce simp: owes_def sys_ok_def)
  ultimately obtain w2 where w2: "packet_receive (scatter f) 0 w1 = Some w2" "inbox 0 w2 = [m]"
    using udp_datagram_delivered [of active_end "V4 [10, 0, 0, 2]" w1 "scatter f" 5000 8000 "[0x68, 0x69]" 0] delivers_scatter [of f]
    by (auto simp: f_def seg_def delivered_def w1 m_def room_for_def ip_header_len_def IPV4_BASE_HEADER_LEN_def MRU_def elim!: returnsE)
  have "f \<noteq> []"
    by (simp add: f_def ip_datagram_nonempty)
  with w2(1) have s2: "serves None [] (Echo_receive 0) w2 [] []"
    by (intro serves_thread [OF s1, of "Receive f"] receive_step) (simp_all add: delivers_scatter)
  then have ok2: "udp_ok w2" "0 < length (udp_sockets w2)"
    using serves_serving by (fastforce simp: socket_8000_def)+
  then obtain t w3 where w3: "echo_step (Echo_receive 0) w2 = Some (Echo_send 0 (V4 [10, 0, 0, 9]) 5000 [0x68, 0x69], t, w3)"
      "inbox 0 w3 = []" "tun_out w3 = tun_out w2"
    using echo_receives [of w2 0 "V4 [10, 0, 0, 9]" 5000 "[0x68, 0x69]" "[]"] w2(2) by (auto simp: m_def elim!: returnsE)
  have s3: "serves None [] (Echo_send 0 (V4 [10, 0, 0, 9]) 5000 [0x68, 0x69]) w3 [m] []"
    using serves_program [OF s2 w3(1)] by (simp add: w2(2) w3(2,3) written_def)
  then have "udp_ok w3" "0 < length (udp_sockets w3)"
    using serves_serving by (fastforce simp: socket_8000_def)+
  then obtain w4 frame where w4: "echo_step (Echo_send 0 (V4 [10, 0, 0, 9]) 5000 [0x68, 0x69]) w3 = Some (Echo_report 0, [], w4)"
      "net_step w3 0 [frame] w4 0"
    using echo_sends [of w3 0 "V4 [10, 0, 0, 9]" "[0x68, 0x69]" 5000] by (auto elim!: returnsE)
  have s4: "serves None [] (Echo_report 0) w4 [m] [frame]"
    using serves_program [OF s3 w4(1)] net_step_tun_out [OF w4(2)] by (simp add: written_def)
  with echo_server_answers_all [OF s4] show ?thesis
    by (auto simp: m_def simp del: echo_reply.simps)
qed

end
