(* ===== verification/Buf_Rules.thy ===== *)
theory Buf_Rules
  imports Buf_Access
begin

text \<open>
  A calculus for programs that own buffers. \<open>finishes w k m\<close> says that the program \<open>m\<close>, which starts with
  the pool \<open>w\<close> and \<open>k\<close> fragments of its own, runs to its end and has given all of them back there. Each
  operation of \<open>buf.rs\<close> gets one rule that runs it and describes the buffer it leaves by its \<open>chunks\<close>,
  the octets of each of its fragments; the rules are the collection \<open>buf_rules\<close>.
\<close>

named_theorems buf_rules \<open>rules that run one operation of a program that owns buffers\<close>

definition finishes :: "'a buf_world_scheme \<Rightarrow> nat \<Rightarrow> 'a buf_world_scheme option \<Rightarrow> bool" where
  "finishes w k m \<longleftrightarrow> returns m (\<lambda>r. pool_ok r \<and> pool_step w k r 0)"

definition chunks :: "NetBuffer \<Rightarrow> bytes list" where
  "chunks b = map frag_bytes (fragments b)"

lemma contents_chunks: "contents b = concat (chunks b)"
  by (simp add: contents_def chunks_def chain_bytes_def)

lemma chunks_eq_Nil: "chunks b = [] \<longleftrightarrow> fragments b = []"
  by (simp add: chunks_def)

lemma head_bytes_chunks: "fragments b \<noteq> [] \<Longrightarrow> head_bytes b = hd (chunks b)"
  by (simp add: head_bytes_def chunks_def hd_map)

lemma chunks_length: "wf_buf b \<Longrightarrow> length (concat (chunks b)) = buf_length b"
  by (simp add: length_contents flip: contents_chunks)

lemma chunks_NetBuffer_new [simp]: "chunks NetBuffer_new = []"
  by (simp add: chunks_def)

text \<open>The chunks of a packed buffer are its contents, cut into blocks of the fragment size.\<close>

function blocks :: "bytes \<Rightarrow> bytes list" where
  "blocks xs = (if xs = [] then [] else take FRAGMENT_SIZE xs # blocks (drop FRAGMENT_SIZE xs))"
  by pat_completeness auto
termination
  by (relation "measure length") (auto simp: FRAGMENT_SIZE_def)

declare blocks.simps [simp del]

lemma blocks_simps [simp]: "blocks [] = []" "xs \<noteq> [] \<Longrightarrow> blocks xs = take FRAGMENT_SIZE xs # blocks (drop FRAGMENT_SIZE xs)"
  by (subst blocks.simps; simp)+

lemma packed_blocks:
  "packed fs \<Longrightarrow> \<forall>f \<in> set fs. wf_frag f \<Longrightarrow> map frag_bytes fs = blocks (chain_bytes fs)"
proof (induction fs)
  case (Cons f fs)
  have f: "wf_frag f" "frag_bytes f \<noteq> []" "length (frag_bytes f) \<le> FRAGMENT_SIZE"
    using Cons.prems(2) length_frag_bytes [of f] by (auto simp: frag_bytes_nonempty wf_frag_def frag_len_def)
  show ?case
  proof (cases "fs = []")
    case True
    with f show ?thesis by simp
  next
    case False
    with f Cons.prems have "length (frag_bytes f) = FRAGMENT_SIZE"
      by (simp add: packed_Cons length_frag_bytes frag_len_def)
    with f Cons show ?thesis by (simp add: packed_Cons)
  qed
qed simp

lemma chunks_packed: "wf_buf b \<Longrightarrow> packed (fragments b) \<Longrightarrow> chunks b = blocks (concat (chunks b))"
  unfolding chunks_def chain_bytes_def [symmetric] by (rule packed_blocks) (simp_all add: wf_buf_frags)

lemma packed_start: "packed (fragments b) \<Longrightarrow> fragments b \<noteq> [] \<Longrightarrow> range_start (hd (fragments b)) = 0"
  by (cases "fragments b") (simp_all add: packed_Cons)

section \<open>Running a program\<close>

lemma finishes_balanced: "finishes w 0 m \<Longrightarrow> returns m (\<lambda>r. pool_ok r \<and> (\<forall>k. balanced w k \<longrightarrow> balanced r k))"
  by (auto simp: finishes_def pool_step_def elim!: returns_conseq)

lemma finishes_step:
  assumes "finishes w' k' m" and "pool_step w k w' k'"
  shows "finishes w k m"
  using assms by (auto simp: finishes_def elim!: returns_conseq intro: pool_step_trans)

lemma finishes_bind:
  assumes "returns m (\<lambda>(b', w'). Q b' w' \<and> pool_step w (nfrags b) w' (nfrags b'))" and "nfrags b \<le> k"
    and "pool_ok w" and "\<And>b' w'. Q b' w' \<Longrightarrow> pool_ok w' \<Longrightarrow> finishes w' (k - nfrags b + nfrags b') (f (b', w'))"
  shows "finishes w k (Option.bind m f)"
proof -
  obtain b' w' where m: "m = Some (b', w')" "Q b' w'" "pool_step w (nfrags b) w' (nfrags b')"
    using assms(1) by (auto elim!: returnsE)
  have "pool_step w k w' (k - nfrags b + nfrags b')"
    using pool_step_frame [OF m(3), of "k - nfrags b"] assms(2) by simp
  with m assms(3,4) show ?thesis
    by (auto intro: finishes_step pool_step_ok)
qed

lemma finishes_assert [buf_rules]: "c \<Longrightarrow> finishes w k (f ()) \<Longrightarrow> finishes w k (Option.bind (assert_that c) f)"
  by simp

lemma finishes_drop [buf_rules]:
  "wf_buf b \<Longrightarrow> pool_ok w \<Longrightarrow> k = nfrags b \<Longrightarrow> finishes w k (Some (drop_buffer b w))"
  using drop_buffer_step [of b w] by (auto simp: finishes_def intro: pool_step_ok)

lemma finishes_drop_then:
  assumes "wf_buf b" and "pool_ok w" and "nfrags b \<le> k"
    and "\<And>w'. pool_ok w' \<Longrightarrow> finishes w' (k - nfrags b) (f w')"
  shows "finishes w k (f (drop_buffer b w))"
proof (rule finishes_step)
  show "pool_step w k (drop_buffer b w) (k - nfrags b)"
    using pool_step_frame [OF drop_buffer_step [OF assms(1)], of w "k - nfrags b"] assms(3) by simp
  show "finishes (drop_buffer b w) (k - nfrags b) (f (drop_buffer b w))"
    using assms pool_step_ok [OF drop_buffer_step [OF assms(1)]] by blast
qed

lemma finishes_drop_both [buf_rules]:
  "wf_buf b \<Longrightarrow> wf_buf c \<Longrightarrow> pool_ok w \<Longrightarrow> k = nfrags b + nfrags c \<Longrightarrow>
   finishes w k (Some (drop_buffer c (drop_buffer b w)))"
  by (rule finishes_drop_then) (simp_all add: finishes_drop)

lemma finishes_drop_all:
  "\<forall>b \<in> set bs. wf_buf b \<Longrightarrow> pool_ok w \<Longrightarrow> k = sum_list (map nfrags bs) \<Longrightarrow>
   finishes w k (Some (fold drop_buffer bs w))"
proof (induction bs arbitrary: w k)
  case (Cons b bs)
  then show ?case
    by (simp, intro finishes_drop_then [where f = "\<lambda>w. Some (fold drop_buffer bs w)"]) simp_all
qed (simp add: finishes_def)

lemma finishes_append [buf_rules]:
  assumes "wf_buf b" and "packed (fragments b)" and "pool_ok w" and "buf_length b + length src \<le> USIZE_MAX" and "nfrags b \<le> k"
    and "\<And>b' w'. wf_buf b' \<Longrightarrow> packed (fragments b') \<Longrightarrow> chunks b' = blocks (concat (chunks b) @ src) \<Longrightarrow>
      buf_length b' = buf_length b + length src \<Longrightarrow> pool_ok w' \<Longrightarrow>
      finishes w' (k - nfrags b + nfrags b') (f (b', w'))"
  shows "finishes w k (Option.bind (append_from_slice src b w) f)"
proof (rule finishes_bind [OF _ assms(5,3)])
  show "returns (append_from_slice src b w) (\<lambda>(b', w'). (wf_buf b' \<and> packed (fragments b') \<and>
      chunks b' = blocks (concat (chunks b) @ src) \<and> buf_length b' = buf_length b + length src) \<and>
      pool_step w (nfrags b) w' (nfrags b'))"
    using append_from_slice_returns [OF assms(1,3)] assms(2,4) length_contents chunks_packed
    by (fastforce elim!: returns_conseq simp: length_contents [OF assms(1)] contents_chunks [symmetric])
qed (use assms in blast)


lemma finishes_append_from_buffer [buf_rules]:
  assumes "wf_buf b" and "packed (fragments b)" and "wf_buf c" and "pool_ok w" and "buf_length b + buf_length c \<le> USIZE_MAX"
    and "nfrags b \<le> k"
    and "\<And>b' w'. wf_buf b' \<Longrightarrow> packed (fragments b') \<Longrightarrow> chunks b' = blocks (concat (chunks b) @ take n (concat (chunks c))) \<Longrightarrow>
      buf_length b' = buf_length b + min (buf_length c) n \<Longrightarrow> pool_ok w' \<Longrightarrow>
      finishes w' (k - nfrags b + nfrags b') (f (b', w'))"
  shows "finishes w k (Option.bind (append_from_buffer c n b w) f)"
proof (rule finishes_bind [OF _ assms(6,4)])
  show "returns (append_from_buffer c n b w) (\<lambda>(b', w'). (wf_buf b' \<and> packed (fragments b') \<and>
      chunks b' = blocks (concat (chunks b) @ take n (concat (chunks c))) \<and> buf_length b' = buf_length b + min (buf_length c) n) \<and>
      pool_step w (nfrags b) w' (nfrags b'))"
    using append_from_buffer_returns [OF assms(1,3,4), of n] assms(2,5) length_contents chunks_packed
    by (fastforce elim!: returns_conseq simp: length_contents [OF assms(1)] length_contents [OF assms(3)] contents_chunks [symmetric])
qed (use assms in blast)

lemma finishes_append_buffer [buf_rules]:
  assumes "wf_buf b" and "wf_buf c" and "buf_length b + buf_length c \<le> USIZE_MAX"
    and "\<And>b'. wf_buf b' \<Longrightarrow> chunks b' = chunks b @ chunks c \<Longrightarrow> nfrags b' = nfrags b + nfrags c \<Longrightarrow>
      buf_length b' = buf_length b + buf_length c \<Longrightarrow> finishes w k (f b')"
  shows "finishes w k (Option.bind (append_buffer c b) f)"
proof -
  obtain b' where b': "append_buffer c b = Some b'" "wf_buf b'" "nfrags b' = nfrags b + nfrags c"
    using append_buffer_Some [OF assms(1,2)] assms(3) by (auto simp: length_contents assms(1,2) elim!: returnsE)
  then have "chunks b' = chunks b @ chunks c" "buf_length b' = buf_length b + buf_length c"
    using assms(3) by (auto simp: append_buffer_def chunks_def)
  with b' assms(4) show ?thesis by simp
qed

lemma finishes_alloc_header [buf_rules]:
  assumes "wf_buf b" and "pool_ok w" and "0 < sz" and "sz \<le> FRAGMENT_SIZE" and "buf_length b + sz \<le> USIZE_MAX" and "nfrags b \<le> k"
    and "\<And>b' w'. wf_buf b' \<Longrightarrow> buf_length b' = buf_length b + sz \<Longrightarrow> pool_ok w' \<Longrightarrow>
      (if chunks b = [] \<or> range_start (hd (fragments b)) < sz
       then chunks b' = replicate sz 0 # chunks b \<and> range_start (hd (fragments b')) = FRAGMENT_SIZE - sz
       else chunks b' = (replicate sz 0 @ hd (chunks b)) # tl (chunks b) \<and>
         range_start (hd (fragments b')) = range_start (hd (fragments b)) - sz) \<Longrightarrow>
      finishes w' (k - nfrags b + nfrags b') (f (b', w'))"
  shows "finishes w k (Option.bind (alloc_header sz b w) f)"
proof (rule finishes_bind [OF _ assms(6,2)])
  have eq: "chunks c = head_bytes c # map frag_bytes (tl (fragments c))" if "fragments c \<noteq> []" for c
    using that by (cases "fragments c") (simp_all add: chunks_def head_bytes_def)
  have len: "length (contents b) + sz \<le> USIZE_MAX"
    using assms(5) by (simp add: length_contents assms(1))
  obtain c v where run: "alloc_header sz b w = Some (c, v)" and c: "wf_buf c" "fragments c \<noteq> []"
      "contents c = replicate sz 0 @ contents b" "pool_step w (nfrags b) v (nfrags c)"
      "if fragments b = [] \<or> range_start (hd (fragments b)) < sz
       then head_bytes c = replicate sz 0 \<and> tl (fragments c) = fragments b \<and> range_start (hd (fragments c)) = FRAGMENT_SIZE - sz
       else head_bytes c = replicate sz 0 @ head_bytes b \<and> tl (fragments c) = tl (fragments b) \<and>
         range_start (hd (fragments c)) = range_start (hd (fragments b)) - sz"
    using alloc_header_returns [OF assms(1-4) len] by (elim returnsE) (simp only: split_paired_all prod.case, blast)
  have "buf_length c = buf_length b + sz"
    using c(1,3) assms(1) length_contents [of c] length_contents [of b] by simp
  moreover have "if chunks b = [] \<or> range_start (hd (fragments b)) < sz
       then chunks c = replicate sz 0 # chunks b \<and> range_start (hd (fragments c)) = FRAGMENT_SIZE - sz
       else chunks c = (replicate sz 0 @ hd (chunks b)) # tl (chunks b) \<and>
         range_start (hd (fragments c)) = range_start (hd (fragments b)) - sz"
    using c(5) eq [OF c(2)] eq [of b] unfolding chunks_eq_Nil by (auto simp: chunks_def split: if_splits)
  ultimately show "returns (alloc_header sz b w) (\<lambda>(b', w'). (wf_buf b' \<and> buf_length b' = buf_length b + sz \<and>
      (if chunks b = [] \<or> range_start (hd (fragments b)) < sz
       then chunks b' = replicate sz 0 # chunks b \<and> range_start (hd (fragments b')) = FRAGMENT_SIZE - sz
       else chunks b' = (replicate sz 0 @ hd (chunks b)) # tl (chunks b) \<and>
         range_start (hd (fragments b')) = range_start (hd (fragments b)) - sz)) \<and>
      pool_step w (nfrags b) w' (nfrags b'))"
    unfolding run returns_Some prod.case using c(1,4) by blast
qed (use assms(7) in blast)

fun trim_chunks :: "nat \<Rightarrow> bytes list \<Rightarrow> bytes list" where
  "trim_chunks n [] = []"
| "trim_chunks n (c # cs) = (if n < length c then drop n c # cs else trim_chunks (n - length c) cs)"

lemma trim_head_loop_chunks:
  "trim_head_loop n fs w = Some (l, gs, w') \<Longrightarrow> \<forall>f \<in> set fs. wf_frag f \<Longrightarrow>
   trim_chunks n (map frag_bytes fs) =
     (case gs of [] \<Rightarrow> [] | g # gs' \<Rightarrow> drop l (frag_bytes g) # map frag_bytes gs')"
proof (induction n fs w rule: trim_head_loop.induct)
  case (2 left f fs w)
  then have "length (frag_bytes f) = frag_len f" "0 < frag_len f"
    by (simp_all add: length_frag_bytes frag_len_pos)
  with 2 show ?case by (auto split: if_splits)
qed (auto split: if_splits)

lemma trim_head_chunks:
  assumes "trim_head n b w = Some (b', w')" and "wf_buf b"
  shows "chunks b' = trim_chunks n (chunks b)"
proof -
  obtain l gs where loop: "trim_head_loop n (fragments b) w = Some (l, gs, w')"
    and frags: "Some (fragments b') = (if 0 < l then
          (case gs of [] \<Rightarrow> None | f # fs \<Rightarrow> Some (f\<lparr>range_start := range_start f + l\<rparr> # fs)) else Some gs)"
    using assms(1) by (auto simp: trim_head_def bind_eq_Some_conv)
  have "returns (trim_head_loop n (fragments b) w) (\<lambda>(l, gs, w'). (\<forall>g \<in> set gs. wf_frag g) \<and> (0 < l \<longrightarrow> gs \<noteq> [] \<and> l < frag_len (hd gs)))"
    using assms trim_head_loop_returns [OF wf_buf_frags [OF assms(2)], of n w]
    by (auto simp: trim_head_def bind_eq_Some_conv length_chain_bytes wf_buf_def elim!: returns_conseq)
  then have "\<forall>g \<in> set gs. wf_frag g" "0 < l \<longrightarrow> gs \<noteq> [] \<and> l < frag_len (hd gs)"
    using loop by simp_all
  then show ?thesis
    using trim_head_loop_chunks [OF loop wf_buf_frags [OF assms(2)]] frags
    by (auto simp: chunks_def wf_frag_trim_start split: list.splits if_splits)
qed

lemma finishes_trim_head [buf_rules]:
  assumes "wf_buf b" and "n \<le> buf_length b" and "pool_ok w" and "nfrags b \<le> k"
    and "\<And>b' w'. wf_buf b' \<Longrightarrow> chunks b' = trim_chunks n (chunks b) \<Longrightarrow> concat (chunks b') = drop n (concat (chunks b)) \<Longrightarrow>
      buf_length b' = buf_length b - n \<Longrightarrow> pool_ok w' \<Longrightarrow>
      finishes w' (k - nfrags b + nfrags b') (f (b', w'))"
  shows "finishes w k (Option.bind (trim_head n b w) f)"
proof (rule finishes_bind [OF _ assms(4,3)])
  obtain c v where run: "trim_head n b w = Some (c, v)" and c: "wf_buf c" "contents c = drop n (contents b)" "pool_step w (nfrags b) v (nfrags c)"
    using trim_head_returns [OF assms(1), of n w] assms(1,2) by (auto simp: length_contents elim!: returnsE)
  then show "returns (trim_head n b w) (\<lambda>(b', w'). (wf_buf b' \<and> chunks b' = trim_chunks n (chunks b) \<and>
      concat (chunks b') = drop n (concat (chunks b)) \<and> buf_length b' = buf_length b - n) \<and> pool_step w (nfrags b) w' (nfrags b'))"
    using trim_head_chunks [OF run assms(1)] length_contents [OF c(1)] length_contents [OF assms(1)]
    by (simp flip: contents_chunks)
qed (use assms(5) in blast)

lemma finishes_trim_tail [buf_rules]:
  assumes "wf_buf b" and "n \<le> buf_length b" and "pool_ok w" and "nfrags b \<le> k"
    and "\<And>b' w'. wf_buf b' \<Longrightarrow> concat (chunks b') = take (buf_length b - n) (concat (chunks b)) \<Longrightarrow>
      buf_length b' = buf_length b - n \<Longrightarrow> pool_ok w' \<Longrightarrow>
      finishes w' (k - nfrags b + nfrags b') (f (b', w'))"
  shows "finishes w k (Option.bind (trim_tail n b w) f)"
proof (rule finishes_bind [OF _ assms(4,3)])
  obtain c v where run: "trim_tail n b w = Some (c, v)" and c: "wf_buf c" "contents c = take (length (contents b) - n) (contents b)"
      "pool_step w (nfrags b) v (nfrags c)"
    using trim_tail_returns [OF assms(1), of n w] assms(1,2) by (auto simp: length_contents elim!: returnsE)
  then show "returns (trim_tail n b w) (\<lambda>(b', w'). (wf_buf b' \<and>
      concat (chunks b') = take (buf_length b - n) (concat (chunks b)) \<and> buf_length b' = buf_length b - n) \<and> pool_step w (nfrags b) w' (nfrags b'))"
    using length_contents [OF c(1)] length_contents [OF assms(1)] by (simp flip: contents_chunks)
qed (use assms(5) in blast)

lemma finishes_new_prealloc [buf_rules]:
  assumes "pool_ok w" and "n \<le> USIZE_MAX"
    and "\<And>b w'. wf_buf b \<Longrightarrow> buf_length b = n \<Longrightarrow> pool_ok w' \<Longrightarrow> finishes w' (k + nfrags b) (f (b, w'))"
  shows "finishes w k (Option.bind (new_prealloc n w) f)"
proof -
  have "returns (new_prealloc n w) (\<lambda>(b, w'). (wf_buf b \<and> buf_length b = n) \<and> pool_step w (nfrags NetBuffer_new) w' (nfrags b))"
    using new_prealloc_returns [OF assms(1,2)] length_contents by (auto elim!: returns_conseq)
  from finishes_bind [OF this _ assms(1), of k f] show ?thesis
    using assms(3) by simp
qed

lemma finishes_header [buf_rules]:
  assumes "wf_buf b" and "chunks b \<noteq> []" and "finishes w k (f (hd (chunks b)))"
  shows "finishes w k (Option.bind (header b) f)"
  using assms header_Some [of b] by (simp add: head_bytes_chunks chunks_eq_Nil)

lemma finishes_header_mut [buf_rules]:
  assumes "wf_buf b" and "chunks b \<noteq> []"
    and "returns (g (hd (chunks b))) (\<lambda>s. length s = length (hd (chunks b)) \<and>
      (\<forall>b'. wf_buf b' \<longrightarrow> chunks b' = s # tl (chunks b) \<longrightarrow> buf_length b' = buf_length b \<longrightarrow> nfrags b' = nfrags b \<longrightarrow>
        range_start (hd (fragments b')) = range_start (hd (fragments b)) \<longrightarrow> finishes w k (f b')))"
  shows "finishes w k (Option.bind (header_mut g b) f)"
proof -
  have ne: "fragments b \<noteq> []" and hd: "head_bytes b = hd (chunks b)"
    using assms(2) by (simp_all add: chunks_eq_Nil head_bytes_chunks)
  obtain s where s: "g (hd (chunks b)) = Some s" "length s = length (hd (chunks b))"
    and rest: "\<And>b'. wf_buf b' \<Longrightarrow> chunks b' = s # tl (chunks b) \<Longrightarrow> buf_length b' = buf_length b \<Longrightarrow> nfrags b' = nfrags b \<Longrightarrow>
        range_start (hd (fragments b')) = range_start (hd (fragments b)) \<Longrightarrow> finishes w k (f b')"
    using assms(3) by (auto elim!: returnsE)
  have "returns (header_mut g b) (\<lambda>b'. wf_buf b' \<and> head_bytes b' = s \<and> fragments b' \<noteq> [] \<and>
     tl (fragments b') = tl (fragments b) \<and> buf_length b' = buf_length b \<and>
     range_start (hd (fragments b')) = range_start (hd (fragments b)))"
    using header_mut_returns [OF assms(1) ne, of g s] s hd by (auto elim!: returns_conseq)
  then obtain b' where b': "header_mut g b = Some b'" "wf_buf b'" "head_bytes b' = s" "fragments b' \<noteq> []"
     "tl (fragments b') = tl (fragments b)" "buf_length b' = buf_length b"
     "range_start (hd (fragments b')) = range_start (hd (fragments b))"
    by (auto elim!: returnsE)
  have "chunks b' = s # tl (chunks b)"
    using b'(3-5) ne by (cases "fragments b'"; cases "fragments b") (simp_all add: chunks_def head_bytes_def)
  moreover have "nfrags b' = nfrags b"
    using b'(4,5) ne by (cases "fragments b'"; cases "fragments b") simp_all
  ultimately show ?thesis
    using b' rest by simp
qed

lemma finishes_copy_to_slice [buf_rules]:
  assumes "wf_buf b"
    and "finishes w k (f (min (length dest) (buf_length b),
      take (min (length dest) (buf_length b)) (concat (chunks b)) @ drop (min (length dest) (buf_length b)) dest))"
  shows "finishes w k (Option.bind (copy_to_slice dest b) f)"
  using copy_to_slice_Some [OF assms(1), of dest] length_contents [OF assms(1)] assms(2) by (simp add: contents_chunks)

text \<open>What an iterator will still lend.\<close>

definition lent :: "BufferIterator \<Rightarrow> bytes list" where
  "lent it = cut (remaining it) (map frag_bytes (current_frag it))"

definition iter_ok :: "BufferIterator \<Rightarrow> bool" where
  "iter_ok it \<longleftrightarrow> (\<forall>f \<in> set (current_frag it). wf_frag f)"

lemma iter_ok_iter [simp]: "wf_buf b \<Longrightarrow> iter_ok (iter n b)" "lent (iter n b) = cut n (chunks b)"
  by (simp_all add: iter_ok_def lent_def iter_def chunks_def wf_buf_frags)

lemma finishes_iter_next [buf_rules]:
  assumes "iter_ok it"
    and "\<And>it'. iter_ok it' \<Longrightarrow> lent it' = tl (lent it) \<Longrightarrow>
      finishes w k (f (if lent it = [] then None else Some (hd (lent it)), it'))"
  shows "finishes w k (Option.bind (iter_next it) f)"
proof (cases it)
  case (fields fs r)
  show ?thesis
  proof (cases "fs = [] \<or> r = 0")
    case True
    then have "lent it = []"
      by (cases fs) (auto simp: fields lent_def)
    with True assms show ?thesis
      using iter_next_done [OF True] by (simp add: fields)
  next
    case False
    then obtain g gs where fs: "fs = g # gs" and "0 < r"
      by (cases fs) auto
    moreover have "wf_frag g" "\<forall>f \<in> set gs. wf_frag f"
      using assms(1) by (simp_all add: fields fs iter_ok_def)
    ultimately show ?thesis
      using assms(2) [of "\<lparr>current_frag = gs, remaining = r - frag_len g\<rparr>"]
      by (simp add: fields lent_def iter_ok_def iter_next_Cons length_frag_bytes)
  qed
qed

end
