(* ===== verification/Buf_Tests.thy ===== *)
theory Buf_Tests
  imports Buf_Rules
begin

text \<open>
  The unit tests of \<open>src/src/stack/buf.rs\<close>, run on the model. A test starts with whatever the pool holds,
  since the tests of a crate run in parallel on one pool; it ends with the destructors of its local
  buffers, so that the result tells whether every fragment is back in the pool, the check that the
  comment at the head of the module had to give up.
\<close>

definition counting :: "nat \<Rightarrow> bytes" where
  "counting n = map of_nat [0..<n]"

definition for_all :: "nat \<Rightarrow> (nat \<Rightarrow> bool) \<Rightarrow> bool" where
  "for_all n P = list_all P [0..<n]"

section \<open>Preallocation and iteration\<close>

definition test_new_prealloc :: "'a buf_world_scheme \<Rightarrow> 'a buf_world_scheme option" where
  "test_new_prealloc w = do {
     (buf, w) \<leftarrow> new_prealloc 1000 w;
     assert_that (buf_length buf = 1000);
     assert_that (\<not> is_empty buf);
     assert_that (validate_buffer buf);
     Some (drop_buffer buf w)
   }"

definition test_new_prealloc_zero :: "'a buf_world_scheme \<Rightarrow> 'a buf_world_scheme option" where
  "test_new_prealloc_zero w = do {
     (buf, w) \<leftarrow> new_prealloc 0 w;
     assert_that (buf_length buf = 0);
     assert_that (is_empty buf);
     assert_that (validate_buffer buf);
     Some (drop_buffer buf w)
   }"

definition test_iter1 :: "'a buf_world_scheme \<Rightarrow> 'a buf_world_scheme option" where
  "test_iter1 w = do {
     (buf, w) \<leftarrow> append_from_slice (replicate 512 1) NetBuffer_new w;
     (buf, w) \<leftarrow> append_from_slice (replicate 512 2) buf w;
     (buf, w) \<leftarrow> append_from_slice (replicate 512 3) buf w;
     let it = iter 1500 buf;
     (s, it) \<leftarrow> iter_next it;
     slice1 \<leftarrow> s;
     assert_that (length slice1 = 512);
     assert_that (index slice1 0 = Some 1);
     assert_that (index slice1 511 = Some 1);
     (s, it) \<leftarrow> iter_next it;
     slice2 \<leftarrow> s;
     assert_that (length slice2 = 512);
     assert_that (index slice2 0 = Some 2);
     assert_that (index slice2 511 = Some 2);
     (s, it) \<leftarrow> iter_next it;
     slice3 \<leftarrow> s;
     assert_that (length slice3 = 476);
     assert_that (index slice3 0 = Some 3);
     assert_that (index slice3 475 = Some 3);
     (s, it) \<leftarrow> iter_next it;
     assert_that (s = None);
     Some (drop_buffer buf w)
   }"

definition test_iter2 :: "'a buf_world_scheme \<Rightarrow> 'a buf_world_scheme option" where
  "test_iter2 w = do {
     (buf, w) \<leftarrow> append_from_slice (replicate 512 1) NetBuffer_new w;
     (s, it) \<leftarrow> iter_next (iter 0 buf);
     assert_that (s = None);
     Some (drop_buffer buf w)
   }"

definition test_iter_empty :: "'a buf_world_scheme \<Rightarrow> 'a buf_world_scheme option" where
  "test_iter_empty w = do {
     let buf = NetBuffer_new;
     (s, it) \<leftarrow> iter_next (iter USIZE_MAX buf);
     assert_that (s = None);
     Some (drop_buffer buf w)
   }"

section \<open>Headers\<close>

definition test_header :: "'a buf_world_scheme \<Rightarrow> 'a buf_world_scheme option" where
  "test_header w = do {
     (buf, w) \<leftarrow> append_from_slice (replicate 512 1) NetBuffer_new w;
     (buf, w) \<leftarrow> alloc_header 20 buf w;
     h \<leftarrow> header buf;
     assert_that (length h = 20);
     assert_that (index h 0 = Some 0);
     assert_that (index h 19 = Some 0);
     Some (drop_buffer buf w)
   }"

definition test_header_empty :: "'a buf_world_scheme \<Rightarrow> 'a buf_world_scheme option" where
  "test_header_empty w = do {
     let buf = NetBuffer_new;
     _ \<leftarrow> header buf;
     Some (drop_buffer buf w)
   }"

definition test_header_mut :: "'a buf_world_scheme \<Rightarrow> 'a buf_world_scheme option" where
  "test_header_mut w = do {
     (buf, w) \<leftarrow> append_from_slice (replicate 512 1) NetBuffer_new w;
     (buf, w) \<leftarrow> alloc_header 20 buf w;
     buf \<leftarrow> header_mut (\<lambda>h. do { h \<leftarrow> store 0 0xcc h; store 19 0x55 h }) buf;
     (_, dest) \<leftarrow> copy_to_slice (replicate 512 0) buf;
     assert_that (index dest 0 = Some 0xcc);
     assert_that (index dest 19 = Some 0x55);
     assert_that (index dest 20 = Some 1);
     Some (drop_buffer buf w)
   }"

definition test_header_mut_empty :: "'a buf_world_scheme \<Rightarrow> 'a buf_world_scheme option" where
  "test_header_mut_empty w = do {
     buf \<leftarrow> header_mut (\<lambda>h. Some h) NetBuffer_new;
     Some (drop_buffer buf w)
   }"

definition test_alloc_header :: "'a buf_world_scheme \<Rightarrow> 'a buf_world_scheme option" where
  "test_alloc_header w = do {
     (buf, w) \<leftarrow> append_from_slice (replicate 100 1) NetBuffer_new w;
     assert_that (buf_length buf = 100);
     assert_that (validate_buffer buf);
     (buf, w) \<leftarrow> alloc_header 20 buf w;
     assert_that (buf_length buf = 120);
     assert_that (validate_buffer buf);
     buf \<leftarrow> header_mut (\<lambda>h. do { h \<leftarrow> store 0 1 h; store 19 2 h }) buf;
     (buf, w) \<leftarrow> alloc_header 20 buf w;
     assert_that (buf_length buf = 140);
     assert_that (validate_buffer buf);
     buf \<leftarrow> header_mut (\<lambda>h. do { h \<leftarrow> store 0 3 h; store 19 4 h }) buf;
     h \<leftarrow> header buf;
     assert_that (index h 0 = Some 3);
     assert_that (index h 19 = Some 4);
     assert_that (index h 20 = Some 1);
     assert_that (index h 39 = Some 2);
     Some (drop_buffer buf w)
   }"

definition test_alloc_header_empty :: "'a buf_world_scheme \<Rightarrow> 'a buf_world_scheme option" where
  "test_alloc_header_empty w = do {
     let buf = NetBuffer_new;
     assert_that (is_empty buf);
     (buf, w) \<leftarrow> alloc_header 20 buf w;
     assert_that (\<not> is_empty buf);
     assert_that (buf_length buf = 20);
     assert_that (\<not> is_empty buf);
     assert_that (validate_buffer buf);
     Some (drop_buffer buf w)
   }"

definition test_alloc_header_too_large :: "'a buf_world_scheme \<Rightarrow> 'a buf_world_scheme option" where
  "test_alloc_header_too_large w = do {
     (buf, w) \<leftarrow> alloc_header 1000 NetBuffer_new w;
     Some (drop_buffer buf w)
   }"

section \<open>Trimming\<close>

definition test_trim_head1 :: "'a buf_world_scheme \<Rightarrow> 'a buf_world_scheme option" where
  "test_trim_head1 w = do {
     (buf, w) \<leftarrow> append_from_slice (counting 512) NetBuffer_new w;
     assert_that (buf_length buf = 512);
     (buf, w) \<leftarrow> trim_head 20 buf w;
     assert_that (buf_length buf = 492);
     assert_that (validate_buffer buf);
     assert_that (\<not> is_empty buf);
     (_, dest) \<leftarrow> copy_to_slice (replicate 512 0) buf;
     assert_that (for_all 492 (\<lambda>i. index dest i = Some (of_nat (i + 20))));
     Some (drop_buffer buf w)
   }"

definition test_trim_head2 :: "'a buf_world_scheme \<Rightarrow> 'a buf_world_scheme option" where
  "test_trim_head2 w = do {
     (buf, w) \<leftarrow> append_from_slice (counting 512) NetBuffer_new w;
     assert_that (buf_length buf = 512);
     (buf, w) \<leftarrow> alloc_header 20 buf w;
     (buf, w) \<leftarrow> trim_head 40 buf w;
     assert_that (buf_length buf = 492);
     assert_that (\<not> is_empty buf);
     assert_that (validate_buffer buf);
     h \<leftarrow> header buf;
     assert_that (index h 0 = Some 20);
     assert_that (index h 5 = Some 25);
     Some (drop_buffer buf w)
   }"

definition test_trim_head_entire_buffer :: "'a buf_world_scheme \<Rightarrow> 'a buf_world_scheme option" where
  "test_trim_head_entire_buffer w = do {
     (buf, w) \<leftarrow> append_from_slice [1, 2, 3, 4, 5] NetBuffer_new w;
     assert_that (buf_length buf = 5);
     (buf, w) \<leftarrow> trim_head 5 buf w;
     assert_that (buf_length buf = 0);
     assert_that (is_empty buf);
     assert_that (validate_buffer buf);
     Some (drop_buffer buf w)
   }"

definition test_trim_head_larger :: "'a buf_world_scheme \<Rightarrow> 'a buf_world_scheme option" where
  "test_trim_head_larger w = do {
     (buf, w) \<leftarrow> append_from_slice [1, 2, 3, 4, 5] NetBuffer_new w;
     assert_that (buf_length buf = 5);
     (buf, w) \<leftarrow> trim_head 6 buf w;
     Some (drop_buffer buf w)
   }"

definition test_trim_head_zero :: "'a buf_world_scheme \<Rightarrow> 'a buf_world_scheme option" where
  "test_trim_head_zero w = do {
     (buf, w) \<leftarrow> append_from_slice [1, 2, 3, 4, 5] NetBuffer_new w;
     assert_that (buf_length buf = 5);
     (buf, w) \<leftarrow> trim_head 0 buf w;
     assert_that (buf_length buf = 5);
     assert_that (\<not> is_empty buf);
     assert_that (validate_buffer buf);
     Some (drop_buffer buf w)
   }"

definition test_trim_tail :: "'a buf_world_scheme \<Rightarrow> 'a buf_world_scheme option" where
  "test_trim_tail w = do {
     (buf, w) \<leftarrow> append_from_slice (counting 512) NetBuffer_new w;
     assert_that (buf_length buf = 512);
     (buf, w) \<leftarrow> trim_tail 20 buf w;
     assert_that (buf_length buf = 492);
     assert_that (validate_buffer buf);
     (_, dest) \<leftarrow> copy_to_slice (replicate 512 0) buf;
     assert_that (for_all 492 (\<lambda>i. index dest i = Some (of_nat i)));
     Some (drop_buffer buf w)
   }"

definition test_trim_tail2 :: "'a buf_world_scheme \<Rightarrow> 'a buf_world_scheme option" where
  "test_trim_tail2 w = do {
     (buf, w) \<leftarrow> append_from_slice (replicate 512 1) NetBuffer_new w;
     assert_that (buf_length buf = 512);
     (buf, w) \<leftarrow> append_from_slice (replicate 20 2) buf w;
     assert_that (buf_length buf = 532);
     (buf, w) \<leftarrow> trim_tail 40 buf w;
     assert_that (buf_length buf = 492);
     assert_that (validate_buffer buf);
     (_, dest) \<leftarrow> copy_to_slice (replicate 492 0) buf;
     assert_that (subslice 0 492 dest = Some (replicate 492 1));
     Some (drop_buffer buf w)
   }"

definition test_trim_entire_buffer :: "'a buf_world_scheme \<Rightarrow> 'a buf_world_scheme option" where
  "test_trim_entire_buffer w = do {
     (buf, w) \<leftarrow> append_from_slice [1, 2, 3, 4, 5] NetBuffer_new w;
     assert_that (buf_length buf = 5);
     (buf, w) \<leftarrow> trim_tail 5 buf w;
     assert_that (buf_length buf = 0);
     assert_that (is_empty buf);
     assert_that (validate_buffer buf);
     Some (drop_buffer buf w)
   }"

definition test_trim_tail_larger :: "'a buf_world_scheme \<Rightarrow> 'a buf_world_scheme option" where
  "test_trim_tail_larger w = do {
     (buf, w) \<leftarrow> append_from_slice [1, 2, 3, 4, 5] NetBuffer_new w;
     assert_that (buf_length buf = 5);
     (buf, w) \<leftarrow> trim_tail 6 buf w;
     Some (drop_buffer buf w)
   }"

definition test_trim_tail_zero :: "'a buf_world_scheme \<Rightarrow> 'a buf_world_scheme option" where
  "test_trim_tail_zero w = do {
     (buf, w) \<leftarrow> append_from_slice [1, 2, 3, 4, 5] NetBuffer_new w;
     assert_that (buf_length buf = 5);
     (buf, w) \<leftarrow> trim_tail 0 buf w;
     assert_that (buf_length buf = 5);
     assert_that (validate_buffer buf);
     Some (drop_buffer buf w)
   }"

section \<open>Appending and copying\<close>

definition test_append_from_slice :: "'a buf_world_scheme \<Rightarrow> 'a buf_world_scheme option" where
  "test_append_from_slice w = do {
     (buf, w) \<leftarrow> append_from_slice [1, 2, 3, 4, 5] NetBuffer_new w;
     assert_that (buf_length buf = 5);
     assert_that (validate_buffer buf);
     (buf, w) \<leftarrow> append_from_slice [6, 7, 8, 9, 10] buf w;
     assert_that (buf_length buf = 10);
     assert_that (validate_buffer buf);
     (buf, w) \<leftarrow> append_from_slice [11, 12, 13, 14, 15] buf w;
     assert_that (buf_length buf = 15);
     assert_that (validate_buffer buf);
     (_, dest) \<leftarrow> copy_to_slice (replicate 15 0) buf;
     assert_that (dest = [1, 2, 3, 4, 5, 6, 7, 8, 9, 10, 11, 12, 13, 14, 15]);
     Some (drop_buffer buf w)
   }"

definition test_append_from_slice_zero :: "'a buf_world_scheme \<Rightarrow> 'a buf_world_scheme option" where
  "test_append_from_slice_zero w = do {
     (buf, w) \<leftarrow> append_from_slice [1, 2, 3, 4] NetBuffer_new w;
     assert_that (buf_length buf = 4);
     (buf, w) \<leftarrow> append_from_slice [] buf w;
     assert_that (buf_length buf = 4);
     assert_that (validate_buffer buf);
     Some (drop_buffer buf w)
   }"

definition test_grow_buffer :: "'a buf_world_scheme \<Rightarrow> 'a buf_world_scheme option" where
  "test_grow_buffer w = do {
     let slice1 = replicate 500 1;
     (buf, w) \<leftarrow> append_from_slice (replicate 500 1) NetBuffer_new w;
     assert_that (buf_length buf = 500);
     let slice2 = replicate 1500 2;
     (buf, w) \<leftarrow> append_from_slice (replicate 1500 2) buf w;
     assert_that (buf_length buf = 2000);
     assert_that (validate_buffer buf);
     (_, dest) \<leftarrow> copy_to_slice (replicate 2000 0) buf;
     assert_that (subslice 0 500 dest = Some slice1);
     assert_that (subslice 500 (length dest) dest = Some slice2);
     Some (drop_buffer buf w)
   }"

text \<open>The loop of \<open>test_grow_pool\<close>; the destructor of the vector runs those of its buffers in order.\<close>

fun grow_pool_loop :: "nat \<Rightarrow> NetBuffer list \<Rightarrow> 'a buf_world_scheme \<Rightarrow> (NetBuffer list \<times> 'a buf_world_scheme) option" where
  "grow_pool_loop 0 buflist w = Some (buflist, w)"
| "grow_pool_loop (Suc n) buflist w = do {
     (buffer, w) \<leftarrow> append_from_slice (replicate 512 1) NetBuffer_new w;
     grow_pool_loop n (buflist @ [buffer]) w
   }"

definition test_grow_pool :: "'a buf_world_scheme \<Rightarrow> 'a buf_world_scheme option" where
  "test_grow_pool w = do {
     (buflist, w) \<leftarrow> grow_pool_loop 32 [] w;
     Some (fold drop_buffer buflist w)
   }"

definition test_copy_to_slice1 :: "'a buf_world_scheme \<Rightarrow> 'a buf_world_scheme option" where
  "test_copy_to_slice1 w = do {
     (buf, w) \<leftarrow> append_from_slice [1, 2, 3, 4, 5, 6, 7, 8, 9, 10, 11, 12, 13, 14, 15] NetBuffer_new w;
     (copied, dest) \<leftarrow> copy_to_slice (replicate 20 0) buf;
     assert_that (dest = [1, 2, 3, 4, 5, 6, 7, 8, 9, 10, 11, 12, 13, 14, 15, 0, 0, 0, 0, 0]);
     assert_that (copied = 15);
     assert_that (buf_length buf = 15);
     Some (drop_buffer buf w)
   }"

definition test_copy_to_slice2 :: "'a buf_world_scheme \<Rightarrow> 'a buf_world_scheme option" where
  "test_copy_to_slice2 w = do {
     (buf, w) \<leftarrow> append_from_slice [1, 2, 3, 4, 5, 6, 7, 8, 9, 10, 11, 12, 13, 14, 15] NetBuffer_new w;
     (copied, dest) \<leftarrow> copy_to_slice (replicate 10 0) buf;
     assert_that (dest = [1, 2, 3, 4, 5, 6, 7, 8, 9, 10]);
     assert_that (copied = 10);
     Some (drop_buffer buf w)
   }"

definition test_copy_empty_buffer_to_slice :: "'a buf_world_scheme \<Rightarrow> 'a buf_world_scheme option" where
  "test_copy_empty_buffer_to_slice w = do {
     let buf = NetBuffer_new;
     (copied, dest) \<leftarrow> copy_to_slice (replicate 10 0) buf;
     assert_that (copied = 0);
     Some (drop_buffer buf w)
   }"

definition test_append_from_buffer :: "'a buf_world_scheme \<Rightarrow> 'a buf_world_scheme option" where
  "test_append_from_buffer w = do {
     (buf1, w) \<leftarrow> append_from_slice (replicate 512 1) NetBuffer_new w;
     (buf1, w) \<leftarrow> append_from_slice (replicate 512 2) buf1 w;
     (buf1, w) \<leftarrow> append_from_slice (replicate 512 3) buf1 w;
     assert_that (buf_length buf1 = 1536);
     (buf2, w) \<leftarrow> append_from_slice (replicate 512 4) NetBuffer_new w;
     (buf2, w) \<leftarrow> append_from_slice (replicate 512 5) buf2 w;
     (buf2, w) \<leftarrow> append_from_slice (replicate 512 6) buf2 w;
     (buf1, w) \<leftarrow> append_from_buffer buf2 1000 buf1 w;
     assert_that (buf_length buf1 = 2536);
     assert_that (validate_buffer buf1);
     assert_that (validate_buffer buf2);
     (_, dest) \<leftarrow> copy_to_slice (replicate 3000 0) buf1;
     assert_that (subslice 0 512 dest = Some (replicate 512 1));
     assert_that (subslice 512 1024 dest = Some (replicate 512 2));
     assert_that (subslice 1024 1536 dest = Some (replicate 512 3));
     assert_that (subslice 1536 2048 dest = Some (replicate 512 4));
     assert_that (subslice 2048 2536 dest = Some (replicate 488 5));
     assert_that (buf_length buf1 = 2536);
     Some (drop_buffer buf1 (drop_buffer buf2 w))
   }"

definition test_append_buffer1 :: "'a buf_world_scheme \<Rightarrow> 'a buf_world_scheme option" where
  "test_append_buffer1 w = do {
     (buf1, w) \<leftarrow> append_from_slice (replicate 512 1) NetBuffer_new w;
     (buf1, w) \<leftarrow> append_from_slice (replicate 512 2) buf1 w;
     (buf1, w) \<leftarrow> append_from_slice (replicate 512 3) buf1 w;
     assert_that (buf_length buf1 = 1536);
     (buf2, w) \<leftarrow> append_from_slice (replicate 512 4) NetBuffer_new w;
     (buf2, w) \<leftarrow> append_from_slice (replicate 512 5) buf2 w;
     (buf2, w) \<leftarrow> append_from_slice (replicate 512 6) buf2 w;
     assert_that (buf_length buf1 = 1536);
     buf1 \<leftarrow> append_buffer buf2 buf1;
     assert_that (buf_length buf1 = 3072);
     assert_that (validate_buffer buf1);
     (_, dest) \<leftarrow> copy_to_slice (replicate 1536 0) buf1;
     assert_that (subslice 0 512 dest = Some (replicate 512 1));
     assert_that (subslice 512 1024 dest = Some (replicate 512 2));
     assert_that (subslice 1024 1536 dest = Some (replicate 512 3));
     assert_that (buf_length buf1 = 3072);
     Some (drop_buffer buf1 w)
   }"

definition test_append_to_empty :: "'a buf_world_scheme \<Rightarrow> 'a buf_world_scheme option" where
  "test_append_to_empty w = do {
     let buf1 = NetBuffer_new;
     (buf2, w) \<leftarrow> append_from_slice (replicate 512 1) NetBuffer_new w;
     buf1 \<leftarrow> append_buffer buf2 buf1;
     assert_that (buf_length buf1 = 512);
     assert_that (validate_buffer buf1);
     (_, dest) \<leftarrow> copy_to_slice (replicate 512 0) buf1;
     assert_that (subslice 0 512 dest = Some (replicate 512 1));
     Some (drop_buffer buf1 w)
   }"

definition test_append_empty_buffer :: "'a buf_world_scheme \<Rightarrow> 'a buf_world_scheme option" where
  "test_append_empty_buffer w = do {
     (buf1, w) \<leftarrow> append_from_slice [1, 2, 3, 4, 5] NetBuffer_new w;
     assert_that (buf_length buf1 = 5);
     let buf2 = NetBuffer_new;
     buf1 \<leftarrow> append_buffer buf2 buf1;
     assert_that (buf_length buf1 = 5);
     assert_that (validate_buffer buf1);
     (_, dest) \<leftarrow> copy_to_slice (replicate 5 0) buf1;
     assert_that (dest = [1, 2, 3, 4, 5]);
     Some (drop_buffer buf1 w)
   }"

definition test_append_empty_to_empty :: "'a buf_world_scheme \<Rightarrow> 'a buf_world_scheme option" where
  "test_append_empty_to_empty w = do {
     let buf1 = NetBuffer_new;
     let buf2 = NetBuffer_new;
     buf1 \<leftarrow> append_buffer buf2 buf1;
     assert_that (buf_length buf1 = 0);
     assert_that (validate_buffer buf1);
     Some (drop_buffer buf1 w)
   }"

section \<open>The life of a packet\<close>

definition test_receive_flow :: "'a buf_world_scheme \<Rightarrow> 'a buf_world_scheme option" where
  "test_receive_flow w = do {
     (buf, w) \<leftarrow> append_from_slice (counting 512) NetBuffer_new w;
     assert_that (buf_length buf = 512);
     x \<leftarrow> header buf;
     assert_that (index x 5 = Some 5);
     (buf, w) \<leftarrow> trim_head 40 buf w;
     assert_that (buf_length buf = 472);
     y \<leftarrow> header buf;
     assert_that (index y 0 = Some 40);
     (buf, w) \<leftarrow> trim_head 20 buf w;
     assert_that (buf_length buf = 452);
     assert_that (validate_buffer buf);
     receive_queue \<leftarrow> append_buffer buf NetBuffer_new;
     assert_that (buf_length receive_queue = 452);
     assert_that (validate_buffer receive_queue);
     (_, dest) \<leftarrow> copy_to_slice (replicate 452 0) receive_queue;
     assert_that (for_all 452 (\<lambda>i. index dest i = Some (of_nat (i + 60))));
     (receive_queue, w) \<leftarrow> trim_head 452 receive_queue w;
     assert_that (buf_length receive_queue = 0);
     assert_that (validate_buffer receive_queue);
     Some (drop_buffer receive_queue w)
   }"

definition test_transmit_flow :: "'a buf_world_scheme \<Rightarrow> 'a buf_world_scheme option" where
  "test_transmit_flow w = do {
     (buf, w) \<leftarrow> append_from_slice (counting 512) NetBuffer_new w;
     assert_that (buf_length buf = 512);
     (buf, w) \<leftarrow> alloc_header 40 buf w;
     assert_that (buf_length buf = 552);
     buf \<leftarrow> header_mut (\<lambda>x. do { x \<leftarrow> store 0 100 x; store 39 102 x }) buf;
     (buf, w) \<leftarrow> alloc_header 20 buf w;
     assert_that (buf_length buf = 572);
     buf \<leftarrow> header_mut (\<lambda>y. do { y \<leftarrow> store 0 103 y; store 19 104 y }) buf;
     assert_that (validate_buffer buf);
     (_, out_data) \<leftarrow> copy_to_slice (replicate 572 0) buf;
     assert_that (index out_data 0 = Some 103);
     assert_that (index out_data 19 = Some 104);
     assert_that (index out_data 20 = Some 100);
     assert_that (index out_data 59 = Some 102);
     assert_that (index out_data 60 = Some 0);
     assert_that (index out_data 67 = Some 7);
     assert_that (index out_data 570 = Some 254);
     assert_that (index out_data 571 = Some 255);
     Some (drop_buffer buf w)
   }"

section \<open>They pass\<close>

lemma length_counting [simp]: "length (counting n) = n"
  by (simp add: counting_def)

lemma nth_counting [simp]: "i < n \<Longrightarrow> counting n ! i = of_nat i"
  by (simp add: counting_def)

lemma counting_nonempty [simp]: "counting n = [] \<longleftrightarrow> n = 0"
  by (simp add: counting_def)

lemma for_all_iff [simp]: "for_all n P \<longleftrightarrow> (\<forall>i < n. P i)"
  by (auto simp: for_all_def list_all_iff)

lemma replicate_run [simp]: "replicate m x @ replicate n x = replicate (m + n) x"
  "replicate m x @ replicate n x @ ys = replicate (m + n) x @ ys"
  by (simp_all add: replicate_add)

lemma replicate_5 [simp]: "replicate 5 x = [x, x, x, x, x]"
  by (simp add: numeral_eq_Suc)

lemmas test_simps = FRAGMENT_SIZE_def USIZE_MAX_def is_empty_def wf_buf_validate packed_start nth_append chunks_eq_Nil [symmetric]

lemma test_new_prealloc_passes: "pool_ok w \<Longrightarrow> finishes w 0 (test_new_prealloc w)"
  unfolding test_new_prealloc_def by (auto intro!: buf_rules simp: test_simps)

lemma test_new_prealloc_zero_passes: "pool_ok w \<Longrightarrow> finishes w 0 (test_new_prealloc_zero w)"
  unfolding test_new_prealloc_zero_def by (auto intro!: buf_rules simp: test_simps)

lemma test_iter1_passes: "pool_ok w \<Longrightarrow> finishes w 0 (test_iter1 w)"
  unfolding test_iter1_def by (auto intro!: buf_rules simp: test_simps)

lemma test_iter2_passes: "pool_ok w \<Longrightarrow> finishes w 0 (test_iter2 w)"
  unfolding test_iter2_def by (auto intro!: buf_rules simp: test_simps)

lemma test_iter_empty_passes: "pool_ok w \<Longrightarrow> finishes w 0 (test_iter_empty w)"
  unfolding test_iter_empty_def by (auto intro!: buf_rules simp: test_simps)

lemma test_header_passes: "pool_ok w \<Longrightarrow> finishes w 0 (test_header w)"
  unfolding test_header_def by (auto intro!: buf_rules simp: test_simps)

lemma test_header_mut_passes: "pool_ok w \<Longrightarrow> finishes w 0 (test_header_mut w)"
  unfolding test_header_mut_def by (auto intro!: buf_rules simp: test_simps)

lemma test_alloc_header_passes: "pool_ok w \<Longrightarrow> finishes w 0 (test_alloc_header w)"
  unfolding test_alloc_header_def by (auto intro!: buf_rules simp: test_simps)

lemma test_alloc_header_empty_passes: "pool_ok w \<Longrightarrow> finishes w 0 (test_alloc_header_empty w)"
  unfolding test_alloc_header_empty_def by (auto intro!: buf_rules simp: test_simps)

lemma test_trim_head1_passes: "pool_ok w \<Longrightarrow> finishes w 0 (test_trim_head1 w)"
  unfolding test_trim_head1_def by (auto intro!: buf_rules simp: test_simps)

lemma test_trim_head2_passes: "pool_ok w \<Longrightarrow> finishes w 0 (test_trim_head2 w)"
  unfolding test_trim_head2_def by (auto intro!: buf_rules simp: test_simps)

lemma test_trim_head_entire_buffer_passes: "pool_ok w \<Longrightarrow> finishes w 0 (test_trim_head_entire_buffer w)"
  unfolding test_trim_head_entire_buffer_def by (auto intro!: buf_rules simp: test_simps)

lemma test_trim_head_zero_passes: "pool_ok w \<Longrightarrow> finishes w 0 (test_trim_head_zero w)"
  unfolding test_trim_head_zero_def by (auto intro!: buf_rules simp: test_simps)

lemma test_trim_tail_passes: "pool_ok w \<Longrightarrow> finishes w 0 (test_trim_tail w)"
  unfolding test_trim_tail_def by (auto intro!: buf_rules simp: test_simps)

lemma test_trim_tail2_passes: "pool_ok w \<Longrightarrow> finishes w 0 (test_trim_tail2 w)"
  unfolding test_trim_tail2_def by (auto intro!: buf_rules simp: test_simps)

lemma test_trim_entire_buffer_passes: "pool_ok w \<Longrightarrow> finishes w 0 (test_trim_entire_buffer w)"
  unfolding test_trim_entire_buffer_def by (auto intro!: buf_rules simp: test_simps)

lemma test_trim_tail_zero_passes: "pool_ok w \<Longrightarrow> finishes w 0 (test_trim_tail_zero w)"
  unfolding test_trim_tail_zero_def by (auto intro!: buf_rules simp: test_simps)

lemma test_append_from_slice_passes: "pool_ok w \<Longrightarrow> finishes w 0 (test_append_from_slice w)"
  unfolding test_append_from_slice_def by (auto intro!: buf_rules simp: test_simps)

lemma test_append_from_slice_zero_passes: "pool_ok w \<Longrightarrow> finishes w 0 (test_append_from_slice_zero w)"
  unfolding test_append_from_slice_zero_def by (auto intro!: buf_rules simp: test_simps)

lemma test_grow_buffer_passes: "pool_ok w \<Longrightarrow> finishes w 0 (test_grow_buffer w)"
  unfolding test_grow_buffer_def by (auto intro!: buf_rules simp: test_simps)

lemma test_copy_to_slice1_passes: "pool_ok w \<Longrightarrow> finishes w 0 (test_copy_to_slice1 w)"
  unfolding test_copy_to_slice1_def by (auto intro!: buf_rules simp: test_simps)

lemma test_copy_to_slice2_passes: "pool_ok w \<Longrightarrow> finishes w 0 (test_copy_to_slice2 w)"
  unfolding test_copy_to_slice2_def by (auto intro!: buf_rules simp: test_simps)

lemma test_copy_empty_buffer_to_slice_passes: "pool_ok w \<Longrightarrow> finishes w 0 (test_copy_empty_buffer_to_slice w)"
  unfolding test_copy_empty_buffer_to_slice_def by (auto intro!: buf_rules simp: test_simps)

lemma test_append_from_buffer_passes: "pool_ok w \<Longrightarrow> finishes w 0 (test_append_from_buffer w)"
  unfolding test_append_from_buffer_def by (auto intro!: buf_rules simp: test_simps)

lemma test_append_buffer1_passes: "pool_ok w \<Longrightarrow> finishes w 0 (test_append_buffer1 w)"
  unfolding test_append_buffer1_def by (auto intro!: buf_rules simp: test_simps)

lemma test_append_to_empty_passes: "pool_ok w \<Longrightarrow> finishes w 0 (test_append_to_empty w)"
  unfolding test_append_to_empty_def by (auto intro!: buf_rules simp: test_simps)

lemma test_append_empty_buffer_passes: "pool_ok w \<Longrightarrow> finishes w 0 (test_append_empty_buffer w)"
  unfolding test_append_empty_buffer_def by (auto intro!: buf_rules simp: test_simps)

lemma test_append_empty_to_empty_passes: "pool_ok w \<Longrightarrow> finishes w 0 (test_append_empty_to_empty w)"
  unfolding test_append_empty_to_empty_def by (auto intro!: buf_rules simp: test_simps)

lemma test_receive_flow_passes: "pool_ok w \<Longrightarrow> finishes w 0 (test_receive_flow w)"
  unfolding test_receive_flow_def by (auto intro!: buf_rules simp: test_simps)

lemma test_transmit_flow_passes: "pool_ok w \<Longrightarrow> finishes w 0 (test_transmit_flow w)"
  unfolding test_transmit_flow_def by (auto intro!: buf_rules simp: test_simps)

lemma grow_pool_loop_finishes:
  assumes "\<forall>b \<in> set bs. wf_buf b" and "pool_ok w" and "k = sum_list (map nfrags bs)"
  shows "finishes w k (do { (bs, w) \<leftarrow> grow_pool_loop n bs w; Some (fold drop_buffer bs w) })"
  using assms
proof (induction n arbitrary: bs w k)
  case (Suc n)
  from Suc.prems show ?case
    by (auto intro!: finishes_append Suc.IH simp: USIZE_MAX_def)
qed (simp add: finishes_drop_all)

lemma test_grow_pool_passes: "pool_ok w \<Longrightarrow> finishes w 0 (test_grow_pool w)"
  unfolding test_grow_pool_def by (rule grow_pool_loop_finishes) simp_all

text \<open>The tests that have to panic.\<close>

lemma test_header_empty_panics: "test_header_empty w = None"
  by (simp add: test_header_empty_def header_None)

lemma test_header_mut_empty_panics: "test_header_mut_empty w = None"
  by (simp add: test_header_mut_empty_def header_mut_def)

lemma test_alloc_header_too_large_panics: "test_alloc_header_too_large w = None"
  by (simp add: test_alloc_header_too_large_def alloc_header_def FRAGMENT_SIZE_def)

lemma test_trim_head_larger_panics: "test_trim_head_larger w = None"
  by (auto simp: test_trim_head_larger_def bind_eq_None_conv trim_head_def split: prod.splits)

lemma test_trim_tail_larger_panics: "test_trim_tail_larger w = None"
  by (auto simp: test_trim_tail_larger_def bind_eq_None_conv trim_tail_def split: prod.splits)

section \<open>Property\<close>

text \<open>The tests of the module, and those of them that are marked \<open>should_panic\<close>.\<close>

definition buf_tests :: "('a buf_world_scheme \<Rightarrow> 'a buf_world_scheme option) list" where
  "buf_tests = [
     test_new_prealloc, test_new_prealloc_zero, test_iter1, test_iter2, test_iter_empty, test_header,
     test_header_mut, test_alloc_header, test_alloc_header_empty, test_trim_head1, test_trim_head2,
     test_trim_head_entire_buffer, test_trim_head_zero, test_trim_tail, test_trim_tail2,
     test_trim_entire_buffer, test_trim_tail_zero, test_append_from_slice, test_append_from_slice_zero,
     test_grow_buffer, test_grow_pool, test_copy_to_slice1, test_copy_to_slice2,
     test_copy_empty_buffer_to_slice, test_append_from_buffer, test_append_buffer1, test_append_to_empty,
     test_append_empty_buffer, test_append_empty_to_empty, test_receive_flow, test_transmit_flow]"

definition buf_panic_tests :: "('a buf_world_scheme \<Rightarrow> 'a buf_world_scheme option) list" where
  "buf_panic_tests = [
     test_header_empty, test_header_mut_empty, test_alloc_header_too_large, test_trim_head_larger,
     test_trim_tail_larger]"

lemmas buf_test_passes =
  test_new_prealloc_passes
  test_new_prealloc_zero_passes
  test_iter1_passes
  test_iter2_passes
  test_iter_empty_passes
  test_header_passes
  test_header_mut_passes
  test_alloc_header_passes
  test_alloc_header_empty_passes
  test_trim_head1_passes
  test_trim_head2_passes
  test_trim_head_entire_buffer_passes
  test_trim_head_zero_passes
  test_trim_tail_passes
  test_trim_tail2_passes
  test_trim_entire_buffer_passes
  test_trim_tail_zero_passes
  test_append_from_slice_passes
  test_append_from_slice_zero_passes
  test_grow_buffer_passes
  test_grow_pool_passes
  test_copy_to_slice1_passes
  test_copy_to_slice2_passes
  test_copy_empty_buffer_to_slice_passes
  test_append_from_buffer_passes
  test_append_buffer1_passes
  test_append_to_empty_passes
  test_append_empty_buffer_passes
  test_append_empty_to_empty_passes
  test_receive_flow_passes
  test_transmit_flow_passes

text \<open>
  Every unit test of \<open>buf.rs\<close> passes on the model, whatever state the pool is in when it starts,
  and at its end the pool has all its fragments back; the tests that are expected to panic do so.
\<close>

theorem buf_tests_pass:
  assumes "pool_ok w"
  shows "list_all (\<lambda>t. returns (t w) (\<lambda>r. pool_ok r \<and> (\<forall>k. balanced w k \<longrightarrow> balanced r k))) buf_tests \<and>
    list_all (\<lambda>t. t w = None) buf_panic_tests"
  unfolding buf_tests_def buf_panic_tests_def
  by (simp add: buf_test_passes [OF assms] finishes_balanced test_header_empty_panics test_header_mut_empty_panics
      test_alloc_header_too_large_panics test_trim_head_larger_panics test_trim_tail_larger_panics)

theorem buf_tests_pass_witness:
  "list_all (\<lambda>t. returns (t sample_pool) (\<lambda>r. balanced r 2)) buf_tests"
  using buf_tests_pass [OF sample_pool_ok(1)] sample_pool_ok(2)
  by (auto simp: list_all_iff elim!: returns_conseq)

end
