(* ===== verification/Tcp_Tests.thy ===== *)
theory Tcp_Tests
  imports Buf_Rules Reassembler
begin

text \<open>
  The unit tests of the reassembler in \<open>src/src/stack/tcp.rs\<close>, run on the model as those of \<open>buf.rs\<close> are.
\<close>

text \<open>The destructor of a reassembler is that of the vector of waiting segments.\<close>

definition drop_reassembler :: "TCPReassembler \<Rightarrow> 'a buf_world_scheme \<Rightarrow> 'a buf_world_scheme" where
  "drop_reassembler ra w = fold (\<lambda>(_, packet). drop_buffer packet) (out_of_order ra) w"

definition test_reassemble_inorder :: "'a buf_world_scheme \<Rightarrow> 'a buf_world_scheme option" where
  "test_reassemble_inorder w = do {
     let ra = set_next_expect 1234 TCPReassembler_new;
     (packet, w) \<leftarrow> append_from_slice [104, 101, 108, 108, 111] NetBuffer_new w;
     (result, ra, w) \<leftarrow> add_packet packet 1234 ra w;
     new_packet \<leftarrow> result;
     assert_that (get_next_expect ra = 1239);
     assert_that (buf_length new_packet = 5);
     (got, data) \<leftarrow> copy_to_slice (replicate 5 0) new_packet;
     assert_that (got = 5);
     Some (drop_reassembler ra (drop_buffer new_packet w))
   }"

definition test_reassemble_ooo :: "'a buf_world_scheme \<Rightarrow> 'a buf_world_scheme option" where
  "test_reassemble_ooo w = do {
     let ra = set_next_expect 1000 TCPReassembler_new;
     (packet1, w) \<leftarrow> append_from_slice (replicate 100 1) NetBuffer_new w;
     (packet2, w) \<leftarrow> append_from_slice (replicate 100 2) NetBuffer_new w;
     (result, ra, w) \<leftarrow> add_packet packet2 1100 ra w;
     assert_that (result = None);
     assert_that (get_next_expect ra = 1000);
     (result, ra, w) \<leftarrow> add_packet packet1 1000 ra w;
     new_packet \<leftarrow> result;
     assert_that (get_next_expect ra = 1200);
     assert_that (buf_length new_packet = 200);
     (_, data) \<leftarrow> copy_to_slice (replicate 200 0) new_packet;
     assert_that (index data 0 = Some 1);
     assert_that (index data 99 = Some 1);
     assert_that (index data 100 = Some 2);
     assert_that (index data 199 = Some 2);
     Some (drop_reassembler ra (drop_buffer new_packet w))
   }"

definition test_reassemble_stale1 :: "'a buf_world_scheme \<Rightarrow> 'a buf_world_scheme option" where
  "test_reassemble_stale1 w = do {
     let ra = set_next_expect 1000 TCPReassembler_new;
     (packet1, w) \<leftarrow> append_from_slice (replicate 100 1) NetBuffer_new w;
     (result, ra, w) \<leftarrow> add_packet packet1 900 ra w;
     assert_that (result = None);
     assert_that (get_next_expect ra = 1000);
     (packet2, w) \<leftarrow> append_from_slice (replicate 100 2) NetBuffer_new w;
     (result, ra, w) \<leftarrow> add_packet packet2 1000 ra w;
     new_packet \<leftarrow> result;
     assert_that (get_next_expect ra = 1100);
     assert_that (length (out_of_order ra) = 0);
     Some (drop_reassembler ra (drop_buffer new_packet w))
   }"

definition test_reassemble_stale2 :: "'a buf_world_scheme \<Rightarrow> 'a buf_world_scheme option" where
  "test_reassemble_stale2 w = do {
     let ra = set_next_expect 1000 TCPReassembler_new;
     (packet1, w) \<leftarrow> append_from_slice (replicate 100 1) NetBuffer_new w;
     (result, ra, w) \<leftarrow> add_packet packet1 1200 ra w;
     assert_that (result = None);
     assert_that (get_next_expect ra = 1000);
     (packet2, w) \<leftarrow> append_from_slice (replicate 100 2) NetBuffer_new w;
     (result, ra, w) \<leftarrow> add_packet packet2 900 ra w;
     assert_that (result = None);
     assert_that (get_next_expect ra = 1000);
     (packet3, w) \<leftarrow> append_from_slice (replicate 100 3) NetBuffer_new w;
     (result, ra, w) \<leftarrow> add_packet packet3 1000 ra w;
     new_packet \<leftarrow> result;
     assert_that (get_next_expect ra = 1100);
     assert_that (buf_length new_packet = 100);
     (_, data) \<leftarrow> copy_to_slice (replicate 100 0) new_packet;
     assert_that (index data 0 = Some 3);
     assert_that (index data 99 = Some 3);
     assert_that (length (out_of_order ra) = 1);
     Some (drop_reassembler ra (drop_buffer new_packet w))
   }"

definition test_reassemble_wrap :: "'a buf_world_scheme \<Rightarrow> 'a buf_world_scheme option" where
  "test_reassemble_wrap w = do {
     let ra = set_next_expect 0xffffff00 TCPReassembler_new;
     (packet1, w) \<leftarrow> append_from_slice (replicate 0x100 1) NetBuffer_new w;
     (result, ra, w) \<leftarrow> add_packet packet1 0xfffffe00 ra w;
     assert_that (result = None);
     (packet2, w) \<leftarrow> append_from_slice (replicate 0x200 2) NetBuffer_new w;
     (result, ra, w) \<leftarrow> add_packet packet2 0xffffff00 ra w;
     new_packet \<leftarrow> result;
     assert_that (get_next_expect ra = 0x100);
     assert_that (buf_length new_packet = 0x200);
     (_, data) \<leftarrow> copy_to_slice (replicate 0x200 0) new_packet;
     assert_that (index data 0 = Some 2);
     assert_that (index data 199 = Some 2);
     assert_that (length (out_of_order ra) = 0);
     Some (drop_reassembler ra (drop_buffer new_packet w))
   }"

definition test_reassemble_reorder_wrap :: "'a buf_world_scheme \<Rightarrow> 'a buf_world_scheme option" where
  "test_reassemble_reorder_wrap w = do {
     let ra = set_next_expect 0xfffffe00 TCPReassembler_new;
     (packet1, w) \<leftarrow> append_from_slice (replicate 0x200 1) NetBuffer_new w;
     (result, ra, w) \<leftarrow> add_packet packet1 0xffffff00 ra w;
     assert_that (result = None);
     (packet2, w) \<leftarrow> append_from_slice (replicate 0x100 2) NetBuffer_new w;
     (result, ra, w) \<leftarrow> add_packet packet2 0xfffffe00 ra w;
     new_packet \<leftarrow> result;
     assert_that (get_next_expect ra = 0x100);
     Some (drop_reassembler ra (drop_buffer new_packet w))
   }"

definition test_reassemble_multiple :: "'a buf_world_scheme \<Rightarrow> 'a buf_world_scheme option" where
  "test_reassemble_multiple w = do {
     let ra = set_next_expect 1000 TCPReassembler_new;
     (packet1, w) \<leftarrow> append_from_slice (replicate 100 1) NetBuffer_new w;
     (packet2, w) \<leftarrow> append_from_slice (replicate 100 2) NetBuffer_new w;
     (packet3, w) \<leftarrow> append_from_slice (replicate 100 3) NetBuffer_new w;
     (result, ra, w) \<leftarrow> add_packet packet2 1100 ra w;
     assert_that (result = None);
     assert_that (get_next_expect ra = 1000);
     (result, ra, w) \<leftarrow> add_packet packet3 1200 ra w;
     assert_that (result = None);
     assert_that (get_next_expect ra = 1000);
     (result, ra, w) \<leftarrow> add_packet packet1 1000 ra w;
     new_packet \<leftarrow> result;
     assert_that (get_next_expect ra = 1300);
     assert_that (buf_length new_packet = 300);
     (_, data) \<leftarrow> copy_to_slice (replicate 300 0) new_packet;
     assert_that (index data 0 = Some 1);
     assert_that (index data 99 = Some 1);
     assert_that (index data 100 = Some 2);
     assert_that (index data 199 = Some 2);
     assert_that (index data 200 = Some 3);
     assert_that (index data 299 = Some 3);
     Some (drop_reassembler ra (drop_buffer new_packet w))
   }"

definition test_reassemble_overlap1 :: "'a buf_world_scheme \<Rightarrow> 'a buf_world_scheme option" where
  "test_reassemble_overlap1 w = do {
     let ra = set_next_expect 1000 TCPReassembler_new;
     (packet2, w) \<leftarrow> append_from_slice (replicate 100 2) NetBuffer_new w;
     (result, ra, w) \<leftarrow> add_packet packet2 1100 ra w;
     assert_that (result = None);
     assert_that (get_next_expect ra = 1000);
     (packet1_prime, w) \<leftarrow> append_from_slice (replicate 150 3) NetBuffer_new w;
     (result, ra, w) \<leftarrow> add_packet packet1_prime 1000 ra w;
     new_packet \<leftarrow> result;
     assert_that (get_next_expect ra = 1150);
     assert_that (buf_length new_packet = 150);
     (_, data) \<leftarrow> copy_to_slice (replicate 150 0) new_packet;
     assert_that (index data 0 = Some 3);
     assert_that (index data 99 = Some 3);
     assert_that (index data 100 = Some 3);
     assert_that (index data 149 = Some 3);
     assert_that (length (out_of_order ra) = 1);
     Some (drop_reassembler ra (drop_buffer new_packet w))
   }"

definition test_reassemble_overlap2 :: "'a buf_world_scheme \<Rightarrow> 'a buf_world_scheme option" where
  "test_reassemble_overlap2 w = do {
     let ra = set_next_expect 1000 TCPReassembler_new;
     (packet3, w) \<leftarrow> append_from_slice (replicate 100 3) NetBuffer_new w;
     (result, ra, w) \<leftarrow> add_packet packet3 1200 ra w;
     assert_that (result = None);
     assert_that (get_next_expect ra = 1000);
     (packet2, w) \<leftarrow> append_from_slice (replicate 150 2) NetBuffer_new w;
     (result, ra, w) \<leftarrow> add_packet packet2 1100 ra w;
     assert_that (result = None);
     assert_that (get_next_expect ra = 1000);
     (packet1, w) \<leftarrow> append_from_slice (replicate 100 1) NetBuffer_new w;
     (result, ra, w) \<leftarrow> add_packet packet1 1000 ra w;
     new_packet \<leftarrow> result;
     assert_that (get_next_expect ra = 1250);
     assert_that (buf_length new_packet = 250);
     (_, data) \<leftarrow> copy_to_slice (replicate 250 0) new_packet;
     assert_that (index data 0 = Some 1);
     assert_that (index data 99 = Some 1);
     assert_that (index data 100 = Some 2);
     assert_that (index data 249 = Some 2);
     assert_that (length (out_of_order ra) = 1);
     Some (drop_reassembler ra (drop_buffer new_packet w))
   }"

section \<open>They pass\<close>

text \<open>The loop of \<open>add_packet\<close>, entry by entry.\<close>

lemma finishes_stale [buf_rules]:
  assumes "wf_buf e" and "pool_ok w" and "nfrags e \<le> k"
    and "\<And>w'. pool_ok w' \<Longrightarrow> finishes w' (k - nfrags e) (Option.bind (reassemble_loop q i p ra w') f)"
  shows "finishes w k (Option.bind (reassemble_loop q i p ra (drop_buffer e w)) f)"
  using finishes_drop_then [where f = "\<lambda>w. Option.bind (reassemble_loop q i p ra w) f"] assms by blast

lemma finishes_drop_three [buf_rules]:
  "wf_buf b \<Longrightarrow> wf_buf c \<Longrightarrow> wf_buf d \<Longrightarrow> pool_ok w \<Longrightarrow> k = nfrags b + nfrags c + nfrags d \<Longrightarrow>
   finishes w k (Some (drop_buffer d (drop_buffer c (drop_buffer b w))))"
  using finishes_drop_then [where f = "\<lambda>w. Some (drop_buffer d (drop_buffer c w))" and b = b and w = w and k = k]
  by (simp add: finishes_drop_both)

lemmas reassembler_simps = add_packet_def reassemble_loop.simps set_next_expect_def get_next_expect_def
  TCPReassembler_new_def seq_gt_def list_remove_def drop_reassembler_def bind_assoc

lemma test_reassemble_inorder_passes: "pool_ok w \<Longrightarrow> finishes w 0 (test_reassemble_inorder w)"
  unfolding test_reassemble_inorder_def
  by (auto intro!: buf_rules simp: FRAGMENT_SIZE_def USIZE_MAX_def nth_append reassembler_simps)

lemma test_reassemble_ooo_passes: "pool_ok w \<Longrightarrow> finishes w 0 (test_reassemble_ooo w)"
  unfolding test_reassemble_ooo_def
  by (auto intro!: buf_rules simp: FRAGMENT_SIZE_def USIZE_MAX_def nth_append reassembler_simps)

lemma test_reassemble_stale1_passes: "pool_ok w \<Longrightarrow> finishes w 0 (test_reassemble_stale1 w)"
  unfolding test_reassemble_stale1_def
  by (auto intro!: buf_rules simp: FRAGMENT_SIZE_def USIZE_MAX_def nth_append reassembler_simps)

lemma test_reassemble_stale2_passes: "pool_ok w \<Longrightarrow> finishes w 0 (test_reassemble_stale2 w)"
  unfolding test_reassemble_stale2_def
  by (auto intro!: buf_rules simp: FRAGMENT_SIZE_def USIZE_MAX_def nth_append reassembler_simps)

lemma test_reassemble_wrap_passes: "pool_ok w \<Longrightarrow> finishes w 0 (test_reassemble_wrap w)"
  unfolding test_reassemble_wrap_def
  by (auto intro!: buf_rules simp: FRAGMENT_SIZE_def USIZE_MAX_def nth_append reassembler_simps)

lemma test_reassemble_reorder_wrap_passes: "pool_ok w \<Longrightarrow> finishes w 0 (test_reassemble_reorder_wrap w)"
  unfolding test_reassemble_reorder_wrap_def
  by (auto intro!: buf_rules simp: FRAGMENT_SIZE_def USIZE_MAX_def nth_append reassembler_simps)

lemma test_reassemble_multiple_passes: "pool_ok w \<Longrightarrow> finishes w 0 (test_reassemble_multiple w)"
  unfolding test_reassemble_multiple_def
  by (auto intro!: buf_rules simp: FRAGMENT_SIZE_def USIZE_MAX_def nth_append reassembler_simps)

lemma test_reassemble_overlap1_passes: "pool_ok w \<Longrightarrow> finishes w 0 (test_reassemble_overlap1 w)"
  unfolding test_reassemble_overlap1_def
  by (auto intro!: buf_rules simp: FRAGMENT_SIZE_def USIZE_MAX_def nth_append reassembler_simps)

lemma test_reassemble_overlap2_passes: "pool_ok w \<Longrightarrow> finishes w 0 (test_reassemble_overlap2 w)"
  unfolding test_reassemble_overlap2_def
  by (auto intro!: buf_rules simp: FRAGMENT_SIZE_def USIZE_MAX_def nth_append reassembler_simps)

section \<open>Property\<close>

definition reassembler_tests :: "('a buf_world_scheme \<Rightarrow> 'a buf_world_scheme option) list" where
  "reassembler_tests = [
     test_reassemble_inorder, test_reassemble_ooo, test_reassemble_stale1, test_reassemble_stale2,
     test_reassemble_wrap, test_reassemble_reorder_wrap, test_reassemble_multiple,
     test_reassemble_overlap1, test_reassemble_overlap2]"

lemmas reassembler_test_passes =
  test_reassemble_inorder_passes
  test_reassemble_ooo_passes
  test_reassemble_stale1_passes
  test_reassemble_stale2_passes
  test_reassemble_wrap_passes
  test_reassemble_reorder_wrap_passes
  test_reassemble_multiple_passes
  test_reassemble_overlap1_passes
  test_reassemble_overlap2_passes

text \<open>
  Every unit test of the reassembler passes on the model, whatever state the pool is in when it
  starts, and gives every fragment back, those of the segments that were dropped, passed on or left
  waiting alike.
\<close>

theorem reassembler_tests_pass:
  assumes "pool_ok w"
  shows "list_all (\<lambda>t. returns (t w) (\<lambda>r. pool_ok r \<and> (\<forall>k. balanced w k \<longrightarrow> balanced r k))) reassembler_tests"
  unfolding reassembler_tests_def by (simp add: reassembler_test_passes [OF assms] finishes_balanced)

theorem reassembler_tests_pass_witness:
  "list_all (\<lambda>t. returns (t sample_pool) (\<lambda>r. balanced r 2)) reassembler_tests"
  using reassembler_tests_pass [OF sample_pool_ok(1)] sample_pool_ok(2)
  by (auto simp: list_all_iff elim!: returns_conseq)

end
