(* ===== verification/Util_Tests.thy ===== *)
theory Util_Tests
  imports Buf_Rules Transport Printing
begin

text \<open>
  The unit tests of \<open>src/src/stack/util.rs\<close>, run on the model: the tests of pure functions end or panic,
  those that fill a buffer start with any pool.
\<close>

section \<open>Checksums\<close>

definition test_compute_ones_comp :: "unit option" where
  "test_compute_ones_comp = do {
     assert_that (compute_ones_comp 0 [0x00, 0x00] = Some 0);
     assert_that (compute_ones_comp 0 [0x00, 0x01] = Some 0x1);
     assert_that (compute_ones_comp 0 [0x00, 0xff] = Some 0xff);
     assert_that (compute_ones_comp 0 [0xff, 0x23, 0xef, 0x55] = Some 0xee79)
   }"

definition test_compute_checksum :: "unit option" where
  "test_compute_checksum = do {
     assert_that (compute_checksum [0x00, 0x00] = Some 0xffff);
     assert_that (compute_checksum [0x00, 0x01] = Some 0xfffe);
     assert_that (compute_checksum [0x00, 0xff] = Some 0xff00);
     assert_that (compute_checksum [0xff, 0x23, 0xef, 0x55] = Some 0x1186)
   }"

definition test_compute_packet_ones_comp :: "'a buf_world_scheme \<Rightarrow> 'a buf_world_scheme option" where
  "test_compute_packet_ones_comp w = do {
     (buffer, w) \<leftarrow> append_from_slice [0x12, 0x34] NetBuffer_new w;
     assert_that (compute_buffer_ones_comp 0 buffer = Some 0x1234);
     Some (drop_buffer buffer w)
   }"

fun append_times :: "nat \<Rightarrow> bytes \<Rightarrow> NetBuffer \<Rightarrow> 'a buf_world_scheme \<Rightarrow> (NetBuffer \<times> 'a buf_world_scheme) option" where
  "append_times 0 bs buffer w = Some (buffer, w)"
| "append_times (Suc n) bs buffer w = do {
     (buffer, w) \<leftarrow> append_from_slice bs buffer w;
     append_times n bs buffer w
   }"

definition test_compute_packet_ones_comp_multiple_fragments :: "'a buf_world_scheme \<Rightarrow> 'a buf_world_scheme option" where
  "test_compute_packet_ones_comp_multiple_fragments w = do {
     (buffer, w) \<leftarrow> append_times 512 [0x12, 0x34] NetBuffer_new w;
     assert_that (compute_buffer_ones_comp 0 buffer = Some 0x6824);
     Some (drop_buffer buffer w)
   }"

definition test_compute_ones_comp_odd_length :: "unit option" where
  "test_compute_ones_comp_odd_length = assert_that (compute_ones_comp 0 [0x12, 0x34, 0x56] = Some 0x6834)"

section \<open>Fields\<close>

definition test_get_be16 :: "unit option" where
  "test_get_be16 = do {
     assert_that (get_be16 [0x00, 0x00] = Some 0x0000);
     assert_that (get_be16 [0x35, 0xa5] = Some 0x35a5)
   }"

definition test_get_be32 :: "unit option" where
  "test_get_be32 = do {
     assert_that (get_be32 [0xde, 0xad, 0xbe, 0xef] = Some 0xdeadbeef);
     assert_that (get_be32 [0x00, 0x00, 0x00, 0x01] = Some 0x00000001);
     assert_that (get_be32 [0x00, 0x00, 0x00, 0xff] = Some 0x000000ff);
     assert_that (get_be32 [0x00, 0x00, 0xff, 0x00] = Some 0x0000ff00);
     assert_that (get_be32 [0x00, 0xff, 0x00, 0x00] = Some 0x00ff0000);
     assert_that (get_be32 [0xff, 0x00, 0x00, 0x00] = Some 0xff000000)
   }"

definition test_set_be16 :: "unit option" where
  "test_set_be16 = do {
     let buffer = [0, 0];
     buffer \<leftarrow> set_be16 0x0000 buffer;
     assert_that (buffer = [0x00, 0x00]);
     buffer \<leftarrow> set_be16 0x0001 buffer;
     assert_that (buffer = [0x00, 0x01]);
     buffer \<leftarrow> set_be16 0x00ff buffer;
     assert_that (buffer = [0x00, 0xff]);
     buffer \<leftarrow> set_be16 0x0100 buffer;
     assert_that (buffer = [0x01, 0x00]);
     buffer \<leftarrow> set_be16 0xffff buffer;
     assert_that (buffer = [0xff, 0xff])
   }"

definition test_set_be32 :: "unit option" where
  "test_set_be32 = do {
     let buffer = [0, 0, 0, 0];
     buffer \<leftarrow> set_be32 0x00000000 buffer;
     assert_that (buffer = [0x00, 0x00, 0x00, 0x00]);
     buffer \<leftarrow> set_be32 0x00000001 buffer;
     assert_that (buffer = [0x00, 0x00, 0x00, 0x01]);
     buffer \<leftarrow> set_be32 0x000000ff buffer;
     assert_that (buffer = [0x00, 0x00, 0x00, 0xff]);
     buffer \<leftarrow> set_be32 0x00000100 buffer;
     assert_that (buffer = [0x00, 0x00, 0x01, 0x00]);
     buffer \<leftarrow> set_be32 0x0000ffff buffer;
     assert_that (buffer = [0x00, 0x00, 0xff, 0xff]);
     buffer \<leftarrow> set_be32 0x00010000 buffer;
     assert_that (buffer = [0x00, 0x01, 0x00, 0x00]);
     buffer \<leftarrow> set_be32 0x00ffffff buffer;
     assert_that (buffer = [0x00, 0xff, 0xff, 0xff]);
     buffer \<leftarrow> set_be32 0x01000000 buffer;
     assert_that (buffer = [0x01, 0x00, 0x00, 0x00]);
     buffer \<leftarrow> set_be32 0xdeadbeef buffer;
     assert_that (buffer = [0xde, 0xad, 0xbe, 0xef])
   }"

section \<open>Addresses\<close>

definition test_ip_to_str_v4 :: "unit option" where
  "test_ip_to_str_v4 = do {
     ip \<leftarrow> new_from [18, 52, 86, 120];
     assert_that (IPAddr_fmt ip = Some ''18.52.86.120'')
   }"

definition test_ip_to_str_v6 :: "unit option" where
  "test_ip_to_str_v6 = do {
     ip \<leftarrow> new_from [0x20, 0x1, 0x0d, 0xb8, 0xac, 0x10, 0xfe, 0x01, 0, 0, 0, 0, 0, 0, 0, 0];
     assert_that (IPAddr_fmt ip = Some ''2001:0db8:ac10:fe01::::'')
   }"

definition test_copy_to :: "unit option" where
  "test_copy_to = do {
     ip \<leftarrow> new_from [192, 168, 1, 1];
     buffer \<leftarrow> copy_to ip [0, 0, 0, 0];
     assert_that (buffer = [192, 168, 1, 1])
   }"

section \<open>Sequence numbers\<close>

definition test_seq_compare :: "unit option" where
  "test_seq_compare = do {
     assert_that (seq_gt 0x00000001 0x00000000 = True);
     assert_that (seq_gt 0x00000000 0x00000001 = False);
     assert_that (seq_gt 0x00001234 0x00001234 = False);
     assert_that (seq_gt 0x7fffffff 0x80000000 = False);
     assert_that (seq_gt 0x80000000 0x7fffffff = True);
     assert_that (seq_gt 0xffffffff 0x00000000 = False);
     assert_that (seq_gt 0x00000000 0xffffffff = True);

     assert_that (seq_ge 0x00000001 0x00000000 = True);
     assert_that (seq_ge 0x00000000 0x00000001 = False);
     assert_that (seq_ge 0x00001234 0x00001234 = True);
     assert_that (seq_ge 0x7fffffff 0x80000000 = False);
     assert_that (seq_ge 0x80000000 0x7fffffff = True);
     assert_that (seq_ge 0xffffffff 0x00000000 = False);
     assert_that (seq_ge 0x00000000 0xffffffff = True);

     assert_that (seq_lt 0x00000001 0x00000000 = False);
     assert_that (seq_lt 0x00000000 0x00000001 = True);
     assert_that (seq_lt 0x00001234 0x00001234 = False);
     assert_that (seq_lt 0x7fffffff 0x80000000 = True);
     assert_that (seq_lt 0x80000000 0x7fffffff = False);
     assert_that (seq_lt 0xffffffff 0x00000000 = True);
     assert_that (seq_lt 0x00000000 0xffffffff = False);

     assert_that (seq_le 0x00000001 0x00000000 = False);
     assert_that (seq_le 0x00000000 0x00000001 = True);
     assert_that (seq_le 0x00001234 0x00001234 = True);
     assert_that (seq_le 0x7fffffff 0x80000000 = True);
     assert_that (seq_le 0x80000000 0x7fffffff = False);
     assert_that (seq_le 0xffffffff 0x00000000 = True);
     assert_that (seq_le 0x00000000 0xffffffff = False)
   }"

section \<open>Pseudo headers\<close>

definition test_compute_pseudo_header_checksum_v4 :: "unit option" where
  "test_compute_pseudo_header_checksum_v4 = do {
     source_ip \<leftarrow> new_from [192, 168, 1, 1];
     dest_ip \<leftarrow> new_from [192, 168, 1, 2];
     assert_that (compute_pseudo_header_checksum source_ip dest_ip 20 6 = Some 0x836e)
   }"

definition test_compute_pseudo_header_checksum_v6 :: "unit option" where
  "test_compute_pseudo_header_checksum_v6 = do {
     source_ip \<leftarrow> new_from [0x20, 0x01, 0x0d, 0xb8, 0xac, 0x10, 0xfe, 0x01, 0, 0, 0, 0, 0, 0, 0, 0];
     dest_ip \<leftarrow> new_from [0x20, 0x01, 0x0d, 0xb8, 0xac, 0x10, 0xfe, 0x02, 0, 0, 0, 0, 0, 0, 0, 0];
     assert_that (compute_pseudo_header_checksum source_ip dest_ip 20 6 = Some 0xafb2)
   }"

section \<open>They pass\<close>

definition util_tests :: "unit option list" where
  "util_tests = [test_compute_ones_comp, test_compute_checksum, test_compute_ones_comp_odd_length,
     test_get_be16, test_get_be32, test_set_be16, test_set_be32, test_ip_to_str_v4, test_ip_to_str_v6,
     test_copy_to, test_seq_compare, test_compute_pseudo_header_checksum_v4, test_compute_pseudo_header_checksum_v6]"

lemma checksum_tests_pass:
  "test_compute_ones_comp = Some ()" "test_compute_checksum = Some ()" "test_compute_ones_comp_odd_length = Some ()"
  by (simp_all add: test_compute_ones_comp_def test_compute_checksum_def test_compute_ones_comp_odd_length_def
      compute_checksum_def compute_ones_comp_Some fold16_def)

lemma field_tests_pass:
  "test_get_be16 = Some ()" "test_get_be32 = Some ()" "test_set_be16 = Some ()" "test_set_be32 = Some ()"
  by code_simp+

lemma address_tests_pass:
  "test_ip_to_str_v4 = Some ()" "test_ip_to_str_v6 = Some ()" "test_copy_to = Some ()"
  by code_simp+

lemma seq_tests_pass: "test_seq_compare = Some ()"
  by (simp add: test_seq_compare_def seq_gt_def seq_ge_def seq_lt_def seq_le_def)

lemma pseudo_header_tests_pass:
  "test_compute_pseudo_header_checksum_v4 = Some ()" "test_compute_pseudo_header_checksum_v6 = Some ()"
  by (simp_all add: test_compute_pseudo_header_checksum_v4_def test_compute_pseudo_header_checksum_v6_def
      new_from_def new_v4_def new_v6_def compute_pseudo_header_checksum_eq same_family_def pseudo_header_def compute_ones_comp_Some
      be16_def be32_def fold16_def)

text \<open>A packed buffer has the sum of its octets.\<close>

lemma packed_ones_comp:
  assumes "wf_buf b" and "packed (fragments b)"
  shows "compute_buffer_ones_comp 0 b = Some (of_nat (fold16 (words_sum (concat (chunks b)))))"
  using compute_buffer_ones_comp_returns [OF assms(1) packed_aligned [OF assms(2)], of 0]
  by (auto simp: contents_chunks dest: unat_eq_of_nat_fold16 elim!: returnsE)

lemma concat_blocks [simp]: "concat (blocks xs) = xs"
  by (induction xs rule: blocks.induct) (subst blocks.simps, simp)

lemma words_sum_repeat: "words_sum (concat (replicate n [a, b])) = n * (256 * unat a + unat b)"
  by (induction n) simp_all

lemma finishes_append_times:
  fixes w :: "'a buf_world_scheme"
  assumes "wf_buf b" and "packed (fragments b)" and "pool_ok w" and "buf_length b + n * length bs \<le> USIZE_MAX" and "nfrags b \<le> k"
    and "\<And>b' w'. wf_buf b' \<Longrightarrow> packed (fragments b') \<Longrightarrow> concat (chunks b') = concat (chunks b) @ concat (replicate n bs) \<Longrightarrow>
      pool_ok w' \<Longrightarrow> finishes w' (k - nfrags b + nfrags b') (f (b', w'))"
  shows "finishes w k (Option.bind (append_times n bs b w) f)"
  using assms
proof (induction n arbitrary: b w k)
  case (Suc n)
  have "finishes w k (Option.bind (append_from_slice bs b w) (\<lambda>(b, w). Option.bind (append_times n bs b w) f))"
  proof (rule finishes_append [OF Suc.prems(1-3) _ Suc.prems(5)])
    fix b' and w' :: "'a buf_world_scheme" assume b': "wf_buf b'" "packed (fragments b')" "chunks b' = blocks (concat (chunks b) @ bs)"
      "buf_length b' = buf_length b + length bs" "pool_ok w'"
    show "finishes w' (k - nfrags b + nfrags b') (case (b', w') of (b, w) \<Rightarrow> Option.bind (append_times n bs b w) f)"
      unfolding prod.case
      by (rule Suc.IH [OF b'(1,2,5)]) (use b' Suc.prems(4,6) in auto)
  qed (use Suc.prems(4) in simp)
  then show ?case by (simp add: bind_assoc case_prod_beta')
next
  case 0
  from 0(6) [of b w] 0(1-5) show ?case by simp
qed

lemma test_compute_packet_ones_comp_passes: "pool_ok w \<Longrightarrow> finishes w 0 (test_compute_packet_ones_comp w)"
  unfolding test_compute_packet_ones_comp_def
  by (auto intro!: buf_rules simp: USIZE_MAX_def FRAGMENT_SIZE_def packed_ones_comp fold16_def)

lemma test_compute_packet_ones_comp_multiple_fragments_passes:
  "pool_ok w \<Longrightarrow> finishes w 0 (test_compute_packet_ones_comp_multiple_fragments w)"
  unfolding test_compute_packet_ones_comp_multiple_fragments_def
  by (auto intro!: buf_rules finishes_append_times simp: USIZE_MAX_def packed_ones_comp words_sum_repeat fold16_def)

text \<open>
  Every unit test of \<open>util.rs\<close> passes on the model: checksums, fields, addresses and their text,
  sequence numbers and pseudo headers; those that fill a buffer leave every fragment in the pool.
\<close>

theorem util_tests_pass:
  assumes "pool_ok w"
  shows "util_tests = replicate 13 (Some ()) \<and>
    list_all (\<lambda>t. returns (t w) (\<lambda>r. pool_ok r \<and> (\<forall>k. balanced w k \<longrightarrow> balanced r k)))
      [test_compute_packet_ones_comp, test_compute_packet_ones_comp_multiple_fragments]"
  using test_compute_packet_ones_comp_passes [OF assms] test_compute_packet_ones_comp_multiple_fragments_passes [OF assms]
  by (simp add: finishes_balanced util_tests_def checksum_tests_pass field_tests_pass address_tests_pass seq_tests_pass
      pseudo_header_tests_pass numeral_eq_Suc)

theorem util_tests_pass_witness:
  "returns (test_compute_packet_ones_comp_multiple_fragments sample_pool) (\<lambda>r. balanced r 2)"
  using util_tests_pass [OF sample_pool_ok(1)] sample_pool_ok(2) by (auto elim!: returns_conseq)

end
