(* ===== verification/Unit_Tests.thy ===== *)
theory Unit_Tests
  imports Buf_Tests Tcp_Tests Util_Tests
begin

text \<open>The unit tests of the crate that use the fragment pool or nothing but values, together.\<close>

text \<open>
  C30: the unit tests of \<open>buf.rs\<close>, of the reassembler in \<open>tcp.rs\<close> and of \<open>util.rs\<close> pass on the model,
  whatever state the pool is in when they start: no assertion fails and nothing panics, and at the end of each
  every fragment is back in the pool, those of segments that were dropped, passed on or left waiting
  alike. The five tests of \<open>buf.rs\<close> that are expected to panic do so.
\<close>

theorem unit_tests_pass:
  assumes "pool_ok w"
  shows "list_all (\<lambda>t. returns (t w) (\<lambda>r. pool_ok r \<and> (\<forall>k. balanced w k \<longrightarrow> balanced r k)))
      (buf_tests @ reassembler_tests @ [test_compute_packet_ones_comp, test_compute_packet_ones_comp_multiple_fragments]) \<and>
    list_all (\<lambda>t. t w = None) buf_panic_tests \<and>
    util_tests = replicate 13 (Some ())"
  using buf_tests_pass [OF assms] reassembler_tests_pass [OF assms] util_tests_pass [OF assms] by simp

theorem unit_tests_pass_witness:
  "list_all (\<lambda>t. returns (t sample_pool) (\<lambda>r. balanced r 2)) (buf_tests @ reassembler_tests) \<and> length (buf_tests @ reassembler_tests) = 40"
  using unit_tests_pass [OF sample_pool_ok(1)] sample_pool_ok(2)
  by (auto simp: list_all_iff buf_tests_def reassembler_tests_def elim!: returns_conseq)

end
