(* ===== verification/Timer_Tests.thy ===== *)
theory Timer_Tests
  imports Timer
begin

text \<open>
  The unit tests of \<open>src/src/stack/timer.rs\<close>. The closures of the tests set flags: \<open>flag\<close> maps the address of
  an \<open>Arc<Mutex<bool>>\<close> to its value, and a closure is the address it has captured. While a test sleeps the
  timer thread goes on; \<open>sleeps\<close> takes the readings of the clock at which it runs. The tests share the
  list of timers with those that run beside them, so that a test starts with any pending timers.
\<close>

record flag_world = "nat timer_world" +
  flag :: "nat \<Rightarrow> bool"

definition run_flag :: "nat \<Rightarrow> flag_world \<Rightarrow> flag_world option" where
  "run_flag i w = Some (w\<lparr>flag := (flag w)(i := True)\<rparr>)"

definition new_flag :: "nat \<Rightarrow> flag_world \<Rightarrow> flag_world" where
  "new_flag i w = w\<lparr>flag := (flag w)(i := False)\<rparr>"

fun sleeps :: "u64 list \<Rightarrow> flag_world \<Rightarrow> flag_world option" where
  "sleeps [] w = Some w"
| "sleeps (now # rounds) w = do {
     w \<leftarrow> tick run_flag (w\<lparr>clock_ms := now\<rparr>);
     sleeps rounds w
   }"

definition test_set_timer :: "nat \<Rightarrow> u64 list \<Rightarrow> flag_world \<Rightarrow> flag_world option" where
  "test_set_timer i rounds w = do {
     let w = new_flag i w;
     (_, w) \<leftarrow> set_timer 100 i w;
     w \<leftarrow> sleeps rounds w;
     assert_that (flag w i = True);
     Some w
   }"

definition test_cancel_timer :: "nat \<Rightarrow> u64 list \<Rightarrow> flag_world \<Rightarrow> flag_world option" where
  "test_cancel_timer i rounds w = do {
     let w = new_flag i w;
     (ident, w) \<leftarrow> set_timer 100 i w;
     let (found, w) = cancel_timer ident w;
     assert_that (found = True);
     w \<leftarrow> sleeps rounds w;
     assert_that (flag w i = False);
     Some w
   }"

definition test_multiple_timers :: "nat \<Rightarrow> nat \<Rightarrow> u64 list \<Rightarrow> u64 list \<Rightarrow> flag_world \<Rightarrow> flag_world option" where
  "test_multiple_timers i j rounds rounds' w = do {
     let w = new_flag i w;
     let w = new_flag j w;
     (_, w) \<leftarrow> set_timer 500 i w;
     (_, w) \<leftarrow> set_timer 100 j w;
     w \<leftarrow> sleeps rounds w;
     assert_that (flag w i = False);
     assert_that (flag w j = True);
     w \<leftarrow> sleeps rounds' w;
     assert_that (flag w i = True);
     Some w
   }"

section \<open>They pass\<close>

text \<open>
  The timers that are pending for a flag: \<open>T i\<close> until one of them has set it, none afterwards.
\<close>

definition awaits :: "nat \<Rightarrow> flag_world \<Rightarrow> nat Timer list" where
  "awaits i w = filter (\<lambda>t. closure t = Some i) (PENDING_TIMERS w)"

definition tracked :: "(nat \<Rightarrow> nat Timer list option) \<Rightarrow> nat set \<Rightarrow> flag_world \<Rightarrow> bool" where
  "tracked T F w \<longleftrightarrow> (\<forall>t \<in> set (PENDING_TIMERS w). closure t \<noteq> None) \<and> (\<forall>i \<in> F. flag w i) \<and>
     (\<forall>i ts. T i = Some ts \<longrightarrow> length ts \<le> 1 \<and> awaits i w = (if flag w i then [] else ts) \<and> (flag w i \<longrightarrow> ts \<noteq> []))"

interpretation flag_timers: timer_client run_flag "tracked T F" for T F
proof
  fix w :: flag_world and us t vs
  assume tr: "tracked T F w" and p: "PENDING_TIMERS w = us @ t # vs" and "due (clock_ms w) t"
  obtain c where c: "closure t = Some c"
    using tr p by (auto simp: tracked_def)
  define w' where "w' = w\<lparr>PENDING_TIMERS := us @ vs, flag := (flag w)(c := True)\<rparr>"
  have "tracked T F w'"
    unfolding tracked_def
  proof (intro conjI allI impI ballI)
    fix i ts assume T: "T i = Some ts"
    have a: "length ts \<le> 1" "awaits i w = (if flag w i then [] else ts)" "flag w i \<longrightarrow> ts \<noteq> []"
      using tr T by (simp_all add: tracked_def)
    show "length ts \<le> 1" by (rule a)
    show "awaits i w' = (if flag w' i then [] else ts)"
      using a p c by (cases ts; auto simp: awaits_def w'_def append_eq_Cons_conv split: if_splits)
    show "ts \<noteq> []" if "flag w' i"
      using a p c that by (auto simp: awaits_def w'_def split: if_splits)
  qed (use tr p in \<open>auto simp: tracked_def w'_def\<close>)
  then show "\<exists>c. closure t = Some c \<and> returns (run_flag c (w\<lparr>PENDING_TIMERS := us @ vs\<rparr>)) (\<lambda>w'. tracked T F w' \<and>
        clock_ms w' = clock_ms w \<and>
        (\<exists>ts. PENDING_TIMERS w' = us @ vs @ ts \<and> (\<forall>t \<in> set ts. \<not> due (clock_ms w) t)))"
    using c by (auto simp: run_flag_def w'_def)
qed

lemma tick_flags:
  assumes "tracked T F w"
  shows "returns (tick run_flag w) (\<lambda>w'. tracked T F w' \<and>
    (\<forall>i t. T i = Some [t] \<longrightarrow> (flag w' i \<longleftrightarrow> flag w i \<or> due (clock_ms w) t)))"
proof -
  have "tracked T (F \<union> {i. flag w i}) w"
    using assms by (auto simp: tracked_def)
  from flag_timers.tick_returns [OF this]
  obtain w' ts where run: "tick run_flag w = Some w'" and w': "tracked T (F \<union> {i. flag w i}) w'"
    "PENDING_TIMERS w' = filter (Not \<circ> due (clock_ms w)) (PENDING_TIMERS w) @ ts" "\<forall>t \<in> set ts. \<not> due (clock_ms w) t"
    by (auto elim!: returnsE)
  have "flag w' i \<longleftrightarrow> flag w i \<or> due (clock_ms w) t" if T: "T i = Some [t]" for i t
  proof -
    have a: "awaits i w = (if flag w i then [] else [t])" "awaits i w' = (if flag w' i then [] else [t])" "flag w i \<longrightarrow> flag w' i"
      using assms w'(1) T by (simp_all add: tracked_def)
    have mem: "awaits i v = [t] \<Longrightarrow> t \<in> set (PENDING_TIMERS v) \<and> closure t = Some i" for v
      by (auto simp: awaits_def filter_eq_Cons_iff)
    have "flag w' i" if "due (clock_ms w) t"
      using mem [of w'] a(2) that w'(2,3) by (auto split: if_splits)
    moreover have "\<not> flag w' i" if "\<not> due (clock_ms w) t" "\<not> flag w i"
    proof -
      from mem [of w] a(1) that w'(2) have "t \<in> set (awaits i w')"
        by (simp add: awaits_def)
      with a(2) show ?thesis by auto
    qed
    ultimately show ?thesis using a(3) by blast
  qed
  moreover have "tracked T F w'"
    using w'(1) by (auto simp: tracked_def)
  ultimately show ?thesis using run by simp
qed

lemma sleeps_flags:
  assumes "tracked T F w"
  shows "returns (sleeps rounds w) (\<lambda>w'. tracked T F w' \<and>
    (\<forall>i t. T i = Some [t] \<longrightarrow> (flag w' i \<longleftrightarrow> flag w i \<or> (\<exists>now \<in> set rounds. due now t))))"
  using assms
proof (induction rounds arbitrary: w)
  case (Cons now rounds)
  have "tracked T F (w\<lparr>clock_ms := now\<rparr>)"
    using Cons.prems by (simp add: tracked_def awaits_def)
  from tick_flags [OF this] obtain w1 where w1: "tick run_flag (w\<lparr>clock_ms := now\<rparr>) = Some w1" "tracked T F w1"
    "\<forall>i t. T i = Some [t] \<longrightarrow> (flag w1 i \<longleftrightarrow> flag w i \<or> due now t)"
    by (auto elim!: returnsE)
  from Cons.IH [OF w1(2)] show ?case
    by (simp add: w1(1)) (erule returns_conseq, use w1(3) in auto)
qed simp

lemma sleeps_sets:
  assumes "tracked T F w" and "T i = Some [t]" and "\<exists>now \<in> set rounds. due now t"
  shows "\<exists>w'. sleeps rounds w = Some w' \<and> tracked T F w' \<and> flag w' i"
  using sleeps_flags [OF assms(1), of rounds] assms(2,3) by (auto elim!: returnsE)

lemma sleeps_waits:
  assumes "tracked T F w" and "T i = Some [t]" and "\<forall>now \<in> set rounds. \<not> due now t" and "\<not> flag w i"
  shows "\<exists>w'. sleeps rounds w = Some w' \<and> tracked T F w' \<and> \<not> flag w' i"
  using sleeps_flags [OF assms(1), of rounds] assms(2-4) by (auto elim!: returnsE)

lemma sleeps_never:
  assumes "tracked T F w" and "T i = Some []"
  shows "\<exists>w'. sleeps rounds w = Some w' \<and> \<not> flag w' i"
proof -
  obtain w' where "sleeps rounds w = Some w'" "tracked T F w'"
    using sleeps_flags [OF assms(1), of rounds] by (auto elim!: returnsE)
  moreover from this(2) have "\<not> flag w' i"
    using assms(2) unfolding tracked_def by blast
  ultimately show ?thesis by blast
qed

text \<open>Other tests may have timers, whose closures are for flags of their own.\<close>

definition others :: "nat set \<Rightarrow> flag_world \<Rightarrow> bool" where
  "others I w \<longleftrightarrow> (\<forall>t \<in> set (PENDING_TIMERS w). \<exists>c. closure t = Some c \<and> c \<notin> I)"

definition timer_at :: "u32 \<Rightarrow> nat \<Rightarrow> flag_world \<Rightarrow> nat Timer" where
  "timer_at ms i w = \<lparr>absolute_timeout_ms = clock_ms w + ucast ms, closure = Some i,
     timer_id = uint (NEXT_TIMER_ID w AND 0x7fffffff)\<rparr>"

lemma due_timer_at: "due now (timer_at ms i w) \<longleftrightarrow> clock_ms w + ucast ms \<le> now"
  by (simp add: due_def timer_at_def)

lemma set_timer_flag:
  fixes w :: flag_world
  assumes "unat (clock_ms w) + unat ms < 2 ^ 64"
  shows "set_timer ms i w = Some (uint (NEXT_TIMER_ID w AND 0x7fffffff),
    w\<lparr>NEXT_TIMER_ID := NEXT_TIMER_ID w + 1, PENDING_TIMERS := PENDING_TIMERS w @ [timer_at ms i w]\<rparr>)"
  using set_timer_returns [OF assms] by (simp add: timer_at_def)

lemma others_awaits: "others I w \<Longrightarrow> i \<in> I \<Longrightarrow> filter (\<lambda>t. closure t = Some i) (PENDING_TIMERS w) = []"
  by (fastforce simp: others_def filter_empty_conv)

lemma test_set_timer_passes:
  assumes "others {i} w" and "unat (clock_ms w) + 100 < 2 ^ 64" and "\<exists>now \<in> set rounds. clock_ms w + 100 \<le> now"
  shows "returns (test_set_timer i rounds w) (\<lambda>_. True)"
proof -
  define t where "t = timer_at 100 i w"
  define v where "v = new_flag i w\<lparr>NEXT_TIMER_ID := NEXT_TIMER_ID w + 1, PENDING_TIMERS := PENDING_TIMERS w @ [t]\<rparr>"
  have set: "set_timer 100 i (new_flag i w) = Some (uint (NEXT_TIMER_ID w AND 0x7fffffff), v)"
    using set_timer_flag [of "new_flag i w" 100 i] assms(2) by (simp add: v_def t_def new_flag_def timer_at_def)
  have "tracked [i \<mapsto> [t]] {} v"
    using assms(1) others_awaits [OF assms(1), of i]
    by (auto simp: tracked_def awaits_def v_def t_def new_flag_def timer_at_def others_def)
  from sleeps_sets [OF this, of i t rounds] show ?thesis
    using assms(3) set by (auto simp: test_set_timer_def t_def due_timer_at)
qed

lemma test_cancel_timer_passes:
  assumes "others {i} w" and "unat (clock_ms w) + 100 < 2 ^ 64"
    and fresh: "uint (NEXT_TIMER_ID w AND 0x7fffffff) \<notin> timer_id ` set (PENDING_TIMERS w)"
  shows "returns (test_cancel_timer i rounds w) (\<lambda>_. True)"
proof -
  define t where "t = timer_at 100 i w"
  define v where "v = new_flag i w\<lparr>NEXT_TIMER_ID := NEXT_TIMER_ID w + 1, PENDING_TIMERS := PENDING_TIMERS w @ [t]\<rparr>"
  define ident where "ident = uint (NEXT_TIMER_ID w AND 0x7fffffff)"
  have set: "set_timer 100 i (new_flag i w) = Some (ident, v)"
    using set_timer_flag [of "new_flag i w" 100 i] assms(2) by (simp add: v_def t_def ident_def new_flag_def timer_at_def)
  obtain found u where cancel: "cancel_timer ident v = (found, u)" by fastforce
  have ids: "timer_id t = ident" "PENDING_TIMERS v = PENDING_TIMERS w @ [t]" "ident \<notin> timer_id ` set (PENDING_TIMERS w)"
    using fresh by (simp_all add: t_def timer_at_def ident_def v_def)
  then have found: "found" and "mset (PENDING_TIMERS u) = mset (PENDING_TIMERS w)"
    using cancel_timer_mset(1,2) [OF cancel] by (auto simp: image_iff)
  then have pending: "set (PENDING_TIMERS u) = set (PENDING_TIMERS w)"
    using mset_eq_setD by blast
  moreover have "flag u = flag v"
    using cancel by (auto simp: cancel_timer_def split: prod.splits)
  ultimately have "tracked [i \<mapsto> []] {} u"
    using assms(1) by (fastforce simp: tracked_def awaits_def others_def filter_empty_conv v_def new_flag_def)
  from sleeps_never [OF this, of i rounds] show ?thesis
    using set cancel found by (auto simp: test_cancel_timer_def)
qed

lemma test_multiple_timers_passes:
  assumes "others {i, j} w" and "i \<noteq> j" and "unat (clock_ms w) + 500 < 2 ^ 64"
    and "\<forall>now \<in> set rounds. now < clock_ms w + 500" and "\<exists>now \<in> set rounds. clock_ms w + 100 \<le> now"
    and "\<exists>now \<in> set rounds'. clock_ms w + 500 \<le> now"
  shows "returns (test_multiple_timers i j rounds rounds' w) (\<lambda>_. True)"
proof -
  define t where "t = timer_at 500 i w"
  define t' where "t' = timer_at 100 j (w\<lparr>NEXT_TIMER_ID := NEXT_TIMER_ID w + 1\<rparr>)"
  define w1 where "w1 = new_flag j (new_flag i w)"
  define w2 where "w2 = w1\<lparr>NEXT_TIMER_ID := NEXT_TIMER_ID w + 1, PENDING_TIMERS := PENDING_TIMERS w @ [t]\<rparr>"
  define v where "v = w1\<lparr>NEXT_TIMER_ID := NEXT_TIMER_ID w + 2, PENDING_TIMERS := PENDING_TIMERS w @ [t, t']\<rparr>"
  have set: "set_timer 500 i w1 = Some (uint (NEXT_TIMER_ID w AND 0x7fffffff), w2)"
    using set_timer_flag [of w1 500 i] assms(3) by (simp add: w2_def w1_def t_def new_flag_def timer_at_def)
  have set': "set_timer 100 j w2 = Some (uint ((NEXT_TIMER_ID w + 1) AND 0x7fffffff), v)"
    using set_timer_flag [of w2 100 j] assms(3) by (simp add: w2_def w1_def v_def t'_def new_flag_def timer_at_def add.assoc)
  have "tracked [i \<mapsto> [t], j \<mapsto> [t']] {} v"
    using assms(1,2) others_awaits [OF assms(1)]
    by (auto simp: tracked_def awaits_def v_def w1_def t_def t'_def new_flag_def timer_at_def others_def)
  moreover from sleeps_sets [OF this, of j t' rounds] have "\<exists>v1. sleeps rounds v = Some v1 \<and> flag v1 j"
    using assms(5) by (auto simp: t'_def due_timer_at)
  moreover have "\<not> flag v i"
    using assms(2) by (simp add: v_def w1_def new_flag_def)
  ultimately obtain v1 where v1: "sleeps rounds v = Some v1" "tracked [i \<mapsto> [t], j \<mapsto> [t']] {} v1" "\<not> flag v1 i" "flag v1 j"
    using sleeps_waits [of "[i \<mapsto> [t], j \<mapsto> [t']]" "{}" v i t rounds] assms(2,4) by (auto simp: t_def due_timer_at not_le)
  from sleeps_sets [OF v1(2), of i t rounds'] assms(2,6) obtain v2 where "sleeps rounds' v1 = Some v2" "flag v2 i"
    by (auto simp: t_def due_timer_at)
  with set set' v1 show ?thesis
    by (simp add: test_multiple_timers_def flip: w1_def)
qed

section \<open>Property\<close>

text \<open>
  The unit tests of \<open>timer.rs\<close> pass on the model beside any other timers: a timer fires once the timer
  thread has run after its deadline and not before, one that has been cancelled never fires. What the
  tests rely on is the schedule (the thread runs late enough and, for the first half of the last test, early
  enough) and an id that no pending timer has.
\<close>

theorem timer_tests_pass:
  assumes "others {i, j} w" and "i \<noteq> j" and "unat (clock_ms w) + 500 < 2 ^ 64"
    and "uint (NEXT_TIMER_ID w AND 0x7fffffff) \<notin> timer_id ` set (PENDING_TIMERS w)"
    and "\<forall>now \<in> set rounds. now < clock_ms w + 500" and "\<exists>now \<in> set rounds. clock_ms w + 100 \<le> now"
    and "\<exists>now \<in> set rounds'. clock_ms w + 500 \<le> now"
  shows "test_set_timer i rounds w \<noteq> None \<and> test_cancel_timer i rounds w \<noteq> None \<and>
    test_multiple_timers i j rounds rounds' w \<noteq> None"
proof -
  have "others {i} w"
    using assms(1) by (fastforce simp: others_def)
  with assms show ?thesis
    using test_set_timer_passes [of i w rounds] test_cancel_timer_passes [of i w rounds]
      test_multiple_timers_passes [OF assms(1-3,5-7)]
    by (simp add: returns_def)
qed

theorem timer_tests_pass_witness:
  "test_multiple_timers 7 8 [50, 120, 300] [550, 600]
     (timer_world.extend (udp_world.extend sample_udp \<lparr>PENDING_TIMERS = [\<lparr>absolute_timeout_ms = 60, closure = Some 1, timer_id = 1\<rparr>],
        NEXT_TIMER_ID = 3, clock_ms = 0\<rparr>) \<lparr>flag = (\<lambda>_. False)\<rparr>) \<noteq> None"
  using timer_tests_pass [of 7 8 _ "[50, 120, 300]" "[550, 600]"]
  by (simp add: others_def timer_world.extend_def udp_world.extend_def)

end
