(* ===== verification/Tcp_Close.thy ===== *)
theory Tcp_Close
  imports Tcp_Transfer
begin

text \<open>
  The end of a connection: both sides close, one after the other, and what becomes of a side whose peer
  has forgotten the connection. The end of a listener: the two critical sections of \<open>tcp_close\<close> and a segment
  that arrives between them.
\<close>

section \<open>Two ends with nothing in flight\<close>

text \<open>
  \<open>linked a r s t\<close>: on the stack \<open>a\<close> the socket \<open>r\<close>, in state \<open>s\<close>, is one end of a connection whose other
  end is \<open>t\<close>; it has received all that \<open>t\<close> has sent, and all that it has sent itself is acknowledged.
\<close>

definition linked :: "'a tcp_world_scheme \<Rightarrow> nat \<Rightarrow> TCPSocketState \<Rightarrow> TCPSocketState \<Rightarrow> bool" where
  "linked a r s t \<longleftrightarrow> get_socket r a = Some s \<and> state s = Established \<and>
     local_for a (remote_ip s) = remote_ip t \<and> remote_port t = local_port s \<and> local_port t = remote_port s \<and>
     TCP_PORT_MAP a (remote_ip s, remote_port s, local_port s) = Some r \<and>
     next_sequence (reassembler s) = send_next_seq t \<and> receive_next_seq s = send_next_seq t \<and>
     send_unacked s = send_next_seq s"

lemma linked_addresses:
  assumes "linked a r s t" and "linked b q t s" and "tcp_ok a" and "tcp_ok b"
  shows "local_for b (remote_ip s) = remote_ip s" "local_for a (remote_ip t) = remote_ip t"
    "wf_ip (remote_ip s)" "wf_ip (remote_ip t)"
proof -
  have net: "net_ok a" "net_ok b" and wf: "wf_ip (remote_ip s)" "wf_ip (remote_ip t)"
    using assms by (auto simp: linked_def tcp_ok_def udp_ok_def get_socket_Some socket_ok_def)
  have loc: "local_for a (remote_ip s) = remote_ip t" "local_for b (remote_ip t) = remote_ip s"
    using assms(1,2) by (simp_all add: linked_def)
  have "is_v4 (remote_ip t) = is_v4 (remote_ip s)"
    using local_for_v4(1) [OF net(1) wf(1)] by (simp add: loc)
  with loc show "local_for b (remote_ip s) = remote_ip s" "local_for a (remote_ip t) = remote_ip t"
    using local_for_cong [of a a "remote_ip t" "remote_ip s"] local_for_cong [of b b "remote_ip s" "remote_ip t"] by simp_all
  show "wf_ip (remote_ip s)" "wf_ip (remote_ip t)"
    by (rule wf)+
qed

section \<open>Sending a FIN\<close>

abbreviation fin_frame :: "'a net_world_scheme \<Rightarrow> TCPSocketState \<Rightarrow> bytes" where
  "fin_frame w s \<equiv> socket_frame w s (FLAG_FIN OR FLAG_ACK) []"

lemma tcp_close_keeps: "whenever (tcp_close r w) (tcp_keeps 0 w 0)"
  unfolding tcp_close_def
  by (rule whenever_bindI [OF tcp_close_socket_keeps])
    (auto intro: tcp_keeps_trans [OF _ unmap_keeps] split: option.split)

lemma tcp_close_returns:
  assumes "tcp_ok w" and "get_socket r w = Some s" and "unat (clock_ms w) + 3000 < 2 ^ 64"
    and "state s = Established \<and> s' = set_state FinWait1 s \<or> state s = CloseWait \<and> s' = set_state LastAck s"
    and "ack_of s \<noteq> None"
  shows "returns (tcp_close r w) (\<lambda>w'. tcp_ok w' \<and> (\<exists>i. becomes w [fin_frame w s] (TCP_PORT_MAP w)
    ((tcp_sockets w)[r := s'\<lparr>response_timer_id := i\<rparr>]) w'))"
proof -
  have net: "net_ok w" and "wf_ip (remote_ip s)"
    using assms(1,2) by (auto simp: tcp_ok_def udp_ok_def get_socket_Some socket_ok_def)
  from send_stays [OF this assms(5)] obtain v where v: "tcp_send_packet s NetBuffer_new (FLAG_FIN OR FLAG_ACK) w = Some v"
      "stays w [socket_frame w s (FLAG_FIN OR FLAG_ACK) []] v"
    by (blast elim: returnsE)
  then have "net_ok v" "unat (clock_ms v) + 3000 < 2 ^ 64"
    using assms(3) by (simp_all add: becomes_def)
  from set_response_timer_stays [OF this, of r s] obtain i x where x: "set_response_timer r s v = Some (s\<lparr>response_timer_id := i\<rparr>, x)" "stays v [] x"
    by (auto elim!: returnsE)
  have eq: "set_state st (s\<lparr>response_timer_id := i\<rparr>) = (set_state st s)\<lparr>response_timer_id := i\<rparr>" for st
    by (simp add: set_state_def)
  have "becomes w [socket_frame w s (FLAG_FIN OR FLAG_ACK) []] (TCP_PORT_MAP w) ((tcp_sockets w)[r := s'\<lparr>response_timer_id := i\<rparr>])
      (put_socket r (s'\<lparr>response_timer_id := i\<rparr>) x)"
    using becomes_put [OF becomes_stays [OF v(2) x(2)]] by simp
  moreover have run: "tcp_close r w = Some (put_socket r (s'\<lparr>response_timer_id := i\<rparr>) x)"
    using assms(2,4) v(1) x(1) by (auto simp: tcp_close_def tcp_close_socket_def eq)
  moreover have "tcp_ok (put_socket r (s'\<lparr>response_timer_id := i\<rparr>) x)"
    using wheneverD [OF tcp_close_keeps run] assms(1) by (simp add: tcp_keeps_def)
  ultimately show ?thesis
    by auto
qed

section \<open>Receiving a segment without data\<close>

lemma input_empty:
  assumes "is_empty b" and "\<not> has_flag (seg_flags g) FLAG_RST"
  shows "tcp_input_socket r g 0 b s w = do {
    (s', w') \<leftarrow> (if has_flag (seg_flags g) FLAG_ACK \<and> is_established s then handle_ack g (disarmed s) (stopped s w)
      else Some (disarmed s, stopped s w));
    (s', w') \<leftarrow> handle_state r g s' w';
    Some (s', drop_buffer b w') }"
  using assms by (simp add: input_socket_eq)

lemma handle_ack_nothing:
  assumes "\<not> (seq_lt (send_unacked s) (seg_ack g) \<and> seq_le (seg_ack g) (send_next_seq s))"
  shows "handle_ack g s w = Some (update_window g s, w)"
  using assms by (auto simp: handle_ack_def acknowledge_def)

text \<open>A FIN ends what the peer has to say.\<close>

lemma fin_dispatched:
  assumes "net_ok w" and "wf_buf b" and "contents b = []"
    and "TCP_PORT_MAP w (src, seg_source_port g, seg_dest_port g) = Some q" and "get_socket q w = Some t" and "state t = Established"
    and "has_flag (seg_flags g) FLAG_ACK" and "has_flag (seg_flags g) FLAG_FIN" and "\<not> has_flag (seg_flags g) FLAG_RST"
    and "seg_ack g = send_unacked t"
  defines "t' \<equiv> set_state CloseWait (update_window g (disarmed t))"
  shows "returns (tcp_dispatch iss src g 0 b w) (\<lambda>w'. becomes w [] (TCP_PORT_MAP w) ((tcp_sockets w)[q := t']) w')"
proof -
  note v = stopped_stays [OF assms(1), of t]
  have "handle_ack g (disarmed t) (stopped t w) = Some (update_window g (disarmed t), stopped t w)"
    using assms(10) by (intro handle_ack_nothing) (simp add: seq_lt_def seq_gt_def)
  moreover have "handle_state q g (update_window g (disarmed t)) (stopped t w) = Some (t', stopped t w)"
    using assms(6,8) by (simp add: handle_state_def update_window_def t'_def)
  moreover have "is_empty b"
    using assms(2,3) by (simp add: is_empty_iff)
  ultimately have "tcp_input_socket q g 0 b t w = Some (t', drop_buffer b (stopped t w))"
    using assms(6,7,9) by (simp add: input_empty is_established_def)
  moreover have "stays (stopped t w) [] (drop_buffer b (stopped t w))"
    using v by (intro drop_stays assms(2)) (simp add: becomes_def)
  ultimately show ?thesis
    using becomes_put [OF becomes_stays [OF v], of "[]" _ q t'] assms(4,5) by (simp add: tcp_dispatch_def)
qed

text \<open>The answer of the peer, a FIN that acknowledges the own one, starts the wait at the end of the connection.\<close>

definition timer_pending :: "callback \<Rightarrow> 'a tcp_world_scheme \<Rightarrow> bool" where
  "timer_pending cb w \<longleftrightarrow> (\<exists>t \<in> set (PENDING_TIMERS w). closure t = Some cb)"

lemma last_fin_dispatched:
  assumes "net_ok w" and "wf_buf b" and "contents b = []" and "unat (clock_ms w) + 5000 < 2 ^ 64"
    and "TCP_PORT_MAP w (src, seg_source_port g, seg_dest_port g) = Some r" and "get_socket r w = Some s" and "state s = FinWait1"
    and "has_flag (seg_flags g) FLAG_ACK" and "has_flag (seg_flags g) FLAG_FIN" and "\<not> has_flag (seg_flags g) FLAG_RST"
    and "seg_ack g = send_next_seq s + 1"
  shows "returns (tcp_dispatch iss src g 0 b w) (\<lambda>w'.
    becomes w [] (TCP_PORT_MAP w) ((tcp_sockets w)[r := set_state TimeWait (disarmed s)]) w' \<and> timer_pending (Time_wait_timeout r) w')"
proof -
  note v = stopped_stays [OF assms(1), of s]
  define x where "x = add_timer TIME_WAIT_TIMEOUT (Time_wait_timeout r) (stopped s w)"
  have "\<not> seq_le (seg_ack g) (send_next_seq s)"
    by (simp add: assms(11) seq_le_def seq_gt_def)
  then have "handle_ack g (disarmed s) (stopped s w) = Some (disarmed s, stopped s w)"
    by (simp add: handle_ack_nothing update_window_def)
  moreover have "set_timer TIME_WAIT_TIMEOUT (Time_wait_timeout r) (stopped s w) = Some (fresh_id (stopped s w), x)"
    using v assms(4) unfolding x_def by (intro set_timer_adds) (simp add: becomes_def TIME_WAIT_TIMEOUT_def)
  then have "handle_state r g (disarmed s) (stopped s w) = Some (set_state TimeWait (disarmed s), x)"
    using assms(7-9,11) by (simp add: handle_state_def set_time_wait_timer_def)
  moreover have "is_empty b"
    using assms(2,3) by (simp add: is_empty_iff)
  ultimately have "tcp_input_socket r g 0 b s w = Some (set_state TimeWait (disarmed s), drop_buffer b x)"
    using assms(7,8,10) by (simp add: input_empty is_established_def)
  moreover have x: "stays w [] x"
    using becomes_stays [OF v stays_add_timer] v by (simp add: x_def becomes_def)
  moreover have step: "net_step x (nfrags b) [] (drop_buffer b x) 0" and netx: "net_ok x"
    using x by (auto intro: pool_net_step drop_buffer_step assms(2) simp: becomes_def)
  moreover have "stays x [] (drop_buffer b x)"
    by (rule stays_net [OF step netx])
  moreover have "PENDING_TIMERS (drop_buffer b x) = PENDING_TIMERS x"
    by (rule net_step_timers(1) [OF step])
  moreover have "timer_pending (Time_wait_timeout r) x"
    by (simp add: timer_pending_def x_def add_timer_def timer_in_def)
  ultimately show ?thesis
    using becomes_put [OF becomes_stays [OF x], of "[]" _ r "set_state TimeWait (disarmed s)"] assms(5,6)
    by (simp add: tcp_dispatch_def timer_pending_def put_socket_def)
qed

section \<open>The segments on the link\<close>

lemma becomes_received: "received w n u \<Longrightarrow> becomes u xs ports sockets v \<Longrightarrow> becomes w xs ports sockets v"
  using received_fields [of w n u] by (simp add: becomes_def)

lemma fin_flags:
  "has_flag (FLAG_FIN OR FLAG_ACK) FLAG_ACK" "has_flag (FLAG_FIN OR FLAG_ACK) FLAG_FIN" "\<not> has_flag (FLAG_FIN OR FLAG_ACK) FLAG_RST"
  "sent_mss (FLAG_FIN OR FLAG_ACK) = 0"
  by (simp_all add: has_flag_def FLAG_SYN_def FLAG_ACK_def FLAG_RST_def FLAG_FIN_def sent_mss_def)

text \<open>A segment without data and without SYN gets to the socket that it is for.\<close>

lemma segment_received:
  assumes "net_ok x" and "tcp_ok w" and "wf_ip (remote_ip s)" and "local_for w (remote_ip s) = remote_ip s"
    and "delivers readv (socket_frame x s fl [])" and "sent_mss fl = 0"
    and "\<And>p u. wf_buf p \<Longrightarrow> contents p = [] \<Longrightarrow> received w (nfrags p) u \<Longrightarrow>
      returns (tcp_dispatch iss (local_for x (remote_ip s)) (socket_segment s fl) 0 p u) P"
  shows "returns (packet_receive readv iss w) (\<lambda>w'. tcp_ok w' \<and> P w')"
proof -
  obtain p u where p: "packet_receive readv iss w = tcp_dispatch iss (local_for x (remote_ip s)) (socket_segment s fl) 0 p u"
      "wf_buf p" "contents p = []" "received w (nfrags p) u"
    using socket_frame_delivered [OF assms(1,3,2,4,5), of iss] by (auto simp: assms(6))
  then obtain w' where w': "packet_receive readv iss w = Some w'" "P w'"
    using assms(7) [OF p(2-4)] by (auto elim: returnsE)
  have "wf_ip (local_for x (remote_ip s))"
    by (rule local_for_v4(2) [OF assms(1,3)])
  then have "tcp_ok w'"
    using w'(1) p(1) dispatched_ok [OF _ p(4) assms(2) p(2)] by simp
  with w' show ?thesis by simp
qed

lemma linked_ack:
  assumes "linked a r s t"
  shows "ack_of s = Some (send_next_seq t)"
  using assms by (simp add: linked_def ack_of_cases get_next_expect_def)

text \<open>The socket \<open>t\<close> when the FIN of its peer \<open>s\<close> has arrived.\<close>

definition peer_closed :: "TCPSocketState \<Rightarrow> TCPSocketState \<Rightarrow> TCPSocketState" where
  "peer_closed s t = set_state CloseWait (update_window (socket_segment s (FLAG_FIN OR FLAG_ACK)) (disarmed t))"

lemma peer_closed_fields:
  "state (peer_closed s t) = CloseWait" "remote_ip (peer_closed s t) = remote_ip t" "remote_port (peer_closed s t) = remote_port t"
  "local_port (peer_closed s t) = local_port t" "receive_queue (peer_closed s t) = receive_queue t"
  "receive_next_seq (peer_closed s t) = receive_next_seq t" "reassembler (peer_closed s t) = reassembler t"
  by (simp_all add: peer_closed_def set_state_def update_window_def disarmed_def)

lemma peer_closed_ack:
  assumes "linked b q t s" and "send_next_seq s \<noteq> 0xffffffff"
  shows "ack_of (peer_closed s t) = Some (send_next_seq s + 1)"
  using assms by (simp add: linked_def ack_of_cases get_next_expect_def peer_closed_fields)

lemma fin_received:
  assumes "linked a r s t" and "linked b q t s" and "tcp_ok a" and "tcp_ok b"
    and "delivers readv (fin_frame a s)"
  shows "returns (packet_receive readv iss b) (\<lambda>b'. tcp_ok b' \<and> becomes b [] (TCP_PORT_MAP b) ((tcp_sockets b)[q := peer_closed s t]) b')"
proof -
  note addr = linked_addresses [OF assms(1-4)]
  have net: "net_ok a" "net_ok b"
    using assms(3,4) by (simp_all add: tcp_ok_def udp_ok_def)
  show ?thesis
  proof (rule segment_received [OF net(1) assms(4) addr(3,1) assms(5) fin_flags(4)])
    fix p and u
    assume p: "wf_buf p" "contents p = []" "received b (nfrags p) u"
    note f = received_fields [OF p(3)]
    have "returns (tcp_dispatch iss (local_for a (remote_ip s)) (socket_segment s (FLAG_FIN OR FLAG_ACK)) 0 p u)
        (becomes u [] (TCP_PORT_MAP u) ((tcp_sockets u)[q := peer_closed s t]))"
      unfolding peer_closed_def
      by (rule fin_dispatched [OF received_ok(1) [OF p(3) net(2)] p(1,2)])
        (use assms(1,2) in \<open>simp_all add: linked_def f get_socket_def socket_segment_fields fin_flags linked_ack [OF assms(1)]\<close>)
    then show "returns (tcp_dispatch iss (local_for a (remote_ip s)) (socket_segment s (FLAG_FIN OR FLAG_ACK)) 0 p u)
        (becomes b [] (TCP_PORT_MAP b) ((tcp_sockets b)[q := peer_closed s t]))"
      by (rule returns_conseq) (use becomes_received [OF p(3)] in \<open>simp add: f\<close>)
  qed
qed

lemma last_fin_received:
  assumes "net_ok x" and "tcp_ok w" and "wf_ip (remote_ip t)" and "local_for w (remote_ip t) = remote_ip t"
    and "unat (clock_ms w) + 5000 < 2 ^ 64"
    and "TCP_PORT_MAP w (local_for x (remote_ip t), local_port t, remote_port t) = Some r" and "get_socket r w = Some s"
    and "state s = FinWait1" and "ack_of t = Some (send_next_seq s + 1)"
    and "delivers readv (fin_frame x t)"
  shows "returns (packet_receive readv iss w) (\<lambda>w'. tcp_ok w' \<and>
    becomes w [] (TCP_PORT_MAP w) ((tcp_sockets w)[r := set_state TimeWait (disarmed s)]) w' \<and> timer_pending (Time_wait_timeout r) w')"
proof (rule segment_received [OF assms(1-4,10) fin_flags(4)])
  fix p and u
  assume p: "wf_buf p" "contents p = []" "received w (nfrags p) u"
  note f = received_fields [OF p(3)]
  have net: "net_ok w"
    using assms(2) by (simp add: tcp_ok_def udp_ok_def)
  have "returns (tcp_dispatch iss (local_for x (remote_ip t)) (socket_segment t (FLAG_FIN OR FLAG_ACK)) 0 p u) (\<lambda>w'.
      becomes u [] (TCP_PORT_MAP u) ((tcp_sockets u)[r := set_state TimeWait (disarmed s)]) w' \<and> timer_pending (Time_wait_timeout r) w')"
    by (rule last_fin_dispatched [OF received_ok(1) [OF p(3) net] p(1,2)])
      (use assms(5-9) in \<open>simp_all add: f get_socket_def socket_segment_fields fin_flags\<close>)
  then show "returns (tcp_dispatch iss (local_for x (remote_ip t)) (socket_segment t (FLAG_FIN OR FLAG_ACK)) 0 p u) (\<lambda>w'.
      becomes w [] (TCP_PORT_MAP w) ((tcp_sockets w)[r := set_state TimeWait (disarmed s)]) w' \<and> timer_pending (Time_wait_timeout r) w')"
    by (rule returns_conseq) (use becomes_received [OF p(3)] in \<open>auto simp: f\<close>)
qed

lemma time_wait_over:
  assumes "get_socket r w = Some s"
  shows "run_callback (Time_wait_timeout r) w = Some (tcp_unmap (remote_ip s, remote_port s, local_port s) (put_socket r (set_state Closed s) w))"
  using assms by (simp add: time_wait_timeout_def time_wait_socket_def Let_def)

section \<open>What each side does\<close>

text \<open>The side that hears of the end and closes too.\<close>

lemma peer_closes:
  assumes "linked a r s t" and "linked b q t s" and "tcp_ok a" and "tcp_ok b"
    and "unat (clock_ms b) + 3000 < 2 ^ 64" and "send_next_seq s \<noteq> 0xffffffff" and "delivers readv (fin_frame a s)"
  shows "returns (packet_receive readv iss b) (\<lambda>b1. tun_out b1 = tun_out b \<and> state (tcp_sockets b1 ! q) = CloseWait \<and>
    (contents (receive_queue t) = [] \<longrightarrow> tcp_read q dest b1 = Some (Ready (-1, dest), b1)) \<and>
    returns (tcp_close q b1) (\<lambda>b2. tun_out b2 = tun_out b @ [fin_frame b1 (peer_closed s t)] \<and>
      state (tcp_sockets b2 ! q) = LastAck \<and> tcp_ok b2 \<and> net_ok b1 \<and> local_for b1 (remote_ip t) = local_for b (remote_ip t)))"
proof -
  have live: "q < length (tcp_sockets b)"
    using assms(2) by (simp add: linked_def get_socket_Some)
  obtain b1 where b1: "packet_receive readv iss b = Some b1" "tcp_ok b1"
      "becomes b [] (TCP_PORT_MAP b) ((tcp_sockets b)[q := peer_closed s t]) b1"
    using fin_received [OF assms(1-4,7)] by (blast elim: returnsE)
  then have get: "get_socket q b1 = Some (peer_closed s t)" and clock: "unat (clock_ms b1) + 3000 < 2 ^ 64"
    using live assms(5) by (simp_all add: becomes_def get_socket_Some)
  have "socket_ok (peer_closed s t)"
    using b1(2) get by (auto simp: tcp_ok_def get_socket_Some)
  then have read: "contents (receive_queue t) = [] \<longrightarrow> tcp_read q dest b1 = Some (Ready (-1, dest), b1)"
    using get by (simp add: tcp_read_def is_empty_iff socket_ok_def peer_closed_fields)
  obtain b2 j where b2: "tcp_close q b1 = Some b2" "tcp_ok b2" "becomes b1 [fin_frame b1 (peer_closed s t)] (TCP_PORT_MAP b1)
      ((tcp_sockets b1)[q := (set_state LastAck (peer_closed s t))\<lparr>response_timer_id := j\<rparr>]) b2"
    using tcp_close_returns [OF b1(2) get clock, of "set_state LastAck (peer_closed s t)"] peer_closed_ack [OF assms(2,6)]
    by (auto simp: peer_closed_fields elim: returnsE)
  have "local_for b1 (remote_ip t) = local_for b (remote_ip t)"
    using b1(3) by (intro local_for_cong) (simp_all add: becomes_def)
  then show ?thesis
    unfolding b1(1) b2(1) returns_Some
    using b1(3) b2(2,3) get read by (simp add: becomes_def get_socket_Some set_state_def peer_closed_fields(1))
qed

text \<open>The side that closed first, from the FIN of the other one to the end of the wait.\<close>

lemma waits_and_closes:
  assumes "net_ok x" and "tcp_ok w" and "wf_ip (remote_ip t)" and "local_for w (remote_ip t) = remote_ip t"
    and "unat (clock_ms w) + 5000 < 2 ^ 64"
    and "TCP_PORT_MAP w (local_for x (remote_ip t), local_port t, remote_port t) = Some r" and "get_socket r w = Some s"
    and "state s = FinWait1" and "ack_of t = Some (send_next_seq s + 1)" and "delivers readv (fin_frame x t)"
  shows "returns (packet_receive readv iss w) (\<lambda>w'. tun_out w' = tun_out w \<and>
    state (tcp_sockets w' ! r) = TimeWait \<and> timer_pending (Time_wait_timeout r) w' \<and>
    returns (run_callback (Time_wait_timeout r) w') (\<lambda>w''. tun_out w'' = tun_out w \<and> tcp_ok w'' \<and>
      state (tcp_sockets w'' ! r) = Closed \<and>
      TCP_PORT_MAP w'' = (TCP_PORT_MAP w)((remote_ip s, remote_port s, local_port s) := None)))"
proof -
  obtain w' where w': "packet_receive readv iss w = Some w'" "tcp_ok w'" "timer_pending (Time_wait_timeout r) w'"
      "becomes w [] (TCP_PORT_MAP w) ((tcp_sockets w)[r := set_state TimeWait (disarmed s)]) w'"
    using last_fin_received [OF assms] by (auto elim: returnsE)
  have get: "get_socket r w' = Some (set_state TimeWait (disarmed s))"
    using w'(4) assms(7) by (simp add: becomes_def get_socket_Some)
  define w'' where "w'' = tcp_unmap (remote_ip s, remote_port s, local_port s) (put_socket r (set_state Closed (set_state TimeWait (disarmed s))) w')"
  have run: "run_callback (Time_wait_timeout r) w' = Some w''"
    using time_wait_over [OF get] by (simp add: w''_def set_state_def disarmed_def)
  then have "tcp_ok w''"
    using wheneverD [OF time_wait_timeout_keeps, of r w' w''] w'(2) by (simp add: tcp_keeps_def)
  moreover have "state (tcp_sockets w'' ! r) = Closed" "tun_out w'' = tun_out w"
      "TCP_PORT_MAP w'' = (TCP_PORT_MAP w)((remote_ip s, remote_port s, local_port s) := None)"
    using w'(4) get by (simp_all add: w''_def tcp_unmap_def put_socket_def becomes_def get_socket_Some set_state_def)
  moreover have "tcp_sockets w' ! r = set_state TimeWait (disarmed s)" "tun_out w' = tun_out w"
    using get w'(4) by (simp_all add: get_socket_Some becomes_def)
  moreover from this have "state (tcp_sockets w' ! r) = TimeWait"
    by (simp add: set_state_def)
  ultimately show ?thesis
    unfolding w'(1) run returns_Some using w'(3) by simp
qed

section \<open>A forgotten connection\<close>

text \<open>The answer to a segment for which there is no connection.\<close>

definition reset_params :: "IPAddr \<Rightarrow> segment \<Rightarrow> TCPSendParams" where
  "reset_params src g = \<lparr>source_port = seg_dest_port g, dest_ip = src, dest_port = seg_source_port g, seq_num = 1,
     ack_num = seg_seq g + 1, flags = FLAG_RST OR FLAG_ACK, window = 0, options = []\<rparr>"

definition reset_frame :: "'a net_world_scheme \<Rightarrow> IPAddr \<Rightarrow> segment \<Rightarrow> bytes" where
  "reset_frame w src g = ip_datagram w PROTO_TCP src (tcp_segment (local_for w src) (reset_params src g) [])"

lemma reset_params_fields:
  "dest_ip (reset_params src g) = src" "options (reset_params src g) = []" "wf_ip src \<Longrightarrow> valid_params (reset_params src g)"
  by (simp_all add: reset_params_def valid_params_def)

lemma u32_max: "(x :: u32) \<noteq> 0xffffffff \<Longrightarrow> unat x + 1 < 2 ^ 32"
proof -
  assume "x \<noteq> 0xffffffff"
  then have "unat x \<noteq> unat (0xffffffff :: u32)"
    by (simp only: word_unat_eq_iff not_False_eq_True)
  moreover have "unat x < 2 ^ 32"
    using unat_u32_less [of x] by simp
  ultimately show ?thesis
    by simp
qed

lemma tcp_reset_returns:
  assumes "net_ok w" and "wf_buf p" and "wf_ip src" and "seg_seq g \<noteq> 0xffffffff"
  shows "returns (tcp_reset p src g w) (stays w [reset_frame w src g])"
proof -
  have "checked_add (seg_seq g) 1 = Some (seg_seq g + 1)"
    using u32_max [OF assms(4)] by (simp add: checked_add_def)
  then have run: "tcp_reset p src g w = do { w \<leftarrow> tcp_output NetBuffer_new (reset_params src g) w; Some (drop_buffer p w) }"
    by (simp add: tcp_reset_def reset_params_def)
  obtain v where v: "tcp_output NetBuffer_new (reset_params src g) w = Some v" "net_step w 0 [reset_frame w src g] v 0"
    using tcp_output_returns [of NetBuffer_new w "reset_params src g"] assms(1,3)
    by (auto simp: reset_params_fields reset_frame_def elim: returnsE)
  have "stays w [reset_frame w src g] v"
    by (rule stays_net [OF v(2) assms(1)])
  moreover from this have "stays v [] (drop_buffer p v)"
    by (intro drop_stays assms(2)) (simp add: becomes_def)
  ultimately show ?thesis
    unfolding run v(1) using becomes_stays by fastforce
qed

text \<open>A segment that the receiver has no socket for, and no listener if it is a SYN.\<close>

lemma segment_refused:
  assumes "net_ok x" and "wf_ip (remote_ip t)" and "tcp_ok w" and "local_for w (remote_ip t) = remote_ip t"
    and "TCP_PORT_MAP w (local_for x (remote_ip t), local_port t, remote_port t) = None"
    and "TCP_PORT_MAP w (IPAddr_new, 0, remote_port t) = None \<or> \<not> has_flag fl FLAG_SYN"
    and "send_next_seq t \<noteq> 0xffffffff" and "length body \<le> 1900" and "delivers readv (socket_frame x t fl body)"
  shows "returns (packet_receive readv iss w) (stays w [reset_frame w (local_for x (remote_ip t)) (socket_segment t fl)])"
proof -
  define src where "src = local_for x (remote_ip t)"
  define g where "g = socket_segment t fl"
  have g: "seg_source_port g = local_port t" "seg_dest_port g = remote_port t" "seg_seq g = send_next_seq t" "seg_flags g = fl"
    by (simp_all add: g_def socket_segment_fields)
  have net: "net_ok w" and src: "wf_ip src"
    using assms(3) local_for_v4(2) [OF assms(1,2)] by (simp_all add: tcp_ok_def udp_ok_def src_def)
  obtain p u where run: "packet_receive readv iss w = tcp_dispatch iss src g (sent_mss fl) p u"
    and p: "wf_buf p" "received w (nfrags p) u"
    using socket_frame_delivered [OF assms(1-4,9,8), of iss] by (auto simp: g_def src_def)
  note f = received_fields [OF p(2)]
  have "tcp_dispatch iss src g (sent_mss fl) p u = tcp_reset p src g u"
    using assms(5,6) by (auto simp: tcp_dispatch_def g f src_def split: option.split)
  moreover have "reset_frame u src g = reset_frame w src g"
    by (simp add: reset_frame_def ip_datagram_def local_for_def f split: IPAddr.split)
  ultimately have "returns (packet_receive readv iss w) (stays u [reset_frame w src g])"
    using tcp_reset_returns [OF received_ok(1) [OF p(2) net] p(1) src, of g] assms(7) by (simp add: g run)
  then show ?thesis
    unfolding src_def g_def by (rule returns_conseq) (simp add: becomes_def f)
qed

lemma rst_dispatched:
  assumes "net_ok w" and "wf_buf b" and "TCP_PORT_MAP w (src, seg_source_port g, seg_dest_port g) = Some q" and "get_socket q w = Some t"
    and "has_flag (seg_flags g) FLAG_RST"
  shows "returns (tcp_dispatch iss src g 0 b w) (\<lambda>w'. \<exists>t'. state t' = Closed \<and> becomes w [] (TCP_PORT_MAP w) ((tcp_sockets w)[q := t']) w')"
proof -
  note v = stopped_stays [OF assms(1), of t]
  have "tcp_input_socket q g 0 b t w = Some (set_state Closed (disarmed t), drop_buffer b (stopped t w))"
    using assms(5) by (cases "response_timer_id t = -1"; cases t) (simp_all add: tcp_input_socket_def disarmed_def stopped_def)
  moreover have "stays (stopped t w) [] (drop_buffer b (stopped t w))"
    using v by (intro drop_stays assms(2)) (simp add: becomes_def)
  moreover from this have "becomes w [] (TCP_PORT_MAP w) ((tcp_sockets w)[q := set_state Closed (disarmed t)])
      (put_socket q (set_state Closed (disarmed t)) (drop_buffer b (stopped t w)))"
    using becomes_put [OF becomes_stays [OF v]] by simp
  moreover have "state (set_state Closed (disarmed t)) = Closed"
    by (simp add: set_state_def)
  ultimately have "tcp_dispatch iss src g 0 b w = Some (put_socket q (set_state Closed (disarmed t)) (drop_buffer b (stopped t w)))"
      "\<exists>t'. state t' = Closed \<and> becomes w [] (TCP_PORT_MAP w) ((tcp_sockets w)[q := t'])
        (put_socket q (set_state Closed (disarmed t)) (drop_buffer b (stopped t w)))"
    using assms(3,4) by (simp add: tcp_dispatch_def, blast)
  then show ?thesis
    by simp
qed

lemma rst_received:
  assumes "net_ok x" and "wf_ip src" and "tcp_ok w" and "local_for w src = src" and "local_for x src = peer"
    and "TCP_PORT_MAP w (peer, seg_dest_port g, seg_source_port g) = Some q" and "get_socket q w = Some t"
    and "delivers readv (reset_frame x src g)"
  shows "returns (packet_receive readv iss w) (\<lambda>w'. tcp_ok w' \<and> tun_out w' = tun_out w \<and> state (tcp_sockets w' ! q) = Closed)"
proof -
  define h where "h = segment_fields (reset_params src g)"
  have h: "seg_source_port h = seg_dest_port g" "seg_dest_port h = seg_source_port g" "has_flag (seg_flags h) FLAG_RST"
    by (simp_all add: h_def segment_fields_def reset_params_def has_flag_def FLAG_RST_def FLAG_ACK_def)
  have "ip_header_len src + 20 + length (options (reset_params src g)) + length [] \<le> MRU"
    by (simp add: reset_params_fields ip_header_len_def IPV4_BASE_HEADER_LEN_def IPV6_HEADER_LEN_def MRU_def)
  moreover have "parse_options (options (reset_params src g)) = Some 0"
    using parse_sent_options [of FLAG_ACK] by (simp add: reset_params_fields send_options_def sent_mss_def has_flag_def FLAG_ACK_def FLAG_SYN_def)
  ultimately obtain p u where run: "packet_receive readv iss w = tcp_dispatch iss peer h 0 p u"
    and p: "wf_buf p" "contents p = []" "received w (nfrags p) u"
    using segment_delivered [OF assms(1) reset_params_fields(3) [OF assms(2)] reset_params_fields(1) assms(3,4)
        assms(8) [unfolded reset_frame_def], of 0 iss] assms(5)
    unfolding h_def by blast
  note f = received_fields [OF p(3)]
  have net: "net_ok w" and peer: "wf_ip peer"
    using assms(3) local_for_v4(2) [OF assms(1,2)] assms(5) by (auto simp: tcp_ok_def udp_ok_def)
  obtain w' t' where w': "tcp_dispatch iss peer h 0 p u = Some w'" "state t' = Closed"
      "becomes u [] (TCP_PORT_MAP u) ((tcp_sockets u)[q := t']) w'"
    using rst_dispatched [OF received_ok(1) [OF p(3) net] p(1), of peer h q t iss] assms(6,7) h
    by (auto simp: f get_socket_def elim: returnsE)
  moreover have "tcp_ok w'"
    by (rule dispatched_ok [OF w'(1) p(3) assms(3) p(1) peer]) simp
  ultimately show ?thesis
    using assms(7) by (simp add: run becomes_def f get_socket_Some)
qed

section \<open>Properties\<close>

text \<open>
  C3: An orderly end. Of two connected sockets with nothing in flight the one closes and its FIN is
  delivered: the reader on the other side gets the end of the stream. Then the other one closes too and its
  FIN, which acknowledges the first, is delivered: the first socket waits, and when its timer runs it is
  closed and its key is free again. No step panics, and two segments are sent in all.
\<close>

theorem connection_teardown:
  fixes dest :: bytes and a :: "'a tcp_world_scheme" and b :: "'b tcp_world_scheme"
  assumes "tcp_ok a" and "tcp_ok b" and "linked a r s t" and "linked b q t s"
    and "unat (clock_ms a) + 5000 < 2 ^ 64" and "unat (clock_ms b) + 3000 < 2 ^ 64" and "send_next_seq s \<noteq> 0xffffffff"
  shows "returns (tcp_close r a) (\<lambda>a1. \<exists>fin. tun_out a1 = tun_out a @ [fin] \<and> state (tcp_sockets a1 ! r) = FinWait1 \<and>
    (\<forall>readv iss. delivers readv fin \<longrightarrow> returns (packet_receive readv iss b) (\<lambda>b1. tun_out b1 = tun_out b \<and>
      state (tcp_sockets b1 ! q) = CloseWait \<and>
      (contents (receive_queue t) = [] \<longrightarrow> tcp_read q dest b1 = Some (Ready (-1, dest), b1)) \<and>
      returns (tcp_close q b1) (\<lambda>b2. \<exists>fin'. tun_out b2 = tun_out b @ [fin'] \<and> state (tcp_sockets b2 ! q) = LastAck \<and> tcp_ok b2 \<and>
        (\<forall>readv iss. delivers readv fin' \<longrightarrow> returns (packet_receive readv iss a1) (\<lambda>a2. tun_out a2 = tun_out a1 \<and>
          state (tcp_sockets a2 ! r) = TimeWait \<and> timer_pending (Time_wait_timeout r) a2 \<and>
          returns (run_callback (Time_wait_timeout r) a2) (\<lambda>a3. tun_out a3 = tun_out a1 \<and> tcp_ok a3 \<and>
            state (tcp_sockets a3 ! r) = Closed \<and>
            TCP_PORT_MAP a3 = (TCP_PORT_MAP a)((remote_ip s, remote_port s, local_port s) := None))))))))"
    (is "returns _ (\<lambda>a1. \<exists>fin. _ \<and> _ \<and> (\<forall>readv iss. _ \<longrightarrow> returns _ (\<lambda>b1. _ \<and> _ \<and> _ \<and> returns _ (\<lambda>b2. \<exists>fin'. _ \<and> _ \<and> _ \<and>
      (\<forall>readv iss. _ \<longrightarrow> ?last a1 readv iss)))))")
proof -
  note addr = linked_addresses [OF assms(3,4,1,2)]
  have s: "get_socket r a = Some s" "state s = Established"
    using assms(3) by (simp_all add: linked_def)
  obtain a1 i where a1: "tcp_close r a = Some a1" "tcp_ok a1"
      and step1: "becomes a [fin_frame a s] (TCP_PORT_MAP a) ((tcp_sockets a)[r := (set_state FinWait1 s)\<lparr>response_timer_id := i\<rparr>]) a1"
    using tcp_close_returns [OF assms(1) s(1), of "set_state FinWait1 s"] assms(5) s(2) linked_ack [OF assms(3)] by (auto elim: returnsE)
  define s1 where "s1 = (set_state FinWait1 s)\<lparr>response_timer_id := i\<rparr>"
  have s1: "get_socket r a1 = Some s1" "state s1 = FinWait1" "send_next_seq s1 = send_next_seq s"
      "remote_ip s1 = remote_ip s" "remote_port s1 = remote_port s" "local_port s1 = local_port s"
    using step1 s(1) by (simp_all add: s1_def becomes_def get_socket_Some set_state_def)
  have loc: "local_for b (remote_ip t) = remote_ip s" "local_for a1 (remote_ip t) = remote_ip t"
    using assms(4) addr(2) step1 local_for_cong [of a1 a "remote_ip t" "remote_ip t"] by (simp_all add: linked_def becomes_def)
  have key: "TCP_PORT_MAP a1 (remote_ip s, local_port t, remote_port t) = Some r" "unat (clock_ms a1) + 5000 < 2 ^ 64"
      "TCP_PORT_MAP a1 = TCP_PORT_MAP a"
    using assms(3,5) step1 by (simp_all add: linked_def becomes_def)
  have last: "?last a1 readv iss" if "net_ok x" and "local_for x (remote_ip t) = local_for b (remote_ip t)"
      and "delivers readv (fin_frame x (peer_closed s t))" for readv iss and x :: "'b tcp_world_scheme"
    using waits_and_closes [OF that(1) a1(2) _ _ key(2) _ s1(1,2) _ that(3), of iss] addr(4) peer_closed_ack [OF assms(4,7)] loc key(1,3) that(2)
    by (simp add: peer_closed_fields s1)
  show ?thesis
    unfolding a1(1) returns_Some
  proof (intro exI conjI allI impI)
    show "tun_out a1 = tun_out a @ [fin_frame a s]" "state (tcp_sockets a1 ! r) = FinWait1"
      using step1 s(1) by (simp_all add: becomes_def set_state_def get_socket_Some)
    fix readv and iss
    assume "delivers readv (fin_frame a s)"
    then obtain b1 b2 where b1: "packet_receive readv iss b = Some b1" "tun_out b1 = tun_out b" "state (tcp_sockets b1 ! q) = CloseWait"
        "contents (receive_queue t) = [] \<longrightarrow> tcp_read q dest b1 = Some (Ready (-1, dest), b1)"
      and b2: "tcp_close q b1 = Some b2" "tun_out b2 = tun_out b @ [fin_frame b1 (peer_closed s t)]" "state (tcp_sockets b2 ! q) = LastAck" "tcp_ok b2"
      and x: "net_ok b1" "local_for b1 (remote_ip t) = local_for b (remote_ip t)"
      using peer_closes [OF assms(3,4,1,2,6,7)] by (fastforce elim!: returnsE)
    show "returns (packet_receive readv iss b) (\<lambda>b1. tun_out b1 = tun_out b \<and> state (tcp_sockets b1 ! q) = CloseWait \<and>
      (contents (receive_queue t) = [] \<longrightarrow> tcp_read q dest b1 = Some (Ready (-1, dest), b1)) \<and>
      returns (tcp_close q b1) (\<lambda>b2. \<exists>fin'. tun_out b2 = tun_out b @ [fin'] \<and> state (tcp_sockets b2 ! q) = LastAck \<and> tcp_ok b2 \<and>
        (\<forall>readv iss. delivers readv fin' \<longrightarrow> ?last a1 readv iss)))"
      unfolding b1(1) b2(1) returns_Some using b1 b2 last [OF x] by blast
  qed
qed

lemma ends_linked:
  defines "s \<equiv> (client_done 100 200 (V4 [10, 0, 0, 9]) (V4 [10, 0, 0, 2]) 80 49159)\<lparr>send_mss := 2\<rparr>"
    and "t \<equiv> server_done 100 200 (V4 [10, 0, 0, 9]) (V4 [10, 0, 0, 2]) 80 49159"
  shows "linked active_end 0 s t" "linked passive_end 0 t s" "send_next_seq s = 101" "clock_ms active_end = 1000" "clock_ms passive_end = 1000"
    "TCP_PORT_MAP active_end = [(V4 [10, 0, 0, 2], 80, 49159) \<mapsto> 0]" "remote_ip s = V4 [10, 0, 0, 2]" "remote_port s = 80" "local_port s = 49159"
proof -
  obtain ack where t: "t = (TCPSocketState_new 200 (V4 [10, 0, 0, 9]) 49159 80)\<lparr>state := Established,
     receive_next_seq := 100 + 1, reassembler := \<lparr>next_sequence = 100 + 1, out_of_order = []\<rparr>,
     send_unacked := 200 + 1, send_next_seq := 200 + 1, send_window := 0xffff,
     send_last_win_seq := 100, send_last_win_ack := ack, send_mss := 1500\<rparr>"
    using server_done_eq [of 100 200 "V4 [10, 0, 0, 9]" "V4 [10, 0, 0, 2]" 80 49159] unfolding t_def by blast
  show "linked active_end 0 s t" "linked passive_end 0 t s"
    unfolding linked_def
    by (simp_all add: t s_def client_done_eq TCPSocketState_new_def active_end_def passive_end_def get_socket_def client_world_def
        listening_world_fields local_for_def flip: t_def)
  show "send_next_seq s = 101" "clock_ms active_end = 1000" "clock_ms passive_end = 1000"
    "TCP_PORT_MAP active_end = [(V4 [10, 0, 0, 2], 80, 49159) \<mapsto> 0]" "remote_ip s = V4 [10, 0, 0, 2]" "remote_port s = 80" "local_port s = 49159"
    by (simp_all add: s_def client_done_eq TCPSocketState_new_def active_end_def passive_end_def client_world_def listening_world_fields)
qed

theorem connection_teardown_witness:
  "\<exists>a1 fin b1 b2 fin' a2 a3. tcp_close 0 active_end = Some a1 \<and> tun_out a1 = tun_out active_end @ [fin] \<and>
    packet_receive (scatter fin) 0 passive_end = Some b1 \<and>
    tcp_close 0 b1 = Some b2 \<and> tun_out b2 = tun_out passive_end @ [fin'] \<and>
    packet_receive (scatter fin') 0 a1 = Some a2 \<and>
    run_callback (Time_wait_timeout 0) a2 = Some a3 \<and> TCP_PORT_MAP a3 = Map.empty"
proof -
  note run = connection_teardown [OF ends_ok ends_linked(1,2), of "[]"]
  from run obtain a1 fin where a1: "tcp_close 0 active_end = Some a1" "tun_out a1 = tun_out active_end @ [fin]"
    and rest: "\<And>readv iss. delivers readv fin \<Longrightarrow> returns (packet_receive readv iss passive_end) (\<lambda>b1.
      returns (tcp_close 0 b1) (\<lambda>b2. \<exists>fin'. tun_out b2 = tun_out passive_end @ [fin'] \<and>
        (\<forall>readv iss. delivers readv fin' \<longrightarrow> returns (packet_receive readv iss a1) (\<lambda>a2.
          returns (run_callback (Time_wait_timeout 0) a2) (\<lambda>a3. TCP_PORT_MAP a3 = Map.empty)))))"
    by (simp add: ends_linked) (elim returnsE exE conjE, fastforce elim!: returns_conseq)
  from rest [OF delivers_scatter, of 0] obtain b1 b2 fin' where b: "packet_receive (scatter fin) 0 passive_end = Some b1"
      "tcp_close 0 b1 = Some b2" "tun_out b2 = tun_out passive_end @ [fin']"
    and last: "\<And>readv iss. delivers readv fin' \<Longrightarrow> returns (packet_receive readv iss a1) (\<lambda>a2.
          returns (run_callback (Time_wait_timeout 0) a2) (\<lambda>a3. TCP_PORT_MAP a3 = Map.empty))"
    by (auto elim!: returnsE)
  from last [OF delivers_scatter, of 0] a1 b show ?thesis
    by (auto elim!: returnsE)
qed

text \<open>
  C34: A half-open connection is found out. When a socket, in whatever state, sends a segment and the peer
  does not know the connection (any more), the peer answers with one RST and changes nothing else, and when
  the RST is delivered the socket is closed. So a side that waits in LastAck for an acknowledgement that the
  peer has lost is closed by the FIN that it repeats.
\<close>

theorem half_open_reset:
  assumes "tcp_ok a" and "tcp_ok b" and "get_socket q b = Some t"
    and "local_for a (remote_ip t) = remote_ip t" and "local_for b (remote_ip t) = src"
    and "TCP_PORT_MAP b (remote_ip t, remote_port t, local_port t) = Some q"
    and "TCP_PORT_MAP a (src, local_port t, remote_port t) = None"
    and "TCP_PORT_MAP a (IPAddr_new, 0, remote_port t) = None \<or> \<not> has_flag fl FLAG_SYN"
    and "send_next_seq t \<noteq> 0xffffffff" and "length body \<le> 1900"
    and "delivers readv (socket_frame b t fl body)"
  shows "returns (packet_receive readv iss a) (\<lambda>a'. \<exists>rst. tun_out a' = tun_out a @ [rst] \<and>
    TCP_PORT_MAP a' = TCP_PORT_MAP a \<and> tcp_sockets a' = tcp_sockets a \<and>
    (\<forall>readv iss. delivers readv rst \<longrightarrow> returns (packet_receive readv iss b) (\<lambda>b'. tcp_ok b' \<and> tun_out b' = tun_out b \<and>
      state (tcp_sockets b' ! q) = Closed)))"
proof -
  have net: "net_ok b" and wf: "wf_ip (remote_ip t)"
    using assms(2,3) by (auto simp: tcp_ok_def udp_ok_def get_socket_Some socket_ok_def)
  have src: "wf_ip src" "is_v4 src = is_v4 (remote_ip t)"
    using local_for_v4 [OF net wf] assms(5) by simp_all
  define g where "g = socket_segment t fl"
  obtain a' where a': "packet_receive readv iss a = Some a'" "stays a [reset_frame a src g] a'"
    using segment_refused [OF net wf assms(1,4) _ assms(8-11)] assms(5,7) unfolding g_def by (auto elim: returnsE)
  have "local_for a src = remote_ip t" "local_for b src = src"
    using local_for_cong [of a a src "remote_ip t"] local_for_cong [of b b src "remote_ip t"] src(2) assms(4,5) by simp_all
  then have "returns (packet_receive readv iss b) (\<lambda>b'. tcp_ok b' \<and> tun_out b' = tun_out b \<and> state (tcp_sockets b' ! q) = Closed)"
    if "delivers readv (reset_frame a src g)" for readv iss
    using assms(1,6) by (intro rst_received [OF _ src(1) assms(2) _ _ _ assms(3) that])
      (simp_all add: g_def socket_segment_fields tcp_ok_def udp_ok_def)
  then show ?thesis
    unfolding a'(1) returns_Some using a'(2) by (intro exI [of _ "reset_frame a src g"]) (simp add: becomes_def)
qed

theorem half_open_reset_witness:
  "\<exists>t a' rst b'. get_socket 0 passive_end = Some t \<and>
    packet_receive (scatter (socket_frame passive_end t FLAG_FIN [])) 0 client_world = Some a' \<and> tun_out a' = [rst] \<and>
    packet_receive (scatter rst) 0 passive_end = Some b' \<and> state (tcp_sockets b' ! 0) = Closed"
proof -
  define t where "t = server_done 100 200 (V4 [10, 0, 0, 9]) (V4 [10, 0, 0, 2]) 80 49159"
  have t: "remote_ip t = V4 [10, 0, 0, 9]" "remote_port t = 49159" "local_port t = 80" "send_next_seq t = 201"
    using server_done_eq [of 100 200 "V4 [10, 0, 0, 9]" "V4 [10, 0, 0, 2]" 80 49159] by (auto simp: t_def TCPSocketState_new_def)
  have w: "get_socket 0 passive_end = Some t" "local_for client_world (V4 [10, 0, 0, 9]) = V4 [10, 0, 0, 9]"
      "local_for passive_end (V4 [10, 0, 0, 9]) = V4 [10, 0, 0, 2]" "TCP_PORT_MAP passive_end (V4 [10, 0, 0, 9], 49159, 80) = Some 0"
      "TCP_PORT_MAP client_world (V4 [10, 0, 0, 2], 80, 49159) = None" "TCP_PORT_MAP client_world (IPAddr_new, 0, 49159) = None"
      "tun_out client_world = []"
    by (simp_all add: passive_end_def t_def get_socket_def client_world_def listening_world_fields local_for_def IPAddr_new_def)
  from half_open_reset [OF handshake_worlds(2) ends_ok(2) w(1) _ _ _ _ _ _ _ delivers_scatter, of "V4 [10, 0, 0, 2]" FLAG_FIN "[]" 0]
  obtain a' rst where a': "packet_receive (scatter (socket_frame passive_end t FLAG_FIN [])) 0 client_world = Some a'" "tun_out a' = [rst]"
    and closed: "\<And>readv iss. delivers readv rst \<Longrightarrow>
      returns (packet_receive readv iss passive_end) (\<lambda>b'. state (tcp_sockets b' ! 0) = Closed)"
    by (simp add: t w) (elim returnsE exE conjE, fastforce elim!: returns_conseq)
  from closed [OF delivers_scatter, of 0] show ?thesis
    using a' w(1) by (auto elim!: returnsE)
qed

text \<open>
  C39: The race in \<open>tcp_close\<close> of a listener. Its first critical section closes the socket, its second one takes
  the key out of the port map. A SYN for the port that arrives in between panics the receive thread; the same
  segment, when it arrives after the second section, is answered with a RST.
\<close>

theorem listener_close_race:
  assumes "tcp_ok a" and "tcp_ok b" and "get_socket l b = Some ls" and "state ls = Listen"
    and "TCP_PORT_MAP b (IPAddr_new, 0, local_port ls) = Some l"
    and "wf_ip (remote_ip s)" and "local_for b (remote_ip s) = remote_ip s" and "remote_port s = local_port ls"
    and "TCP_PORT_MAP b (local_for a (remote_ip s), local_port s, remote_port s) = None"
    and "unat (clock_ms b) + 3000 < 2 ^ 64" and "send_next_seq s \<noteq> 0xffffffff"
    and "delivers readv (socket_frame a s FLAG_SYN [])"
  shows "returns (tcp_close_socket l b) (\<lambda>(key, b1). key = Some (IPAddr_new, 0, local_port ls) \<and>
    packet_receive readv iss b1 = None \<and>
    returns (packet_receive readv iss (tcp_unmap (IPAddr_new, 0, local_port ls) b1)) (\<lambda>b2.
      (\<exists>rst. tun_out b2 = tun_out b @ [rst]) \<and> tcp_sockets b2 = (tcp_sockets b)[l := set_state Closed ls]))"
proof -
  define b1 where "b1 = put_socket l (set_state Closed ls) b"
  have net: "net_ok a" "net_ok b1" and wf: "wf_ip (local_for a (remote_ip s))"
    using assms(1,2) local_for_v4(2) [of a "remote_ip s"] assms(6)
    by (auto simp: tcp_ok_def udp_ok_def b1_def put_socket_def)
  have close: "tcp_close_socket l b = Some (Some (IPAddr_new, 0, local_port ls), b1)"
    using assms(3,4) by (simp add: tcp_close_socket_def b1_def)
  then have ok: "tcp_ok b1" "tcp_ok (tcp_unmap (IPAddr_new, 0, local_port ls) b1)"
    using wheneverD [OF tcp_close_socket_keeps, of l b] unmap_keeps [of 0 b1] assms(2) by (auto simp: tcp_keeps_def)
  have loc: "local_for b1 (remote_ip s) = remote_ip s" "local_for (tcp_unmap k b1) (remote_ip s) = remote_ip s" for k
    using local_for_cong [of b1 b "remote_ip s" "remote_ip s"] local_for_cong [of "tcp_unmap k b1" b "remote_ip s" "remote_ip s"] assms(7)
    by (simp_all add: b1_def put_socket_def tcp_unmap_def)
  obtain p u where run: "packet_receive readv iss b1 = tcp_dispatch iss (local_for a (remote_ip s)) (socket_segment s FLAG_SYN) 1500 p u"
    and p: "received b1 (nfrags p) u"
    using socket_frame_delivered [OF net(1) assms(6) ok(1) loc(1) assms(12), of iss]
    by (auto simp: sent_mss_def has_flag_def FLAG_SYN_def)
  note f = received_fields [OF p]
  have "handle_new_connection iss l (local_for a (remote_ip s)) (socket_segment s FLAG_SYN) 1500 u = None"
    by (rule closed_listener_panics [OF received_ok(1) [OF p net(2)] wf, of l "set_state Closed ls"])
      (use assms(3,10) in \<open>simp_all add: f b1_def put_socket_def get_socket_Some set_state_def\<close>)
  moreover have "TCP_PORT_MAP b1 = TCP_PORT_MAP b" "has_flag FLAG_SYN FLAG_SYN"
    by (simp_all add: b1_def put_socket_def has_flag_def FLAG_SYN_def)
  ultimately have "packet_receive readv iss b1 = None"
    using assms(5,8,9) by (simp add: run tcp_dispatch_def socket_segment_fields f)
  moreover have "returns (packet_receive readv iss (tcp_unmap (IPAddr_new, 0, local_port ls) b1)) (\<lambda>b2.
      (\<exists>rst. tun_out b2 = tun_out b @ [rst]) \<and> tcp_sockets b2 = (tcp_sockets b)[l := set_state Closed ls])"
    by (rule returns_conseq [OF segment_refused [OF net(1) assms(6) ok(2) loc(2) _ _ assms(11) _ assms(12)]])
      (use assms(8,9) in \<open>auto simp: becomes_def tcp_unmap_def b1_def put_socket_def\<close>)
  ultimately show ?thesis
    by (simp add: close)
qed

theorem listener_close_race_witness:
  "\<exists>b1 syn. tcp_close_socket 0 listening_world = Some (Some (IPAddr_new, 0, 80), b1) \<and> packet_receive (scatter syn) 7 b1 = None"
proof -
  define s where "s = opening_socket 100 (V4 [10, 0, 0, 2]) 80 49159"
  define ls where "ls = set_state Listen (TCPSocketState_new 5 IPAddr_new 0 80)"
  have s: "remote_ip s = V4 [10, 0, 0, 2]" "remote_port s = 80" "local_port s = 49159" "send_next_seq s = 100"
    by (simp_all add: s_def opening_socket_def set_state_def TCPSocketState_new_def)
  have w: "get_socket 0 listening_world = Some ls" "state ls = Listen" "local_port ls = 80"
      "TCP_PORT_MAP listening_world (IPAddr_new, 0, 80) = Some 0" "local_for listening_world (V4 [10, 0, 0, 2]) = V4 [10, 0, 0, 2]"
      "local_for client_world (V4 [10, 0, 0, 2]) = V4 [10, 0, 0, 9]" "TCP_PORT_MAP listening_world (V4 [10, 0, 0, 9], 49159, 80) = None"
      "clock_ms listening_world = 1000"
    by (simp_all add: ls_def get_socket_def listening_world_fields local_for_def client_world_def set_state_def TCPSocketState_new_def IPAddr_new_def)
  from listener_close_race [OF handshake_worlds(2,1) w(1,2) _ _ _ _ _ _ _ delivers_scatter, of s 7] show ?thesis
    by (auto simp: s w elim!: returnsE)
qed

end
