(* ===== verification/Tcp_Loss.thy ===== *)
theory Tcp_Loss
  imports Tcp_Transfer
begin

text \<open>
  Lost segments: what the retransmission timer of the sender sends, and what the receiver makes of it; what
  the response timer does when the answer to a request does not come.
\<close>

lemma retransmit_returns:
  assumes "tcp_ok w" and "get_socket r w = Some s" and "state s \<noteq> Closed" and "contents (retransmit_queue s) \<noteq> []"
    and "ack_of s \<noteq> None" and "send_mss s \<le> MAX_PAYLOAD" and "unat (clock_ms w) + 1000 < 2 ^ 64"
  shows "returns (retransmit r w) (\<lambda>w'. \<exists>i (x :: 'a tcp_world_scheme). net_ok x \<and> LOCAL_IPV4 x = LOCAL_IPV4 w \<and> LOCAL_IPV6 x = LOCAL_IPV6 w \<and>
    becomes (w :: 'a tcp_world_scheme) [socket_frame x s (FLAG_ACK OR FLAG_PSH) (take (send_mss s) (contents (retransmit_queue s)))]
      (TCP_PORT_MAP w) ((tcp_sockets w)[r := s\<lparr>retransmit_timer_id := i\<rparr>]) w')"
proof -
  define u where "u = w\<lparr>METRICS := (METRICS w)\<lparr>packets_retransmitted := PerfCounter_inc (packets_retransmitted (METRICS w))\<rparr>\<rparr>"
  have wf: "net_ok w" "wf_ip (remote_ip s)" "wf_buf (retransmit_queue s)"
    using assms(1,2) by (auto simp: tcp_ok_def udp_ok_def get_socket_Some socket_ok_def)
  have u: "stays w [] u"
    using wf(1) by (simp add: becomes_def u_def net_ok_def pool_ok_def link_up_def)
  then have netu: "net_ok u"
    by (simp add: becomes_def)
  obtain p v where p: "append_from_buffer (retransmit_queue s) (send_mss s) NetBuffer_new u = Some (p, v)" "wf_buf p"
      "contents p = take (send_mss s) (contents (retransmit_queue s))" "packed (fragments p)" "pool_step u 0 v (nfrags p)"
    using append_from_buffer_returns [of NetBuffer_new "retransmit_queue s" u "send_mss s"] netu wf(3) wf_buf_bound [OF wf(3)]
    by (auto simp: net_ok_pool length_contents elim!: returnsE)
  have v: "stays w [] v"
    using becomes_stays [OF u stays_net [OF pool_net_step [OF p(5)] netu]] by simp
  then have netv: "net_ok v" and loc: "LOCAL_IPV4 v = LOCAL_IPV4 w" "LOCAL_IPV6 v = LOCAL_IPV6 w"
    by (simp_all add: becomes_def)
  have short: "length (contents p) \<le> MAX_PAYLOAD"
    using p(3) assms(6) by simp
  obtain x where x: "tcp_send_packet s p (FLAG_ACK OR FLAG_PSH) v = Some x"
      "net_step v (nfrags p) [socket_frame v s (FLAG_ACK OR FLAG_PSH) (contents p)] x 0"
    using tcp_send_packet_returns [OF p(2,4) short netv wf(2) assms(5), of "FLAG_ACK OR FLAG_PSH"] by (auto elim!: returnsE)
  have x': "stays w [socket_frame v s (FLAG_ACK OR FLAG_PSH) (contents p)] x"
    using becomes_stays [OF v stays_net [OF x(2) netv]] by simp
  define y where "y = add_timer RETRANSMIT_INTERVAL (Retransmit r) x"
  have "set_timer RETRANSMIT_INTERVAL (Retransmit r) x = Some (fresh_id x, y)"
    using assms(7) x' unfolding y_def by (intro set_timer_adds) (simp add: becomes_def RETRANSMIT_INTERVAL_def)
  then have "retransmit r w = Some (put_socket r (s\<lparr>retransmit_timer_id := fresh_id x\<rparr>) y)"
    using assms(2-4) wf(3) p(1) x(1) by (simp add: retransmit_def Let_def is_empty_iff flip: u_def)
  moreover have "stays x [] y"
    unfolding y_def using x' by (intro stays_add_timer) (simp add: becomes_def)
  from becomes_put [OF becomes_stays [OF x' this]]
  have "becomes w [socket_frame v s (FLAG_ACK OR FLAG_PSH) (contents p)] (TCP_PORT_MAP w)
      ((tcp_sockets w)[r := s\<lparr>retransmit_timer_id := fresh_id x\<rparr>]) (put_socket r (s\<lparr>retransmit_timer_id := fresh_id x\<rparr>) y)"
    by simp
  ultimately show ?thesis
    using netv loc p(3) by auto
qed

text \<open>A segment that is not the next one is put aside.\<close>

lemma early_data_received:
  assumes "net_ok x" and "tcp_ok b" and "wf_ip (remote_ip s)" and "local_for b (remote_ip s) = remote_ip s"
    and "local_for x (remote_ip s) = src" and "TCP_PORT_MAP b (src, local_port s, remote_port s) = Some q"
    and "get_socket q b = Some t" and "state t = Established" and "num_delayed_acks t < MAX_DELAYED_ACKS"
    and "send_next_seq s \<noteq> next_sequence (reassembler t)" and "ack_of s = Some (send_unacked t)"
    and "c \<noteq> []" and "length c \<le> 1900" and "unat (clock_ms b) + 500 < 2 ^ 64"
    and "delivers readv (socket_frame x s (FLAG_ACK OR FLAG_PSH) c)"
  shows "returns (packet_receive readv iss b) (\<lambda>b'. tcp_ok b' \<and> state (tcp_sockets b' ! q) = Established \<and>
    next_sequence (reassembler (tcp_sockets b' ! q)) = next_sequence (reassembler t) \<and>
    receive_queue (tcp_sockets b' ! q) = receive_queue t)"
proof -
  define g where "g = socket_segment s (FLAG_ACK OR FLAG_PSH)"
  have g: "seg_source_port g = local_port s" "seg_dest_port g = remote_port s" "seg_seq g = send_next_seq s" "seg_ack g = send_unacked t"
      "\<not> has_flag (seg_flags g) FLAG_RST" "\<not> has_flag (seg_flags g) FLAG_FIN" "sent_mss (FLAG_ACK OR FLAG_PSH) = 0"
    using assms(11) by (simp_all add: g_def socket_segment_fields has_flag_def FLAG_SYN_def FLAG_ACK_def FLAG_RST_def FLAG_FIN_def
        FLAG_PSH_def sent_mss_def)
  obtain p u where run: "packet_receive readv iss b = tcp_dispatch iss src g 0 p u"
    and p: "wf_buf p" "contents p = c" and u: "received b (nfrags p) u"
    using socket_frame_delivered [OF assms(1,3,2,4,15,13), of iss] by (auto simp: g(7) g_def assms(5))
  have ok: "net_ok b" "socket_ok t" "q < length (tcp_sockets b)"
    using assms(2,7) by (auto simp: tcp_ok_def udp_ok_def get_socket_Some)
  note f = received_fields [OF u]
  have get: "get_socket q u = Some t"
    using assms(7) by (simp add: get_socket_def f)
  have src: "wf_ip src"
    using local_for_v4(2) [OF assms(1,3)] assms(5) by simp
  define ra where "ra = (reassembler t)\<lparr>out_of_order := out_of_order (reassembler t) @ [(seg_seq g, p)]\<rparr>"
  define t1 where "t1 = (disarmed t)\<lparr>receive_next_seq := wrapping_max (receive_next_seq t) (seg_seq g + of_nat (buf_length p)), reassembler := ra\<rparr>"
  have "receive_data g p (disarmed t) (stopped t u) = Some (t1, stopped t u)"
    using assms(10) by (simp add: receive_data_def add_packet_def g(3) t1_def ra_def)
  moreover have "state t1 = Established" "num_delayed_acks t1 = num_delayed_acks t" "same_socket t t1" "send_unacked t1 = send_unacked t"
    using assms(8) by (simp_all add: t1_def same_socket_def disarmed_def)
  ultimately have "returns (tcp_dispatch iss src g 0 p u) (\<lambda>w'. \<exists>t' frames. becomes u frames (TCP_PORT_MAP u) ((tcp_sockets u)[q := t']) w' \<and>
    state t' = Established \<and> reassembler t' = reassembler t1 \<and> receive_queue t' = receive_queue t1 \<and>
    num_delayed_acks t' < MAX_DELAYED_ACKS \<and> same_socket t t' \<and> send_unacked t' = send_unacked t)"
    using assms(6,8,9,12,14) g(4-6)
    by (intro segment_dispatched [OF received_ok(1) [OF u ok(1)] ok(2) _ p(1) _ _ get]) (simp_all add: f g(1,2) p(2))
  then obtain b' t' frames where b': "packet_receive readv iss b = Some b'" "becomes u frames (TCP_PORT_MAP u) ((tcp_sockets u)[q := t']) b'"
      "state t' = Established" "reassembler t' = ra" "receive_queue t' = receive_queue t"
    unfolding run by (auto simp: t1_def elim!: returnsE)
  have "tcp_ok b'"
    using b'(1) run dispatched_ok [OF _ u assms(2) p(1) src] by simp
  then show ?thesis
    using b' ok(3) by (simp add: becomes_def f ra_def)
qed

section \<open>An answer that does not come\<close>

lemma response_timer_set:
  assumes "net_ok w" and "unat (clock_ms w) + 3000 < 2 ^ 64"
  shows "returns (set_response_timer r s w) (\<lambda>(s', w'). (\<exists>i. s' = s\<lparr>response_timer_id := i\<rparr>) \<and> stays w [] w' \<and>
    (\<exists>t \<in> set (PENDING_TIMERS w'). absolute_timeout_ms t = clock_ms w + 3000 \<and> closure t = Some (Response_timeout r)))"
  using set_response_timer_stays [OF assms, of r s] set_response_timer_returns [OF assms(2), of r s]
  by (auto elim!: returnsE)

text \<open>What the closure of the response timer sends again.\<close>

definition repeated :: "TCPState \<Rightarrow> u8 option" where
  "repeated st = (if st = SynSent then Some FLAG_SYN else if st \<in> {FinWait1, LastAck} then Some FLAG_FIN
     else if st \<in> {Closing, CloseWait} then Some FLAG_ACK else None)"

definition repeats :: "nat \<Rightarrow> TCPSocketState \<Rightarrow> 'a tcp_world_scheme \<Rightarrow> 'a tcp_world_scheme \<Rightarrow> bool" where
  "repeats r s w w' \<longleftrightarrow>
     tun_out w' = tun_out w @ (case repeated (state s) of None \<Rightarrow> [] | Some fl \<Rightarrow> [socket_frame w s fl []]) \<and>
     (\<exists>i. tcp_sockets w' = (tcp_sockets w)[r := s\<lparr>response_timer_id := i\<rparr>]) \<and> TCP_PORT_MAP w' = TCP_PORT_MAP w \<and>
     (\<exists>t \<in> set (PENDING_TIMERS w'). absolute_timeout_ms t = clock_ms w + 3000 \<and> closure t = Some (Response_timeout r))"

lemma set_again:
  assumes "stays w xs v" and "unat (clock_ms w) + 3000 < 2 ^ 64"
    and "xs = (case repeated (state s) of None \<Rightarrow> [] | Some fl \<Rightarrow> [socket_frame w s fl []])"
  shows "returns (do { (s, w) \<leftarrow> set_response_timer r (s\<lparr>response_timer_id := i\<rparr>) v; Some (put_socket r s w) }) (repeats r s w)"
proof -
  have "net_ok v" "unat (clock_ms v) + 3000 < 2 ^ 64"
    using assms(1,2) by (simp_all add: becomes_def)
  then obtain j x where x: "set_response_timer r (s\<lparr>response_timer_id := i\<rparr>) v = Some (s\<lparr>response_timer_id := j\<rparr>, x)" "stays v [] x"
      "\<exists>t \<in> set (PENDING_TIMERS x). absolute_timeout_ms t = clock_ms v + 3000 \<and> closure t = Some (Response_timeout r)"
    using response_timer_set [of v r "s\<lparr>response_timer_id := i\<rparr>"] by (auto elim!: returnsE)
  then show ?thesis
    using assms(1,3) by (auto simp: repeats_def becomes_def put_socket_def)
qed

lemma response_timeout_repeats:
  assumes "net_ok w" and "get_socket r w = Some s" and "wf_ip (remote_ip s)" and "ack_of s \<noteq> None"
    and "unat (clock_ms w) + 3000 < 2 ^ 64" and "request_retry_count s < MAX_RETRIES" and "answerable (state s)"
  shows "returns (response_timeout r w) (repeats r s w)"
proof -
  have once: "returns (do { (s, w) \<leftarrow> set_response_timer r s w; Some (put_socket r s w) }) (repeats r s w)" if "repeated (state s) = None"
    using set_again [OF stays_refl [OF assms(1)] assms(5), of s r "response_timer_id s"] that by simp
  have twice: "returns (do {
      w \<leftarrow> tcp_send_packet s NetBuffer_new fl w;
      (s, w) \<leftarrow> set_response_timer r s w;
      (s, w) \<leftarrow> set_response_timer r s w;
      Some (put_socket r s w) }) (repeats r s w)" if fl: "repeated (state s) = Some fl" for fl
  proof -
    obtain v where v: "tcp_send_packet s NetBuffer_new fl w = Some v" "stays w [socket_frame w s fl []] v"
      using send_stays [OF assms(1,3,4)] by (blast elim: returnsE)
    then have "net_ok v" "unat (clock_ms v) + 3000 < 2 ^ 64"
      using assms(5) by (simp_all add: becomes_def)
    then obtain i x where x: "set_response_timer r s v = Some (s\<lparr>response_timer_id := i\<rparr>, x)" "stays v [] x"
      using response_timer_set [of v r s] by (auto elim!: returnsE)
    show ?thesis
      using set_again [OF becomes_stays [OF v(2) x(2)] assms(5), of s r i] fl v(1) x(1) by simp
  qed
  show ?thesis
    using assms(2,6,7) once twice by (auto simp: response_timeout_def answerable_def repeated_def)
qed

section \<open>Properties\<close>

text \<open>
  C37: The response timer never gives up. In every reachable state its closure, run for a socket that waits for
  an answer, sends the same request once more, changes nothing in the socket but the id of the timer, so that no
  retry is counted, and sets the timer again for three seconds later, however often it has run before. Where
  no answer is awaited (\<open>Closed\<close>, \<open>Established\<close>) it sends nothing but goes on as well; in the states \<open>Listen\<close>,
  \<open>SynReceived\<close>, \<open>FinWait2\<close> and \<open>TimeWait\<close> it panics. (The code compares a count of retries with
  \<open>MAX_RETRIES\<close>, but never increments it.) The acknowledgement number and the clock must not overflow.
\<close>

theorem response_timer_never_gives_up:
  assumes "reachable (c, ks, os, w)" and "get_socket r w = Some s" and "ack_of s \<noteq> None" and "unat (clock_ms w) + 3000 < 2 ^ 64"
  shows "if state s \<in> {Listen, SynReceived, FinWait2, TimeWait} then run_callback (Response_timeout r) w = None
    else returns (run_callback (Response_timeout r) w) (\<lambda>w'.
      tun_out w' = tun_out w @ (case repeated (state s) of None \<Rightarrow> [] | Some fl \<Rightarrow> [socket_frame w s fl []]) \<and>
      (\<exists>i. tcp_sockets w' = (tcp_sockets w)[r := s\<lparr>response_timer_id := i\<rparr>]) \<and> TCP_PORT_MAP w' = TCP_PORT_MAP w \<and>
      (\<exists>t \<in> set (PENDING_TIMERS w'). absolute_timeout_ms t = clock_ms w + 3000 \<and> closure t = Some (Response_timeout r)))"
proof -
  have ok: "net_ok w" "wf_ip (remote_ip s)"
    using reachable_ok [OF assms(1)] assms(2) by (auto simp: sys_ok_def tcp_ok_def udp_ok_def get_socket_Some socket_ok_def)
  have "\<forall>v \<in> set (views w). snd v = 0"
    using reachable_diagram_ok [OF assms(1)] by (simp add: diagram_ok_def)
  then have few: "request_retry_count s < MAX_RETRIES"
    using assms(2) by (auto simp: views_def get_socket_Some MAX_RETRIES_def)
  have "answerable (state s) \<longleftrightarrow> state s \<notin> {Listen, SynReceived, FinWait2, TimeWait}"
    by (cases "state s") (simp_all add: answerable_def)
  then show ?thesis
    using response_timeout_panics [OF assms(2) few] response_timeout_repeats [OF ok(1) assms(2) ok(2) assms(3,4) few]
    unfolding repeats_def by simp
qed

text \<open>A connection that is being opened: a SYN has been sent, and the peer does not answer.\<close>

lemma opening_reachable:
  "\<exists>w s. reachable (None, [], [], w) \<and> get_socket 0 w = Some s \<and> state s = SynSent \<and> ack_of s \<noteq> None \<and> clock_ms w = 1000"
proof -
  define b where "b = boot_world (\<lambda>sent vecs. int (length (concat vecs))) 1000"
  obtain w where init: "init_netstack b = Some w" and w: "TCP_PORT_MAP w = Map.empty" "tcp_sockets w = []" "clock_ms w = 1000"
    by (simp add: b_def boot_world_def init_netstack_def netif_init_def new_from_def new_v4_def new_v6_def)
  have up: "link_up b"
    by (simp add: b_def boot_world_def link_up_def)
  have start: "reachable (None, [], [], w)"
    by (rule reachable.boot_step [OF up [unfolded b_def] init [unfolded b_def]])
  define dest where "dest = V4 [10, 0, 0, 1]"
  have dest: "wf_ip dest"
    by (simp add: dest_def)
  obtain p where "find_ephemeral_port [7] dest 80 w = Some p"
    by (simp add: w(1) checked_add_def EPHEMERAL_PORT_BASE_def)
  then obtain v i where v: "tcp_open [7] 5 dest 80 w = Some (0, v)"
      "becomes w [socket_frame w (opening_socket 5 dest 80 p) FLAG_SYN []] ((TCP_PORT_MAP w)((dest, 80, p) \<mapsto> 0))
        (tcp_sockets w @ [(opening_socket 5 dest 80 p)\<lparr>response_timer_id := i\<rparr>]) v"
    using tcp_open_returns [of w dest "[7]" 80 p 5] reachable_ok [OF start] dest w(2,3)
    by (auto simp: sys_ok_def tcp_ok_def udp_ok_def elim!: returnsE)
  then obtain u where u: "tcp_open_insert [7] 5 dest 80 w = Some (0, u)" "tcp_open_connect 0 u = Some v"
    by (auto simp: tcp_open_def bind_eq_Some_conv)
  have "reachable (None, [], [0], u)"
    by (rule reachable.step_step [OF start stack_step.open_insert_step [OF dest u(1)]])
  then have "reachable (None, [], [], v)"
    using reachable.step_step stack_step.open_connect_step [OF u(2), of None "[]" "[]" "[]"] by fastforce
  moreover have "get_socket 0 v = Some ((opening_socket 5 dest 80 p)\<lparr>response_timer_id := i\<rparr>)" "clock_ms v = 1000"
    using v(2) w(2,3) by (simp_all add: becomes_def get_socket_Some)
  ultimately show ?thesis
    by (fastforce simp: opening_socket_def set_state_def TCPSocketState_new_def ack_of_cases)
qed

theorem response_timer_never_gives_up_witness:
  "\<exists>w w' s. reachable (None, [], [], w) \<and> get_socket 0 w = Some s \<and> state s = SynSent \<and>
     run_callback (Response_timeout 0) w = Some w' \<and> tun_out w' = tun_out w @ [socket_frame w s FLAG_SYN []]"
proof -
  obtain w s where w: "reachable (None, [], [], w)" "get_socket 0 w = Some s" "state s = SynSent" "ack_of s \<noteq> None" "clock_ms w = 1000"
    using opening_reachable by blast
  with response_timer_never_gives_up [OF w(1,2,4)] show ?thesis
    by (fastforce simp: repeated_def elim!: returnsE)
qed

text \<open>
  C36: The retransmission timer corrupts or stalls the stream. It sends the first octets of the
  retransmission queue again, but with the number of the next new octet. A receiver that has all the data and
  whose acknowledgement is late takes them for new ones and delivers them a second time; a receiver that
  has lost some of the data puts them aside as early, delivers nothing and still expects the octet
  that was lost, so that no later round of the timer does better.
\<close>

theorem retransmission_misnumbered:
  fixes a :: "'a tcp_world_scheme" and b :: "'b tcp_world_scheme"
  assumes "tcp_ok a" and "tcp_ok b" and "get_socket r a = Some s" and "get_socket q b = Some t"
    and "local_for b (remote_ip s) = remote_ip s"
    and "TCP_PORT_MAP b (local_for a (remote_ip s), local_port s, remote_port s) = Some q"
    and "state s = Established" and "state t = Established" and "num_delayed_acks t < MAX_DELAYED_ACKS"
    and "contents (retransmit_queue s) \<noteq> []" and "out_of_order (reassembler t) = []" and "send_unacked t = next_sequence (reassembler s)"
    and "0 < send_mss s" and "send_mss s \<le> 1900" and "length (contents (receive_queue t)) \<le> 2 ^ 32"
    and "unat (clock_ms a) + 1000 < 2 ^ 64" and "unat (clock_ms b) + 500 < 2 ^ 64"
  shows "returns (run_callback (Retransmit r) a) (\<lambda>a'. \<exists>frame. tun_out a' = tun_out a @ [frame] \<and>
    retransmit_queue (tcp_sockets a' ! r) = retransmit_queue s \<and>
    (\<forall>readv iss. delivers readv frame \<longrightarrow> returns (packet_receive readv iss b) (\<lambda>b'. tcp_ok b' \<and>
      (if next_sequence (reassembler t) = send_next_seq s
       then contents (receive_queue (tcp_sockets b' ! q)) = contents (receive_queue t) @ take (send_mss s) (contents (retransmit_queue s))
       else receive_queue (tcp_sockets b' ! q) = receive_queue t \<and>
         next_sequence (reassembler (tcp_sockets b' ! q)) = next_sequence (reassembler t)))))"
proof -
  have live: "r < length (tcp_sockets a)" "q < length (tcp_sockets b)" and wf: "wf_ip (remote_ip s)"
    using assms(1,3,4) by (auto simp: tcp_ok_def get_socket_Some socket_ok_def)
  define c where "c = take (send_mss s) (contents (retransmit_queue s))"
  have c: "c \<noteq> []" "length c \<le> 1900"
    using assms(10,13,14) by (simp_all add: c_def)
  have ack: "ack_of s = Some (send_unacked t)"
    using assms(7,12) by (simp add: ack_of_cases get_next_expect_def)
  obtain a' i x where a': "retransmit r a = Some a'" "net_ok (x :: 'a tcp_world_scheme)" "LOCAL_IPV4 x = LOCAL_IPV4 a" "LOCAL_IPV6 x = LOCAL_IPV6 a"
      "becomes a [socket_frame x s (FLAG_ACK OR FLAG_PSH) c] (TCP_PORT_MAP a) ((tcp_sockets a)[r := s\<lparr>retransmit_timer_id := i\<rparr>]) a'"
    using retransmit_returns [OF assms(1,3) _ assms(10) _ _ assms(16)] ack assms(7,14)
    unfolding c_def by (auto simp: MAX_PAYLOAD_eq elim!: returnsE)
  have src: "local_for x (remote_ip s) = local_for a (remote_ip s)"
    by (rule local_for_cong [OF a'(3,4) refl])
  have got: "returns (packet_receive readv iss b) (\<lambda>b'. tcp_ok b' \<and>
      (if next_sequence (reassembler t) = send_next_seq s
       then contents (receive_queue (tcp_sockets b' ! q)) = contents (receive_queue t) @ c
       else receive_queue (tcp_sockets b' ! q) = receive_queue t \<and>
         next_sequence (reassembler (tcp_sockets b' ! q)) = next_sequence (reassembler t)))"
    if del: "delivers readv (socket_frame x s (FLAG_ACK OR FLAG_PSH) c)" for readv iss
  proof (cases "next_sequence (reassembler t) = send_next_seq s")
    case True
    then have "receiving t (send_next_seq s) (contents (receive_queue t))"
      using assms(8,9,11) by (simp add: receiving_def)
    moreover have "length (contents (receive_queue t)) + length c \<le> USIZE_MAX"
      using assms(15) c(2) by (simp add: USIZE_MAX_def)
    ultimately show ?thesis
      using data_received [OF a'(2) assms(2) wf assms(5) src assms(6,4) _ ack c(1,2) _ assms(17) del, of _ iss] True live(2)
      by (auto simp: becomes_def receiving_def elim!: returns_conseq)
  next
    case False
    then show ?thesis
      by (intro returns_conseq [OF early_data_received [OF a'(2) assms(2) wf assms(5) src assms(6,4,8,9) _ ack c assms(17) del]]) auto
  qed
  have "tun_out a' = tun_out a @ [socket_frame x s (FLAG_ACK OR FLAG_PSH) c]" "retransmit_queue (tcp_sockets a' ! r) = retransmit_queue s"
    using a'(5) live(1) by (simp_all add: becomes_def)
  then show ?thesis
    unfolding run_callback.simps a'(1) returns_Some c_def [symmetric] using got by blast
qed

text \<open>The acknowledgement of two octets is late: the receiver delivers them twice.\<close>

definition unacknowledged_end :: tcp_world where
  "unacknowledged_end = active_end\<lparr>tcp_sockets := map (\<lambda>s. s\<lparr>send_next_seq := 103, retransmit_queue := small_buffer [7, 8]\<rparr>) (tcp_sockets active_end)\<rparr>"

definition unread_end :: tcp_world where
  "unread_end = passive_end\<lparr>tcp_sockets := map (\<lambda>s. s\<lparr>reassembler := \<lparr>next_sequence = 103, out_of_order = []\<rparr>, receive_next_seq := 103,
     receive_queue := small_buffer [7, 8]\<rparr>) (tcp_sockets passive_end)\<rparr>"

theorem retransmission_misnumbered_witness:
  "\<exists>a' frame b'. run_callback (Retransmit 0) unacknowledged_end = Some a' \<and> tun_out a' = [frame] \<and>
    packet_receive (scatter frame) 0 unread_end = Some b' \<and> contents (receive_queue (tcp_sockets b' ! 0)) = [7, 8, 7, 8]"
proof -
  define s where "s = (client_done 100 200 (V4 [10, 0, 0, 9]) (V4 [10, 0, 0, 2]) 80 49159)\<lparr>send_mss := 2, send_next_seq := 103,
    retransmit_queue := small_buffer [7, 8]\<rparr>"
  define t where "t = (server_done 100 200 (V4 [10, 0, 0, 9]) (V4 [10, 0, 0, 2]) 80 49159)\<lparr>
    reassembler := \<lparr>next_sequence = 103, out_of_order = []\<rparr>, receive_next_seq := 103, receive_queue := small_buffer [7, 8]\<rparr>"
  have buf: "wf_buf (small_buffer [7, 8])" "contents (small_buffer [7, 8]) = [7, 8]"
    using small_buffer_wf [of "[7, 8]"] by (simp_all add: FRAGMENT_SIZE_def)
  have ok: "tcp_ok unacknowledged_end" "tcp_ok unread_end"
    using ends_ok buf(1)
    by (auto simp: tcp_ok_def udp_ok_def net_ok_def pool_ok_def link_up_def unacknowledged_end_def unread_end_def socket_ok_def socket_key_def)
  have s: "remote_ip s = V4 [10, 0, 0, 2]" "local_port s = 49159" "remote_port s = 80" "state s = Established" "send_next_seq s = 103"
      "send_mss s = 2" "contents (retransmit_queue s) = [7, 8]" "next_sequence (reassembler s) = 201"
    by (simp_all add: s_def client_done_eq TCPSocketState_new_def buf)
  have t: "state t = Established" "reassembler t = \<lparr>next_sequence = 103, out_of_order = []\<rparr>" "send_unacked t = 201"
      "contents (receive_queue t) = [7, 8]" "num_delayed_acks t < MAX_DELAYED_ACKS"
    using server_done_eq [of 100 200 "V4 [10, 0, 0, 9]" "V4 [10, 0, 0, 2]" 80 49159] buf(2)
    by (auto simp: t_def TCPSocketState_new_def MAX_DELAYED_ACKS_def)
  have w: "get_socket 0 unacknowledged_end = Some s" "get_socket 0 unread_end = Some t" "clock_ms unacknowledged_end = 1000" "clock_ms unread_end = 1000"
      "TCP_PORT_MAP unread_end (V4 [10, 0, 0, 9], 49159, 80) = Some 0" "local_for unacknowledged_end (V4 [10, 0, 0, 2]) = V4 [10, 0, 0, 9]"
      "local_for unread_end (V4 [10, 0, 0, 2]) = V4 [10, 0, 0, 2]" "tun_out unacknowledged_end = []"
    by (simp_all add: unacknowledged_end_def unread_end_def active_end_def passive_end_def s_def t_def get_socket_def client_world_def
        listening_world_fields local_for_def)
  from retransmission_misnumbered [OF ok w(1,2)] show ?thesis
    using delivers_scatter by (simp add: s t w) (elim returnsE exE conjE, fastforce elim!: returnsE)
qed

end
