(* ===== verification/Spec2Isabelle.thy ===== *)
theory Spec2Isabelle
  imports Programs Unit_Tests Timer_Tests Tcp_Close Tcp_Loss
begin

text \<open>
  A verification of RustNetworkStack, a TCP/IP stack that runs in a user process on top of a TUN device.

  \<^bold>\<open>The program.\<close>  A receive thread (\<open>lib.rs\<close>) reads frames from the device (\<open>netif.rs\<close>) into network buffers
  (\<open>buf.rs\<close>) and hands them to \<open>ip_input\<close> (\<open>ip.rs\<close>), which strips the IP header and calls \<open>icmp.rs\<close>,
  \<open>udp.rs\<close> or \<open>tcp.rs\<close>. These answer through \<open>ip_output\<close> and \<open>netif::send_packet\<close>. A timer thread
  (\<open>timer.rs\<close>) runs closures that TCP has set. The threads of an application call \<open>udp_*\<close> and \<open>tcp_*\<close>;
  they and the two threads share the sockets, the port maps, the list of timers and the pool of buffer
  fragments, each under its lock. \<open>util.rs\<close> holds what all of them use: addresses, byte order, checksums,
  sequence numbers and counters. The programs of \<open>src/src/test_apps\<close> are four clients of the API.

  \<^bold>\<open>How code is rendered.\<close>  A function of the sources is a definition of the same name in the option monad:
  \<^term>\<open>None\<close> is a panic, the end of the process, or a loop that does not end. \<open>returns m P\<close> says that \<open>m\<close> ends
  without a panic in a state with \<open>P\<close> (total correctness); \<open>whenever m P\<close> says it only for the case that \<open>m\<close>
  ends, and is used where the environment is free to make the code panic. \<open>u8\<close>, \<open>u16\<close>, \<open>u32\<close> and \<open>u64\<close>
  are words; \<open>usize\<close> is a natural number checked against \<open>USIZE_MAX\<close>. The program is built in the
  development profile, so that \<open>+\<close>, \<open>-\<close> and \<open>*\<close> panic on overflow (\<open>checked_add\<close>, \<open>usize_add\<close>,
  \<open>usize_sub\<close>) and only the \<open>wrapping_\<close> operations wrap. The global state is one record that grows with the
  layers: \<open>buf_world\<close> (pool, counters), \<open>net_world\<close> (device, local addresses), \<open>udp_world\<close>,
  \<open>timer_world\<close> and \<open>tcp_world\<close>. An operation is polymorphic in what the layers above add. Chains of \<open>next\<close>
  pointers are lists, an \<open>Arc\<close> of a socket is its index in the list of all sockets, closures are the
  constructors of \<open>callback\<close>, and a destructor is a call of \<open>drop_buffer\<close> where the owner goes out of scope. A
  critical section is one definition; a function that waits on a condition variable returns \<open>Blocked\<close>.
\<close>

text \<open>
  \<^bold>\<open>Theories and sources.\<close>

  \<^item> \<open>Prelude\<close>: words, slices, the option monad and the rules for \<open>returns\<close> and \<open>whenever\<close>.
  \<^item> \<open>Util\<close>, \<open>Checksum\<close>, \<open>Printing\<close> (\<open>util.rs\<close>): addresses; the one's complement sum, equal to that of
    RFC 1071; big-endian fields; sequence numbers, whose comparisons are those of stream positions within half
    of the number space; counters; sums over fragmented buffers; the text of addresses, sockets, packets and
    counters.
  \<^item> \<open>Buf\<close> (\<open>buf.rs\<close>) models the module, \<open>Buf_Laws\<close> and \<open>Buf_Access\<close> give every operation its contract over
    \<open>contents\<close>, the octets a buffer stands for, the invariant \<open>wf_buf\<close> and the account of fragments
    \<open>pool_step\<close>; \<open>Buf_Rules\<close> is a calculus for programs that own buffers.
  \<^item> \<open>Netif\<close> (\<open>netif.rs\<close>), \<open>Ip_Output\<close> (the sending half of \<open>ip.rs\<close>), \<open>Transport\<close> (pseudo headers, and the
    locale \<open>datagram_service\<close>: what a transport protocol may expect of the IP layer, interpreted on
    \<open>ip_output\<close>), \<open>Icmp\<close> (\<open>icmp.rs\<close>).
  \<^item> \<open>Udp\<close> (\<open>udp.rs\<close>); a socket is interpreted as the locale \<open>mailbox\<close>.
  \<^item> \<open>Timer\<close> (\<open>timer.rs\<close>); the locale \<open>timer_client\<close> states what closures must keep for a round of the timer
    thread to be the run of exactly the due closures, in their order, and to end. \<open>Tcp_Timers\<close> interprets it on the closures of TCP,
    \<open>Timer_Tests\<close> on those of the unit tests.
  \<^item> \<open>Reassembler\<close>, \<open>Tcp_State\<close>, \<open>Tcp_Output\<close>, \<open>Tcp_Socket\<close> (API and closures) and \<open>Tcp_Input\<close> (\<open>tcp.rs\<close>).
  \<^item> \<open>Stack\<close> (\<open>ip_input\<close> of \<open>ip.rs\<close>, and \<open>lib.rs\<close>): a round of each thread, and the start.
  \<^item> \<open>Programs\<close> (\<open>src/src/test_apps\<close>): each program as a state machine that makes one call of the API per step.
  \<^item> \<open>Buf_Tests\<close>, \<open>Tcp_Tests\<close>, \<open>Util_Tests\<close>, \<open>Timer_Tests\<close>, \<open>Unit_Tests\<close>: the unit tests of the crate, run on
    the model; they pass from every state of the pool.
\<close>

text \<open>
  \<^bold>\<open>What is proved of the whole.\<close>

  \<^item> \<open>Tcp_Laws\<close>, \<open>Tcp_Invariant\<close>, \<open>Stack_Invariant\<close>: \<open>stack_step\<close> interleaves the threads and the calls of
    applications wherever they release a lock, \<open>reachable\<close> is what they can reach from the start. In every
    reachable state ports, sockets, buffers and timers are well formed, and every fragment taken from the pool
    is in the queue of a socket or free.
  \<^item> \<open>Tcp_Diagram\<close>: the stack refines the TCP state diagram. A step moves at most one socket, along an arc
    whose trigger is the call, the segment or the timer.
  \<^item> \<open>Receive\<close>, \<open>Tcp_Segment\<close>: what one stack sends, another one on the same link decodes, for UDP datagrams and
    TCP segments, whatever vectors \<open>readv\<close> scatters the frame over (\<open>delivers\<close>). \<open>recv_packet\<close> offers 2048
    octets: of a longer frame the rest is lost, and the front of a long UDP datagram is delivered as if it
    were all of it.
  \<^item> \<open>Tcp_Handshake\<close>, \<open>Tcp_Transfer\<close>, \<open>Tcp_Close\<close>: the life of a connection between two stacks. Three segments
    open it, what is written on one end is read on the other, in order and complete, both sides close with
    one FIN each, and a forgotten connection is found out by a RST; a SYN that meets a listener half closed
    panics the receive thread.
  \<^item> \<open>Tcp_Loss\<close>, \<open>Tcp_Timers\<close>, \<open>Tcp_Options\<close>: where the code goes wrong. The retransmission timer numbers its
    segment wrongly, the response timer repeats a request for ever, a FIN in FinWait2 leaves a timer that kills
    the timer thread, and exactly the option lists with a missing or zero length octet or a cut-off maximum
    segment size in the way stop the receive thread. \<open>Reassembler\<close> shows that segments in any order,
    repeated, overlapping or missing never corrupt the stream that is passed on.
  \<^item> \<open>Programs\<close>: every program is one of the clients that \<open>reachable\<close> allows (\<open>runs_reachable\<close>), so that the
    invariants hold in all its runs. The echo server, in any interleaving with the stack, answers all
    datagrams it takes, once and in order; the web server sends its page.

  \<^bold>\<open>Bounds and loops.\<close>  No definition uses fuel. Loops are structural recursion, recursion with a measure, or
  \<open>partial_function (option)\<close> where the code may not end (\<open>options_loop\<close>, \<open>tcp_write_loop\<close>); that they end is a
  theorem with its conditions, or its failure is one. The scan of the timer thread ends because a closure
  only adds timers that are not due. Theorems on two stacks assume a clock that is not about to overflow its 64
  bits (timeouts are added to it with \<open>+\<close>), a body of at most 1900 octets in one segment, so that it fits into
  the eight vectors of \<open>to_iovec\<close> and into the receiver's buffer, and a maximum segment size that is not 0.
  UDP payloads have no bound but the 3584 octets beyond which \<open>udp_send\<close> panics.

  \<^bold>\<open>Parameters.\<close>  \<open>tun.c\<close> is C code around \<open>writev\<close> and \<open>readv\<close>: the field \<open>tun_writev\<close> of the world and the
  argument \<open>readv\<close> stand for them, with \<open>link_up\<close> (the device takes every frame of at least one octet) and
  \<open>delivers\<close> (a read fills the vectors from the front with one frame) as the documented behaviour that is used.
  Random numbers (ports, initial sequence numbers) and arguments of a program are arguments; the clock is a field
  that only the environment advances.

  \<^bold>\<open>Not modelled.\<close>  What \<open>println!\<close> writes inside the stack, except the functions that format it; the
  deallocation of sockets (an \<open>Arc\<close> in the port map is never the last one, and a freed socket would only return
  its fragments); the destructor of \<open>BufferFragment\<close>, which panics when a fragment is dropped outside the pool:
  fragments are only dropped by \<open>drop_buffer\<close>; the creation of the threads, whose loops are the steps of
  \<open>stack_step\<close>; interleaving finer than critical sections (\<open>tcp_input\<close> holds the lock of the port map to its
  end, and what other threads do to a socket before it gets that lock too does not touch the port map, so that
  it is one step); pauses and the key press of the programs;
  benchmarks, the build script and the Python script, which are no part of the stack.
\<close>

end
